(* ===== verification/Prelude.thy ===== *)
theory Prelude
  imports Complex_Main "HOL-Library.AList" "HOL-Library.Sublist"
begin

text \<open>
  Shared vocabulary of the development: the part of Python's string, number and dictionary
  operations that the sources use, the collections of rewrite rules the component proofs
  draw on, and generic lemmas on association lists.

  A Python \<open>str\<close> is a \<^typ>\<open>string\<close> whose characters are read as the code points 0 to 255
  (Latin-1). Message literals of the sources that hold other characters (accents, the warning
  sign, dashes) are transliterated to ASCII; no decision of the program depends on them. Where
  a decision does depend on a character, as for the section sign of the server list text, the
  character is kept (\<open>CHR 0xA7\<close>).
\<close>

named_theorems prog_simps "unfolding rules of the effect combinators"
named_theorems wp_rules "weakest-precondition equations"
named_theorems frame_rules "operations that leave a part of the state alone"

subsection \<open>Strings\<close>

abbreviation code :: "char \<Rightarrow> nat" where
  "code c \<equiv> of_char c"

definition newline :: string where
  "newline = [CHR 0x0A]"

text \<open>The white space of \<open>str.split()\<close>, \<open>str.strip()\<close> and \<open>int()\<close> below code point 256.\<close>

definition is_space :: "char \<Rightarrow> bool" where
  "is_space c \<longleftrightarrow>
     (9 \<le> code c \<and> code c \<le> 13) \<or> (28 \<le> code c \<and> code c \<le> 32) \<or> code c = 133 \<or> code c = 160"

definition lstrip :: "string \<Rightarrow> string" where
  "lstrip s = dropWhile is_space s"

definition strip :: "string \<Rightarrow> string" where
  "strip s = rev (lstrip (rev (lstrip s)))"

fun split_ws_aux :: "string \<Rightarrow> string \<Rightarrow> string list" where
  "split_ws_aux acc [] = (if acc = [] then [] else [rev acc])"
| "split_ws_aux acc (c # cs) =
     (if is_space c then (if acc = [] then split_ws_aux [] cs else rev acc # split_ws_aux [] cs)
      else split_ws_aux (c # acc) cs)"

text \<open>\<open>s.split()\<close>: the maximal runs of characters that are not white space.\<close>

definition split_ws :: "string \<Rightarrow> string list" where
  "split_ws s = split_ws_aux [] s"

fun join :: "string \<Rightarrow> string list \<Rightarrow> string" where
  "join sep [] = []"
| "join sep [x] = x"
| "join sep (x # y # zs) = x @ sep @ join sep (y # zs)"

text \<open>\<open>s.split(c)\<close> for a one-character separator: never empty, keeps empty pieces.\<close>

fun split_on :: "char \<Rightarrow> string \<Rightarrow> string list" where
  "split_on d [] = [[]]"
| "split_on d (c # cs) =
     (if c = d then [] # split_on d cs
      else (case split_on d cs of [] \<Rightarrow> [[c]] | w # ws \<Rightarrow> (c # w) # ws))"

definition startswith :: "string \<Rightarrow> string \<Rightarrow> bool" where
  "startswith s p \<longleftrightarrow> take (length p) s = p"

definition endswith :: "string \<Rightarrow> string \<Rightarrow> bool" where
  "endswith s p \<longleftrightarrow> length p \<le> length s \<and> drop (length s - length p) s = p"

definition lower_char :: "char \<Rightarrow> char" where
  "lower_char c =
     (if (65 \<le> code c \<and> code c \<le> 90) \<or> (192 \<le> code c \<and> code c \<le> 222 \<and> code c \<noteq> 215)
      then char_of (code c + 32) else c)"

definition lower :: "string \<Rightarrow> string" where
  "lower s = map lower_char s"

definition is_dec :: "char \<Rightarrow> bool" where
  "is_dec c \<longleftrightarrow> 48 \<le> code c \<and> code c \<le> 57"

text \<open>
  \<open>str.isdigit()\<close> is also true of the superscript digits 1, 2 and 3, which \<open>int()\<close> refuses.
\<close>

definition is_digit_char :: "char \<Rightarrow> bool" where
  "is_digit_char c \<longleftrightarrow> is_dec c \<or> code c = 178 \<or> code c = 179 \<or> code c = 185"

definition isdigit :: "string \<Rightarrow> bool" where
  "isdigit s \<longleftrightarrow> s \<noteq> [] \<and> list_all is_digit_char s"

definition is_word_char :: "char \<Rightarrow> bool" where
  "is_word_char c \<longleftrightarrow>
     (65 \<le> code c \<and> code c \<le> 90) \<or> (97 \<le> code c \<and> code c \<le> 122) \<or> is_dec c \<or> code c = 95"

subsection \<open>Numbers and their decimal text\<close>

fun digits_of :: "nat \<Rightarrow> string" where
  "digits_of n = (if n < 10 then [char_of (48 + n)] else digits_of (n div 10) @ [char_of (48 + n mod 10)])"

declare digits_of.simps [simp del]

definition str_int :: "int \<Rightarrow> string" where
  "str_int i = (if i < 0 then ''-'' @ digits_of (nat (- i)) else digits_of (nat i))"

definition str_nat :: "nat \<Rightarrow> string" where
  "str_nat n = digits_of n"

text \<open>Zero padding on the left, as in \<open>zfill\<close> and \<open>{:02d}\<close> of a number that is not negative.\<close>

definition zfill :: "nat \<Rightarrow> string \<Rightarrow> string" where
  "zfill w s = replicate (w - length s) (CHR ''0'') @ s"

definition dec_value :: "string \<Rightarrow> nat" where
  "dec_value s = foldl (\<lambda>a c. 10 * a + (code c - 48)) 0 s"

text \<open>
  \<open>int(text)\<close>: surrounding white space, an optional sign, then decimal digits in which single
  underscores may separate digits. \<open>None\<close> is \<open>ValueError\<close>.
\<close>

fun int_digits :: "bool \<Rightarrow> nat \<Rightarrow> string \<Rightarrow> nat option" where
  "int_digits ok acc [] = (if ok then Some acc else None)"
| "int_digits ok acc (c # cs) =
     (if is_dec c then int_digits True (10 * acc + (code c - 48)) cs
      else if c = CHR ''_'' \<and> ok then int_digits False acc cs
      else None)"

definition parse_int :: "string \<Rightarrow> int option" where
  "parse_int text = (case strip text of
       [] \<Rightarrow> None
     | c # cs \<Rightarrow>
         if c = CHR ''-'' then map_option (\<lambda>n. - int n) (int_digits False 0 cs)
         else if c = CHR ''+'' then map_option int (int_digits False 0 cs)
         else map_option int (int_digits False 0 (c # cs)))"

text \<open>Rounding of a fraction to the nearest integer, halves to even, as \<open>timedelta\<close> does.\<close>

definition round_half_even :: "rat \<Rightarrow> int" where
  "round_half_even x =
     (let f = floor x; d = x - of_int f
      in if d < 1/2 then f else if d > 1/2 then f + 1 else if even f then f else f + 1)"

subsection \<open>Lemmas on strings\<close>

lemma lstrip_Nil [simp]: "lstrip [] = []"
  by (simp add: lstrip_def)

lemma length_lstrip: "length (lstrip s) \<le> length s"
  by (simp add: lstrip_def length_dropWhile_le)

lemma length_strip: "length (strip s) \<le> length s"
  unfolding strip_def by (metis length_lstrip length_rev order_trans)

lemma startswith_iff: "startswith s p \<longleftrightarrow> (\<exists>r. s = p @ r)"
  unfolding startswith_def by (metis append_eq_conv_conj append_take_drop_id)

lemma startswith_append [simp]: "startswith (p @ r) p"
  by (auto simp: startswith_iff)

lemma endswith_append [simp]: "endswith (r @ p) p"
  by (simp add: endswith_def)

lemma split_on_nonempty [simp]: "split_on d s \<noteq> []"
  by (induction s) (auto split: list.splits)

lemma split_on_no_sep: "d \<notin> set s \<Longrightarrow> split_on d s = [s]"
  by (induction s) auto

lemma split_on_pieces: "w \<in> set (split_on d s) \<Longrightarrow> d \<notin> set w"
proof (induction s arbitrary: w)
  case Nil
  then show ?case by simp
next
  case (Cons c s)
  then show ?case by (cases "split_on d s") (auto split: if_splits)
qed

lemma join_split_on: "join [d] (split_on d s) = s"
proof (induction s)
  case Nil
  then show ?case by simp
next
  case (Cons c s)
  obtain w ws where ws: "split_on d s = w # ws" by (cases "split_on d s") auto
  with Cons.IH show ?case by (cases ws) auto
qed

lemma split_on_append_sep: "d \<notin> set w \<Longrightarrow> split_on d (w @ d # r) = w # split_on d r"
  by (induction w) auto

lemma split_on_join: "ws \<noteq> [] \<Longrightarrow> (\<And>w. w \<in> set ws \<Longrightarrow> d \<notin> set w) \<Longrightarrow> split_on d (join [d] ws) = ws"
  by (induction "[d]" ws rule: join.induct) (auto simp: split_on_no_sep split_on_append_sep)

lemma join_eq_Nil: "(\<And>w. w \<in> set ws \<Longrightarrow> w \<noteq> []) \<Longrightarrow> join sep ws = [] \<longleftrightarrow> ws = []"
  by (induction sep ws rule: join.induct) auto

lemma split_ws_aux_clean:
  "list_all (\<lambda>c. \<not> is_space c) acc \<Longrightarrow> w \<in> set (split_ws_aux acc s) \<Longrightarrow>
   w \<noteq> [] \<and> list_all (\<lambda>c. \<not> is_space c) w"
proof (induction s arbitrary: acc)
  case Nil
  then show ?case by (auto split: if_splits)
next
  case (Cons c s)
  show ?case
  proof (cases "is_space c")
    case True
    have "w \<in> set (split_ws_aux [] s) \<Longrightarrow> ?thesis"
      using Cons.IH [of "[]"] by simp
    with True Cons.prems show ?thesis by (cases "acc = []") auto
  next
    case False
    with Cons.prems Cons.IH [of "c # acc"] show ?thesis by simp
  qed
qed

lemma split_ws_clean:
  "w \<in> set (split_ws s) \<Longrightarrow> w \<noteq> [] \<and> list_all (\<lambda>c. \<not> is_space c) w"
  unfolding split_ws_def by (rule split_ws_aux_clean) simp_all

lemma set_join: "set (join sep ws) \<subseteq> set sep \<union> \<Union> (set ` set ws)"
  by (induction sep ws rule: join.induct) auto

lemma code_lower_char:
  "code (lower_char c) =
     (if (65 \<le> code c \<and> code c \<le> 90) \<or> (192 \<le> code c \<and> code c \<le> 222 \<and> code c \<noteq> 215)
      then code c + 32 else code c)"
  unfolding lower_char_def by (simp only: of_char_of split: if_split) auto

lemma lower_idem_char: "lower_char (lower_char c) = lower_char c"
proof -
  have "\<not> ((65 \<le> code (lower_char c) \<and> code (lower_char c) \<le> 90) \<or>
      (192 \<le> code (lower_char c) \<and> code (lower_char c) \<le> 222 \<and> code (lower_char c) \<noteq> 215))"
    unfolding code_lower_char by (simp split: if_split)
  then show ?thesis
    by (subst (1) lower_char_def) (simp only: if_False)
qed

lemma lower_idem [simp]: "lower (lower s) = lower s"
  by (simp add: lower_def lower_idem_char)

subsection \<open>Association lists as Python dictionaries\<close>

text \<open>
  A dictionary is an association list in insertion order. \<open>d[k] = v\<close> is \<^const>\<open>AList.update\<close>
  (an existing key keeps its place), \<open>del d[k]\<close> and \<open>d.pop(k, None)\<close> are \<^const>\<open>AList.delete\<close>,
  \<open>d.get(k)\<close> is \<^const>\<open>map_of\<close>. \<open>put_opt\<close> writes or removes an entry.
\<close>

definition put_opt :: "'k \<Rightarrow> 'v option \<Rightarrow> ('k \<times> 'v) list \<Rightarrow> ('k \<times> 'v) list" where
  "put_opt k v d = (case v of None \<Rightarrow> AList.delete k d | Some x \<Rightarrow> AList.update k x d)"

abbreviation keys :: "('k \<times> 'v) list \<Rightarrow> 'k list" where
  "keys d \<equiv> map fst d"

lemma map_of_put_opt [simp]: "map_of (put_opt k v d) = (map_of d)(k := v)"
  by (cases v) (auto simp: put_opt_def update_conv' delete_conv')

lemma distinct_put_opt: "distinct (keys d) \<Longrightarrow> distinct (keys (put_opt k v d))"
  by (cases v) (auto simp: put_opt_def distinct_update distinct_delete)

lemma map_of_update_alist [simp]: "map_of (AList.update k v d) = (map_of d)(k \<mapsto> v)"
  by (rule update_conv')

lemma map_of_delete_alist [simp]: "map_of (AList.delete k d) = (map_of d)(k := None)"
  by (rule delete_conv')

lemma set_keys_dom: "set (keys d) = dom (map_of d)"
  by (simp add: dom_map_of_conv_image_fst)

lemma keys_put_opt: "set (keys (put_opt k v d)) = (if v = None then set (keys d) - {k} else insert k (set (keys d)))"
  unfolding set_keys_dom by (cases v) auto

lemma map_of_filter_keys:
  "map_of (filter (\<lambda>(k, v). P k) d) k = (if P k then map_of d k else None)"
  by (induction d) auto

lemma map_of_None_key: "map_of d k = None \<longleftrightarrow> k \<notin> set (keys d)"
  unfolding set_keys_dom by (simp add: domIff)

lemma set_update_alist: "set (AList.update k v d) \<subseteq> insert (k, v) (set d)"
  by (induction d) auto

lemma set_delete_alist: "set (AList.delete k d) \<subseteq> set d"
  by (auto simp: AList.delete_eq)

subsection \<open>Partial maps over lists\<close>

lemma map_filter_append [simp]: "List.map_filter f (xs @ ys) = List.map_filter f xs @ List.map_filter f ys"
  by (simp add: List.map_filter_def)

lemma map_filter_Cons: "List.map_filter f (x # xs) = (case f x of None \<Rightarrow> [] | Some y \<Rightarrow> [y]) @ List.map_filter f xs"
  by (simp add: List.map_filter_simps split: option.split)

end
