(* ===== verification/Effects.thy ===== *)
theory Effects
  imports Prelude
begin

text \<open>
  Exceptions and the shape of a stateful Python function.

  \<open>exn\<close> holds the exceptions of \<^verbatim>\<open>app/domain/errors.py\<close>, those of the adapters and workers,
  the built-in ones the sources let through, and the one that ends a web request with a status. \<open>Killed\<close> is no exception of Python: it is the
  end of the process (SIGKILL, power loss) at some point of its run, which no handler sees.

  A function that may raise and that changes state of type \<open>'s\<close> is a \<open>('s, 'a) prog\<close>: it
  returns a value or an exception and, in both cases, the state it leaves behind. The
  combinators follow Python's statements: \<open>bindM\<close> and \<open>thenM\<close> are sequencing, \<open>tryM\<close> is
  \<open>try/except Exception\<close>, \<open>exceptM\<close> is \<open>except\<close> with a class test, \<open>finallyM\<close> is \<open>finally\<close>.
\<close>

subsection \<open>Exceptions\<close>

datatype exn =
    PermissionDenied string string
  | ServerUnavailable string
  | UnauthorizedContainer string
  | ConfigError string
  | BackupUnavailable string
  | BackupArchiveNotFound string
  | UpdateBlocked string
  | UpdateUnavailable string
  | InvalidPlayerName string
  | InvalidDuration string
  | InvalidOpLevel string
  | OpLevelsUnavailable string
  | RestoreUnavailable string
  | InvalidGameValue string
  | MaintenanceUnavailable string
  | CorruptJsonError string
  | RestoreWorkerError string
  | OpLevelsWorkerError string
  | OSError string
  | ValueError string
  | TypeError string
  | KeyError string
  | AttributeError string
  | StructError string
  | HTTPException nat string
  | Killed

text \<open>The text of an exception, \<open>str(exc)\<close>.\<close>

fun exn_str :: "exn \<Rightarrow> string" where
  "exn_str (PermissionDenied u p) = ''user '' @ [CHR 0x27] @ u @ [CHR 0x27] @ '' n'' @ [CHR 0x27] @ ''a pas la permission '' @ p"
| "exn_str (ServerUnavailable m) = m"
| "exn_str (UnauthorizedContainer m) = m"
| "exn_str (ConfigError m) = m"
| "exn_str (BackupUnavailable m) = m"
| "exn_str (BackupArchiveNotFound m) = m"
| "exn_str (UpdateBlocked m) = m"
| "exn_str (UpdateUnavailable m) = m"
| "exn_str (InvalidPlayerName m) = m"
| "exn_str (InvalidDuration m) = m"
| "exn_str (InvalidOpLevel m) = m"
| "exn_str (OpLevelsUnavailable m) = m"
| "exn_str (RestoreUnavailable m) = m"
| "exn_str (InvalidGameValue m) = m"
| "exn_str (MaintenanceUnavailable m) = m"
| "exn_str (CorruptJsonError m) = m"
| "exn_str (RestoreWorkerError m) = m"
| "exn_str (OpLevelsWorkerError m) = m"
| "exn_str (OSError m) = m"
| "exn_str (ValueError m) = m"
| "exn_str (TypeError m) = m"
| "exn_str (KeyError m) = m"
| "exn_str (AttributeError m) = m"
| "exn_str (StructError m) = m"
| "exn_str (HTTPException n m) = str_nat n @ '': '' @ m"
| "exn_str Killed = []"

definition catchable :: "exn \<Rightarrow> bool" where
  "catchable e \<longleftrightarrow> e \<noteq> Killed"

fun is_restore_worker_error :: "exn \<Rightarrow> bool" where
  "is_restore_worker_error (RestoreWorkerError m) = True"
| "is_restore_worker_error _ = False"

fun is_op_levels_worker_error :: "exn \<Rightarrow> bool" where
  "is_op_levels_worker_error (OpLevelsWorkerError m) = True"
| "is_op_levels_worker_error _ = False"

fun is_corrupt_json_error :: "exn \<Rightarrow> bool" where
  "is_corrupt_json_error (CorruptJsonError m) = True"
| "is_corrupt_json_error _ = False"

fun is_server_unavailable :: "exn \<Rightarrow> bool" where
  "is_server_unavailable (ServerUnavailable m) = True"
| "is_server_unavailable _ = False"

subsection \<open>Stateful functions\<close>

type_synonym ('s, 'a) prog = "'s \<Rightarrow> (exn + 'a) \<times> 's"

definition retM :: "'a \<Rightarrow> ('s, 'a) prog" where
  "retM x = (\<lambda>s. (Inr x, s))"

definition raiseM :: "exn \<Rightarrow> ('s, 'a) prog" where
  "raiseM e = (\<lambda>s. (Inl e, s))"

definition bindM :: "('s, 'a) prog \<Rightarrow> ('a \<Rightarrow> ('s, 'b) prog) \<Rightarrow> ('s, 'b) prog" where
  "bindM m f = (\<lambda>s. case m s of (Inl e, t) \<Rightarrow> (Inl e, t) | (Inr x, t) \<Rightarrow> f x t)"

definition thenM :: "('s, 'a) prog \<Rightarrow> ('s, 'b) prog \<Rightarrow> ('s, 'b) prog" where
  "thenM m n = bindM m (\<lambda>_. n)"

definition tryM :: "('s, 'a) prog \<Rightarrow> (exn \<Rightarrow> ('s, 'a) prog) \<Rightarrow> ('s, 'a) prog" where
  "tryM m h = (\<lambda>s. case m s of
       (Inl e, t) \<Rightarrow> if catchable e then h e t else (Inl e, t)
     | (Inr x, t) \<Rightarrow> (Inr x, t))"

definition exceptM :: "(exn \<Rightarrow> bool) \<Rightarrow> ('s, 'a) prog \<Rightarrow> (exn \<Rightarrow> ('s, 'a) prog) \<Rightarrow> ('s, 'a) prog" where
  "exceptM P m h = tryM m (\<lambda>e. if P e then h e else raiseM e)"

text \<open>\<open>attemptM m\<close> runs \<open>m\<close> and hands its outcome on as a value: the two arms of \<open>try/except/else\<close>.\<close>

definition attemptM :: "('s, 'a) prog \<Rightarrow> ('s, exn + 'a) prog" where
  "attemptM m = tryM (bindM m (\<lambda>x. retM (Inr x))) (\<lambda>e. retM (Inl e))"

definition finallyM :: "('s, 'a) prog \<Rightarrow> ('s, unit) prog \<Rightarrow> ('s, 'a) prog" where
  "finallyM m n = bindM (attemptM m)
     (\<lambda>r. thenM n (case r of Inl e \<Rightarrow> raiseM e | Inr x \<Rightarrow> retM x))"

definition ignoreM :: "('s, 'a) prog \<Rightarrow> ('s, unit) prog" where
  "ignoreM m = tryM (thenM m (retM ())) (\<lambda>_. retM ())"

definition getM :: "('s \<Rightarrow> 'a) \<Rightarrow> ('s, 'a) prog" where
  "getM f = (\<lambda>s. (Inr (f s), s))"

definition modM :: "('s \<Rightarrow> 's) \<Rightarrow> ('s, unit) prog" where
  "modM f = (\<lambda>s. (Inr (), f s))"

definition whenM :: "bool \<Rightarrow> ('s, unit) prog \<Rightarrow> ('s, unit) prog" where
  "whenM b m = (if b then m else retM ())"

primrec forM :: "'a list \<Rightarrow> ('a \<Rightarrow> ('s, unit) prog) \<Rightarrow> ('s, unit) prog" where
  "forM [] f = retM ()"
| "forM (x # xs) f = thenM (f x) (forM xs f)"

primrec mapM :: "('a \<Rightarrow> ('s, 'b) prog) \<Rightarrow> 'a list \<Rightarrow> ('s, 'b list) prog" where
  "mapM f [] = retM []"
| "mapM f (x # xs) = bindM (f x) (\<lambda>y. bindM (mapM f xs) (\<lambda>ys. retM (y # ys)))"

text \<open>Running a function on a part of the state; its effect is kept when it raises, too.\<close>

definition zoomM :: "('s \<Rightarrow> 't) \<Rightarrow> ('t \<Rightarrow> 's \<Rightarrow> 's) \<Rightarrow> ('t, 'a) prog \<Rightarrow> ('s, 'a) prog" where
  "zoomM get put m = (\<lambda>s. case m (get s) of (r, t) \<Rightarrow> (r, put t s))"

lemma retM_run [prog_simps]: "retM x s = (Inr x, s)"
  and raiseM_run [prog_simps]: "raiseM e s = (Inl e, s)"
  and getM_run [prog_simps]: "getM f s = (Inr (f s), s)"
  and modM_run [prog_simps]: "modM g s = (Inr (), g s)"
  and bindM_run [prog_simps]:
    "bindM m k s = (case m s of (Inl e, t) \<Rightarrow> (Inl e, t) | (Inr y, t) \<Rightarrow> k y t)"
  and thenM_run [prog_simps]:
    "thenM m n s = (case m s of (Inl e, t) \<Rightarrow> (Inl e, t) | (Inr y, t) \<Rightarrow> n t)"
  and tryM_run [prog_simps]:
    "tryM m' h s = (case m' s of (Inl e, t) \<Rightarrow> if catchable e then h e t else (Inl e, t)
                             | (Inr y, t) \<Rightarrow> (Inr y, t))"
  and zoomM_run [prog_simps]:
    "zoomM get put z s = (case z (get s) of (r, t) \<Rightarrow> (r, put t s))"
  by (simp_all add: retM_def raiseM_def getM_def modM_def bindM_def thenM_def tryM_def zoomM_def)

lemma whenM_run [prog_simps]: "whenM b m s = (if b then m s else (Inr (), s))"
  by (simp add: whenM_def retM_def)

lemma exceptM_run [prog_simps]:
  "exceptM P m h s = (case m s of (Inl e, t) \<Rightarrow> if catchable e \<and> P e then h e t else (Inl e, t)
                                | (Inr x, t) \<Rightarrow> (Inr x, t))"
  by (simp add: exceptM_def tryM_def raiseM_def split: prod.split sum.split)

lemma attemptM_run [prog_simps]:
  "attemptM m s = (case m s of (Inl e, t) \<Rightarrow> if catchable e then (Inr (Inl e), t) else (Inl e, t)
                             | (Inr x, t) \<Rightarrow> (Inr (Inr x), t))"
  by (simp add: attemptM_def tryM_def bindM_def retM_def split: prod.split sum.split)

lemma ignoreM_run [prog_simps]:
  "ignoreM m s = (case m s of (Inl e, t) \<Rightarrow> if catchable e then (Inr (), t) else (Inl e, t)
                            | (Inr x, t) \<Rightarrow> (Inr (), t))"
  by (simp add: ignoreM_def tryM_def thenM_def bindM_def retM_def split: prod.split sum.split)

lemma finallyM_run [prog_simps]:
  "finallyM m n s = (case m s of
       (Inl e, t) \<Rightarrow> if catchable e then (case n t of (Inl e', u) \<Rightarrow> (Inl e', u) | (Inr _, u) \<Rightarrow> (Inl e, u))
                   else (Inl e, t)
     | (Inr x, t) \<Rightarrow> (case n t of (Inl e', u) \<Rightarrow> (Inl e', u) | (Inr _, u) \<Rightarrow> (Inr x, u)))"
  by (simp add: finallyM_def bindM_run thenM_run attemptM_run retM_run raiseM_run
      split: prod.split sum.split)

lemma bindM_assoc: "bindM (bindM m f) g = bindM m (\<lambda>x. bindM (f x) g)"
  by (rule ext) (simp add: bindM_run split: prod.split sum.split)

lemma bindM_retM [simp]: "bindM (retM x) f = f x"
  by (rule ext) (simp add: prog_simps)

lemma bindM_raiseM [simp]: "bindM (raiseM e) f = raiseM e"
  by (rule ext) (simp add: prog_simps)

lemma catchable_simps [simp]:
  "\<not> catchable Killed" "catchable (RestoreWorkerError m)" "catchable (OpLevelsWorkerError m)"
  "catchable (OSError m)" "catchable (CorruptJsonError m)"
  by (simp_all add: catchable_def)

subsection \<open>Weakest preconditions\<close>

text \<open>
  \<open>wp m Q E s\<close> says: run from \<open>s\<close>, \<open>m\<close> returns a value in a state that satisfies \<open>Q\<close>, or
  raises in a state that satisfies \<open>E\<close>. There is no third case, since every \<open>prog\<close> is total.
\<close>

definition wp :: "('s, 'a) prog \<Rightarrow> ('a \<Rightarrow> 's \<Rightarrow> bool) \<Rightarrow> (exn \<Rightarrow> 's \<Rightarrow> bool) \<Rightarrow> 's \<Rightarrow> bool" where
  "wp m Q E s = (case m s of (Inl e, t) \<Rightarrow> E e t | (Inr x, t) \<Rightarrow> Q x t)"

lemma wpI: "(\<And>x t. m s = (Inr x, t) \<Longrightarrow> Q x t) \<Longrightarrow> (\<And>e t. m s = (Inl e, t) \<Longrightarrow> E e t) \<Longrightarrow> wp m Q E s"
  by (auto simp: wp_def split: prod.split sum.split)

lemma wp_retD: "wp m Q E s \<Longrightarrow> m s = (Inr x, t) \<Longrightarrow> Q x t"
  and wp_raiseD: "wp m Q E s \<Longrightarrow> m s = (Inl e, t) \<Longrightarrow> E e t"
  by (simp_all add: wp_def)

lemma wp_mono:
  "wp m Q E s \<Longrightarrow> (\<And>x t. Q x t \<Longrightarrow> Q' x t) \<Longrightarrow> (\<And>e t. E e t \<Longrightarrow> E' e t) \<Longrightarrow> wp m Q' E' s"
  by (auto simp: wp_def split: prod.splits sum.splits)

lemma wp_conj:
  "wp m Q E s \<Longrightarrow> wp m Q' E' s \<Longrightarrow> wp m (\<lambda>x t. Q x t \<and> Q' x t) (\<lambda>e t. E e t \<and> E' e t) s"
  by (auto simp: wp_def split: prod.splits sum.splits)

lemma wp_ret [wp_rules]: "wp (retM x) Q E s \<longleftrightarrow> Q x s"
  and wp_raise [wp_rules]: "wp (raiseM e) Q E s \<longleftrightarrow> E e s"
  and wp_get [wp_rules]: "wp (getM f) Q' E s \<longleftrightarrow> Q' (f s) s"
  and wp_mod [wp_rules]: "wp (modM g) Q'' E s \<longleftrightarrow> Q'' () (g s)"
  by (simp_all add: wp_def prog_simps)

lemma wp_bind [wp_rules]: "wp (bindM m f) Q E s \<longleftrightarrow> wp m (\<lambda>x. wp (f x) Q E) E s"
  by (auto simp: wp_def prog_simps split: prod.split sum.split)

lemma wp_then [wp_rules]: "wp (thenM m n) Q E s \<longleftrightarrow> wp m (\<lambda>_. wp n Q E) E s"
  by (auto simp: wp_def prog_simps split: prod.split sum.split)

lemma wp_try [wp_rules]:
  "wp (tryM m h) Q E s \<longleftrightarrow> wp m Q (\<lambda>e t. if catchable e then wp (h e) Q E t else E e t) s"
  by (auto simp: wp_def prog_simps split: prod.split sum.split)

lemma wp_except [wp_rules]:
  "wp (exceptM P m h) Q E s \<longleftrightarrow> wp m Q (\<lambda>e t. if catchable e \<and> P e then wp (h e) Q E t else E e t) s"
  by (auto simp: wp_def prog_simps split: prod.split sum.split)

lemma wp_attempt [wp_rules]:
  "wp (attemptM m) Q E s \<longleftrightarrow> wp m (\<lambda>x. Q (Inr x)) (\<lambda>e t. if catchable e then Q (Inl e) t else E e t) s"
  by (auto simp: wp_def prog_simps split: prod.split sum.split)

lemma wp_ignore [wp_rules]:
  "wp (ignoreM m) Q E s \<longleftrightarrow> wp m (\<lambda>_. Q ()) (\<lambda>e t. if catchable e then Q () t else E e t) s"
  by (auto simp: wp_def prog_simps split: prod.split sum.split)

lemma wp_when [wp_rules]: "wp (whenM b m) Q E s \<longleftrightarrow> (if b then wp m Q E s else Q () s)"
  by (auto simp: wp_def prog_simps)

lemma wp_zoom [wp_rules]:
  "wp (zoomM get put m) Q E s \<longleftrightarrow> wp m (\<lambda>x t. Q x (put t s)) (\<lambda>e t. E e (put t s)) (get s)"
  by (auto simp: wp_def prog_simps split: prod.split sum.split)

lemma wp_if [wp_rules]: "wp (if b then m else n) Q E s \<longleftrightarrow> (if b then wp m Q E s else wp n Q E s)"
  by simp

text \<open>A loop over a list keeps what its body keeps.\<close>

lemma wp_forM:
  assumes "\<And>x s. x \<in> set xs \<Longrightarrow> I s \<Longrightarrow> wp (f x) (\<lambda>_. I) E s" and "I s"
  shows "wp (forM xs f) (\<lambda>_. I) E s"
  using assms
proof (induction xs arbitrary: s)
  case Nil
  then show ?case by (simp add: wp_rules)
next
  case (Cons x xs)
  then have "wp (f x) (\<lambda>_. I) E s" by simp
  then have "wp (f x) (\<lambda>_. wp (forM xs f) (\<lambda>_. I) E) E s"
    by (rule wp_mono) (use Cons in auto)
  then show ?case by (simp add: wp_rules)
qed

text \<open>The same as a triple: from \<open>P\<close>, a return ends in \<open>Q\<close> and a raise in \<open>E\<close>.\<close>

definition triple :: "('s \<Rightarrow> bool) \<Rightarrow> ('s, 'a) prog \<Rightarrow> ('a \<Rightarrow> 's \<Rightarrow> bool) \<Rightarrow> (exn \<Rightarrow> 's \<Rightarrow> bool) \<Rightarrow> bool" where
  "triple P m Q E \<longleftrightarrow> (\<forall>s. P s \<longrightarrow> wp m Q E s)"

lemma tripleI: "(\<And>s. P s \<Longrightarrow> wp m Q E s) \<Longrightarrow> triple P m Q E"
  and tripleD: "triple P m Q E \<Longrightarrow> P s \<Longrightarrow> wp m Q E s"
  by (simp_all add: triple_def)

lemma triple_conseq:
  "triple P' m Q' E' \<Longrightarrow> (\<And>s. P s \<Longrightarrow> P' s) \<Longrightarrow> (\<And>x s. Q' x s \<Longrightarrow> Q x s) \<Longrightarrow>
   (\<And>e s. E' e s \<Longrightarrow> E e s) \<Longrightarrow> triple P m Q E"
  unfolding triple_def by (blast intro: wp_mono)

lemma triple_then: "triple P m (\<lambda>_. R) E \<Longrightarrow> triple R n Q E \<Longrightarrow> triple P (thenM m n) Q E"
  unfolding triple_def wp_then by (blast intro: wp_mono)

lemma triple_bind: "triple P m R E \<Longrightarrow> (\<And>x. triple (R x) (n x) Q E) \<Longrightarrow> triple P (bindM m n) Q E"
  unfolding triple_def wp_bind by (blast intro: wp_mono)

lemma triple_try:
  assumes "triple P m Q E'" and "\<And>e. catchable e \<Longrightarrow> triple (E' e) (h e) Q E"
    and "\<And>s. E' Killed s \<Longrightarrow> E Killed s"
  shows "triple P (tryM m h) Q E"
proof (rule tripleI)
  fix s assume "P s"
  with assms(1) have "wp m Q E' s" by (rule tripleD)
  then show "wp (tryM m h) Q E s"
    unfolding wp_try
    by (rule wp_mono) (use assms(2,3) in \<open>auto simp: triple_def catchable_def\<close>)
qed

lemma triple_raise: "(\<And>s. P s \<Longrightarrow> E e s) \<Longrightarrow> triple P (raiseM e) Q E"
  and triple_ret: "(\<And>s. P s \<Longrightarrow> Q' x s) \<Longrightarrow> triple P (retM x) Q' E"
  and triple_mod: "(\<And>s. P s \<Longrightarrow> Q'' () (f s)) \<Longrightarrow> triple P (modM f) Q'' E"
  by (simp_all add: triple_def wp_rules)

lemma triple_when: "triple (\<lambda>s. P s \<and> b) m (\<lambda>_. Q) E \<Longrightarrow> (\<And>s. P s \<Longrightarrow> \<not> b \<Longrightarrow> Q s) \<Longrightarrow> triple P (whenM b m) (\<lambda>_. Q) E"
  by (auto simp: triple_def wp_when)

lemma triple_ignore:
  "triple P m (\<lambda>_. Q) E' \<Longrightarrow> (\<And>e s. E' e s \<Longrightarrow> Q s) \<Longrightarrow> (\<And>s. E' Killed s \<Longrightarrow> E Killed s) \<Longrightarrow>
   triple P (ignoreM m) (\<lambda>_. Q) E"
  unfolding triple_def wp_ignore by (fastforce simp: catchable_def elim: wp_mono)

subsection \<open>Relations between the state before and the state after\<close>

text \<open>
  Many facts about an operation relate the states before and after it whatever its outcome: a
  field is not touched, a log only grows. Such a relation is a preorder, and the combinators
  keep it when their parts do.
\<close>

definition keeps :: "('s \<Rightarrow> 's \<Rightarrow> bool) \<Rightarrow> ('s, 'a) prog \<Rightarrow> bool" where
  "keeps R m \<longleftrightarrow> (\<forall>s r t. m s = (r, t) \<longrightarrow> R s t)"

lemma keepsI: "(\<And>s r t. m s = (r, t) \<Longrightarrow> R s t) \<Longrightarrow> keeps R m"
  by (simp add: keeps_def)

lemma keepsD: "keeps R m \<Longrightarrow> m s = (r, t) \<Longrightarrow> R s t"
  by (simp add: keeps_def)

lemma keeps_snd: "keeps R m \<Longrightarrow> R s (snd (m s))"
  by (cases "m s") (auto simp: keeps_def)

lemma keeps_wp: "keeps R m \<longleftrightarrow> (\<forall>s. wp m (\<lambda>_. R s) (\<lambda>_. R s) s)"
  unfolding keeps_def wp_def by (auto split: prod.split sum.split; metis old.sum.exhaust)

locale state_preorder =
  fixes R :: "'s \<Rightarrow> 's \<Rightarrow> bool"
  assumes reflR: "R s s"
    and transR: "R s t \<Longrightarrow> R t u \<Longrightarrow> R s u"
begin

lemma keeps_ret: "keeps R (retM x)"
  and keeps_raise: "keeps R (raiseM e)"
  and keeps_get: "keeps R (getM f)"
  by (auto intro!: keepsI simp: prog_simps reflR)

lemma keeps_bind: "keeps R m \<Longrightarrow> (\<And>x. keeps R (f x)) \<Longrightarrow> keeps R (bindM m f)"
  by (rule keepsI)
    (auto simp: prog_simps split: prod.splits sum.splits dest: keepsD intro: transR)

lemma keeps_then: "keeps R m \<Longrightarrow> keeps R n \<Longrightarrow> keeps R (thenM m n)"
  unfolding thenM_def by (rule keeps_bind)

lemma keeps_try: "keeps R m \<Longrightarrow> (\<And>e. keeps R (h e)) \<Longrightarrow> keeps R (tryM m h)"
  by (rule keepsI)
    (auto simp: prog_simps split: prod.splits sum.splits if_splits dest: keepsD intro: transR)

lemma keeps_except: "keeps R m \<Longrightarrow> (\<And>e. keeps R (h e)) \<Longrightarrow> keeps R (exceptM P m h)"
  unfolding exceptM_def by (intro keeps_try) (auto intro: keeps_raise)

lemma keeps_attempt: "keeps R m \<Longrightarrow> keeps R (attemptM m)"
  unfolding attemptM_def by (intro keeps_try keeps_bind keeps_ret)

lemma keeps_ignore: "keeps R m \<Longrightarrow> keeps R (ignoreM m)"
  unfolding ignoreM_def by (intro keeps_try keeps_then keeps_ret)

lemma keeps_when: "(b \<Longrightarrow> keeps R m) \<Longrightarrow> keeps R (whenM b m)"
  unfolding whenM_def by (auto intro: keeps_ret)

lemma keeps_if: "(b \<Longrightarrow> keeps R m) \<Longrightarrow> (\<not> b \<Longrightarrow> keeps R n) \<Longrightarrow> keeps R (if b then m else n)"
  by simp

lemma keeps_finally: "keeps R m \<Longrightarrow> keeps R n \<Longrightarrow> keeps R (finallyM m n)"
  unfolding finallyM_def
  by (intro keeps_bind keeps_attempt keeps_then) (auto split: sum.split intro: keeps_ret keeps_raise)

lemma keeps_forM: "(\<And>x. x \<in> set xs \<Longrightarrow> keeps R (f x)) \<Longrightarrow> keeps R (forM xs f)"
  by (induction xs) (auto intro: keeps_ret keeps_then)

lemma keeps_mapM: "(\<And>x. x \<in> set xs \<Longrightarrow> keeps R (f x)) \<Longrightarrow> keeps R (mapM f xs)"
  by (induction xs) (auto intro: keeps_ret keeps_bind)

lemmas keeps_intros = keeps_mapM keeps_ret keeps_raise keeps_get keeps_bind keeps_then keeps_try keeps_except
  keeps_attempt keeps_ignore keeps_when keeps_if keeps_finally keeps_forM

end

text \<open>Case distinctions keep what their branches keep.\<close>

lemma keeps_case_option:
  "(x = None \<Longrightarrow> keeps R a) \<Longrightarrow> (\<And>y. x = Some y \<Longrightarrow> keeps R (b y)) \<Longrightarrow> keeps R (case x of None \<Rightarrow> a | Some y \<Rightarrow> b y)"
  and keeps_case_sum:
  "(\<And>y. z = Inl y \<Longrightarrow> keeps R (c y)) \<Longrightarrow> (\<And>y. z = Inr y \<Longrightarrow> keeps R (d y)) \<Longrightarrow> keeps R (case z of Inl y \<Rightarrow> c y | Inr y \<Rightarrow> d y)"
  and keeps_case_prod: "(\<And>i j. p = (i, j) \<Longrightarrow> keeps R (f i j)) \<Longrightarrow> keeps R (case p of (i, j) \<Rightarrow> f i j)"
  and keeps_case_bool: "(q \<Longrightarrow> keeps R a) \<Longrightarrow> (\<not> q \<Longrightarrow> keeps R e) \<Longrightarrow> keeps R (case q of True \<Rightarrow> a | False \<Rightarrow> e)"
  and keeps_case_list:
    "(xs = [] \<Longrightarrow> keeps R nil) \<Longrightarrow> (\<And>x xs'. xs = x # xs' \<Longrightarrow> keeps R (k x xs')) \<Longrightarrow> keeps R (case xs of [] \<Rightarrow> nil | x # xs' \<Rightarrow> k x xs')"
  and keeps_let: "(\<And>w. w = v \<Longrightarrow> keeps R (g w)) \<Longrightarrow> keeps R (let w = v in g w)"
  by (auto split: option.split sum.split prod.split bool.split list.split)

lemmas keeps_cases = keeps_case_option keeps_case_sum keeps_case_prod keeps_case_bool keeps_case_list keeps_let

text \<open>An invariant that an operation keeps on every outcome is the special case of a relation.\<close>

definition inv_rel :: "('s \<Rightarrow> bool) \<Rightarrow> 's \<Rightarrow> 's \<Rightarrow> bool" where
  "inv_rel I s t \<longleftrightarrow> (I s \<longrightarrow> I t)"

interpretation inv: state_preorder "inv_rel I" for I
  by unfold_locales (auto simp: inv_rel_def)

lemma keeps_inv_wp: "keeps (inv_rel I) m \<Longrightarrow> I s \<Longrightarrow> wp m (\<lambda>_. I) (\<lambda>_. I) s"
  by (rule wpI) (auto dest: keepsD [of "inv_rel I"] simp: inv_rel_def)

lemma keeps_invI: "(\<And>s. I s \<Longrightarrow> wp m (\<lambda>_. I) (\<lambda>_. I) s) \<Longrightarrow> keeps (inv_rel I) m"
  unfolding keeps_wp inv_rel_def by (fastforce simp: wp_def split: prod.splits sum.splits)

subsection \<open>Faults\<close>

text \<open>
  Every access to the file system or to Docker is one numbered step. A fault plan says, for
  each step, whether the access succeeds, raises, or is the point at which the process dies.
  The theorems that quantify over plans therefore cover every sequence of I/O errors and a
  crash at any point between two accesses.
\<close>

datatype fault = NoFault | Fail | Kill

record io =
  io_step :: nat
  io_plan :: "nat \<Rightarrow> fault"

definition tick :: "('z io_scheme, unit) prog" where
  "tick s = (let t = s\<lparr>io_step := Suc (io_step s)\<rparr>
     in case io_plan s (io_step s) of
          NoFault \<Rightarrow> (Inr (), t)
        | Fail \<Rightarrow> (Inl (OSError ''I/O''), t)
        | Kill \<Rightarrow> (Inl Killed, t))"

text \<open>No access of a plan fails from a given step on.\<close>

definition no_faults :: "'z io_scheme \<Rightarrow> bool" where
  "no_faults s \<longleftrightarrow> (\<forall>n \<ge> io_step s. io_plan s n = NoFault)"

lemma tick_no_faults:
  "no_faults s \<Longrightarrow> tick s = (Inr (), s\<lparr>io_step := Suc (io_step s)\<rparr>) \<and> no_faults (s\<lparr>io_step := Suc (io_step s)\<rparr>)"
  by (simp add: tick_def no_faults_def Let_def)

lemma tick_ret: "tick s = (Inr x, t) \<Longrightarrow> t = s\<lparr>io_step := Suc (io_step s)\<rparr>"
  and tick_raise: "tick s = (Inl e, t) \<Longrightarrow> t = s\<lparr>io_step := Suc (io_step s)\<rparr>"
  by (auto simp: tick_def Let_def split: fault.splits)

lemma wp_tick:
  assumes "Q () (s\<lparr>io_step := Suc (io_step s)\<rparr>)"
    and "\<And>e. \<not> no_faults s \<Longrightarrow> E e (s\<lparr>io_step := Suc (io_step s)\<rparr>)"
  shows "wp tick Q E s"
proof (cases "io_plan s (io_step s)")
  case NoFault
  with assms(1) show ?thesis by (simp add: wp_def tick_def Let_def)
next
  case Fail
  then have "\<not> no_faults s" by (auto simp: no_faults_def)
  with Fail assms(2) show ?thesis by (simp add: wp_def tick_def Let_def)
next
  case Kill
  then have "\<not> no_faults s" by (auto simp: no_faults_def)
  with Kill assms(2) show ?thesis by (simp add: wp_def tick_def Let_def)
qed

text \<open>
  \<open>calm F s\<close>: if \<open>F\<close> holds then no access fails from \<open>s\<close> on. The specifications below carry a
  proposition \<open>F\<close> of their own choice: they show that an exception is only raised when \<open>F\<close> is
  false, which gives the behaviour under any plan (\<open>F\<close> false) and the absence of exceptions
  without faults (\<open>F\<close> true) in one statement.
\<close>

definition calm :: "bool \<Rightarrow> 'z io_scheme \<Rightarrow> bool" where
  "calm F s \<longleftrightarrow> (F \<longrightarrow> no_faults s)"

lemma calm_False [simp]: "calm False s"
  by (simp add: calm_def)

lemma calm_step: "calm F s \<Longrightarrow> calm F (s\<lparr>io_step := Suc (io_step s)\<rparr>)"
  by (auto simp: calm_def no_faults_def)

lemma wp_tick_calm:
  assumes "calm F s"
    and "calm F (s\<lparr>io_step := Suc (io_step s)\<rparr>) \<Longrightarrow> Q () (s\<lparr>io_step := Suc (io_step s)\<rparr>)"
    and "\<And>e. \<not> F \<Longrightarrow> E e (s\<lparr>io_step := Suc (io_step s)\<rparr>)"
  shows "wp tick Q E s"
  using assms calm_step [OF assms(1)] by (intro wp_tick) (auto simp: calm_def)

end
