(* ===== verification/Json.thy ===== *)
theory Json
  imports Effects
begin

text \<open>
  JSON values and the persistent JSON files of \<^verbatim>\<open>app/adapters/atomic_json.py\<close>.

  A file is absent, unreadable (an I/O error, bytes that are not UTF-8, text that is not JSON)
  or holds a value; the text of a value is not modelled, only that \<open>json.load\<close> gives back what
  \<open>json.dump\<close> wrote. Writing replaces the file atomically (\<open>os.replace\<close> after \<open>fsync\<close>), so
  a reader sees the old value or the new one.
\<close>

datatype json =
    JNull
  | JBool bool
  | JInt int
  | JFloat rat
  | JStr string
  | JArr "json list"
  | JObj "(string \<times> json) list"

fun is_obj :: "json \<Rightarrow> bool" where
  "is_obj (JObj d) = True"
| "is_obj _ = False"

fun is_arr :: "json \<Rightarrow> bool" where
  "is_arr (JArr xs) = True"
| "is_arr _ = False"

fun is_str :: "json \<Rightarrow> bool" where
  "is_str (JStr s) = True"
| "is_str _ = False"

text \<open>\<open>isinstance(x, int)\<close>, which holds of booleans, and the same with booleans ruled out.\<close>

fun is_int :: "json \<Rightarrow> bool" where
  "is_int (JInt i) = True"
| "is_int (JBool b) = True"
| "is_int _ = False"

fun is_proper_int :: "json \<Rightarrow> bool" where
  "is_proper_int (JInt i) = True"
| "is_proper_int _ = False"

fun is_bool :: "json \<Rightarrow> bool" where
  "is_bool (JBool b) = True"
| "is_bool _ = False"

fun obj_fields :: "json \<Rightarrow> (string \<times> json) list" where
  "obj_fields (JObj d) = d"
| "obj_fields _ = []"

fun arr_items :: "json \<Rightarrow> json list" where
  "arr_items (JArr xs) = xs"
| "arr_items _ = []"

text \<open>\<open>d.get(k)\<close> of a dictionary; \<open>None\<close> and an absent key both read as \<open>JNull\<close>.\<close>

definition jget :: "json \<Rightarrow> string \<Rightarrow> json" where
  "jget j k = (case map_of (obj_fields j) k of None \<Rightarrow> JNull | Some v \<Rightarrow> v)"

definition jhas :: "json \<Rightarrow> string \<Rightarrow> bool" where
  "jhas j k \<longleftrightarrow> map_of (obj_fields j) k \<noteq> None"

definition jset :: "string \<Rightarrow> json \<Rightarrow> json \<Rightarrow> json" where
  "jset k v j = JObj (AList.update k v (obj_fields j))"

definition jpop :: "string \<Rightarrow> json \<Rightarrow> json" where
  "jpop k j = JObj (AList.delete k (obj_fields j))"

text \<open>The truth value of a JSON value in Python.\<close>

fun truthy :: "json \<Rightarrow> bool" where
  "truthy JNull = False"
| "truthy (JBool b) = b"
| "truthy (JInt i) = (i \<noteq> 0)"
| "truthy (JFloat r) = (r \<noteq> 0)"
| "truthy (JStr s) = (s \<noteq> [])"
| "truthy (JArr xs) = (xs \<noteq> [])"
| "truthy (JObj d) = (d \<noteq> [])"

fun str_of :: "json \<Rightarrow> string" where
  "str_of (JStr s) = s"
| "str_of _ = []"

fun int_of :: "json \<Rightarrow> int" where
  "int_of (JInt i) = i"
| "int_of (JBool b) = (if b then 1 else 0)"
| "int_of _ = 0"

text \<open>\<open>payload.get("version") != 1\<close>: true and 1.0 equal 1 in Python.\<close>

fun equals_one :: "json \<Rightarrow> bool" where
  "equals_one (JInt i) = (i = 1)"
| "equals_one (JBool b) = b"
| "equals_one (JFloat r) = (r = 1)"
| "equals_one _ = False"

text \<open>
  \<open>str(x)\<close> of a value; the texts of floats and containers are left to \<open>other\<close>. \<open>iter_items\<close> is
  what \<open>for e in x\<close> goes through: a dictionary gives its keys, a text its characters, a number
  raises.
\<close>

fun py_str :: "(json \<Rightarrow> string) \<Rightarrow> json \<Rightarrow> string" where
  "py_str other (JStr s) = s"
| "py_str other (JInt i) = str_int i"
| "py_str other (JBool b) = (if b then ''True'' else ''False'')"
| "py_str other JNull = ''None''"
| "py_str other v = other v"

fun iter_items :: "json \<Rightarrow> exn + json list" where
  "iter_items (JArr xs) = Inr xs"
| "iter_items (JObj d) = Inr (map (JStr \<circ> fst) d)"
| "iter_items (JStr s) = Inr (map (\<lambda>c. JStr [c]) s)"
| "iter_items _ = Inl (TypeError ''object is not iterable'')"

lemma jget_simps [simp]:
  "jget (JObj ((k, v) # d)) k' = (if k' = k then v else jget (JObj d) k')"
  "jget (JObj []) k' = JNull"
  by (simp_all add: jget_def)

lemma jget_jset [simp]: "jget (jset k v j) k' = (if k' = k then v else jget j k')"
  by (simp add: jget_def jset_def)

lemma jget_jpop [simp]: "jget (jpop k j) k' = (if k' = k then JNull else jget j k')"
  by (simp add: jget_def jpop_def)

lemma is_obj_jset [simp]: "is_obj (jset k v j)" "is_obj (jpop k j)"
  by (simp_all add: jset_def jpop_def)

subsection \<open>Files\<close>

datatype jfile = Absent | Unreadable | Doc json

text \<open>
  \<open>load_json(path, expected_type=..., default_factory=..., strict=...)\<close>: reads are tolerant,
  the reads that precede a mutation are strict, so that a corrupt file is never overwritten.
\<close>

definition load_json :: "(json \<Rightarrow> bool) \<Rightarrow> json \<Rightarrow> bool \<Rightarrow> jfile \<Rightarrow> exn + json" where
  "load_json expected dflt strict f = (case f of
       Absent \<Rightarrow> Inr dflt
     | Unreadable \<Rightarrow> if strict then Inl (CorruptJsonError ''etat JSON illisible'') else Inr dflt
     | Doc j \<Rightarrow>
         if \<not> expected j then (if strict then Inl (CorruptJsonError ''type JSON inattendu'') else Inr dflt)
         else Inr j)"

lemma load_json_tolerant: "\<exists>j. load_json expected dflt False f = Inr j"
  by (auto simp: load_json_def split: jfile.split)

lemma load_json_strict_ok:
  "load_json expected dflt True f = Inr j \<Longrightarrow> f = Absent \<and> j = dflt \<or> f = Doc j \<and> expected j"
  by (auto simp: load_json_def split: jfile.splits if_splits)

lemma load_json_agree:
  "load_json expected dflt True f = Inr j \<Longrightarrow> load_json expected dflt False f = Inr j"
  by (auto simp: load_json_def split: jfile.splits if_splits)

text \<open>
  How a write ends: done, refused with the old file in place, or raising after the file was replaced
  (the directory is synchronised after \<open>os.replace\<close>).
\<close>

datatype write_answer = Written | Not_written exn | Written_late exn

definition after_write :: "write_answer \<Rightarrow> 'a \<Rightarrow> 's \<Rightarrow> 's \<Rightarrow> (exn + 'a) \<times> 's" where
  "after_write w x old new = (case w of
       Written \<Rightarrow> (Inr x, new)
     | Not_written e \<Rightarrow> (Inl e, old)
     | Written_late e \<Rightarrow> (Inl e, new))"

lemma after_write_state: "snd (after_write w x old new) = (case w of Not_written e \<Rightarrow> old | _ \<Rightarrow> new)"
  by (simp add: after_write_def split: write_answer.split)

text \<open>
  The update of a persistent file: a strict read, a change of the value, an atomic write. \<open>expected\<close>
  is the type the file must have.
\<close>

definition update_json :: "(json \<Rightarrow> bool) \<Rightarrow> json \<Rightarrow> (json \<Rightarrow> json) \<Rightarrow> jfile \<Rightarrow> exn + jfile" where
  "update_json expected dflt change f = (case load_json expected dflt True f of
       Inl e \<Rightarrow> Inl e
     | Inr j \<Rightarrow> Inr (Doc (change j)))"

text \<open>The value a tolerant read gives; it never fails.\<close>

definition read_json :: "(json \<Rightarrow> bool) \<Rightarrow> json \<Rightarrow> jfile \<Rightarrow> json" where
  "read_json expected dflt f = (case load_json expected dflt False f of Inl e \<Rightarrow> dflt | Inr j \<Rightarrow> j)"

lemma update_json_read:
  "update_json expected dflt change f = Inr g \<Longrightarrow> g = Doc (change (read_json expected dflt f))"
  by (auto simp: update_json_def read_json_def load_json_def split: jfile.splits if_splits)

lemma read_json_Doc: "read_json expected dflt (Doc j) = (if expected j then j else dflt)"
  by (simp add: read_json_def load_json_def)

lemma read_json_expected: "expected dflt \<Longrightarrow> expected (read_json expected dflt f)"
  by (auto simp: read_json_def load_json_def split: jfile.split)

end
