(* ===== verification/File_Tree.thy ===== *)
theory File_Tree
  imports Json
begin

text \<open>
  Directory trees and the file operations of \<^verbatim>\<open>app/restore_worker.py\<close> on them: removal
  (\<open>_remove_path\<close>), cloning (\<open>_clone_entry\<close>), and synchronisation in place (\<open>_sync_entry\<close>,
  \<open>_sync_tree\<close>).

  A \<open>node\<close> is a regular file, a symbolic link, a directory or a special file (socket, pipe,
  device). A directory lists its entries in the order in which \<open>iterdir\<close> yields them. The
  operations run on a \<open>slot\<close>, the place in the tree at which they work (\<open>None\<close>: no entry
  there), and every access to the disk is a step of the fault plan, so that a run can stop with
  an error, or die, between any two accesses and leave a half-changed tree behind.

  An entry is a tree of its own: two names of one file (hard links), whose contents an in-place copy
  would change together, are not represented.

  Two trees are compared by what a path looks up in them (\<open>look\<close>), not by the order of their
  entries.
\<close>

subsection \<open>Trees\<close>

text \<open>Owner, group, permission bits and modification time.\<close>

record meta =
  m_uid :: int
  m_gid :: int
  m_mode :: int
  m_mtime :: int

datatype content = Bytes string | JsonText json

datatype node =
    File meta content
  | Link meta string
  | Dir meta "(string \<times> node) list"
  | Special meta

fun node_meta :: "node \<Rightarrow> meta" where
  "node_meta (File m c) = m"
| "node_meta (Link m t) = m"
| "node_meta (Dir m cs) = m"
| "node_meta (Special m) = m"

fun set_meta :: "meta \<Rightarrow> node \<Rightarrow> node" where
  "set_meta m (File _ c) = File m c"
| "set_meta m (Link _ t) = Link m t"
| "set_meta m (Dir _ cs) = Dir m cs"
| "set_meta m (Special _) = Special m"

fun is_dir :: "node \<Rightarrow> bool" where
  "is_dir (Dir m cs) = True"
| "is_dir _ = False"

fun is_file :: "node \<Rightarrow> bool" where
  "is_file (File m c) = True"
| "is_file _ = False"

fun is_link :: "node \<Rightarrow> bool" where
  "is_link (Link m t) = True"
| "is_link _ = False"

fun children :: "node \<Rightarrow> (string \<times> node) list" where
  "children (Dir m cs) = cs"
| "children _ = []"

text \<open>The attributes a new directory or file has before its metadata are copied.\<close>

definition fresh_meta :: meta where
  "fresh_meta = \<lparr>m_uid = 0, m_gid = 0, m_mode = 493, m_mtime = 0\<rparr>"

datatype leaf = LFile meta content | LLink meta string | LDir meta | LSpecial meta

fun node_leaf :: "node \<Rightarrow> leaf" where
  "node_leaf (File m c) = LFile m c"
| "node_leaf (Link m t) = LLink m t"
| "node_leaf (Dir m cs) = LDir m"
| "node_leaf (Special m) = LSpecial m"

fun look :: "node \<Rightarrow> string list \<Rightarrow> leaf option" where
  "look n [] = Some (node_leaf n)"
| "look n (k # p) = (case map_of (children n) k of None \<Rightarrow> None | Some c \<Rightarrow> look c p)"

definition same :: "node \<Rightarrow> node \<Rightarrow> bool" where
  "same a b \<longleftrightarrow> look a = look b"

lemma same_refl [simp]: "same a a"
  and same_sym: "same a b \<Longrightarrow> same b a"
  and same_trans: "same a b \<Longrightarrow> same b c \<Longrightarrow> same a c"
  by (simp_all add: same_def)

lemma look_Dir_fun:
  "look (Dir m cs) = (\<lambda>p. case p of [] \<Rightarrow> Some (LDir m)
      | k # q \<Rightarrow> (case map_of cs k of None \<Rightarrow> None | Some c \<Rightarrow> look c q))"
  by (rule ext) (simp split: list.split)

lemma same_DirI:
  assumes "\<And>k. rel_option same (map_of cs k) (map_of ds k)"
  shows "same (Dir m cs) (Dir m ds)"
proof -
  have "(case map_of cs k of None \<Rightarrow> None | Some c \<Rightarrow> look c q) =
        (case map_of ds k of None \<Rightarrow> None | Some c \<Rightarrow> look c q)" for k q
    using assms [of k] by (auto simp: same_def elim: option.rel_cases)
  then have "look (Dir m cs) p = look (Dir m ds) p" for p
    by (cases p) auto
  then show ?thesis by (auto simp: same_def)
qed

lemma same_Dir_lookup:
  assumes "same (Dir m cs) (Dir m' ds)"
  shows "rel_option same (map_of cs k) (map_of ds k)"
proof -
  have q: "(case map_of cs k of None \<Rightarrow> None | Some c \<Rightarrow> look c p) = (case map_of ds k of None \<Rightarrow> None | Some c \<Rightarrow> look c p)" for p
    using fun_cong [OF assms [unfolded same_def], of "k # p"] by simp
  from q [of "[]"] show ?thesis
    by (cases "map_of cs k"; cases "map_of ds k") (use q in \<open>auto simp: same_def\<close>)
qed

lemma same_Dir_shape: "same n (Dir m cs) \<Longrightarrow> \<exists>cs'. n = Dir m cs'"
  by (cases n) (auto simp: same_def dest: fun_cong [of _ _ "[]"])

text \<open>A tree the worker can handle: no entry twice in a directory, no special file.\<close>

fun good :: "node \<Rightarrow> bool"
  and good_entries :: "(string \<times> node) list \<Rightarrow> bool" where
  "good (File m c) = True"
| "good (Link m t) = True"
| "good (Dir m cs) = (distinct (keys cs) \<and> good_entries cs)"
| "good (Special m) = False"
| "good_entries [] = True"
| "good_entries ((k, n) # cs) = (good n \<and> good_entries cs)"

definition good_opt :: "node option \<Rightarrow> bool" where
  "good_opt v \<longleftrightarrow> (\<forall>n. v = Some n \<longrightarrow> good n)"

lemma good_opt_simps [simp]: "good_opt None" "good_opt (Some n) = good n"
  by (simp_all add: good_opt_def)

lemma good_entries_iff: "good_entries cs \<longleftrightarrow> (\<forall>(k, n) \<in> set cs. good n)"
  by (induction cs) auto

lemma good_entries_map_of:
  assumes "good_entries cs" shows "good_opt (map_of cs k)"
  using assms by (auto simp: good_entries_iff good_opt_def dest: map_of_SomeD)

lemma good_entriesI:
  assumes "distinct (keys cs)" and "\<And>k. good_opt (map_of cs k)"
  shows "good_entries cs"
  unfolding good_entries_iff
proof clarify
  fix k n assume "(k, n) \<in> set cs"
  with assms(1) have "map_of cs k = Some n" by simp
  with assms(2) [of k] show "good n" by simp
qed

lemma good_put_opt:
  assumes "distinct (keys cs)" and "good_entries cs" and "good_opt v"
  shows "good_entries (put_opt k v cs)"
  using assms by (intro good_entriesI distinct_put_opt) (auto intro: good_entries_map_of)

lemma good_Dir_put_opt:
  "good (Dir m cs) \<Longrightarrow> good_opt v \<Longrightarrow> good (Dir m (put_opt k v cs))"
  by (simp add: good_put_opt distinct_put_opt)

subsection \<open>Working at one place of the tree\<close>

record slot = io +
  here :: "node option"

definition put_here :: "node option \<Rightarrow> ('z slot_scheme, unit) prog" where
  "put_here v = thenM tick (modM (here_update (\<lambda>_. v)))"

definition create :: "node \<Rightarrow> ('z slot_scheme, unit) prog" where
  "create n = bindM (getM here)
     (\<lambda>h. if h \<noteq> None then raiseM (OSError ''EEXIST'') else put_here (Some n))"

definition unlink_missing_ok :: "('z slot_scheme, unit) prog" where
  "unlink_missing_ok = bindM (getM here) (\<lambda>h. case h of
       None \<Rightarrow> retM ()
     | Some (Dir m cs) \<Rightarrow> raiseM (OSError ''EISDIR'')
     | Some n \<Rightarrow> put_here None)"

definition at_child :: "string \<Rightarrow> ('z slot_scheme, 'a) prog \<Rightarrow> ('z slot_scheme, 'a) prog" where
  "at_child k m = (\<lambda>s. case here s of
       Some (Dir mt cs) \<Rightarrow>
         (case m (s\<lparr>here := map_of cs k\<rparr>) of
            (r, t) \<Rightarrow> (r, t\<lparr>here := Some (Dir mt (put_opt k (here t) cs))\<rparr>))
     | _ \<Rightarrow> (Inl (OSError ''ENOTDIR''), s))"

text \<open>
  \<open>_copy_metadata\<close>: the ownership of the source, then, by \<open>shutil.copystat\<close>, its times and its
  permission bits, one access each.
\<close>

definition copystat :: "meta \<Rightarrow> ('z slot_scheme, unit) prog" where
  "copystat m = bindM (getM here) (\<lambda>h. case h of
       None \<Rightarrow> raiseM (OSError ''ENOENT'')
     | Some n \<Rightarrow>
         thenM (put_here (Some (set_meta ((node_meta n)\<lparr>m_mtime := m_mtime m\<rparr>) n)))
           (put_here (Some (set_meta ((node_meta n)\<lparr>m_mtime := m_mtime m, m_mode := m_mode m\<rparr>) n))))"

definition copy_metadata :: "meta \<Rightarrow> ('z slot_scheme, unit) prog" where
  "copy_metadata m = bindM (getM here) (\<lambda>h. case h of
       None \<Rightarrow> raiseM (OSError ''ENOENT'')
     | Some n \<Rightarrow> thenM (put_here (Some (set_meta ((node_meta n)\<lparr>m_uid := m_uid m, m_gid := m_gid m\<rparr>) n)))
         (copystat m))"

subsection \<open>Removal\<close>

fun rmtree :: "node \<Rightarrow> ('z slot_scheme, unit) prog"
  and rmtree_entries :: "(string \<times> node) list \<Rightarrow> ('z slot_scheme, unit) prog" where
  "rmtree (File m c) = put_here None"
| "rmtree (Link m t) = put_here None"
| "rmtree (Special m) = put_here None"
| "rmtree (Dir m cs) = thenM (rmtree_entries cs) (put_here None)"
| "rmtree_entries [] = retM ()"
| "rmtree_entries ((k, n) # cs) = thenM (at_child k (rmtree n)) (rmtree_entries cs)"

definition remove_path :: "('z slot_scheme, unit) prog" where
  "remove_path = bindM (getM here) (\<lambda>h. case h of
       None \<Rightarrow> retM ()
     | Some (Special m) \<Rightarrow> raiseM (OSError ''ENOTDIR'')
     | Some n \<Rightarrow> rmtree n)"

subsection \<open>Cloning\<close>

text \<open>
  The bytes of a file are written one after the other, each in a step of its own, so that a write that
  is cut short may leave any beginning of them. The text of a JSON value has no partial contents of
  its own: until it is complete the file reads as no JSON at all.
\<close>

definition partial_contents :: "content \<Rightarrow> content list" where
  "partial_contents c = (case c of
       Bytes d \<Rightarrow> map (\<lambda>i. Bytes (take i d)) [1..<length d]
     | JsonText j \<Rightarrow> [])"

definition write_content :: "content \<Rightarrow> ('z slot_scheme, unit) prog" where
  "write_content c = bindM (getM here) (\<lambda>h. case h of
       Some (File m _) \<Rightarrow>
         thenM (forM (partial_contents c) (\<lambda>d. put_here (Some (File m d)))) (put_here (Some (File m c)))
     | _ \<Rightarrow> raiseM (OSError ''EBADF''))"

definition reflink_or_copy :: "meta \<Rightarrow> content \<Rightarrow> ('z slot_scheme, unit) prog" where
  "reflink_or_copy m c =
     tryM (thenM (create (File fresh_meta (Bytes [])))
          (thenM (write_content c)
          (thenM tick
             (copy_metadata m))))
       (\<lambda>e. thenM unlink_missing_ok (raiseM e))"

fun clone_entry :: "node \<Rightarrow> ('z slot_scheme, unit) prog"
  and clone_entries :: "(string \<times> node) list \<Rightarrow> ('z slot_scheme, unit) prog" where
  "clone_entry (Link m t) = thenM (create (Link fresh_meta t)) (copy_metadata m)"
| "clone_entry (Dir m cs) =
     thenM (create (Dir fresh_meta [])) (thenM (clone_entries cs) (copy_metadata m))"
| "clone_entry (File m c) = reflink_or_copy m c"
| "clone_entry (Special m) = raiseM (RestoreWorkerError ''type de fichier actif non pris en charge'')"
| "clone_entries [] = retM ()"
| "clone_entries ((k, n) # cs) = thenM (at_child k (clone_entry n)) (clone_entries cs)"

subsection \<open>Synchronisation in place\<close>

definition copy_file_in_place :: "meta \<Rightarrow> content \<Rightarrow> ('z slot_scheme, unit) prog" where
  "copy_file_in_place m c =
     thenM (write_content (Bytes []))
    (thenM (write_content c)
    (thenM tick
       (copy_metadata m)))"

text \<open>\<open>shutil.copy2\<close> to a path where nothing is.\<close>

definition copy_new_file :: "meta \<Rightarrow> content \<Rightarrow> ('z slot_scheme, unit) prog" where
  "copy_new_file m c =
     thenM (create (File fresh_meta (Bytes [])))
    (thenM (write_content c) (copystat m))"

text \<open>The loop of \<open>_sync_tree\<close> that removes the entries absent from the source.\<close>

definition prune_absent :: "string list \<Rightarrow> string list \<Rightarrow> ('z slot_scheme, unit) prog" where
  "prune_absent protected names = bindM (getM here) (\<lambda>h.
     forM (case h of None \<Rightarrow> [] | Some n \<Rightarrow> keys (children n)) (\<lambda>k.
       if k \<in> set protected then retM ()
       else if k \<notin> set names then at_child k remove_path
       else retM ()))"

fun sync_entry :: "node \<Rightarrow> ('z slot_scheme, unit) prog"
  and sync_children :: "(string \<times> node) list \<Rightarrow> ('z slot_scheme, unit) prog" where
  "sync_entry (Link m t) = bindM (getM here) (\<lambda>h.
     if (case h of Some (Link m' t') \<Rightarrow> t' = t | _ \<Rightarrow> False) then copy_metadata m
     else thenM remove_path (thenM (create (Link fresh_meta t)) (copy_metadata m)))"
| "sync_entry (Dir m cs) = bindM (getM here) (\<lambda>h.
     thenM (whenM (case h of None \<Rightarrow> False | Some n \<Rightarrow> \<not> is_dir n) remove_path)
    (thenM (bindM (getM here) (\<lambda>h'. whenM (h' = None) (create (Dir fresh_meta []))))
    (thenM (prune_absent [] (keys cs))
    (thenM (sync_children cs)
       (copy_metadata m)))))"
| "sync_entry (File m c) = bindM (getM here) (\<lambda>h.
     if (case h of Some n \<Rightarrow> is_file n | None \<Rightarrow> False) then copy_file_in_place m c
     else thenM remove_path (thenM (copy_new_file m c) (copy_metadata m)))"
| "sync_entry (Special m) = raiseM (RestoreWorkerError ''type de fichier a synchroniser non pris en charge'')"
| "sync_children [] = retM ()"
| "sync_children ((k, n) # cs) = thenM (at_child k (sync_entry n)) (sync_children cs)"

definition sync_tree ::
  "(string \<times> node) list \<Rightarrow> string list \<Rightarrow> bool \<Rightarrow> ('z slot_scheme, unit) prog" where
  "sync_tree src protected remove_absent =
     (if \<exists>k \<in> set (keys src). k \<in> set protected
      then raiseM (RestoreWorkerError ''noms transactionnels presents dans la source'')
      else thenM (whenM remove_absent (prune_absent protected (keys src)))
             (sync_children src))"

subsection \<open>What the operations leave alone\<close>

text \<open>The tree operations change the slot they work at and the step counter, nothing else.\<close>

definition fs_rel :: "'z slot_scheme \<Rightarrow> 'z slot_scheme \<Rightarrow> bool" where
  "fs_rel s t \<longleftrightarrow>
     io_step s \<le> io_step t \<and> io_plan t = io_plan s \<and> slot.more t = slot.more s"

interpretation fs: state_preorder fs_rel
  by unfold_locales (auto simp: fs_rel_def)

lemma fs_rel_no_faults: "fs_rel s t \<Longrightarrow> no_faults s \<Longrightarrow> no_faults t"
  by (auto simp: fs_rel_def no_faults_def)

lemma keeps_tick [frame_rules]: "keeps fs_rel tick"
  by (auto simp: keeps_def fs_rel_def tick_def Let_def split: fault.splits)

lemma keeps_mod_here [frame_rules]: "keeps fs_rel (modM (here_update f))"
  by (auto simp: keeps_def fs_rel_def prog_simps)

lemma keeps_put_here [frame_rules]: "keeps fs_rel (put_here v)"
  unfolding put_here_def by (intro fs.keeps_intros frame_rules)

lemma keeps_create [frame_rules]: "keeps fs_rel (create n)"
  unfolding create_def by (intro fs.keeps_intros frame_rules)

lemma keeps_copystat [frame_rules]: "keeps fs_rel (copystat m)"
  unfolding copystat_def by (intro fs.keeps_intros keeps_cases frame_rules)

lemma keeps_copy_metadata [frame_rules]: "keeps fs_rel (copy_metadata m)"
  unfolding copy_metadata_def by (intro fs.keeps_intros keeps_cases frame_rules)

lemma keeps_write_content [frame_rules]: "keeps fs_rel (write_content c)"
  unfolding write_content_def
  by (intro fs.keeps_intros) (auto split: option.split node.split intro!: fs.keeps_intros frame_rules)

lemma keeps_unlink [frame_rules]: "keeps fs_rel unlink_missing_ok"
  unfolding unlink_missing_ok_def
  by (intro fs.keeps_intros) (auto split: option.split node.split intro: fs.keeps_intros frame_rules)

lemma keeps_at_child [frame_rules]:
  assumes "keeps fs_rel m" shows "keeps fs_rel (at_child k m)"
proof (rule keepsI)
  fix s r t assume run: "at_child k m s = (r, t)"
  show "fs_rel s t"
  proof (cases "\<exists>mt cs. here s = Some (Dir mt cs)")
    case False
    with run show ?thesis
      by (auto simp: at_child_def fs.reflR split: option.splits node.splits)
  next
    case True
    then obtain mt cs where h: "here s = Some (Dir mt cs)" by blast
    obtain r' t' where m: "m (s\<lparr>here := map_of cs k\<rparr>) = (r', t')" by fastforce
    from keepsD [OF assms m] have "fs_rel (s\<lparr>here := map_of cs k\<rparr>) t'" .
    with run h m show ?thesis by (auto simp: at_child_def fs_rel_def)
  qed
qed

lemma keeps_rmtree: "keeps (fs_rel :: 'z slot_scheme \<Rightarrow> _) (rmtree n)"
  "keeps (fs_rel :: 'z slot_scheme \<Rightarrow> _) (rmtree_entries cs)"
  by (induction n and cs rule: rmtree_rmtree_entries.induct)
    (auto intro!: fs.keeps_intros frame_rules)

lemma keeps_remove_path [frame_rules]: "keeps fs_rel remove_path"
  unfolding remove_path_def
  by (intro fs.keeps_intros) (auto split: option.split node.split intro: fs.keeps_intros frame_rules keeps_rmtree)

lemma keeps_reflink [frame_rules]: "keeps fs_rel (reflink_or_copy m c)"
  unfolding reflink_or_copy_def by (intro fs.keeps_intros frame_rules)

lemma keeps_copy_in_place [frame_rules]: "keeps fs_rel (copy_file_in_place m c)" "keeps fs_rel (copy_new_file m c)"
  unfolding copy_file_in_place_def copy_new_file_def by (intro fs.keeps_intros frame_rules)+

lemma keeps_clone [frame_rules]: "keeps (fs_rel :: 'z slot_scheme \<Rightarrow> _) (clone_entry n)"
  "keeps (fs_rel :: 'z slot_scheme \<Rightarrow> _) (clone_entries cs)"
  by (induction n and cs rule: clone_entry_clone_entries.induct)
    (auto intro!: fs.keeps_intros frame_rules)

lemma keeps_prune [frame_rules]: "keeps fs_rel (prune_absent p ns)"
  unfolding prune_absent_def by (intro fs.keeps_intros frame_rules)

lemma keeps_sync [frame_rules]: "keeps (fs_rel :: 'z slot_scheme \<Rightarrow> _) (sync_entry n)"
  "keeps (fs_rel :: 'z slot_scheme \<Rightarrow> _) (sync_children cs)"
  by (induction n and cs rule: sync_entry_sync_children.induct)
    (auto intro!: fs.keeps_intros frame_rules)

lemma keeps_sync_tree [frame_rules]: "keeps fs_rel (sync_tree src p r)"
  unfolding sync_tree_def by (intro fs.keeps_intros frame_rules)

subsection \<open>Specifications of the primitives\<close>

lemma calm_here [simp]: "calm F (s\<lparr>here := v\<rparr>) = calm F s"
  by (simp add: calm_def no_faults_def)

lemma wp_put_here:
  assumes "calm F s"
    and "\<And>t. calm F t \<Longrightarrow> here t = v \<Longrightarrow> Q () t"
    and "\<And>e t. \<not> F \<Longrightarrow> here t = here s \<Longrightarrow> E e t"
  shows "wp (put_here v) Q E s"
  unfolding put_here_def wp_then
  by (rule wp_tick_calm [OF assms(1)]) (auto simp: wp_mod intro!: assms(2,3))

lemma wp_create:
  assumes "calm F s" and "here s = None"
    and "\<And>t. calm F t \<Longrightarrow> here t = Some n \<Longrightarrow> Q () t"
    and "\<And>e t. \<not> F \<Longrightarrow> here t = None \<Longrightarrow> E e t"
  shows "wp (create n) Q E s"
  unfolding create_def wp_bind wp_get
  by (simp add: assms(2), rule wp_put_here [OF assms(1)]) (auto simp: assms)

lemma set_meta_simps [simp]:
  "set_meta m (set_meta m' n) = set_meta m n" "node_meta (set_meta m n) = m" "set_meta (node_meta n) n = n"
  "is_file (set_meta m n) = is_file n" "is_dir (set_meta m n) = is_dir n"
  by (cases n; simp)+

lemma wp_copystat:
  assumes "calm F s" and "here s = Some n"
    and "\<And>t. calm F t \<Longrightarrow> here t = Some (set_meta ((node_meta n)\<lparr>m_mtime := m_mtime m, m_mode := m_mode m\<rparr>) n) \<Longrightarrow> Q () t"
    and "\<And>e t m'. \<not> F \<Longrightarrow> here t = Some (set_meta m' n) \<Longrightarrow> E e t"
  shows "wp (copystat m) Q E s"
  unfolding copystat_def wp_bind wp_get
  by (simp add: assms(2) wp_then, rule wp_put_here [OF assms(1)]; (rule wp_put_here [where F = F])?)
    (use assms(2-4) assms(4) [of _ "node_meta n"] in auto)

lemma wp_copy_metadata:
  assumes "calm F s" and "here s = Some n"
    and "\<And>t. calm F t \<Longrightarrow> here t = Some (set_meta m n) \<Longrightarrow> Q () t"
    and "\<And>e t m'. \<not> F \<Longrightarrow> here t = Some (set_meta m' n) \<Longrightarrow> E e t"
  shows "wp (copy_metadata m) Q E s"
proof -
  have m: "(node_meta n)\<lparr>m_uid := m_uid m, m_gid := m_gid m, m_mtime := m_mtime m, m_mode := m_mode m\<rparr> = m" by simp
  have final: "Q () t" if "calm F t" "here t = Some (set_meta ((node_meta n)\<lparr>m_uid := m_uid m, m_gid := m_gid m,
      m_mtime := m_mtime m, m_mode := m_mode m\<rparr>) n)" for t
    using assms(3) [OF that(1)] that(2) unfolding m by blast
  show ?thesis
    unfolding copy_metadata_def wp_bind wp_get
    by (simp add: assms(2) wp_then, rule wp_put_here [OF assms(1)]; (rule wp_copystat [where F = F])?)
      (use assms(2,4) assms(4) [of _ "node_meta n"] in \<open>auto intro: final\<close>)
qed

lemma wp_write_content:
  assumes "calm F s" and "here s = Some (File m c')"
    and "\<And>t. calm F t \<Longrightarrow> here t = Some (File m c) \<Longrightarrow> Q () t"
    and "\<And>e t d. \<not> F \<Longrightarrow> here t = Some (File m d) \<Longrightarrow> E e t"
  shows "wp (write_content c) Q E s"
proof -
  let ?put = "\<lambda>d. put_here (Some (File m d)) :: ('a slot_scheme, unit) prog"
  have loop: "wp (forM ds ?put) (\<lambda>_ t. calm F t \<and> (\<exists>d. here t = Some (File m d))) (\<lambda>_ t. \<not> F \<and> (\<exists>d. here t = Some (File m d))) s" for ds
    by (rule wp_mono [OF wp_forM [where I = "\<lambda>t. calm F t \<and> (\<exists>d. here t = Some (File m d))"]])
      (use assms(1,2) in \<open>auto intro!: wp_put_here [where F = F]\<close>)
  have last: "wp (?put c) Q E t" if "calm F t" "here t = Some (File m d)" for t d
    by (rule wp_put_here [OF that(1)]) (use that assms(3,4) in auto)
  show ?thesis
    unfolding write_content_def wp_bind wp_get
    by (simp add: assms(2) wp_then, rule wp_mono [OF loop]) (use last assms(4) in auto)
qed

lemma wp_at_child:
  assumes "here s = Some (Dir mt cs)"
    and "wp m (\<lambda>x t. Q x (t\<lparr>here := Some (Dir mt (put_opt k (here t) cs))\<rparr>))
              (\<lambda>e t. E e (t\<lparr>here := Some (Dir mt (put_opt k (here t) cs))\<rparr>)) (s\<lparr>here := map_of cs k\<rparr>)"
  shows "wp (at_child k m) Q E s"
  using assms by (auto simp: wp_def at_child_def split: prod.splits sum.splits)

lemma good_set_meta [simp]: "good (set_meta m n) = good n"
  by (cases n) auto

lemma look_set_meta_same:
  "same a b \<Longrightarrow> same (set_meta m a) (set_meta m b)"
  unfolding same_def
proof
  fix p assume eq: "look a = look b"
  have leaf: "node_leaf a = node_leaf b" using fun_cong [OF eq, of "[]"] by simp
  show "look (set_meta m a) p = look (set_meta m b) p"
  proof (cases p)
    case Nil
    with leaf show ?thesis by (cases a; cases b) auto
  next
    case (Cons k q)
    have "children (set_meta m n) = children n" for n by (cases n) auto
    with Cons fun_cong [OF eq, of p] show ?thesis by simp
  qed
qed

subsection \<open>Removal removes\<close>

lemma wp_rmtree:
  fixes s :: "'z slot_scheme"
  shows "good n \<Longrightarrow> here s = Some n \<Longrightarrow> calm F s \<Longrightarrow>
      wp (rmtree n) (\<lambda>_ t. here t = None \<and> calm F t) (\<lambda>_ t. \<not> F \<and> good_opt (here t)) s"
    and "distinct (keys cs) \<Longrightarrow> here s = Some (Dir mt ds) \<Longrightarrow> good (Dir mt ds) \<Longrightarrow>
      (\<forall>(k, n) \<in> set cs. map_of ds k = Some n) \<Longrightarrow> calm F s \<Longrightarrow>
      wp (rmtree_entries cs)
        (\<lambda>_ t. \<exists>ds'. here t = Some (Dir mt ds') \<and> good (Dir mt ds') \<and> calm F t)
        (\<lambda>_ t. \<not> F \<and> good_opt (here t)) s"
proof (induction n and cs arbitrary: s and s mt ds rule: rmtree_rmtree_entries.induct)
  case (4 m cs)
  then have "wp (rmtree_entries cs)
        (\<lambda>_ t. \<exists>ds'. here t = Some (Dir m ds') \<and> good (Dir m ds') \<and> calm F t)
        (\<lambda>_ t. \<not> F \<and> good_opt (here t)) s" by auto
  then show ?case
    unfolding rmtree.simps wp_then
    by (rule wp_mono) (auto intro!: wp_put_here [where F = F])
next
  case (6 k n cs)
  have n: "good n" "map_of ds k = Some n"
    using 6 good_entries_map_of [of ds k] by auto
  show ?case
    unfolding rmtree_entries.simps wp_then
  proof (rule wp_at_child [OF 6(4)], rule wp_mono [OF 6(1)])
    show "good n" "here (s\<lparr>here := map_of ds k\<rparr>) = Some n" "calm F (s\<lparr>here := map_of ds k\<rparr>)"
      using n 6 by simp_all
  next
    fix x :: unit and t :: "'z slot_scheme"
    assume t: "here t = None \<and> calm F t"
    let ?ds = "put_opt k (here t) ds"
    have "good (Dir mt ?ds)" using 6(5) t by (intro good_Dir_put_opt) auto
    moreover have "\<forall>(k', n') \<in> set cs. map_of ?ds k' = Some n'"
      using 6(3,6) t by (fastforce simp: image_iff)
    ultimately show "wp (rmtree_entries cs)
        (\<lambda>_ t. \<exists>ds'. here t = Some (Dir mt ds') \<and> good (Dir mt ds') \<and> calm F t)
        (\<lambda>_ t. \<not> F \<and> good_opt (here t)) (t\<lparr>here := Some (Dir mt ?ds)\<rparr>)"
      using 6(3) t by (intro 6(2)) auto
  next
    fix e :: exn and t :: "'z slot_scheme"
    assume "\<not> F \<and> good_opt (here t)"
    with 6(5) good_Dir_put_opt show
      "\<not> F \<and> good_opt (here (t\<lparr>here := Some (Dir mt (put_opt k (here t) ds))\<rparr>))" by simp
  qed
qed (auto simp: wp_rules intro!: wp_put_here [where F = F])

lemma wp_remove_path:
  assumes "good_opt (here s)" and "calm F s"
    and "\<And>t. here t = None \<Longrightarrow> calm F t \<Longrightarrow> Q () t"
    and "\<And>e t. \<not> F \<Longrightarrow> good_opt (here t) \<Longrightarrow> E e t"
  shows "wp remove_path Q E s"
proof (cases "here s")
  case None
  with assms show ?thesis by (simp add: remove_path_def wp_rules)
next
  case (Some n)
  with assms(1) have "good n" by simp
  then have "wp (rmtree n) Q E s"
    by (rule wp_mono [OF wp_rmtree(1) [OF _ Some assms(2)]]) (use assms(3,4) in auto)
  with Some \<open>good n\<close> show ?thesis by (cases n) (auto simp: remove_path_def wp_rules)
qed

subsection \<open>Pruning and loops over entries\<close>

text \<open>
  \<open>dir_at mt ds P t\<close>: the slot holds a well-formed directory with metadata \<open>mt\<close> whose entries
  relate to \<open>ds\<close> by \<open>P\<close>.
\<close>

definition dir_at ::
  "meta \<Rightarrow> ((string \<Rightarrow> node option) \<Rightarrow> bool) \<Rightarrow> 'z slot_scheme \<Rightarrow> bool" where
  "dir_at mt P t \<longleftrightarrow> (\<exists>ds. here t = Some (Dir mt ds) \<and> good (Dir mt ds) \<and> P (map_of ds))"

lemma dir_atI: "here t = Some (Dir mt ds) \<Longrightarrow> good (Dir mt ds) \<Longrightarrow> P (map_of ds) \<Longrightarrow> dir_at mt P t"
  by (auto simp: dir_at_def)

lemma dir_at_mono: "dir_at mt P t \<Longrightarrow> (\<And>f. P f \<Longrightarrow> P' f) \<Longrightarrow> dir_at mt P' t"
  by (auto simp: dir_at_def)

lemma dir_at_good: "dir_at mt P t \<Longrightarrow> good_opt (here t)"
  by (auto simp: dir_at_def)

lemma dir_at_here: "dir_at mt P (t\<lparr>here := Some (Dir mt ds)\<rparr>) \<longleftrightarrow> good (Dir mt ds) \<and> P (map_of ds)"
  by (auto simp: dir_at_def)

text \<open>One entry of a directory is worked on; the others stay.\<close>

lemma wp_at_child_dir:
  assumes d: "dir_at mt P s" and F: "calm F s"
    and m: "\<And>f (u :: 'z slot_scheme). P f \<Longrightarrow> here u = f k \<Longrightarrow> good_opt (here u) \<Longrightarrow> calm F u \<Longrightarrow>
        wp m (\<lambda>_ t. good_opt (here t) \<and> calm F t \<and> P' (f(k := here t)))
             (\<lambda>_ t. \<not> F \<and> good_opt (here t) \<and> PE (f(k := here t))) u"
  shows "wp (at_child k m) (\<lambda>_ t. dir_at mt P' t \<and> calm F t) (\<lambda>_ t. \<not> F \<and> dir_at mt PE t) (s :: 'z slot_scheme)"
proof -
  from d obtain ds where ds: "here s = Some (Dir mt ds)" "good (Dir mt ds)" "P (map_of ds)"
    by (auto simp: dir_at_def)
  have "wp m (\<lambda>_ t. good_opt (here t) \<and> calm F t \<and> P' ((map_of ds)(k := here t)))
             (\<lambda>_ t. \<not> F \<and> good_opt (here t) \<and> PE ((map_of ds)(k := here t))) (s\<lparr>here := map_of ds k\<rparr>)"
    using ds F by (intro m) (auto intro: good_entries_map_of)
  then show ?thesis
    by (intro wp_at_child [OF ds(1)], elim wp_mono)
      (auto simp: dir_at_here good_Dir_put_opt [OF ds(2)] simp del: good.simps)
qed

lemma wp_prune_absent:
  assumes d: "dir_at mt (\<lambda>g. g = f) s" and F: "calm F s"
  shows "wp (prune_absent protected names)
    (\<lambda>_ t. dir_at mt (\<lambda>g. \<forall>k. g k = (if k \<in> set protected \<or> k \<in> set names then f k else None)) t \<and> calm F t)
    (\<lambda>_ t. \<not> F \<and> dir_at mt (\<lambda>g. \<forall>k. k \<in> set protected \<or> k \<in> set names \<longrightarrow> g k = f k) t) (s :: 'z slot_scheme)"
proof -
  from d obtain ds where ds: "here s = Some (Dir mt ds)" "map_of ds = f"
    by (auto simp: dir_at_def)
  let ?keep = "\<lambda>k. k \<in> set protected \<or> k \<in> set names"
  let ?body = "\<lambda>k. if k \<in> set protected then retM ()
       else if k \<notin> set names then at_child k remove_path else retM () :: ('z slot_scheme, unit) prog"
  have loop: "wp (forM ks ?body)
      (\<lambda>_ t. dir_at mt (\<lambda>g. \<forall>k. g k = (if ?keep k \<or> k \<notin> set ks then h k else None)) t \<and> calm F t)
      (\<lambda>_ t. \<not> F \<and> dir_at mt (\<lambda>g. \<forall>k. ?keep k \<longrightarrow> g k = h k) t) u"
    if "dir_at mt (\<lambda>g. g = h) u" "calm F u" for ks h and u :: "'z slot_scheme"
    using that
  proof (induction ks arbitrary: h u)
    case Nil
    then show ?case by (auto simp: wp_rules elim: dir_at_mono)
  next
    case (Cons k ks)
    show ?case
    proof (cases "?keep k")
      case True
      have "wp (forM ks ?body)
          (\<lambda>_ t. dir_at mt (\<lambda>g. \<forall>k'. g k' = (if ?keep k' \<or> k' \<notin> set (k # ks) then h k' else None)) t \<and> calm F t)
          (\<lambda>_ t. \<not> F \<and> dir_at mt (\<lambda>g. \<forall>k. ?keep k \<longrightarrow> g k = h k) t) u"
        by (rule wp_mono [OF Cons.IH [OF Cons.prems]]) (use True in \<open>auto elim!: dir_at_mono\<close>)
      with True show ?thesis by (auto simp: wp_rules)
    next
      case False
      have "wp (at_child k remove_path)
          (\<lambda>_ t. dir_at mt (\<lambda>g. g = h(k := None)) t \<and> calm F t)
          (\<lambda>_ t. \<not> F \<and> dir_at mt (\<lambda>g. \<forall>k. ?keep k \<longrightarrow> g k = h k) t) u"
        by (rule wp_at_child_dir [OF Cons.prems], rule wp_remove_path [where F = F]) (use False in auto)
      then have "wp (at_child k remove_path) (\<lambda>_. wp (forM ks ?body)
          (\<lambda>_ t. dir_at mt (\<lambda>g. \<forall>k'. g k' = (if ?keep k' \<or> k' \<notin> set (k # ks) then h k' else None)) t \<and> calm F t)
          (\<lambda>_ t. \<not> F \<and> dir_at mt (\<lambda>g. \<forall>k. ?keep k \<longrightarrow> g k = h k) t))
          (\<lambda>_ t. \<not> F \<and> dir_at mt (\<lambda>g. \<forall>k. ?keep k \<longrightarrow> g k = h k) t) u"
      proof (rule wp_mono)
        fix x :: unit and t :: "'z slot_scheme"
        assume t: "dir_at mt (\<lambda>g. g = h(k := None)) t \<and> calm F t"
        show "wp (forM ks ?body)
          (\<lambda>_ t. dir_at mt (\<lambda>g. \<forall>k'. g k' = (if ?keep k' \<or> k' \<notin> set (k # ks) then h k' else None)) t \<and> calm F t)
          (\<lambda>_ t. \<not> F \<and> dir_at mt (\<lambda>g. \<forall>k. ?keep k \<longrightarrow> g k = h k) t) t"
          by (rule wp_mono [OF Cons.IH [of "h(k := None)"]]) (use t False in \<open>auto elim!: dir_at_mono\<close>)
      qed
      with False show ?thesis by (auto simp: wp_rules)
    qed
  qed
  have "wp (forM (keys ds) ?body)
      (\<lambda>_ t. dir_at mt (\<lambda>g. \<forall>k. g k = (if ?keep k then f k else None)) t \<and> calm F t)
      (\<lambda>_ t. \<not> F \<and> dir_at mt (\<lambda>g. \<forall>k. ?keep k \<longrightarrow> g k = f k) t) s"
    by (rule wp_mono [OF loop [OF d F, of "keys ds"]])
      (auto elim!: dir_at_mono simp: ds(2) [symmetric] map_of_eq_None_iff)
  with ds show ?thesis by (simp add: prune_absent_def wp_rules)
qed

subsection \<open>Cloning and synchronising yield the source\<close>

text \<open>A slot that holds a tree with the same contents as \<open>n\<close>.\<close>

definition holds :: "node \<Rightarrow> node option \<Rightarrow> bool" where
  "holds n v \<longleftrightarrow> (\<exists>n'. v = Some n' \<and> good n' \<and> same n' n)"

lemma holds_good: "holds n v \<Longrightarrow> good_opt v"
  by (auto simp: holds_def)

lemma holds_Some: "holds n (Some n) \<longleftrightarrow> good n"
  by (auto simp: holds_def dest: same_sym)

text \<open>Entries after the children \<open>cs\<close> of a source directory were written over \<open>f\<close>.\<close>

definition written :: "(string \<times> node) list \<Rightarrow> (string \<Rightarrow> node option) \<Rightarrow> (string \<Rightarrow> node option) \<Rightarrow> bool" where
  "written cs f g \<longleftrightarrow> (\<forall>k. case map_of cs k of None \<Rightarrow> g k = f k | Some n \<Rightarrow> holds n (g k))"

definition untouched :: "(string \<times> node) list \<Rightarrow> (string \<Rightarrow> node option) \<Rightarrow> (string \<Rightarrow> node option) \<Rightarrow> bool" where
  "untouched cs f g \<longleftrightarrow> (\<forall>k. k \<notin> set (keys cs) \<longrightarrow> g k = f k)"

lemma written_Nil [simp]: "written [] f g \<longleftrightarrow> g = f"
  by (auto simp: written_def)

lemma untouched_refl [simp]: "untouched cs f f"
  by (simp add: untouched_def)

lemma written_absent: "written cs f g \<Longrightarrow> map_of cs k = None \<Longrightarrow> g k = f k"
  and written_present: "written cs f g \<Longrightarrow> map_of cs k = Some n \<Longrightarrow> holds n (g k)"
  unfolding written_def by (metis option.simps(4), metis option.simps(5))

lemma written_untouched: "written cs f g \<Longrightarrow> untouched cs f g"
  unfolding untouched_def map_of_None_key [symmetric] by (blast intro: written_absent)

lemma same_Dir_written:
  assumes "written cs f g" and "good (Dir m cs)" and "\<And>k. k \<notin> set (keys cs) \<Longrightarrow> f k = None"
    and "g = map_of ds" and "good (Dir m' ds)"
  shows "same (Dir m ds) (Dir m cs)"
proof (rule same_DirI)
  fix k
  show "rel_option same (map_of ds k) (map_of cs k)"
  proof (cases "map_of cs k")
    case None
    then have "f k = None" by (intro assms(3)) (simp add: map_of_eq_None_iff)
    with None written_absent [OF assms(1) None] assms(4) show ?thesis by simp
  next
    case (Some n)
    with written_present [OF assms(1) Some] assms(4) have "holds n (map_of ds k)" by simp
    with Some show ?thesis by (auto simp: holds_def)
  qed
qed

lemma wp_entry_step:
  assumes d: "dir_at mt (\<lambda>g. g = f) s" and F: "calm F s" and fresh: "k \<notin> set (keys cs)"
    and op: "\<And>u :: 'z slot_scheme. here u = f k \<Longrightarrow> good_opt (here u) \<Longrightarrow> calm F u \<Longrightarrow>
        wp m (\<lambda>_ t. holds n (here t) \<and> calm F t) (\<lambda>_ t. \<not> F \<and> good_opt (here t)) u"
    and rest: "\<And>g (u :: 'z slot_scheme). dir_at mt (\<lambda>g'. g' = g) u \<Longrightarrow> calm F u \<Longrightarrow> (\<forall>k'. k' \<noteq> k \<longrightarrow> g k' = f k') \<Longrightarrow>
        wp m' (\<lambda>_ t. dir_at mt (written cs g) t \<and> calm F t) (\<lambda>_ t. \<not> F \<and> dir_at mt (untouched cs g) t) u"
  shows "wp (thenM (at_child k m) m')
      (\<lambda>_ t. dir_at mt (written ((k, n) # cs) f) t \<and> calm F t)
      (\<lambda>_ t. \<not> F \<and> dir_at mt (untouched ((k, n) # cs) f) t) (s :: 'z slot_scheme)"
proof -
  have step: "wp (at_child k m)
      (\<lambda>_ t. dir_at mt (\<lambda>g. holds n (g k) \<and> (\<forall>k'. k' \<noteq> k \<longrightarrow> g k' = f k')) t \<and> calm F t)
      (\<lambda>_ t. \<not> F \<and> dir_at mt (untouched ((k, n) # cs) f) t) s"
    by (rule wp_at_child_dir [OF d F], rule wp_mono [OF op]) (auto simp: holds_good untouched_def)
  show ?thesis
    unfolding wp_then
  proof (rule wp_mono [OF step], goal_cases)
    case (1 x t)
    then obtain g where g: "dir_at mt (\<lambda>g'. g' = g) t" "holds n (g k)" "\<forall>k'. k' \<noteq> k \<longrightarrow> g k' = f k'"
      and "calm F t" by (auto simp: dir_at_def)
    show ?case
    proof (rule wp_mono [OF rest [OF g(1) \<open>calm F t\<close> g(3)]], goal_cases)
      case (1 x t)
      have "written ((k, n) # cs) f h" if "written cs g h" for h
        unfolding written_def
      proof
        fix j
        have "case map_of cs j of None \<Rightarrow> h j = g j | Some n \<Rightarrow> holds n (h j)"
          using that by (auto simp: written_def)
        moreover have "map_of cs k = None" using fresh by (simp add: map_of_None_key)
        ultimately show "case map_of ((k, n) # cs) j of None \<Rightarrow> h j = f j | Some n \<Rightarrow> holds n (h j)"
          using g(2,3) by (auto split: option.splits)
      qed
      with 1 show ?case by (auto elim: dir_at_mono)
    next
      case (2 e t)
      have "untouched ((k, n) # cs) f h" if "untouched cs g h" for h
        using that g(3) by (auto simp: untouched_def)
      with 2 show ?case by (auto elim: dir_at_mono)
    qed
  qed (auto elim: dir_at_mono)
qed

lemma wp_Dir_meta:
  assumes "dir_at m' (written cs f) s" and "calm F s" and "good (Dir m cs)"
    and "\<And>k. k \<notin> set (keys cs) \<Longrightarrow> f k = None"
  shows "wp (copy_metadata m) (\<lambda>_ t. holds (Dir m cs) (here t) \<and> calm F t)
    (\<lambda>_ t. \<not> F \<and> good_opt (here t)) s"
proof -
  from assms(1) obtain ds where ds: "here s = Some (Dir m' ds)" "good (Dir m' ds)" "written cs f (map_of ds)"
    by (auto simp: dir_at_def)
  have "same (Dir m ds) (Dir m cs)"
    by (rule same_Dir_written [OF ds(3) assms(3,4) refl ds(2)])
  with ds show ?thesis
    by (intro wp_copy_metadata [OF assms(2) ds(1)]) (auto simp: holds_def)
qed

lemma wp_new_entry:
  assumes "calm F s" and "here s = None" and "good n"
  shows "wp (thenM (create n) (copy_metadata m))
    (\<lambda>_ t. here t = Some (set_meta m n) \<and> calm F t) (\<lambda>_ t. \<not> F \<and> good_opt (here t)) s"
  unfolding wp_then
  by (rule wp_create [OF assms(1,2)]) (auto intro!: wp_copy_metadata [where F = F] simp: assms(3))

lemma wp_reflink_or_copy:
  assumes "calm F s" and "here s = None"
  shows "wp (reflink_or_copy m c) (\<lambda>_ t. holds (File m c) (here t) \<and> calm F t)
    (\<lambda>_ t. \<not> F \<and> good_opt (here t)) s"
proof -
  let ?H = "\<lambda>e t. \<not> F \<and> (\<forall>n. here t = Some n \<longrightarrow> is_file n)"
  have body: "wp (thenM (create (File fresh_meta (Bytes []))) (thenM (write_content c) (thenM tick (copy_metadata m))))
    (\<lambda>_ t. holds (File m c) (here t) \<and> calm F t) ?H s"
    unfolding wp_then
    apply (rule wp_create [OF assms])
     apply (rule wp_write_content [where F = F], assumption+)
      apply (rule wp_tick_calm [where F = F], assumption)
       apply (rule wp_copy_metadata [where F = F], assumption)
         apply (simp add: holds_def)+
    done
  have undo: "wp (thenM unlink_missing_ok (raiseM e)) (\<lambda>_ t. holds (File m c) (here t) \<and> calm F t)
      (\<lambda>_ t. \<not> F \<and> good_opt (here t)) t" if "?H e t" for e t
    using that
    by (cases "here t")
      (auto simp: unlink_missing_ok_def wp_rules split: node.split intro!: wp_put_here [where F = False])
  show ?thesis
    unfolding reflink_or_copy_def wp_try
    by (rule wp_mono [OF body]) (use undo in \<open>auto simp: good_opt_def elim!: is_file.elims\<close>)
qed

lemma wp_clone:
  fixes s :: "'z slot_scheme"
  shows "good n \<Longrightarrow> here s = None \<Longrightarrow> calm F s \<Longrightarrow>
      wp (clone_entry n) (\<lambda>_ t. holds n (here t) \<and> calm F t) (\<lambda>_ t. \<not> F \<and> good_opt (here t)) s"
    and "distinct (keys cs) \<Longrightarrow> good_entries cs \<Longrightarrow> dir_at mt (\<lambda>g. g = f) s \<Longrightarrow>
      (\<And>k. k \<in> set (keys cs) \<Longrightarrow> f k = None) \<Longrightarrow> calm F s \<Longrightarrow>
      wp (clone_entries cs) (\<lambda>_ t. dir_at mt (written cs f) t \<and> calm F t)
        (\<lambda>_ t. \<not> F \<and> dir_at mt (untouched cs f) t) s"
proof (induction n and cs arbitrary: s and s mt f rule: clone_entry_clone_entries.induct)
  case (1 m t)
  show ?case
    unfolding clone_entry.simps
    by (rule wp_mono [OF wp_new_entry [OF 1(3,2)]]) (auto simp: holds_def)
next
  case (2 m cs)
  show ?case
    unfolding clone_entry.simps wp_then [of "create _"]
  proof (rule wp_create [OF 2(4,3)], goal_cases)
    case (1 t)
    have d: "dir_at fresh_meta (\<lambda>g. g = Map.empty) t" using 1 by (intro dir_atI) auto
    have "wp (clone_entries cs) (\<lambda>_ t. dir_at fresh_meta (written cs Map.empty) t \<and> calm F t)
        (\<lambda>_ t. \<not> F \<and> dir_at fresh_meta (untouched cs Map.empty) t) t"
      using 2(2) by (intro 2(1) d 1) auto
    then show ?case
      unfolding wp_then
      by (rule wp_mono) (auto intro!: wp_Dir_meta 2(2) intro: dir_at_good)
  qed auto
next
  case (3 m c)
  then show ?case by (simp add: wp_reflink_or_copy)
next
  case (6 k n cs)
  show ?case
    unfolding clone_entries.simps
  proof (rule wp_entry_step [OF 6(5,7)])
    show "k \<notin> set (keys cs)" using 6(3) by simp
  next
    fix u :: "'z slot_scheme" assume "here u = f k" "calm F u"
    then show "wp (clone_entry n) (\<lambda>_ t. holds n (here t) \<and> calm F t) (\<lambda>_ t. \<not> F \<and> good_opt (here t)) u"
      using 6(4,6) by (intro 6(1)) auto
  next
    fix g and u :: "'z slot_scheme"
    assume "dir_at mt (\<lambda>g'. g' = g) u" "calm F u" "\<forall>k'. k' \<noteq> k \<longrightarrow> g k' = f k'"
    moreover from this(3) have "g j = None" if "j \<in> set (keys cs)" for j
      using 6(3) 6(6) [of j] that by (cases "j = k") auto
    ultimately show "wp (clone_entries cs) (\<lambda>_ t. dir_at mt (written cs g) t \<and> calm F t)
        (\<lambda>_ t. \<not> F \<and> dir_at mt (untouched cs g) t) u"
      using 6(3,4) by (intro 6(2)) auto
  qed
qed (auto simp: wp_rules elim: dir_at_mono)

lemma wp_copy_file_in_place:
  assumes "calm F s" and "here s = Some (File m' c')"
  shows "wp (copy_file_in_place m c) (\<lambda>_ t. holds (File m c) (here t) \<and> calm F t)
    (\<lambda>_ t. \<not> F \<and> good_opt (here t)) s"
  unfolding copy_file_in_place_def wp_then
  apply (rule wp_write_content [OF assms])
   apply (rule wp_write_content [where F = F], assumption+)
     apply (rule wp_tick_calm [where F = F], assumption)
      apply (rule wp_copy_metadata [where F = F], assumption)
        apply (simp add: holds_def)+
  done

lemma wp_sync_replace:
  assumes "good_opt (here s)" and "calm F s" and "good n" and "same (set_meta m n) n'"
  shows "wp (thenM remove_path (thenM (create n) (copy_metadata m)))
    (\<lambda>_ t. holds n' (here t) \<and> calm F t) (\<lambda>_ t. \<not> F \<and> good_opt (here t)) s"
  unfolding wp_then [of remove_path]
  by (rule wp_remove_path [OF assms(1,2)])
    (auto intro!: wp_mono [OF wp_new_entry [where F = F and n = n and m = m]] simp: holds_def assms(3,4))

lemma wp_copy_new_file:
  assumes "good_opt (here s)" and "calm F s"
  shows "wp (thenM remove_path (thenM (copy_new_file m c) (copy_metadata m)))
    (\<lambda>_ t. holds (File m c) (here t) \<and> calm F t) (\<lambda>_ t. \<not> F \<and> good_opt (here t)) s"
  unfolding copy_new_file_def wp_then
  apply (rule wp_remove_path [OF assms])
   apply (rule wp_create [where F = F], assumption+)
    apply (rule wp_write_content [where F = F], assumption+)
     apply (rule wp_copystat [where F = F], assumption+)
      apply (rule wp_copy_metadata [where F = F], assumption+)
       apply (simp_all add: holds_def)
  done

text \<open>
  Synchronising a source entry over whatever is at the destination leaves the source there, and
  the loop over the children of a directory changes no other entry, even when it is cut short.
\<close>

lemma wp_sync:
  fixes s :: "'z slot_scheme"
  shows "good n \<Longrightarrow> good_opt (here s) \<Longrightarrow> calm F s \<Longrightarrow>
      wp (sync_entry n) (\<lambda>_ t. holds n (here t) \<and> calm F t) (\<lambda>_ t. \<not> F \<and> good_opt (here t)) s"
    and "distinct (keys cs) \<Longrightarrow> good_entries cs \<Longrightarrow> dir_at mt (\<lambda>g. g = f) s \<Longrightarrow> calm F s \<Longrightarrow>
      wp (sync_children cs) (\<lambda>_ t. dir_at mt (written cs f) t \<and> calm F t)
        (\<lambda>_ t. \<not> F \<and> dir_at mt (untouched cs f) t) s"
proof (induction n and cs arbitrary: s and s mt f rule: sync_entry_sync_children.induct)
  case (1 m t)
  show ?case
  proof (cases "\<exists>m'. here s = Some (Link m' t)")
    case True
    then obtain m' where h: "here s = Some (Link m' t)" by blast
    then show ?thesis
      by (simp add: wp_bind wp_get) (rule wp_copy_metadata [OF 1(3) h]; simp add: holds_def)
  next
    case False
    then have "\<not> (case here s of Some (Link m' t') \<Rightarrow> t' = t | _ \<Rightarrow> False)"
      by (auto split: option.splits node.splits)
    with wp_sync_replace [OF 1(2,3), of "Link fresh_meta t" m "Link m t"] show ?thesis
      by (simp add: wp_bind wp_get)
  qed
next
  case (2 m cs)
  let ?rest = "thenM (prune_absent [] (keys cs)) (thenM (sync_children cs) (copy_metadata m)) :: ('z slot_scheme, unit) prog"
  let ?Q = "\<lambda>_ t. holds (Dir m cs) (here t) \<and> calm F t"
  let ?E = "\<lambda>_ t. \<not> F \<and> good_opt (here t)"
  have rest: "wp ?rest ?Q ?E u" if "here u = Some (Dir m' ds)" "good (Dir m' ds)" "calm F u" for u m' ds
  proof -
    have d: "dir_at m' (\<lambda>g. g = map_of ds) u" using that by (auto intro: dir_atI)
    show ?thesis
      unfolding wp_then
    proof (rule wp_mono [OF wp_prune_absent [OF d that(3)]], goal_cases)
      case (1 x t)
      then obtain g where g: "dir_at m' (\<lambda>g'. g' = g) t" "\<forall>k. k \<notin> set (keys cs) \<longrightarrow> g k = None" "calm F t"
        by (auto simp: dir_at_def)
      have "wp (sync_children cs) (\<lambda>_ t. dir_at m' (written cs g) t \<and> calm F t)
        (\<lambda>_ t. \<not> F \<and> dir_at m' (untouched cs g) t) t"
        using 2(2) by (intro 2(1) g) auto
      then show ?case
        by (rule wp_mono) (use g 2(2) in \<open>auto intro!: wp_Dir_meta intro: dir_at_good\<close>)
    qed (auto intro: dir_at_good)
  qed
  have mk: "wp (thenM (bindM (getM here) (\<lambda>h'. whenM (h' = None) (create (Dir fresh_meta [])))) ?rest) ?Q ?E u"
    if "here u = None" "calm F u" for u
    using that
    by (simp add: wp_then [of "bindM _ _"] wp_bind wp_get wp_when)
      (rule wp_create [OF that(2,1)]; auto intro: rest)
  show ?case
  proof (cases "\<exists>m' ds. here s = Some (Dir m' ds)")
    case True
    then obtain m' ds where h: "here s = Some (Dir m' ds)" by blast
    with 2(3) have "good (Dir m' ds)" by simp
    with rest [OF h _ 2(4)] h show ?thesis
      by (simp add: wp_bind wp_get wp_when wp_then)
  next
    case False
    show ?thesis
    proof (cases "here s")
      case None
      with mk [OF None 2(4)] show ?thesis by (simp add: wp_bind wp_get wp_when wp_then)
    next
      case (Some n)
      with False have nd: "\<not> is_dir n" by (cases n) auto
      have "wp remove_path (\<lambda>_. wp (thenM (bindM (getM here) (\<lambda>h'. whenM (h' = None) (create (Dir fresh_meta [])))) ?rest) ?Q ?E) ?E s"
        by (rule wp_remove_path [OF 2(3,4)]) (auto intro: mk)
      with Some nd show ?thesis by (simp add: wp_bind wp_get wp_when wp_then)
    qed
  qed
next
  case (3 m c)
  show ?case
  proof (cases "\<exists>m' c'. here s = Some (File m' c')")
    case True
    with 3 show ?thesis by (auto simp: wp_bind wp_get intro: wp_copy_file_in_place)
  next
    case False
    then have "\<not> (case here s of Some n \<Rightarrow> is_file n | None \<Rightarrow> False)"
      by (auto split: option.splits elim: is_file.elims)
    with wp_copy_new_file [OF 3(2,3)] show ?thesis by (simp add: wp_bind wp_get)
  qed
next
  case (6 k n cs)
  show ?case
    unfolding sync_children.simps
  proof (rule wp_entry_step [OF 6(5,6)])
    show "k \<notin> set (keys cs)" using 6(3) by simp
  next
    fix u :: "'z slot_scheme" assume "good_opt (here u)" "calm F u"
    then show "wp (sync_entry n) (\<lambda>_ t. holds n (here t) \<and> calm F t) (\<lambda>_ t. \<not> F \<and> good_opt (here t)) u"
      using 6(4) by (intro 6(1)) auto
  next
    fix g and u :: "'z slot_scheme"
    assume "dir_at mt (\<lambda>g'. g' = g) u" "calm F u"
    then show "wp (sync_children cs) (\<lambda>_ t. dir_at mt (written cs g) t \<and> calm F t)
        (\<lambda>_ t. \<not> F \<and> dir_at mt (untouched cs g) t) u"
      using 6(3,4) by (intro 6(2)) auto
  qed
qed (auto simp: wp_rules elim: dir_at_mono)

lemma wp_sync_tree:
  assumes "distinct (keys src)" and "good_entries src" and "set (keys src) \<inter> set protected = {}"
    and d: "dir_at mt (\<lambda>g. g = f) s" and F: "calm F s"
  shows "wp (sync_tree src protected ra)
    (\<lambda>_ t. dir_at mt (written src (\<lambda>k. if ra \<and> k \<notin> set protected \<and> k \<notin> set (keys src) then None else f k)) t \<and> calm F t)
    (\<lambda>_ t. \<not> F \<and> dir_at mt (\<lambda>g. \<forall>k \<in> set protected. g k = f k) t) s"
proof -
  let ?E = "\<lambda>_ t. \<not> F \<and> dir_at mt (\<lambda>g. \<forall>k \<in> set protected. g k = f k) t"
  have prot: "k \<notin> fst ` set src" if "k \<in> set protected" for k
    using that assms(3) by auto
  have sync: "wp (sync_children src) (\<lambda>_ t. dir_at mt (written src g) t \<and> calm F t) ?E u"
    if "dir_at mt (\<lambda>g'. g' = g) u" "calm F u" "\<forall>k \<in> set protected. g k = f k" for u :: "'a slot_scheme" and g
    by (rule wp_mono [OF wp_sync(2) [OF assms(1,2) that(1,2)]])
      (use that(3) prot in \<open>auto elim!: dir_at_mono simp: untouched_def\<close>)
  show ?thesis
  proof (cases ra)
    case True
    have "wp (prune_absent protected (keys src))
      (\<lambda>_. wp (sync_children src) (\<lambda>_ t. dir_at mt (written src
          (\<lambda>k. if ra \<and> k \<notin> set protected \<and> k \<notin> set (keys src) then None else f k)) t \<and> calm F t) ?E) ?E s"
    proof (rule wp_mono [OF wp_prune_absent [OF d F]], goal_cases)
      case (1 x t)
      then have "dir_at mt (\<lambda>g. g = (\<lambda>k. if ra \<and> k \<notin> set protected \<and> k \<notin> set (keys src) then None else f k)) t"
        using True by (auto elim!: dir_at_mono)
      with 1 show ?case by (intro sync) auto
    qed (auto elim: dir_at_mono)
    with True assms(3) show ?thesis by (auto simp: sync_tree_def wp_rules)
  next
    case False
    then show ?thesis
      using assms(3) sync [OF d F] by (auto simp: sync_tree_def wp_rules)
  qed
qed

end
