(* ===== verification/Docker_Control.thy ===== *)
theory Docker_Control
  imports File_Tree
begin

text \<open>
  The controllers of \<^verbatim>\<open>app/restore_worker.py\<close> through which a worker stops and starts
  Minecraft: \<open>DockerContainerController\<close>, \<open>DoormanController\<close> and \<open>DoormanAwareController\<close>.

  \<open>disk\<close> is the state of a worker: the file tree it works at, the two containers and the clock.
  Docker is not part of the repository; the model states what the code relies on. \<open>mc_up\<close> says that
  Minecraft's container runs, \<open>dm_up\<close> that the doorman's does, as Docker knows it. A container told
  to start runs, unless it shares its address (\<open>address_shared\<close>) with the other one and that one runs:
  Docker then refuses. \<open>stop()\<close> returns when Minecraft has stopped; the doorman may be leaving for a while
  (\<open>dm_leaving\<close>) before Docker reports it gone and its address is free.

  What Docker does by itself or reports is read from fields indexed by the step of the access: the name
  it resolves (\<open>resolved\<close>), whether Minecraft has ended by then (\<open>mc_dies\<close>), the status of a container that
  does not run (\<open>mc_idle\<close>), the health and the configuration of Minecraft's container (\<open>mc_report\<close>), whether
  a leaving doorman is gone (\<open>dm_gone\<close>). Any access may fail by the fault plan. \<open>clock\<close> is
  \<open>time.monotonic()\<close>; sleeping advances it by the time asked for plus a delay that is never negative.
\<close>

text \<open>The states of a container that does not run.\<close>

datatype idle = Created | Restarting | Removing | Paused | Exited | Dead

fun idle_text :: "idle \<Rightarrow> string" where
  "idle_text Created = ''created''"
| "idle_text Restarting = ''restarting''"
| "idle_text Removing = ''removing''"
| "idle_text Paused = ''paused''"
| "idle_text Exited = ''exited''"
| "idle_text Dead = ''dead''"

record disk = slot +
  mc_up :: bool
  dm_up :: bool
  dm_leaving :: bool
  address_shared :: bool
  resolved :: "string \<Rightarrow> nat \<Rightarrow> string"
  mc_dies :: "nat \<Rightarrow> bool"
  mc_idle :: "nat \<Rightarrow> idle"
  mc_report :: "nat \<Rightarrow> json \<times> json"
  dm_gone :: "nat \<Rightarrow> bool"
  clock :: rat
  delay :: "nat \<Rightarrow> rat"

definition removeprefix_slash :: "string \<Rightarrow> string" where
  "removeprefix_slash n = (case n of c # cs \<Rightarrow> if c = CHR ''/'' then cs else n | [] \<Rightarrow> [])"

text \<open>\<open>_CONTAINER_NAME_RE.fullmatch\<close>.\<close>

definition is_alnum_char :: "char \<Rightarrow> bool" where
  "is_alnum_char c \<longleftrightarrow> is_word_char c \<and> c \<noteq> CHR ''_''"

definition valid_container_name :: "string \<Rightarrow> bool" where
  "valid_container_name n = (case n of [] \<Rightarrow> False
     | c # cs \<Rightarrow> is_alnum_char c \<and> length cs \<le> 127 \<and>
         list_all (\<lambda>d. is_word_char d \<or> d = CHR ''.'' \<or> d = CHR ''-'') cs)"

text \<open>\<open>_container()\<close>: the container Docker resolves must bear the configured name.\<close>

definition container_get :: "string \<Rightarrow> string \<Rightarrow> (disk, unit) prog" where
  "container_get name mismatch =
     thenM tick (bindM (getM (\<lambda>s. removeprefix_slash (resolved s name (io_step s))))
       (\<lambda>actual. if actual \<noteq> name then raiseM (RestoreWorkerError mismatch) else retM ()))"

text \<open>\<open>container.reload()\<close>: what Docker knows of the container at that moment.\<close>

definition reload_mc :: "(disk, unit) prog" where
  "reload_mc = thenM tick (modM (\<lambda>s. s\<lparr>mc_up := mc_up s \<and> \<not> mc_dies s (io_step s)\<rparr>))"

definition reload_dm :: "(disk, unit) prog" where
  "reload_dm = thenM tick (modM (\<lambda>s.
     if dm_leaving s \<and> dm_gone s (io_step s) then s\<lparr>dm_up := False, dm_leaving := False\<rparr> else s))"

text \<open>\<open>container.status\<close> and \<open>container.attrs\<close> of Minecraft as of the last access.\<close>

definition mc_status :: "disk \<Rightarrow> string" where
  "mc_status s = (if mc_up s then ''running'' else idle_text (mc_idle s (io_step s)))"

definition container_attrs :: "string \<Rightarrow> json \<times> json \<Rightarrow> json" where
  "container_attrs status report = JObj
     [(''State'', JObj [(''Status'', JStr status), (''Health'', fst report)]), (''Config'', snd report)]"

definition mc_attrs :: "disk \<Rightarrow> json" where
  "mc_attrs s = container_attrs (mc_status s) (mc_report s (io_step s))"

definition sleep_for :: "rat \<Rightarrow> disk \<Rightarrow> disk" where
  "sleep_for d s = s\<lparr>clock := clock s + d + max 0 (delay s (io_step s))\<rparr>"

text \<open>
  The number of sleeps of a given length that fit before a deadline: it bounds the rounds of the
  two polling loops.
\<close>

definition rounds_left :: "rat \<Rightarrow> rat \<Rightarrow> disk \<Rightarrow> nat" where
  "rounds_left poll deadline s = nat \<lceil>(deadline - clock s) / poll\<rceil>"

lemma rounds_left_sleep:
  assumes "0 < poll" and "clock s < deadline"
  shows "rounds_left poll deadline (sleep_for poll s) < rounds_left poll deadline s"
proof -
  let ?x = "(deadline - clock s) / poll"
  have pos: "0 < ?x" using assms by simp
  have "(deadline - clock (sleep_for poll s)) / poll \<le> (deadline - (clock s + poll)) / poll"
    using assms(1) by (intro divide_right_mono) (auto simp: sleep_for_def)
  also have "\<dots> = ?x - 1" using assms(1) by (simp add: field_simps)
  finally have "\<lceil>(deadline - clock (sleep_for poll s)) / poll\<rceil> \<le> \<lceil>?x\<rceil> - 1"
    using ceiling_mono [of _ "?x - 1"] by simp
  moreover have "0 < \<lceil>?x\<rceil>" using pos by simp
  ultimately show ?thesis by (simp add: rounds_left_def)
qed

lemma tick_clock: "(r, t) = tick s \<Longrightarrow> clock t = clock s"
  by (auto simp: tick_def Let_def split: fault.splits)

lemma reload_clock: "(r, t) = reload_mc s \<Longrightarrow> clock t = clock s" "(r, t) = reload_dm s \<Longrightarrow> clock t = clock s"
  by (auto simp: reload_mc_def reload_dm_def prog_simps tick_def Let_def split: fault.splits)

lemma rounds_left_step:
  assumes "(Inr u, t) = reload_mc s" and "\<not> deadline \<le> clock t" and "\<not> poll \<le> 0"
  shows "rounds_left poll deadline (sleep_for poll t) < rounds_left poll deadline s"
proof -
  from assms(1) have "clock t = clock s" by (rule reload_clock)
  with rounds_left_sleep [of poll t deadline] assms(2,3) show ?thesis by (simp add: rounds_left_def)
qed

lemma rounds_left_probe:
  assumes "(Inr u, t) = thenM (container_get name msg) reload_dm s" and "\<not> deadline \<le> clock t" and "\<not> poll \<le> 0"
  shows "rounds_left poll deadline (sleep_for poll t) < rounds_left poll deadline s"
proof -
  from assms(1) have "clock t = clock s"
    by (auto simp: container_get_def prog_simps split: prod.splits sum.splits if_splits
        dest!: reload_clock(2) dest: tick_clock [OF sym])
  with rounds_left_sleep [of poll t deadline] assms(2,3) show ?thesis by (simp add: rounds_left_def)
qed

subsection \<open>The Minecraft container\<close>

record docker_config =
  c_name :: string
  c_timeout :: rat
  c_poll :: rat

definition mismatch_mc :: string where
  "mismatch_mc = ''le conteneur Docker resolu ne correspond pas a la cible''"

text \<open>The checks of the two constructors.\<close>

definition new_mc_controller :: "string \<Rightarrow> rat \<Rightarrow> rat \<Rightarrow> exn + docker_config" where
  "new_mc_controller name timeout poll =
     (if \<not> valid_container_name name then Inl (RestoreWorkerError ''nom de conteneur Minecraft invalide'')
      else if timeout \<le> 0 \<or> poll \<le> 0 then Inl (RestoreWorkerError ''delais de demarrage Minecraft invalides'')
      else Inr \<lparr>c_name = name, c_timeout = timeout, c_poll = poll\<rparr>)"

definition new_doorman_controller :: "string \<Rightarrow> rat \<Rightarrow> rat \<Rightarrow> exn + docker_config" where
  "new_doorman_controller name timeout poll =
     (if \<not> valid_container_name name then Inl (RestoreWorkerError ''nom de conteneur portier invalide'')
      else if timeout \<le> 0 \<or> poll \<le> 0 then Inl (RestoreWorkerError ''delais du portier invalides'')
      else Inr \<lparr>c_name = name, c_timeout = timeout, c_poll = poll\<rparr>)"

definition mc_stop :: "docker_config \<Rightarrow> (disk, unit) prog" where
  "mc_stop cfg =
     thenM (container_get (c_name cfg) mismatch_mc)
    (thenM reload_mc
    (bindM (getM mc_status) (\<lambda>status. whenM (status = ''running'')
       (thenM tick (modM (mc_up_update (\<lambda>_. False)))))))"

text \<open>\<open>_readiness\<close>: the status, the health and whether a health check is configured.\<close>

definition jget_or :: "json \<Rightarrow> string \<Rightarrow> json \<Rightarrow> json" where
  "jget_or j k dflt = (if jhas j k then jget j k else dflt)"

definition readiness :: "string \<Rightarrow> json \<Rightarrow> string \<times> json \<times> bool" where
  "readiness container_status attributes =
     (let attrs = (if truthy attributes then attributes else JObj []);
          state = (if is_obj attrs then jget_or attrs ''State'' (JObj []) else JObj []);
          config = (if is_obj attrs then jget_or attrs ''Config'' (JObj []) else JObj []);
          healthcheck = (if is_obj config then jget_or config ''Healthcheck'' (JObj []) else JObj []);
          test = (if is_obj healthcheck then jget healthcheck ''Test'' else JNull);
          health_expected = (truthy test \<and> test \<noteq> JArr [JStr ''NONE'']);
          health = (if is_obj state then jget_or state ''Health'' (JObj []) else JObj []);
          health_status = (if is_obj health then jget health ''Status'' else JNull);
          status = (if is_obj state then jget state ''Status'' else JNull)
      in (if truthy status then py_str (\<lambda>_. ''[...]'') status else container_status, health_status, health_expected))"

text \<open>
  One round of \<open>start()\<close> reads the container once: it is healthy (or has run long enough where no
  health check exists), has failed, has stopped, or the loop goes on. \<open>since\<close> is the clock of the
  first reading in a row that found it running.
\<close>

datatype verdict = Ready | Unhealthy | Stopped | Wait "rat option"

definition readiness_verdict ::
  "rat \<Rightarrow> rat option \<Rightarrow> rat \<Rightarrow> string \<times> json \<times> bool \<Rightarrow> verdict" where
  "readiness_verdict timeout since now r = (case r of (status, health, expected) \<Rightarrow>
     if status = ''running'' then
       (if expected then
          (if health = JStr ''healthy'' then Ready
           else if health = JStr ''unhealthy'' then Unhealthy
           else Wait since)
        else (case since of
            None \<Rightarrow> Wait (Some now)
          | Some r \<Rightarrow> if now - r \<ge> min 2 timeout then Ready else Wait since))
     else if status \<in> {''dead'', ''exited'', ''removing''} then Stopped
     else Wait None)"

text \<open>
  The loop itself. A poll interval that is not positive is refused by the constructor, so the
  branch for it is never taken.
\<close>

function await_ready :: "rat \<Rightarrow> rat \<Rightarrow> rat \<Rightarrow> rat option \<Rightarrow> disk \<Rightarrow> (exn + unit) \<times> disk" where
  "await_ready timeout poll deadline since s =
     (case reload_mc s of
        (Inl e, t) \<Rightarrow> (Inl e, t)
      | (Inr _, t) \<Rightarrow>
          (case readiness_verdict timeout since (clock t) (readiness (mc_status t) (mc_attrs t)) of
             Ready \<Rightarrow> (Inr (), t)
           | Unhealthy \<Rightarrow>
               (Inl (RestoreWorkerError ''Minecraft est devenu unhealthy apres son demarrage''), t)
           | Stopped \<Rightarrow>
               (Inl (RestoreWorkerError ''Minecraft s est arrete pendant son demarrage''), t)
           | Wait since' \<Rightarrow>
               if clock t \<ge> deadline
               then (Inl (RestoreWorkerError ''Minecraft n est pas devenu healthy dans le delai prevu''), t)
               else if poll \<le> 0 then (Inl (ValueError ''sleep length must be positive''), t)
               else await_ready timeout poll deadline since' (sleep_for poll t)))"
  by pat_completeness auto
termination
  by (relation "measure (\<lambda>(timeout, poll, deadline, since, s). rounds_left poll deadline s)")
    (auto intro: rounds_left_step)

declare await_ready.simps [simp del]

text \<open>\<open>container.start()\<close>, refused where the other container holds the shared address.\<close>

definition start_mc :: "(disk, unit) prog" where
  "start_mc = thenM tick (bindM (getM (\<lambda>s. address_shared s \<and> dm_up s)) (\<lambda>held.
     if held then raiseM (OSError ''Address already in use'') else modM (mc_up_update (\<lambda>_. True))))"

definition start_dm :: "(disk, unit) prog" where
  "start_dm = thenM tick (bindM (getM (\<lambda>s. address_shared s \<and> mc_up s)) (\<lambda>held.
     if held then raiseM (OSError ''Address already in use'') else modM (\<lambda>s. s\<lparr>dm_up := True, dm_leaving := False\<rparr>)))"

definition mc_start :: "docker_config \<Rightarrow> (disk, unit) prog" where
  "mc_start cfg =
     thenM (container_get (c_name cfg) mismatch_mc)
    (thenM reload_mc
    (thenM (bindM (getM mc_status) (\<lambda>status. whenM (status \<noteq> ''running'') start_mc))
    (bindM (getM clock) (\<lambda>now.
       await_ready (c_timeout cfg) (c_poll cfg) (now + c_timeout cfg) None))))"

subsection \<open>The doorman\<close>

definition mismatch_doorman :: string where
  "mismatch_doorman = ''le conteneur portier resolu ne correspond pas a la cible''"

definition engage :: "docker_config \<Rightarrow> (disk, unit) prog" where
  "engage cfg =
     thenM (container_get (c_name cfg) mismatch_doorman)
    (thenM reload_dm
    (bindM (getM dm_up) (\<lambda>up. whenM (\<not> up) start_dm)))"

text \<open>
  The loop of \<open>release()\<close>: until Docker no longer reports the doorman as running. An error of Docker
  other than a wrong name ends the wait.
\<close>

function await_released :: "docker_config \<Rightarrow> rat \<Rightarrow> disk \<Rightarrow> (exn + unit) \<times> disk" where
  "await_released cfg deadline s =
     (case thenM (container_get (c_name cfg) mismatch_doorman) reload_dm s of
        (Inl e, t) \<Rightarrow> if is_restore_worker_error e \<or> \<not> catchable e then (Inl e, t) else (Inr (), t)
      | (Inr _, t) \<Rightarrow>
          if \<not> dm_up t then (Inr (), t)
          else if clock t \<ge> deadline
          then (Inl (RestoreWorkerError ''le portier ne libere pas l adresse du serveur''), t)
          else if c_poll cfg \<le> 0 then (Inl (ValueError ''sleep length must be positive''), t)
          else await_released cfg deadline (sleep_for (c_poll cfg) t))"
  by pat_completeness auto
termination
  by (relation "measure (\<lambda>(cfg, deadline, s). rounds_left (c_poll cfg) deadline s)")
    (auto intro: rounds_left_probe)

declare await_released.simps [simp del]

definition release :: "docker_config \<Rightarrow> (disk, unit) prog" where
  "release cfg =
     bindM (exceptM (\<lambda>e. \<not> is_restore_worker_error e)
              (thenM (container_get (c_name cfg) mismatch_doorman) (retM True)) (\<lambda>_. retM False))
       (\<lambda>found. if \<not> found then retM ()
         else thenM reload_dm
             (thenM (bindM (getM dm_up) (\<lambda>up. whenM up
                (thenM tick (modM (dm_leaving_update (\<lambda>_. True))))))
             (bindM (getM clock) (\<lambda>now. await_released cfg (now + c_timeout cfg)))))"

subsection \<open>Both together\<close>

definition aware_stop :: "docker_config \<Rightarrow> docker_config \<Rightarrow> (disk, unit) prog" where
  "aware_stop mc dm = thenM (mc_stop mc) (ignoreM (engage dm))"

definition aware_start :: "docker_config \<Rightarrow> docker_config \<Rightarrow> (disk, unit) prog" where
  "aware_start mc dm = thenM (release dm) (mc_start mc)"

subsection \<open>What the controllers promise\<close>

text \<open>
  \<open>env_le s t\<close>: the same outside world, at least as many steps later. \<open>ctl_rel\<close> adds that the
  file tree is untouched.
\<close>

definition env_le :: "disk \<Rightarrow> disk \<Rightarrow> bool" where
  "env_le s t \<longleftrightarrow> io_step s \<le> io_step t \<and> io_plan t = io_plan s \<and> address_shared t = address_shared s \<and>
     resolved t = resolved s \<and> mc_dies t = mc_dies s \<and> mc_idle t = mc_idle s \<and> mc_report t = mc_report s \<and>
     dm_gone t = dm_gone s \<and> delay t = delay s"

definition ctl_rel :: "disk \<Rightarrow> disk \<Rightarrow> bool" where
  "ctl_rel s t \<longleftrightarrow> env_le s t \<and> here t = here s"

interpretation env: state_preorder env_le
  by unfold_locales (auto simp: env_le_def)

interpretation ctl: state_preorder ctl_rel
  by unfold_locales (auto simp: env_le_def ctl_rel_def)

lemma fs_rel_env: "fs_rel s t \<Longrightarrow> env_le s t \<and> mc_up t = mc_up s \<and> dm_up t = dm_up s \<and> clock t = clock s"
  by (cases s; cases t) (auto simp: fs_rel_def env_le_def)

lemma ctl_relD: "ctl_rel s t \<Longrightarrow> here t = here s" "ctl_rel s t \<Longrightarrow> env_le s t"
  by (simp_all add: ctl_rel_def)

lemma ctl_tick [frame_rules]: "keeps ctl_rel tick"
  by (auto simp: keeps_def ctl_rel_def env_le_def tick_def Let_def split: fault.splits)

lemma ctl_mod [frame_rules]:
  "keeps ctl_rel (modM (mc_up_update f))" "keeps ctl_rel (modM (dm_leaving_update f))"
  by (auto simp: keeps_def ctl_rel_def env_le_def prog_simps)

lemma ctl_primitives [frame_rules]:
  "keeps ctl_rel reload_mc" "keeps ctl_rel reload_dm" "keeps ctl_rel start_mc" "keeps ctl_rel start_dm"
  by (auto simp: keeps_def ctl_rel_def env_le_def prog_simps reload_mc_def reload_dm_def start_mc_def start_dm_def
      tick_def Let_def split: fault.splits)

lemma ctl_container_get [frame_rules]: "keeps ctl_rel (container_get name msg)"
  unfolding container_get_def by (intro ctl.keeps_intros frame_rules)

lemma ctl_sleep: "ctl_rel s (sleep_for d s)"
  by (simp add: ctl_rel_def env_le_def sleep_for_def)

text \<open>
  Minecraft is ready when the last answer of Docker says that it runs and, where a health check is
  configured, that it is healthy.
\<close>

definition mc_view :: "disk \<Rightarrow> string \<times> json \<times> bool" where
  "mc_view s = readiness (mc_status s) (mc_attrs s)"

definition mc_ready :: "disk \<Rightarrow> bool" where
  "mc_ready s \<longleftrightarrow> fst (mc_view s) = ''running'' \<and> (snd (snd (mc_view s)) \<longrightarrow> fst (snd (mc_view s)) = JStr ''healthy'')"

lemma mc_view_status: "fst (mc_view s) = mc_status s"
  by (cases "mc_idle s (io_step s)")
    (auto simp: mc_view_def readiness_def mc_attrs_def container_attrs_def mc_status_def jget_or_def jhas_def jget_def Let_def)

lemma mc_status_running [simp]: "mc_status s = ''running'' \<longleftrightarrow> mc_up s"
  by (cases "mc_idle s (io_step s)") (auto simp: mc_status_def)

lemma mc_ready_up: "mc_ready s \<Longrightarrow> mc_up s"
  by (simp add: mc_ready_def mc_view_status)

text \<open>What the loops do whatever Docker answers; \<open>start\<close> is the time before the loop.\<close>

definition started_well :: "rat \<Rightarrow> rat \<Rightarrow> disk \<Rightarrow> bool" where
  "started_well start timeout t \<longleftrightarrow> mc_ready t \<and> (snd (snd (mc_view t)) \<or> start + min 2 timeout \<le> clock t)"

lemma reload_mc_frame: "reload_mc s = (r, t) \<Longrightarrow> dm_up t = dm_up s \<and> dm_leaving t = dm_leaving s \<and> clock t = clock s \<and> (mc_up t \<longrightarrow> mc_up s)"
  and reload_dm_frame: "reload_dm s = (r, t) \<Longrightarrow> mc_up t = mc_up s \<and> clock t = clock s \<and> (dm_up t \<longrightarrow> dm_up s)"
  by (auto simp: reload_mc_def reload_dm_def prog_simps tick_def Let_def split: fault.splits if_splits)

lemma verdict_ready:
  assumes "readiness_verdict timeout since (clock t) (mc_view t) = Ready" and "\<And>r. since = Some r \<Longrightarrow> start \<le> r"
  shows "started_well start timeout t"
  using assms
  by (cases "mc_view t") (fastforce simp: started_well_def mc_ready_def readiness_verdict_def split: if_splits option.splits)

lemma verdict_wait:
  "readiness_verdict timeout since now v = Wait since' \<Longrightarrow> since' = Some r \<Longrightarrow> since = Some r \<or> r = now"
  by (auto simp: readiness_verdict_def split: if_splits option.splits prod.splits)

lemma await_ready_frame:
  "await_ready timeout poll deadline since s = (r, t) \<Longrightarrow> start \<le> clock s \<Longrightarrow> (\<And>x. since = Some x \<Longrightarrow> start \<le> x) \<Longrightarrow>
   ctl_rel s t \<and> dm_up t = dm_up s \<and> (mc_up t \<longrightarrow> mc_up s) \<and> (isl r \<or> started_well start timeout t)"
proof (induction timeout poll deadline since s rule: await_ready.induct)
  case (1 timeout poll deadline since s)
  obtain q u where u: "reload_mc s = (q, u)" by fastforce
  then have su: "ctl_rel s u" by (rule keepsD [OF ctl_primitives(1)])
  note up = reload_mc_frame [OF u]
  show ?case
  proof (cases q)
    case (Inl e)
    with 1(2) u su up show ?thesis by (subst (asm) await_ready.simps) auto
  next
    case (Inr x)
    define v where "v = readiness_verdict timeout since (clock u) (mc_view u)"
    note v = v_def [unfolded mc_view_def, symmetric]
    show ?thesis
    proof (cases "(\<exists>since'. v = Wait since') \<and> \<not> deadline \<le> clock u \<and> \<not> poll \<le> 0")
      case False
      have "v = Ready \<Longrightarrow> started_well start timeout u" by (rule verdict_ready) (use v_def 1(4) in auto)
      moreover from 1(2) u Inr False have "t = u \<and> (isl r \<or> v = Ready)"
        by (subst (asm) await_ready.simps) (cases v; auto simp: v split: if_splits)
      ultimately show ?thesis using su up by auto
    next
      case True
      then obtain since' where w: "v = Wait since'" by blast
      with True u Inr have "await_ready timeout poll deadline since s =
          await_ready timeout poll deadline since' (sleep_for poll u)"
        by (subst await_ready.simps) (simp add: v)
      with 1(2) have run: "await_ready timeout poll deadline since' (sleep_for poll u) = (r, t)" by simp
      have c: "start \<le> clock (sleep_for poll u)" using up True 1(3) by (auto simp: sleep_for_def max_def)
      have o: "start \<le> x" if "since' = Some x" for x
        using verdict_wait [OF w [unfolded v_def] that] 1(3,4) up by auto
      from 1(1) [OF u [symmetric] Inr _ _ _ run c o] w True v have
        "ctl_rel (sleep_for poll u) t \<and> dm_up t = dm_up (sleep_for poll u) \<and> (mc_up t \<longrightarrow> mc_up (sleep_for poll u)) \<and>
          (isl r \<or> started_well start timeout t)" by simp
      with ctl.transR [OF ctl.transR [OF su ctl_sleep]] up show ?thesis by (auto simp: sleep_for_def)
    qed
  qed
qed

lemma container_get_frame:
  "container_get name msg s = (r, t) \<Longrightarrow> mc_up t = mc_up s \<and> dm_up t = dm_up s \<and> dm_leaving t = dm_leaving s \<and> clock t = clock s"
  by (auto simp: container_get_def prog_simps tick_def Let_def split: prod.splits sum.splits if_splits fault.splits)

lemma await_released_frame:
  "await_released cfg deadline s = (r, t) \<Longrightarrow> ctl_rel s t \<and> mc_up t = mc_up s \<and> (dm_up t \<longrightarrow> dm_up s) \<and> clock s \<le> clock t"
proof (induction cfg deadline s rule: await_released.induct)
  case (1 cfg deadline s)
  obtain q u where u: "thenM (container_get (c_name cfg) mismatch_doorman) reload_dm s = (q, u)" by fastforce
  then have su: "ctl_rel s u" by (rule keepsD [rotated]) (intro ctl.keeps_intros frame_rules)
  from u have up: "mc_up u = mc_up s" "dm_up u \<longrightarrow> dm_up s" "clock u = clock s"
    by (auto simp: prog_simps split: prod.splits sum.splits dest!: container_get_frame reload_dm_frame)
  show ?case
  proof (cases "q = Inr () \<and> dm_up u \<and> \<not> deadline \<le> clock u \<and> \<not> c_poll cfg \<le> 0")
    case False
    with 1(2) u su up show ?thesis
      by (subst (asm) await_released.simps) (auto split: sum.splits if_splits)
  next
    case True
    with u have "await_released cfg deadline s = await_released cfg deadline (sleep_for (c_poll cfg) u)"
      by (subst await_released.simps) auto
    with 1(2) have "await_released cfg deadline (sleep_for (c_poll cfg) u) = (r, t)" by simp
    from 1(1) [OF u [symmetric] _ _ _ _ this] True have
      "ctl_rel (sleep_for (c_poll cfg) u) t \<and> mc_up t = mc_up (sleep_for (c_poll cfg) u) \<and>
        (dm_up t \<longrightarrow> dm_up (sleep_for (c_poll cfg) u)) \<and> clock (sleep_for (c_poll cfg) u) \<le> clock t" by simp
    moreover have "clock u \<le> clock (sleep_for (c_poll cfg) u)" using True by (auto simp: sleep_for_def)
    ultimately show ?thesis using ctl.transR [OF ctl.transR [OF su ctl_sleep]] up by (auto simp: sleep_for_def)
  qed
qed

lemma ctl_await [frame_rules]:
  "keeps ctl_rel (await_ready timeout poll deadline since)"
  "keeps ctl_rel (await_released cfg deadline)"
proof -
  show "keeps ctl_rel (await_ready timeout poll deadline since)"
  proof (rule keepsI)
    fix s r t assume "await_ready timeout poll deadline since s = (r, t)"
    then show "ctl_rel s t"
      using await_ready_frame [of timeout poll deadline since s r t "min (clock s) (case since of None \<Rightarrow> clock s | Some x \<Rightarrow> x)"]
      by auto
  qed
qed (auto intro!: keepsI dest: await_released_frame)

lemma ctl_ops [frame_rules]:
  "keeps ctl_rel (mc_stop mc)" "keeps ctl_rel (mc_start mc)"
  "keeps ctl_rel (engage dm)" "keeps ctl_rel (release dm)"
  unfolding mc_stop_def mc_start_def engage_def release_def
  by (intro ctl.keeps_intros frame_rules)+

lemma ctl_aware [frame_rules]:
  "keeps ctl_rel (aware_stop mc dm)" "keeps ctl_rel (aware_start mc dm)"
  unfolding aware_stop_def aware_start_def by (intro ctl.keeps_intros frame_rules)+

subsection \<open>Where nothing fails\<close>

text \<open>
  The time the sleeps of a polling loop take whose rounds are \<open>k\<close> steps long, the first reading being
  at step \<open>n\<close>.
\<close>

definition waited :: "rat \<Rightarrow> nat \<Rightarrow> disk \<Rightarrow> nat \<Rightarrow> nat \<Rightarrow> rat" where
  "waited poll k s n i = (\<Sum>l<i. poll + max 0 (delay s (n + k * l)))"

lemma waited_simps: "waited poll k s n 0 = 0"
  "waited poll k s n (Suc i) = poll + max 0 (delay s n) + waited poll k s (n + k) i"
  unfolding waited_def by (simp, subst sum.lessThan_Suc_shift, simp add: algebra_simps)

text \<open>Docker reports a running Minecraft as healthy, or as not healthy yet, at a step.\<close>

definition running_view :: "disk \<Rightarrow> nat \<Rightarrow> string \<times> json \<times> bool" where
  "running_view s n = readiness ''running'' (container_attrs ''running'' (mc_report s n))"

lemma running_view_status: "fst (running_view s n) = ''running''"
  by (simp add: running_view_def readiness_def container_attrs_def jget_or_def jhas_def jget_def Let_def)

definition healthy_at :: "disk \<Rightarrow> nat \<Rightarrow> bool" where
  "healthy_at s n \<longleftrightarrow> snd (snd (running_view s n)) \<and> fst (snd (running_view s n)) = JStr ''healthy''"

definition starting_at :: "disk \<Rightarrow> nat \<Rightarrow> bool" where
  "starting_at s n \<longleftrightarrow> snd (snd (running_view s n)) \<and>
     fst (snd (running_view s n)) \<notin> {JStr ''healthy'', JStr ''unhealthy''}"

text \<open>
  Whenever Minecraft is started it stays up, and after some readings that find it starting it is healthy
  before the delay of the start is over; whenever the doorman is told to leave it is gone before the
  delay of the release is over.
\<close>

definition comes_up :: "docker_config \<Rightarrow> disk \<Rightarrow> bool" where
  "comes_up mc s \<longleftrightarrow> 0 < c_poll mc \<and> (\<forall>n > io_step s. \<not> mc_dies s n) \<and>
     (\<forall>n > io_step s. \<exists>j. healthy_at s (n + j) \<and>
        (\<forall>i<j. starting_at s (n + i) \<and> waited (c_poll mc) 1 s n i < c_timeout mc))"

definition goes_away :: "docker_config \<Rightarrow> disk \<Rightarrow> bool" where
  "goes_away dm s \<longleftrightarrow> 0 < c_poll dm \<and>
     (\<forall>n > io_step s. \<exists>j. dm_gone s (n + 2 * j) \<and> (\<forall>i<j. waited (c_poll dm) 2 s n i < c_timeout dm))"

definition names_resolve :: "docker_config \<Rightarrow> disk \<Rightarrow> bool" where
  "names_resolve cfg s \<longleftrightarrow> (\<forall>n. removeprefix_slash (resolved s (c_name cfg) n) = c_name cfg)"

text \<open>
  Nothing fails: for a worker that knows Minecraft only, whose address nobody else has, and for the one
  that knows the doorman too.
\<close>

definition mc_able :: "docker_config \<Rightarrow> disk \<Rightarrow> bool" where
  "mc_able mc s \<longleftrightarrow> no_faults s \<and> names_resolve mc s \<and> comes_up mc s \<and> \<not> address_shared s"

definition aware_able :: "docker_config \<Rightarrow> docker_config \<Rightarrow> disk \<Rightarrow> bool" where
  "aware_able mc dm s \<longleftrightarrow> no_faults s \<and> names_resolve mc s \<and> names_resolve dm s \<and> comes_up mc s \<and> goes_away dm s"

lemma waited_env: "delay t = delay s \<Longrightarrow> waited poll k t n i = waited poll k s n i"
  by (simp add: waited_def)

lemma able_env_parts:
  assumes "env_le s t"
  shows "no_faults s \<Longrightarrow> no_faults t" and "names_resolve cfg s \<Longrightarrow> names_resolve cfg t"
    and "comes_up mc s \<Longrightarrow> comes_up mc t" and "goes_away dm s \<Longrightarrow> goes_away dm t"
    and "address_shared t = address_shared s"
proof -
  have v: "running_view t = running_view s" and d: "delay t = delay s"
    using assms by (auto simp: running_view_def env_le_def)
  have w: "waited poll k t n i = waited poll k s n i" for poll k n i by (rule waited_env [OF d])
  note e = assms [unfolded env_le_def]
  show "no_faults s \<Longrightarrow> no_faults t" using e by (auto simp: no_faults_def)
  show "names_resolve cfg s \<Longrightarrow> names_resolve cfg t" using e by (simp add: names_resolve_def)
  show "comes_up mc s \<Longrightarrow> comes_up mc t"
    unfolding comes_up_def healthy_at_def starting_at_def v w using e by simp
  show "goes_away dm s \<Longrightarrow> goes_away dm t" unfolding goes_away_def w using e by simp
  show "address_shared t = address_shared s" using e by simp
qed

lemma mc_able_env: "mc_able mc s \<Longrightarrow> env_le s t \<Longrightarrow> mc_able mc t"
  unfolding mc_able_def using able_env_parts by metis

lemma aware_able_env: "aware_able mc dm s \<Longrightarrow> env_le s t \<Longrightarrow> aware_able mc dm t"
  unfolding aware_able_def using able_env_parts by metis

lemma mc_able_faults: "mc_able mc s \<Longrightarrow> no_faults s"
  by (simp add: mc_able_def)

lemma aware_able_faults: "aware_able mc dm s \<Longrightarrow> no_faults s"
  by (simp add: aware_able_def)

text \<open>One access where nothing fails.\<close>

abbreviation next_step :: "disk \<Rightarrow> disk" where
  "next_step s \<equiv> s\<lparr>io_step := Suc (io_step s)\<rparr>"

lemma reload_mc_able:
  "no_faults s \<Longrightarrow> reload_mc s = (Inr (), (next_step s)\<lparr>mc_up := mc_up s \<and> \<not> mc_dies s (Suc (io_step s))\<rparr>)"
  using tick_no_faults [of s] by (simp add: reload_mc_def prog_simps)

lemma reload_dm_able:
  "no_faults s \<Longrightarrow> reload_dm s = (Inr (), if dm_leaving s \<and> dm_gone s (Suc (io_step s))
     then (next_step s)\<lparr>dm_up := False, dm_leaving := False\<rparr> else next_step s)"
  using tick_no_faults [of s] by (simp add: reload_dm_def prog_simps)

lemma container_get_able:
  assumes "no_faults s" and "names_resolve cfg s"
  shows "container_get (c_name cfg) msg s = (Inr (), next_step s)"
  using assms tick_no_faults [OF assms(1)] by (simp add: container_get_def prog_simps names_resolve_def)

text \<open>The loop of the start ends with the first healthy reading.\<close>

lemma await_ready_able:
  assumes "no_faults s" and "mc_up s" and "0 < poll" and "\<forall>n > io_step s. \<not> mc_dies s n"
    and "healthy_at s (Suc (io_step s) + j)"
    and "\<forall>i<j. starting_at s (Suc (io_step s) + i) \<and> clock s + waited poll 1 s (Suc (io_step s)) i < deadline"
  shows "\<exists>t. await_ready timeout poll deadline since s = (Inr (), t)"
  using assms
proof (induction j arbitrary: s since)
  case (0 s since)
  let ?u = "(next_step s)\<lparr>mc_up := True\<rparr>"
  have r: "reload_mc s = (Inr (), ?u)" using 0 by (simp add: reload_mc_able)
  have "readiness (mc_status ?u) (mc_attrs ?u) = (''running'', JStr ''healthy'', True)"
    using 0(5) running_view_status [of s "Suc (io_step s)"]
    by (cases "running_view s (Suc (io_step s))")
      (simp add: healthy_at_def mc_status_def mc_attrs_def running_view_def)
  then have "readiness_verdict timeout since (clock ?u) (readiness (mc_status ?u) (mc_attrs ?u)) = Ready"
    by (simp add: readiness_verdict_def)
  with r show ?case by (subst await_ready.simps) simp
next
  case (Suc j s since)
  let ?u = "(next_step s)\<lparr>mc_up := True\<rparr>"
  have r: "reload_mc s = (Inr (), ?u)" using Suc.prems by (simp add: reload_mc_able)
  have st: "starting_at s (Suc (io_step s))" and d: "clock s < deadline"
    using Suc.prems(6) [rule_format, of 0] by (simp_all add: waited_simps)
  then obtain since' where w: "readiness_verdict timeout since (clock s) (readiness (mc_status ?u) (mc_attrs ?u)) = Wait since'"
    using running_view_status [of s "Suc (io_step s)"]
    by (cases "running_view s (Suc (io_step s))")
      (auto simp: mc_status_def mc_attrs_def starting_at_def running_view_def readiness_verdict_def)
  let ?v = "sleep_for poll ?u"
  have later: "healthy_at ?v n = healthy_at s n" "starting_at ?v n = starting_at s n" "waited poll 1 ?v n i = waited poll 1 s n i" for n i
    by (simp_all add: healthy_at_def starting_at_def running_view_def sleep_for_def waited_def)
  have "\<exists>t. await_ready timeout poll deadline since' ?v = (Inr (), t)"
  proof (rule Suc.IH)
    show "no_faults ?v" using Suc.prems(1) by (auto simp: no_faults_def sleep_for_def)
    show "\<forall>n > io_step ?v. \<not> mc_dies ?v n" using Suc.prems(4) by (simp add: sleep_for_def)
    show "healthy_at ?v (Suc (io_step ?v) + j)" using Suc.prems(5) unfolding later by (simp add: sleep_for_def)
    show "\<forall>i<j. starting_at ?v (Suc (io_step ?v) + i) \<and> clock ?v + waited poll 1 ?v (Suc (io_step ?v)) i < deadline"
      unfolding later
    proof (intro allI impI)
      fix i assume "i < j"
      with Suc.prems(6) [rule_format, of "Suc i"] show
        "starting_at s (Suc (io_step ?v) + i) \<and> clock ?v + waited poll 1 s (Suc (io_step ?v)) i < deadline"
        by (simp add: sleep_for_def waited_simps algebra_simps)
    qed
  qed (use Suc.prems in \<open>simp_all add: sleep_for_def\<close>)
  with r w d Suc.prems(3) show ?case by (subst await_ready.simps) simp
qed

lemma await_released_able:
  assumes "no_faults s" and "names_resolve dm s" and "0 < c_poll dm" and "dm_up s \<longrightarrow> dm_leaving s"
    and "dm_gone s (Suc (Suc (io_step s)) + 2 * j)"
    and "\<forall>i<j. clock s + waited (c_poll dm) 2 s (Suc (Suc (io_step s))) i < deadline"
  shows "\<exists>t. await_released dm deadline s = (Inr (), t) \<and> \<not> dm_up t"
  using assms
proof (induction j arbitrary: s)
  case (0 s)
  have "no_faults (next_step s)" using 0(1) by (auto simp: no_faults_def)
  with 0 show ?case
    by (subst await_released.simps) (auto simp: container_get_able reload_dm_able prog_simps)
next
  case (Suc j s)
  have nf: "no_faults (next_step s)" using Suc.prems(1) by (auto simp: no_faults_def)
  let ?u = "s\<lparr>io_step := Suc (Suc (io_step s))\<rparr>"
  have d: "clock s < deadline" using Suc.prems(6) [rule_format, of 0] by (simp add: waited_simps)
  show ?case
  proof (cases "dm_up s \<and> \<not> dm_gone s (Suc (Suc (io_step s)))")
    case False
    with Suc.prems nf show ?thesis
      by (subst await_released.simps) (auto simp: container_get_able reload_dm_able prog_simps)
  next
    case True
    let ?v = "sleep_for (c_poll dm) ?u"
    have later: "waited (c_poll dm) 2 ?v n i = waited (c_poll dm) 2 s n i" for n i
      by (simp add: sleep_for_def waited_def)
    have "\<exists>t. await_released dm deadline ?v = (Inr (), t) \<and> \<not> dm_up t"
    proof (rule Suc.IH)
      show "no_faults ?v" using Suc.prems(1) by (auto simp: no_faults_def sleep_for_def)
      show "dm_gone ?v (Suc (Suc (io_step ?v)) + 2 * j)" using Suc.prems(5) by (simp add: sleep_for_def)
      show "\<forall>i<j. clock ?v + waited (c_poll dm) 2 ?v (Suc (Suc (io_step ?v))) i < deadline"
        unfolding later
      proof (intro allI impI)
        fix i assume "i < j"
        with Suc.prems(6) [rule_format, of "Suc i"] show
          "clock ?v + waited (c_poll dm) 2 s (Suc (Suc (io_step ?v))) i < deadline"
          by (simp add: sleep_for_def waited_simps algebra_simps)
      qed
    qed (use Suc.prems in \<open>simp_all add: sleep_for_def names_resolve_def\<close>)
    with True Suc.prems nf d show ?thesis
      by (subst await_released.simps) (simp add: container_get_able reload_dm_able prog_simps)
  qed
qed

text \<open>The operations where nothing fails.\<close>

lemma await_ready_from:
  assumes "no_faults u" and "comes_up mc u" and "mc_up u"
  shows "\<exists>t. await_ready (c_timeout mc) (c_poll mc) (clock u + c_timeout mc) None u = (Inr (), t)"
proof -
  from assms(2) obtain j where "healthy_at u (Suc (io_step u) + j)"
    "\<forall>i<j. starting_at u (Suc (io_step u) + i) \<and> waited (c_poll mc) 1 u (Suc (io_step u)) i < c_timeout mc"
    unfolding comes_up_def by blast
  then show ?thesis
    using assms by (intro await_ready_able [of u "c_poll mc" j]) (auto simp: comes_up_def)
qed

lemma await_released_from:
  assumes "no_faults u" and "names_resolve dm u" and "goes_away dm u" and "dm_up u \<longrightarrow> dm_leaving u"
  shows "\<exists>t. await_released dm (clock u + c_timeout dm) u = (Inr (), t) \<and> \<not> dm_up t"
proof -
  from assms(3) obtain j where "dm_gone u (Suc (Suc (io_step u)) + 2 * j)"
    "\<forall>i<j. waited (c_poll dm) 2 u (Suc (Suc (io_step u))) i < c_timeout dm"
    unfolding goes_away_def by (meson lessI less_SucI)
  then show ?thesis
    using assms by (intro await_released_able [of u dm j]) (auto simp: goes_away_def)
qed

lemma mc_stop_able:
  assumes "no_faults s" and "names_resolve mc s"
  shows "\<exists>x t. mc_stop mc s = (Inr x, t)"
proof -
  let ?u = "next_step s"
  have nf: "no_faults ?u" "no_faults ((next_step ?u)\<lparr>mc_up := b\<rparr>)" for b using assms(1) by (auto simp: no_faults_def)
  show ?thesis
    using assms nf reload_mc_able [OF nf(1)] tick_no_faults [OF nf(2) [of True]]
    by (simp add: mc_stop_def container_get_able prog_simps)
qed

lemma mc_start_able:
  assumes "no_faults s" and "names_resolve mc s" and "comes_up mc s" and "\<not> (address_shared s \<and> dm_up s)"
  shows "\<exists>t. mc_start mc s = (Inr (), t)"
proof -
  let ?u = "next_step s"
  let ?v = "next_step ?u"
  let ?w = "if mc_up s then ?v else (next_step ?v)\<lparr>mc_up := True\<rparr>"
  have le: "env_le s ?u" "env_le s ?v" "env_le s ?w" by (auto simp: env_le_def)
  have nf: "no_faults ?u" "no_faults ?v" "no_faults ?w" by (rule able_env_parts(1) [OF le(1) assms(1)]
      able_env_parts(1) [OF le(2) assms(1)] able_env_parts(1) [OF le(3) assms(1)])+
  have "\<not> mc_dies s (Suc (Suc (io_step s)))" using assms(3) by (simp add: comes_up_def)
  then have r: "reload_mc ?u = (Inr (), ?v)" using reload_mc_able [OF nf(1)] by (cases s) simp
  have st: "start_mc ?v = (Inr (), (next_step ?v)\<lparr>mc_up := True\<rparr>)" if "\<not> mc_up s"
    using tick_no_faults [OF nf(2)] assms(4) by (simp add: start_mc_def prog_simps)
  have "mc_up ?w" by simp
  from await_ready_from [OF nf(3) able_env_parts(3) [OF le(3) assms(3)] this]
  show ?thesis
    using r st container_get_able [OF assms(1,2)]
    by (cases "mc_up s") (simp_all add: mc_start_def prog_simps)
qed

lemma release_able:
  assumes "aware_able mc dm s"
  shows "\<exists>t. release dm s = (Inr (), t) \<and> \<not> dm_up t"
proof -
  from assms have a: "no_faults s" "names_resolve dm s" "goes_away dm s" by (simp_all add: aware_able_def)
  let ?u = "next_step s"
  obtain v where v: "reload_dm ?u = (Inr (), v)" and l: "env_le s v"
    using able_env_parts(1) [of s ?u, OF _ a(1)] reload_dm_able [of ?u] by (auto simp: env_le_def)
  let ?w = "if dm_up v then (next_step v)\<lparr>dm_leaving := True\<rparr> else v"
  have le: "env_le s ?w" using l by (auto simp: env_le_def)
  have "dm_up ?w \<longrightarrow> dm_leaving ?w" by simp
  from await_released_from [OF able_env_parts(1) [OF le a(1)] able_env_parts(2) [OF le a(2)] able_env_parts(4) [OF le a(3)] this]
  show ?thesis
    using v container_get_able [OF a(1,2)] tick_no_faults [OF able_env_parts(1) [OF l a(1)]]
    by (cases "dm_up v") (simp_all add: release_def prog_simps)
qed

lemma aware_stop_able:
  assumes "aware_able mc dm s"
  shows "\<exists>x t. aware_stop mc dm s = (Inr x, t)"
proof -
  from assms obtain x t where t: "mc_stop mc s = (Inr x, t)" using mc_stop_able unfolding aware_able_def by blast
  then have "env_le s t" using keepsD [OF ctl_ops(1)] ctl_relD by blast
  from aware_able_env [OF assms this] have a: "no_faults t" "names_resolve dm t" by (simp_all add: aware_able_def)
  have "catchable e" if "engage dm t = (Inl e, u)" for e u
  proof -
    have nf: "no_faults (next_step t)" using a(1) by (auto simp: no_faults_def)
    have nf2: "no_faults (s\<lparr>io_step := n, mc_up := b\<rparr>) = no_faults (s\<lparr>io_step := n\<rparr>)" for s :: disk and n b
      by (simp add: no_faults_def)
    show ?thesis
      using that reload_dm_able [OF nf] tick_no_faults [of "snd (reload_dm (next_step t))"] a
      by (auto simp: engage_def start_dm_def container_get_able prog_simps no_faults_def split: if_splits prod.splits sum.splits)
  qed
  with t show ?thesis by (cases "engage dm t") (auto simp: aware_stop_def prog_simps split: sum.splits)
qed

lemma aware_start_able:
  assumes "aware_able mc dm s"
  shows "\<exists>x t. aware_start mc dm s = (Inr x, t)"
proof -
  from release_able [OF assms] obtain t where t: "release dm s = (Inr (), t)" "\<not> dm_up t" by blast
  then have "env_le s t" using keepsD [OF ctl_ops(4)] ctl_relD by blast
  from aware_able_env [OF assms this] t(2) have "\<exists>u. mc_start mc t = (Inr (), u)"
    by (intro mc_start_able) (simp_all add: aware_able_def)
  with t show ?thesis by (auto simp: aware_start_def prog_simps)
qed

subsection \<open>The contract with the transactions\<close>

text \<open>
  The contract between the restore transaction and whatever stops and starts the server for it:
  neither operation touches the files, a stop that returns leaves Minecraft stopped and a start
  that returns leaves it running. Where \<open>able\<close> holds neither raises; the proposition \<open>F\<close> selects
  that case.
\<close>

locale controller =
  fixes stop start :: "(disk, unit) prog" and able :: "disk \<Rightarrow> bool"
  assumes able_faults: "able s \<Longrightarrow> no_faults s"
    and able_env: "able s \<Longrightarrow> env_le s t \<Longrightarrow> able t"
    and stop_spec: "(F \<Longrightarrow> able s) \<Longrightarrow>
      wp stop (\<lambda>_ t. ctl_rel s t \<and> \<not> mc_up t) (\<lambda>_ t. \<not> F \<and> ctl_rel s t) s"
    and start_spec: "(F \<Longrightarrow> able s) \<Longrightarrow>
      wp start (\<lambda>_ t. ctl_rel s t \<and> mc_up t) (\<lambda>_ t. \<not> F \<and> ctl_rel s t) s"

lemma ctl_wpI:
  assumes "keeps ctl_rel m" and "\<And>x t. m s = (Inr x, t) \<Longrightarrow> Q t" and "F \<Longrightarrow> \<exists>x t. m s = (Inr x, t)"
  shows "wp m (\<lambda>_ t. ctl_rel s t \<and> Q t) (\<lambda>_ t. \<not> F \<and> ctl_rel s t) s"
  using assms by (intro wpI) (auto dest: keepsD)

lemma tick_frame: "tick s = (r, t) \<Longrightarrow> mc_up t = mc_up s \<and> dm_up t = dm_up s \<and> dm_leaving t = dm_leaving s \<and> clock t = clock s"
  by (auto simp: tick_def Let_def split: fault.splits)

lemma start_mc_frame: "start_mc s = (r, t) \<Longrightarrow> dm_up t = dm_up s \<and> clock t = clock s"
  and start_dm_frame: "start_dm s = (r, t) \<Longrightarrow> mc_up t = mc_up s"
  by (auto simp: start_mc_def start_dm_def prog_simps tick_def Let_def split: fault.splits if_splits)

lemma mc_stop_stops: "mc_stop mc s = (Inr x, t) \<Longrightarrow> \<not> mc_up t"
  by (auto simp: mc_stop_def prog_simps split: prod.splits sum.splits if_splits
      dest!: tick_frame container_get_frame reload_mc_frame)

lemma mc_start_starts:
  assumes "mc_start mc s = (Inr x, t)"
  shows "started_well (clock s) (c_timeout mc) t"
proof -
  from assms obtain u where u: "clock u = clock s"
    and r: "await_ready (c_timeout mc) (c_poll mc) (clock u + c_timeout mc) None u = (Inr x, t)"
    by (auto simp: mc_start_def prog_simps split: prod.splits sum.splits if_splits
        dest!: container_get_frame reload_mc_frame start_mc_frame)
  from await_ready_frame [OF r, of "clock u"] u show ?thesis by simp
qed

lemma started_well_earlier: "started_well c timeout t \<Longrightarrow> c' \<le> c \<Longrightarrow> started_well c' timeout t"
  by (auto simp: started_well_def)

lemma started_well_up: "started_well c timeout t \<Longrightarrow> mc_up t"
  by (simp add: started_well_def mc_ready_up)

lemma engage_frame: "engage dm s = (r, t) \<Longrightarrow> mc_up t = mc_up s"
  by (auto simp: engage_def prog_simps split: prod.splits sum.splits if_splits
      dest!: container_get_frame reload_dm_frame start_dm_frame)

lemma release_frame: "release dm s = (r, t) \<Longrightarrow> mc_up t = mc_up s \<and> clock s \<le> clock t"
  by (auto simp: release_def prog_simps split: prod.splits sum.splits if_splits
      dest!: tick_frame container_get_frame reload_dm_frame await_released_frame)

lemma aware_stop_stops: "aware_stop mc dm s = (Inr x, t) \<Longrightarrow> \<not> mc_up t"
  by (auto simp: aware_stop_def prog_simps split: prod.splits sum.splits if_splits
      dest!: mc_stop_stops engage_frame)

lemma aware_start_starts: "aware_start mc dm s = (Inr x, t) \<Longrightarrow> started_well (clock s) (c_timeout mc) t"
  by (auto simp: aware_start_def prog_simps split: prod.splits sum.splits
      dest!: mc_start_starts release_frame intro: started_well_earlier)

text \<open>The two controllers of the worker honour the contract.\<close>

interpretation plain: controller "mc_stop mc" "mc_start mc" "mc_able mc"
proof
  fix F s assume a: "F \<Longrightarrow> mc_able mc s"
  show "wp (mc_stop mc) (\<lambda>_ t. ctl_rel s t \<and> \<not> mc_up t) (\<lambda>_ t. \<not> F \<and> ctl_rel s t) s"
  proof (intro ctl_wpI frame_rules)
    assume F
    with a show "\<exists>x t. mc_stop mc s = (Inr x, t)" by (intro mc_stop_able) (simp_all add: mc_able_def)
  qed (auto dest: mc_stop_stops)
  show "wp (mc_start mc) (\<lambda>_ t. ctl_rel s t \<and> mc_up t) (\<lambda>_ t. \<not> F \<and> ctl_rel s t) s"
  proof (intro ctl_wpI frame_rules)
    assume F
    with a have "\<exists>t. mc_start mc s = (Inr (), t)" by (intro mc_start_able) (simp_all add: mc_able_def)
    then show "\<exists>x t. mc_start mc s = (Inr x, t)" by blast
  qed (auto dest: mc_start_starts started_well_up)
qed (auto intro: mc_able_env mc_able_faults)

interpretation aware: controller "aware_stop mc dm" "aware_start mc dm" "aware_able mc dm"
  by unfold_locales
    (auto intro: aware_able_env intro!: ctl_wpI frame_rules aware_stop_able aware_start_able
      dest: aware_stop_stops aware_start_starts started_well_up aware_able_faults)

subsection \<open>The shared address\<close>

text \<open>Docker never lets both containers have the address; no operation changes that.\<close>

definition exclusive :: "disk \<Rightarrow> bool" where
  "exclusive s \<longleftrightarrow> (address_shared s \<longrightarrow> \<not> (mc_up s \<and> dm_up s))"

lemma exclusive_primitives [frame_rules]:
  "keeps (inv_rel exclusive) tick" "keeps (inv_rel exclusive) reload_mc" "keeps (inv_rel exclusive) reload_dm"
  "keeps (inv_rel exclusive) start_mc" "keeps (inv_rel exclusive) start_dm"
  "keeps (inv_rel exclusive) (modM (mc_up_update (\<lambda>_. False)))" "keeps (inv_rel exclusive) (modM (dm_leaving_update f))"
  by (auto simp: keeps_def inv_rel_def exclusive_def prog_simps reload_mc_def reload_dm_def start_mc_def start_dm_def
      tick_def Let_def split: fault.splits if_splits)

lemma exclusive_get [frame_rules]: "keeps (inv_rel exclusive) (container_get name msg)"
  unfolding container_get_def by (intro inv.keeps_intros frame_rules)

lemma exclusive_await [frame_rules]:
  "keeps (inv_rel exclusive) (await_ready timeout poll deadline since)"
  "keeps (inv_rel exclusive) (await_released cfg deadline)"
proof -
  have shared: "address_shared t = address_shared s" if "ctl_rel s t" for s t
    using that by (simp add: ctl_rel_def env_le_def)
  show "keeps (inv_rel exclusive) (await_ready timeout poll deadline since)"
  proof (rule keepsI)
    fix s r t assume "await_ready timeout poll deadline since s = (r, t)"
    from await_ready_frame [OF this, of "min (clock s) (case since of None \<Rightarrow> clock s | Some x \<Rightarrow> x)"] shared [of s t]
    show "inv_rel exclusive s t" by (auto simp: inv_rel_def exclusive_def)
  qed
  show "keeps (inv_rel exclusive) (await_released cfg deadline)"
    using shared by (auto intro!: keepsI simp: inv_rel_def exclusive_def dest!: await_released_frame)
qed

lemma exclusive_aware:
  "keeps (inv_rel exclusive) (aware_stop mc dm)" "keeps (inv_rel exclusive) (aware_start mc dm)"
  unfolding aware_stop_def aware_start_def mc_stop_def mc_start_def engage_def release_def
  by (intro inv.keeps_intros frame_rules)+

text \<open>
  An error of Docker at the first look-up of the doorman is taken for its absence: it is not told to
  leave, and the start of Minecraft is refused.
\<close>

lemma start_refused:
  assumes "address_shared s" and "dm_up s" and "\<not> mc_up s" and "mc_start mc s = (r, t)"
  shows "isl r \<and> \<not> mc_up t \<and> dm_up t"
proof -
  have no: "start_mc u = (r, t) \<Longrightarrow> isl r \<and> mc_up t = mc_up u \<and> dm_up t" if "address_shared u" "dm_up u" for u r t
    using that by (auto simp: start_mc_def prog_simps tick_def Let_def split: fault.splits if_splits)
  have sh: "address_shared u = address_shared v" if "keeps ctl_rel m" "m v = (q, u)" for m :: "(disk, unit) prog" and u v q
    using keepsD [OF that] by (simp add: ctl_rel_def env_le_def)
  obtain q1 u1 where 1: "container_get (c_name mc) mismatch_mc s = (q1, u1)" by fastforce
  obtain q2 u2 where 2: "reload_mc u1 = (q2, u2)" by fastforce
  obtain q3 u3 where 3: "start_mc u2 = (q3, u3)" by fastforce
  have "dm_up u1 \<and> \<not> mc_up u1 \<and> address_shared u1"
    using container_get_frame [OF 1] sh [OF ctl_container_get 1] assms by simp
  moreover from this have "dm_up u2 \<and> \<not> mc_up u2 \<and> address_shared u2"
    using reload_mc_frame [OF 2] sh [OF ctl_primitives(1) 2] by simp
  moreover from this have "isl q3 \<and> \<not> mc_up u3 \<and> dm_up u3" using no [OF _ _ 3] by simp
  ultimately show ?thesis
    using assms(4) 1 2 3 by (cases q1; cases q2; cases q3) (auto simp: mc_start_def prog_simps)
qed

end
