(* ===== verification/Utf8.thy ===== *)
theory Utf8
  imports Prelude
begin

text \<open>
  UTF-8 with replacement characters, as Python decodes it: texts are lists of code points here. The
  wire of RCON and the file \<^verbatim>\<open>server.properties\<close> are read this way.
\<close>

type_synonym codepoints = "nat list"

definition scalar :: "nat \<Rightarrow> bool" where
  "scalar c \<longleftrightarrow> c < 0xD800 \<or> (0xDFFF < c \<and> c < 0x110000)"

definition cp_bytes :: "nat \<Rightarrow> nat list" where
  "cp_bytes c =
     (if c < 0x80 then [c]
      else if c < 0x800 then [0xC0 + c div 64, 0x80 + c mod 64]
      else if c < 0x10000 then [0xE0 + c div 4096, 0x80 + c div 64 mod 64, 0x80 + c mod 64]
      else [0xF0 + c div 262144, 0x80 + c div 4096 mod 64, 0x80 + c div 64 mod 64, 0x80 + c mod 64])"

definition cont :: "nat \<Rightarrow> bool" where
  "cont b \<longleftrightarrow> 0x80 \<le> b \<and> b < 0xC0"

text \<open>The second byte a lead byte of three or four bytes admits.\<close>

definition second_ok :: "nat \<Rightarrow> nat \<Rightarrow> bool" where
  "second_ok lead b \<longleftrightarrow> cont b \<and> (lead = 0xE0 \<longrightarrow> 0xA0 \<le> b) \<and> (lead = 0xED \<longrightarrow> b < 0xA0) \<and>
     (lead = 0xF0 \<longrightarrow> 0x90 \<le> b) \<and> (lead = 0xF4 \<longrightarrow> b < 0x90)"

text \<open>
  One step of \<open>bytes.decode("utf-8", errors="replace")\<close>: the code point and the number of bytes
  it took. A sequence cut short or malformed gives one U+FFFD for its longest valid beginning.
\<close>

fun decode_step :: "nat list \<Rightarrow> nat \<times> nat" where
  "decode_step [] = (0xFFFD, 1)"
| "decode_step (b0 # bs) =
     (if b0 < 0x80 then (b0, 1)
      else if b0 < 0xC2 \<or> 0xF4 < b0 then (0xFFFD, 1)
      else if b0 < 0xE0 then
        (case bs of b1 # _ \<Rightarrow> if cont b1 then (64 * (b0 - 0xC0) + (b1 - 0x80), 2) else (0xFFFD, 1)
         | [] \<Rightarrow> (0xFFFD, 1))
      else (case bs of
          b1 # bs1 \<Rightarrow>
            if \<not> second_ok b0 b1 then (0xFFFD, 1)
            else (case bs1 of
                b2 # bs2 \<Rightarrow>
                  if \<not> cont b2 then (0xFFFD, 2)
                  else if b0 < 0xF0 then (4096 * (b0 - 0xE0) + 64 * (b1 - 0x80) + (b2 - 0x80), 3)
                  else (case bs2 of
                      b3 # _ \<Rightarrow>
                        if \<not> cont b3 then (0xFFFD, 3)
                        else (262144 * (b0 - 0xF0) + 4096 * (b1 - 0x80) + 64 * (b2 - 0x80) + (b3 - 0x80), 4)
                    | [] \<Rightarrow> (0xFFFD, 3))
              | [] \<Rightarrow> (0xFFFD, 2))
        | [] \<Rightarrow> (0xFFFD, 1)))"

lemma decode_step_pos: "0 < snd (decode_step bs)"
  by (cases bs) (auto split: list.split)

function decode_nats :: "nat list \<Rightarrow> codepoints" where
  "decode_nats [] = []"
| "decode_nats (b # bs) = fst (decode_step (b # bs)) # decode_nats (drop (snd (decode_step (b # bs))) (b # bs))"
  by pat_completeness auto
termination
  by (relation "measure length") (use decode_step_pos in \<open>auto simp del: decode_step.simps\<close>)

end
