(* ===== verification/Archive_Validation.thy ===== *)
theory Archive_Validation
  imports File_Tree Utf8
begin

text \<open>
  Validation and extraction of backup archives: \<^verbatim>\<open>app/adapters/archive_validation.py\<close> and
  \<open>_extract_verified_archive\<close> of \<^verbatim>\<open>app/restore_worker.py\<close>.

  A \<open>tarball\<close> is what \<open>tarfile\<close> yields when the archive is read: its members in order, the error
  that ends the reading if it raises one, and the stat fingerprint of the file. Whether \<open>tarfile\<close> notices a
  damage is its own affair: a bad header after the first member, for one, ends the list without an error. The
  texts of the model stop at code point 255, so a world name of \<^verbatim>\<open>server.properties\<close> with another character
  names no member; it is shown with question marks.

  The archive may be replaced between two readings: \<open>arc n\<close> is the archive as it is at step \<open>n\<close>. One reading,
  from \<open>open\<close> to the end of the list, is of one archive.

  The extraction works on the tree of the file system, at paths resolved as the system does: an absolute name
  starts at the root and \<open>..\<close> climbs. That it stays in the staging directory is a theorem about the check
  of the names.
\<close>

subsection \<open>Member names\<close>

definition restore_transaction_names :: "string list" where
  "restore_transaction_names =
     [''.mc-restore-stage'', ''.mc-restore-rollback'', ''.mc-restore-transaction.json'',
      ''.mc-restore-transaction.json.tmp'']"

text \<open>
  \<open>PurePosixPath(s).parts\<close>: the root of an absolute path comes first (two slashes are a root of their own);
  empty parts and dots are dropped.
\<close>

definition is_absolute :: "string \<Rightarrow> bool" where
  "is_absolute s \<longleftrightarrow> startswith s ''/''"

definition path_root :: "string \<Rightarrow> string list" where
  "path_root s =
     (if startswith s ''//'' \<and> \<not> startswith s ''///'' then [''//''] else if is_absolute s then [''/''] else [])"

definition path_parts :: "string \<Rightarrow> string list" where
  "path_parts s = path_root s @ filter (\<lambda>p. p \<noteq> [] \<and> p \<noteq> ''.'') (split_on (CHR ''/'') s)"

definition safe_archive_member_name :: "string \<Rightarrow> exn + string" where
  "safe_archive_member_name name =
     (if name = [] \<or> list_ex (\<lambda>c. code c = 0 \<or> code c = 10 \<or> code c = 13 \<or> code c = 92) name
      then Inl (ValueError ''chemin d archive invalide'')
      else if is_absolute name \<or> ''..'' \<in> set (path_parts name)
      then Inl (ValueError (''chemin dangereux dans l archive : '' @ name))
      else let normalised = join ''/'' (path_parts name); root_name = hd (split_on (CHR ''/'') normalised)
           in if root_name \<in> set restore_transaction_names
              then Inl (ValueError (''nom reserve dans l archive : '' @ root_name))
              else Inr (if normalised = [] then ''.'' else normalised))"

subsection \<open>Inspection\<close>

datatype member_kind = KDir | KReg | KSym | KLnk | KDev | KFifo | KOther

record member =
  mem_name :: string
  mem_kind :: member_kind
  mem_size :: nat
  mem_data :: "string option"
  mem_uid :: int
  mem_gid :: int
  mem_mode :: int
  mem_mtime :: int

record tarball =
  tar_members :: "member list"
  tar_error :: "string option"
  tar_fingerprint :: "int \<times> int \<times> int \<times> int"

record inspection =
  insp_ok :: bool
  insp_restorable :: bool
  insp_detail :: string
  insp_world :: string

definition max_server_properties_bytes :: int where
  "max_server_properties_bytes = 1024 * 1024"

record scan =
  regular_sizes :: "(string \<times> nat) list"
  seen_entries :: "string list"
  server_properties :: "string option"
  regular_count :: nat

definition scan_empty :: scan where
  "scan_empty = \<lparr>regular_sizes = [], seen_entries = [], server_properties = None, regular_count = 0\<rparr>"

text \<open>The body of the loop of \<open>inspect_archive\<close> for one member.\<close>

definition inspect_member :: "member \<Rightarrow> scan \<Rightarrow> string + scan" where
  "inspect_member m sc = (case safe_archive_member_name (mem_name m) of
       Inl e \<Rightarrow> Inl (exn_str e)
     | Inr name \<Rightarrow>
         if mem_kind m = KSym \<or> mem_kind m = KLnk then Inl (''lien interdit dans l archive : '' @ mem_name m)
         else if mem_kind m = KDev \<or> mem_kind m = KFifo
         then Inl (''fichier special interdit dans l archive : '' @ mem_name m)
         else if mem_kind m \<noteq> KDir \<and> mem_kind m \<noteq> KReg
         then Inl (''type de fichier non pris en charge : '' @ mem_name m)
         else if mem_kind m = KDir then Inr sc
         else if name \<in> set (seen_entries sc) then Inl (''entree dupliquee dans l archive : '' @ mem_name m)
         else let sc' = sc\<lparr>seen_entries := name # seen_entries sc,
                           regular_count := regular_count sc + 1,
                           regular_sizes := AList.update name (mem_size m) (regular_sizes sc)\<rparr>
              in case mem_data m of
                   None \<Rightarrow> Inl (''fichier illisible dans l archive : '' @ mem_name m)
                 | Some data \<Rightarrow>
                     if name = ''server.properties'' then
                       (if int (length data) > max_server_properties_bytes
                        then Inl ''server.properties est anormalement volumineux''
                        else if server_properties sc' \<noteq> None
                        then Inl ''server.properties est present plusieurs fois''
                        else Inr (sc'\<lparr>server_properties := Some data\<rparr>))
                     else Inr sc')"

fun inspect_members :: "member list \<Rightarrow> scan \<Rightarrow> string + scan" where
  "inspect_members [] sc = Inr sc"
| "inspect_members (m # ms) sc = (case inspect_member m sc of
       Inl e \<Rightarrow> Inl e
     | Inr sc' \<Rightarrow> inspect_members ms sc')"

text \<open>The text of \<open>server.properties\<close> by code points: its lines and its white space.\<close>

definition is_line_break :: "nat \<Rightarrow> bool" where
  "is_line_break c \<longleftrightarrow> (if c < 128 then (10 \<le> c \<and> c \<le> 13) \<or> (28 \<le> c \<and> c \<le> 30)
     else c = 133 \<or> c = 0x2028 \<or> c = 0x2029)"

fun splitlines_aux :: "codepoints \<Rightarrow> codepoints \<Rightarrow> codepoints list" where
  "splitlines_aux acc [] = (if acc = [] then [] else [rev acc])"
| "splitlines_aux acc [c] = (if is_line_break c then [rev acc] else [rev (c # acc)])"
| "splitlines_aux acc (c # d # cs) =
     (if c = 13 \<and> d = 10 then rev acc # splitlines_aux [] cs
      else if is_line_break c then rev acc # splitlines_aux [] (d # cs)
      else splitlines_aux (c # acc) (d # cs))"

definition splitlines :: "codepoints \<Rightarrow> codepoints list" where
  "splitlines s = splitlines_aux [] s"

definition is_blank :: "nat \<Rightarrow> bool" where
  "is_blank c \<longleftrightarrow> (if c < 128 then (9 \<le> c \<and> c \<le> 13) \<or> (28 \<le> c \<and> c \<le> 32)
     else c \<in> {133, 160, 0x1680, 0x2028, 0x2029, 0x202F, 0x205F, 0x3000} \<or> (0x2000 \<le> c \<and> c \<le> 0x200A))"

definition strip_blanks :: "codepoints \<Rightarrow> codepoints" where
  "strip_blanks s = rev (dropWhile is_blank (rev (dropWhile is_blank s)))"

definition cps :: "string \<Rightarrow> codepoints" where
  "cps s = map code s"

text \<open>The first line \<open>level-name=...\<close> that is not a comment; empty when there is none.\<close>

fun level_name :: "codepoints list \<Rightarrow> codepoints" where
  "level_name [] = []"
| "level_name (raw # rest) =
     (let line = strip_blanks raw
      in if line = [] \<or> hd line \<in> set (cps ''#!'') \<or> code (CHR ''='') \<notin> set line
         then level_name rest
         else let key = takeWhile (\<lambda>c. c \<noteq> code (CHR ''='')) line; val = tl (dropWhile (\<lambda>c. c \<noteq> code (CHR ''='')) line)
              in if strip_blanks key = cps ''level-name'' then strip_blanks val else level_name rest)"

text \<open>A text of the model as far as it goes, and whether it says all.\<close>

definition shown :: "codepoints \<Rightarrow> string" where
  "shown cs = map (\<lambda>c. if c < 256 then char_of c else CHR ''?'') cs"

definition representable :: "codepoints \<Rightarrow> bool" where
  "representable cs \<longleftrightarrow> list_all (\<lambda>c. c < 256) cs"

definition inspect_archive :: "tarball \<Rightarrow> inspection" where
  "inspect_archive tar = (case inspect_members (tar_members tar) scan_empty of
       Inl msg \<Rightarrow> \<lparr>insp_ok = False, insp_restorable = False, insp_detail = msg, insp_world = []\<rparr>
     | Inr sc \<Rightarrow> (case tar_error tar of
         Some msg \<Rightarrow> \<lparr>insp_ok = False, insp_restorable = False, insp_detail = msg, insp_world = []\<rparr>
       | None \<Rightarrow>
           if regular_count sc = 0
           then \<lparr>insp_ok = False, insp_restorable = False, insp_detail = ''l archive ne contient aucun fichier'', insp_world = []\<rparr>
           else (case server_properties sc of
               None \<Rightarrow> \<lparr>insp_ok = True, insp_restorable = False,
                 insp_detail = ''archive integre, mais server.properties est absent a la racine'', insp_world = []\<rparr>
             | Some data \<Rightarrow>
                 let lname = level_name (splitlines (decode_nats (cps data)))
                 in if lname = []
                    then \<lparr>insp_ok = True, insp_restorable = False,
                      insp_detail = ''archive integre, mais level-name est absent de server.properties'', insp_world = []\<rparr>
                    else (case safe_archive_member_name (shown lname) of
                        Inl e \<Rightarrow> \<lparr>insp_ok = True, insp_restorable = False, insp_detail = exn_str e, insp_world = []\<rparr>
                      | Inr world \<Rightarrow>
                          let level_dat = world @ ''/level.dat''
                          in if \<not> representable lname \<or> (case map_of (regular_sizes sc) level_dat of None \<Rightarrow> 0 | Some n \<Rightarrow> n) = 0
                             then \<lparr>insp_ok = True, insp_restorable = False,
                               insp_detail = ''archive integre, mais '' @ level_dat @ '' est absent ou vide'', insp_world = world\<rparr>
                             else \<lparr>insp_ok = True, insp_restorable = True, insp_detail = [], insp_world = world\<rparr>))))"

subsection \<open>Extraction\<close>

fun node_at :: "node option \<Rightarrow> string list \<Rightarrow> node option" where
  "node_at v [] = v"
| "node_at v (k # p) = (case v of Some (Dir m cs) \<Rightarrow> node_at (map_of cs k) p | _ \<Rightarrow> None)"

fun at_path :: "string list \<Rightarrow> ('z slot_scheme, 'a) prog \<Rightarrow> ('z slot_scheme, 'a) prog" where
  "at_path [] m = m"
| "at_path (k # p) m = at_child k (at_path p m)"

definition set_ownership :: "int \<Rightarrow> int \<Rightarrow> ('z slot_scheme, unit) prog" where
  "set_ownership uid gid = bindM (getM here) (\<lambda>h. case h of
       None \<Rightarrow> raiseM (OSError ''ENOENT'')
     | Some n \<Rightarrow> put_here (Some (set_meta ((node_meta n)\<lparr>m_uid := uid, m_gid := gid\<rparr>) n)))"

definition chmod :: "int \<Rightarrow> ('z slot_scheme, unit) prog" where
  "chmod mode = bindM (getM here) (\<lambda>h. case h of
       None \<Rightarrow> raiseM (OSError ''ENOENT'')
     | Some n \<Rightarrow> put_here (Some (set_meta ((node_meta n)\<lparr>m_mode := mode\<rparr>) n)))"

definition utime :: "int \<Rightarrow> ('z slot_scheme, unit) prog" where
  "utime mtime = bindM (getM here) (\<lambda>h. case h of
       None \<Rightarrow> raiseM (OSError ''ENOENT'')
     | Some n \<Rightarrow> put_here (Some (set_meta ((node_meta n)\<lparr>m_mtime := mtime\<rparr>) n)))"

text \<open>
  \<open>joinpath base name\<close> is \<open>base.joinpath(*PurePosixPath(name).parts)\<close> as the list of its parts from the root of
  the file system, and \<open>os_path\<close> the place the system finds there.
\<close>

definition joinpath :: "string list \<Rightarrow> string \<Rightarrow> string list" where
  "joinpath base name = (if is_absolute name then tl (path_parts name) else base @ path_parts name)"

fun walk :: "string list \<Rightarrow> string list \<Rightarrow> string list" where
  "walk cur [] = cur"
| "walk cur (p # ps) = walk (if p = ''..'' then butlast cur else cur @ [p]) ps"

definition os_path :: "string list \<Rightarrow> string list" where
  "os_path p = walk [] p"

text \<open>
  The directories above a path that do not exist yet, up to the staging directory, deepest first; the path is
  given from its last part to its first, as the loop climbs it.
\<close>

fun missing_parents :: "node option \<Rightarrow> string list \<Rightarrow> string list \<Rightarrow> string list list" where
  "missing_parents fs stage [] = []"
| "missing_parents fs stage (k # up) =
     (if rev (k # up) = stage \<or> node_at fs (os_path (rev (k # up))) \<noteq> None then []
      else rev (k # up) # missing_parents fs stage up)"

definition ensure_archive_parents :: "string list \<Rightarrow> string list \<Rightarrow> int \<Rightarrow> int \<Rightarrow> ('z slot_scheme, unit) prog" where
  "ensure_archive_parents stage parent uid gid = bindM (getM here) (\<lambda>fs.
     forM (rev (missing_parents fs stage (rev parent))) (\<lambda>directory.
       at_path (os_path directory)
         (thenM (create (Dir fresh_meta []))
         (thenM (set_ownership uid gid) (chmod 493)))))"

definition member_metadata :: "member \<Rightarrow> ('z slot_scheme, unit) prog" where
  "member_metadata m =
     thenM (set_ownership (mem_uid m) (mem_gid m))
    (thenM (chmod (mem_mode m mod 512)) (utime (mem_mtime m)))"

definition write_new_file :: "member \<Rightarrow> string \<Rightarrow> ('z slot_scheme, unit) prog" where
  "write_new_file m data =
     thenM (create (File fresh_meta (Bytes [])))
    (thenM (write_content (Bytes data))
    (thenM tick (member_metadata m)))"

text \<open>\<open>mkdir(exist_ok=True)\<close>.\<close>

definition make_dir :: "('z slot_scheme, unit) prog" where
  "make_dir = bindM (getM here) (\<lambda>h. case h of
       None \<Rightarrow> create (Dir fresh_meta [])
     | Some n \<Rightarrow> if is_dir n then tick else raiseM (OSError ''EEXIST''))"

text \<open>
  One member of the archive; the names are checked again, since the inspection was another
  reading of the file. The value says whether the member is a directory whose metadata are to be
  set at the end, and at which path.
\<close>

definition extract_member :: "string list \<Rightarrow> member \<Rightarrow> ('z slot_scheme, string list option) prog" where
  "extract_member stage m = (case safe_archive_member_name (mem_name m) of
       Inl e \<Rightarrow> raiseM e
     | Inr name \<Rightarrow>
         if mem_kind m = KSym \<or> mem_kind m = KLnk then raiseM (RestoreWorkerError (''lien interdit : '' @ mem_name m))
         else if mem_kind m = KDev \<or> mem_kind m = KFifo
         then raiseM (RestoreWorkerError (''fichier special interdit : '' @ mem_name m))
         else if mem_kind m \<noteq> KDir \<and> mem_kind m \<noteq> KReg
         then raiseM (RestoreWorkerError (''type de fichier interdit : '' @ mem_name m))
         else if name = ''.'' then retM None
         else let destination = joinpath stage name; parent = butlast destination in
           if mem_kind m = KDir then
             bindM (getM (\<lambda>s. node_at (here s) (os_path destination))) (\<lambda>old.
               if (case old of None \<Rightarrow> False | Some n \<Rightarrow> \<not> is_dir n)
               then raiseM (RestoreWorkerError (''collision de chemin : '' @ mem_name m))
               else
                 thenM (ensure_archive_parents stage parent (mem_uid m) (mem_gid m))
                (thenM (at_path (os_path destination) make_dir)
                   (retM (Some destination))))
           else
             thenM (ensure_archive_parents stage parent (mem_uid m) (mem_gid m))
               (bindM (getM (\<lambda>s. node_at (here s) (os_path destination))) (\<lambda>d.
                 if d \<noteq> None
                 then raiseM (RestoreWorkerError (''entree dupliquee : '' @ mem_name m))
                 else (case mem_data m of
                     None \<Rightarrow> raiseM (RestoreWorkerError (''fichier illisible : '' @ mem_name m))
                   | Some data \<Rightarrow> thenM (at_path (os_path destination) (write_new_file m data)) (retM None)))))"

fun extract_members ::
  "string list \<Rightarrow> member list \<Rightarrow> (string list \<times> member) list \<Rightarrow> ('z slot_scheme, (string list \<times> member) list) prog" where
  "extract_members stage [] dirs = retM dirs"
| "extract_members stage (m # ms) dirs = bindM (extract_member stage m)
     (\<lambda>d. extract_members stage ms (case d of None \<Rightarrow> dirs | Some p \<Rightarrow> (p, m) # dirs))"

definition extract_all :: "string list \<Rightarrow> tarball \<Rightarrow> ('z slot_scheme, unit) prog" where
  "extract_all stage tar =
     bindM (extract_members stage (tar_members tar) [])
       (\<lambda>dirs. case tar_error tar of
           Some msg \<Rightarrow> raiseM (OSError msg)
         | None \<Rightarrow> forM dirs (\<lambda>(p, m). at_path (os_path p) (member_metadata m)))"

definition extract_verified_archive :: "(nat \<Rightarrow> tarball) \<Rightarrow> string list \<Rightarrow> ('z slot_scheme, string) prog" where
  "extract_verified_archive arc stage =
     bindM (thenM tick (getM (\<lambda>s. tar_fingerprint (arc (io_step s))))) (\<lambda>fp.
     bindM (thenM tick (getM (\<lambda>s. inspect_archive (arc (io_step s))))) (\<lambda>insp.
     if \<not> insp_ok insp then raiseM (RestoreWorkerError (''archive illisible ou dangereuse : '' @ insp_detail insp))
     else if \<not> insp_restorable insp then raiseM (RestoreWorkerError (''archive non restaurable : '' @ insp_detail insp))
     else
       thenM (at_path stage remove_path)
      (thenM (at_path stage (create (Dir (fresh_meta\<lparr>m_mode := 448\<rparr>) [])))
      (thenM (tryM (thenM tick (bindM (getM (\<lambda>s. arc (io_step s))) (extract_all stage)))
                (\<lambda>e. thenM (at_path stage remove_path) (raiseM e)))
      (bindM (thenM tick (getM (\<lambda>s. tar_fingerprint (arc (io_step s))))) (\<lambda>after.
        if after \<noteq> fp
        then thenM (at_path stage remove_path) (raiseM (RestoreWorkerError ''l archive a change pendant son extraction''))
        else retM (insp_world insp)))))))"

subsection \<open>A safe name stays below the root\<close>

lemma is_absolute_iff: "is_absolute s \<longleftrightarrow> s \<noteq> [] \<and> hd s = CHR ''/''"
  by (cases s) (auto simp: is_absolute_def startswith_def)

lemma path_root_relative: "\<not> is_absolute s \<Longrightarrow> path_root s = []"
  by (cases s) (auto simp: path_root_def is_absolute_iff startswith_def)

lemma path_parts_clean:
  "\<not> is_absolute s \<Longrightarrow> p \<in> set (path_parts s) \<Longrightarrow> p \<noteq> [] \<and> p \<noteq> ''.'' \<and> CHR ''/'' \<notin> set p"
  by (auto simp: path_parts_def path_root_relative dest: split_on_pieces)

lemma hd_join: "ps \<noteq> [] \<Longrightarrow> hd ps \<noteq> [] \<Longrightarrow> hd (join sep ps) = hd (hd ps)"
  by (induction sep ps rule: join.induct) auto

lemma join_not_absolute:
  assumes "\<And>p. p \<in> set ps \<Longrightarrow> p \<noteq> [] \<and> CHR ''/'' \<notin> set p"
  shows "\<not> is_absolute (join sep ps)"
proof (cases ps)
  case (Cons p qs)
  with assms [of p] have "hd (join sep ps) \<noteq> CHR ''/''" by (cases p) (auto simp: hd_join)
  then show ?thesis by (simp add: is_absolute_iff)
qed (simp add: is_absolute_iff)

lemma path_parts_join:
  assumes "\<And>p. p \<in> set ps \<Longrightarrow> p \<noteq> [] \<and> p \<noteq> ''.'' \<and> CHR ''/'' \<notin> set p"
  shows "path_parts (join ''/'' ps) = ps"
proof (cases "ps = []")
  case True
  then show ?thesis by (simp add: path_parts_def path_root_def is_absolute_def startswith_def)
next
  case False
  with assms have "split_on (CHR ''/'') (join ''/'' ps) = ps" by (intro split_on_join) auto
  with assms show ?thesis
    using path_root_relative [OF join_not_absolute] by (auto simp: path_parts_def filter_id_conv)
qed

lemma path_parts_normalised: "\<not> is_absolute s \<Longrightarrow> path_parts (join ''/'' (path_parts s)) = path_parts s"
  by (intro path_parts_join path_parts_clean)

lemma path_parts_dot [simp]: "path_parts ''.'' = []"
  by (simp add: path_parts_def path_root_def is_absolute_def startswith_def)

lemma safe_name_cases:
  assumes "safe_archive_member_name name = Inr r"
  shows "path_parts r = path_parts name" and "''..'' \<notin> set (path_parts r)" and "\<not> is_absolute name"
    and "r = (if path_parts name = [] then ''.'' else join ''/'' (path_parts name))"
    and "path_parts r \<noteq> [] \<Longrightarrow> hd (path_parts r) \<notin> set restore_transaction_names"
    and "\<not> list_ex (\<lambda>c. code c = 0 \<or> code c = 10 \<or> code c = 13 \<or> code c = 92) name"
proof -
  let ?n = "join ''/'' (path_parts name)"
  from assms have ab: "\<not> is_absolute name"
    by (auto simp: safe_archive_member_name_def Let_def split: if_splits)
  note path_parts_clean = path_parts_clean [OF ab] and path_parts_normalised = path_parts_normalised [OF ab]
  have empty: "?n = [] \<longleftrightarrow> path_parts name = []"
    by (rule join_eq_Nil) (auto dest: path_parts_clean)
  have root: "hd (split_on (CHR ''/'') ?n) = hd (path_parts name)" if "path_parts name \<noteq> []"
    using that by (subst split_on_join) (auto dest: path_parts_clean)
  from assms have r: "r = (if ?n = [] then ''.'' else ?n)" and dd: "''..'' \<notin> set (path_parts name)"
    and res: "hd (split_on (CHR ''/'') ?n) \<notin> set restore_transaction_names"
    and bad: "\<not> list_ex (\<lambda>c. code c = 0 \<or> code c = 10 \<or> code c = 13 \<or> code c = 92) name"
    by (auto simp: safe_archive_member_name_def Let_def split: if_splits)
  show pp: "path_parts r = path_parts name"
    unfolding r empty by (simp add: path_parts_normalised)
  show "''..'' \<notin> set (path_parts r)" using dd pp by simp
  show "\<not> is_absolute name" by (rule ab)
  show "r = (if path_parts name = [] then ''.'' else ?n)" using r unfolding empty .
  show "path_parts r \<noteq> [] \<Longrightarrow> hd (path_parts r) \<notin> set restore_transaction_names"
    using res root pp by simp
  show "\<not> list_ex (\<lambda>c. code c = 0 \<or> code c = 10 \<or> code c = 13 \<or> code c = 92) name" by (rule bad)
qed


text \<open>Checking a checked name changes nothing.\<close>

lemma safe_name_idem:
  assumes "safe_archive_member_name name = Inr r"
  shows "safe_archive_member_name r = Inr r"
proof (cases "path_parts name = []")
  case True
  with safe_name_cases(4) [OF assms] have "r = ''.''" by simp
  then show ?thesis
    by (simp add: safe_archive_member_name_def is_absolute_def startswith_def Let_def
        restore_transaction_names_def)
next
  case False
  note c = safe_name_cases [OF assms]
  note path_parts_clean = path_parts_clean [OF c(3)]
  from False c(4) have r: "r = join ''/'' (path_parts name)" by simp
  have "set r \<subseteq> insert (CHR ''/'') (set name)"
  proof -
    have "set (join ''/'' (path_parts name)) \<subseteq> {CHR ''/''} \<union> \<Union> (set ` set (split_on (CHR ''/'') name))"
      using set_join [of "''/''" "path_parts name"] path_root_relative [OF c(3)] by (auto simp: path_parts_def)
    moreover have "\<Union> (set ` set (split_on (CHR ''/'') name)) \<subseteq> set name"
    proof (induction name)
      case (Cons a name)
      then show ?case by (cases "split_on (CHR ''/'') name") auto
    qed simp
    ultimately show ?thesis unfolding r by blast
  qed
  with c(6) have chars: "\<not> list_ex (\<lambda>c. code c = 0 \<or> code c = 10 \<or> code c = 13 \<or> code c = 92) r"
    by (auto simp: list_ex_iff)
  have "r \<noteq> []" unfolding r using False by (subst join_eq_Nil) (auto dest: path_parts_clean)
  moreover have "\<not> is_absolute r" unfolding r by (rule join_not_absolute) (auto dest: path_parts_clean)
  moreover have "hd (split_on (CHR ''/'') (join ''/'' (path_parts r))) \<notin> set restore_transaction_names"
    using False c(1,5) by (subst split_on_join) (auto dest: path_parts_clean)
  ultimately show ?thesis
    using chars c(1,2) False r by (simp add: safe_archive_member_name_def Let_def)
qed

subsection \<open>What an accepted archive holds\<close>

text \<open>
  The scan of an accepted archive lists each regular file once, with its size, and every member
  is a directory or a regular file with a safe name.
\<close>

definition safe_member :: "member \<Rightarrow> bool" where
  "safe_member m \<longleftrightarrow> \<not> isl (safe_archive_member_name (mem_name m)) \<and>
     (mem_kind m = KDir \<or> mem_kind m = KReg \<and> mem_data m \<noteq> None)"

definition regular_names :: "member list \<Rightarrow> string list" where
  "regular_names ms = map (\<lambda>m. projr (safe_archive_member_name (mem_name m))) (filter (\<lambda>m. mem_kind m = KReg) ms)"

lemma inspect_member_ok:
  assumes "inspect_member m sc = Inr sc'"
  shows "safe_member m"
    and "seen_entries sc' = rev (regular_names [m]) @ seen_entries sc"
    and "distinct (seen_entries sc) \<Longrightarrow> distinct (seen_entries sc')"
    and "regular_count sc' = regular_count sc + length (regular_names [m])"
  using assms
  by (auto simp: inspect_member_def safe_member_def regular_names_def Let_def
      split: sum.splits if_splits option.splits member_kind.splits)

lemma inspect_members_ok:
  "inspect_members ms sc = Inr sc' \<Longrightarrow> distinct (seen_entries sc) \<Longrightarrow>
   list_all safe_member ms \<and> seen_entries sc' = rev (regular_names ms) @ seen_entries sc \<and>
   distinct (seen_entries sc') \<and> regular_count sc' = regular_count sc + length (regular_names ms)"
proof (induction ms arbitrary: sc)
  case Nil
  then show ?case by (simp add: regular_names_def)
next
  case (Cons m ms)
  then obtain sc1 where s1: "inspect_member m sc = Inr sc1" and s2: "inspect_members ms sc1 = Inr sc'"
    by (auto split: sum.splits)
  have "regular_names (m # ms) = regular_names [m] @ regular_names ms" by (simp add: regular_names_def)
  with Cons.IH [OF s2 inspect_member_ok(3) [OF s1 Cons.prems(2)]] inspect_member_ok [OF s1] show ?case
    by (auto simp: Cons.prems(2))
qed

lemma inspect_members_sizes:
  "inspect_members ms sc = Inr sc' \<Longrightarrow> map_of (regular_sizes sc') name = Some n \<Longrightarrow>
   map_of (regular_sizes sc) name = Some n \<or>
   (\<exists>m \<in> set ms. mem_kind m = KReg \<and> safe_archive_member_name (mem_name m) = Inr name \<and> mem_size m = n)"
proof (induction ms arbitrary: sc)
  case (Cons m ms)
  then obtain sc1 where s1: "inspect_member m sc = Inr sc1" and s2: "inspect_members ms sc1 = Inr sc'"
    by (auto split: sum.splits)
  from Cons.IH [OF s2 Cons.prems(2)] show ?case
  proof
    assume "map_of (regular_sizes sc1) name = Some n"
    with s1 show ?thesis
      by (auto simp: inspect_member_def Let_def split: sum.splits if_splits option.splits member_kind.splits)
  qed auto
qed simp

lemma inspect_members_properties:
  "inspect_members ms sc = Inr sc' \<Longrightarrow> server_properties sc' = Some d \<Longrightarrow>
   server_properties sc = Some d \<or>
   (\<exists>m \<in> set ms. mem_kind m = KReg \<and> safe_archive_member_name (mem_name m) = Inr ''server.properties'' \<and>
      mem_data m = Some d \<and> int (length d) \<le> max_server_properties_bytes)"
proof (induction ms arbitrary: sc)
  case (Cons m ms)
  then obtain sc1 where s1: "inspect_member m sc = Inr sc1" and s2: "inspect_members ms sc1 = Inr sc'"
    by (auto split: sum.splits)
  from Cons.IH [OF s2 Cons.prems(2)] show ?case
  proof
    assume "server_properties sc1 = Some d"
    with s1 show ?thesis
      by (auto simp: inspect_member_def Let_def split: sum.splits if_splits option.splits member_kind.splits)
  qed auto
qed simp

lemma inspect_archive_ok:
  assumes "insp_ok (inspect_archive tar)"
  shows "tar_error tar = None" and "list_all safe_member (tar_members tar)"
    and "distinct (regular_names (tar_members tar))" and "regular_names (tar_members tar) \<noteq> []"
proof -
  from assms obtain sc where sc: "inspect_members (tar_members tar) scan_empty = Inr sc"
    and err: "tar_error tar = None" and cnt: "regular_count sc \<noteq> 0"
    by (auto simp: inspect_archive_def Let_def split: sum.splits option.splits if_splits)
  have "distinct (seen_entries scan_empty)" by (simp add: scan_empty_def)
  from inspect_members_ok [OF sc this] cnt err show
    "tar_error tar = None" "list_all safe_member (tar_members tar)"
    "distinct (regular_names (tar_members tar))" "regular_names (tar_members tar) \<noteq> []"
    by (auto simp: scan_empty_def)
qed

lemma inspect_archive_restorable:
  assumes "insp_restorable (inspect_archive tar)"
  shows "insp_ok (inspect_archive tar)"
    and "\<exists>m \<in> set (tar_members tar). mem_kind m = KReg \<and> 0 < mem_size m \<and>
      safe_archive_member_name (mem_name m) = Inr (insp_world (inspect_archive tar) @ ''/level.dat'')"
    and "\<exists>m \<in> set (tar_members tar). \<exists>d. mem_kind m = KReg \<and> mem_data m = Some d \<and>
      int (length d) \<le> max_server_properties_bytes \<and>
      safe_archive_member_name (mem_name m) = Inr ''server.properties'' \<and>
      safe_archive_member_name (shown (level_name (splitlines (decode_nats (cps d))))) = Inr (insp_world (inspect_archive tar))"
proof -
  from assms obtain sc d where sc: "inspect_members (tar_members tar) scan_empty = Inr sc" and d: "server_properties sc = Some d"
    and w: "safe_archive_member_name (shown (level_name (splitlines (decode_nats (cps d))))) = Inr (insp_world (inspect_archive tar))"
    by (auto simp: inspect_archive_def Let_def split: sum.splits option.splits if_splits)
  from inspect_members_properties [OF sc d] w show "\<exists>m \<in> set (tar_members tar). \<exists>d. mem_kind m = KReg \<and> mem_data m = Some d \<and>
      int (length d) \<le> max_server_properties_bytes \<and>
      safe_archive_member_name (mem_name m) = Inr ''server.properties'' \<and>
      safe_archive_member_name (shown (level_name (splitlines (decode_nats (cps d))))) = Inr (insp_world (inspect_archive tar))"
    by (auto simp: scan_empty_def)
next
  from assms show "insp_ok (inspect_archive tar)"
    by (auto simp: inspect_archive_def Let_def split: sum.splits option.splits if_splits)
  from assms obtain sc n where sc: "inspect_members (tar_members tar) scan_empty = Inr sc"
    and n: "map_of (regular_sizes sc) (insp_world (inspect_archive tar) @ ''/level.dat'') = Some n" "0 < n"
    by (auto simp: inspect_archive_def Let_def split: sum.splits option.splits if_splits)
  from inspect_members_sizes [OF sc n(1)] n(2) show "\<exists>m \<in> set (tar_members tar). mem_kind m = KReg \<and>
      0 < mem_size m \<and> safe_archive_member_name (mem_name m) = Inr (insp_world (inspect_archive tar) @ ''/level.dat'')"
    by (auto simp: scan_empty_def)
qed


subsection \<open>Places in the tree\<close>

lemma at_path_append: "at_path (p @ q) m = at_path p (at_path q m)"
  by (induction p) simp_all

lemma node_at_append: "node_at v (p @ q) = node_at (node_at v p) q"
  by (induction v p rule: node_at.induct) (auto split: option.split node.split, (cases q; simp)+)

lemma at_child_result:
  assumes "at_child k m s = (r, t)" and "here s = Some (Dir mt cs)"
  obtains v where "m (s\<lparr>here := map_of cs k\<rparr>) = (r, v)" and "t = v\<lparr>here := Some (Dir mt (put_opt k (here v) cs))\<rparr>"
  using assms by (auto simp: at_child_def split: prod.splits)

lemma at_child_no_dir: "at_child k m s = (r, t) \<Longrightarrow> (\<And>mt cs. here s \<noteq> Some (Dir mt cs)) \<Longrightarrow> t = s"
  by (auto simp: at_child_def split: option.splits node.splits)

text \<open>What an operation keeps of the node it works at, it keeps of the node at the end of a path.\<close>

lemma lift_inv:
  assumes "keeps (inv_rel (\<lambda>s. P (here s))) m"
  shows "keeps (inv_rel (\<lambda>s. P (node_at (here s) p))) (at_path p m)"
proof (induction p)
  case Nil
  then show ?case using assms by simp
next
  case (Cons k p)
  show ?case
  proof (rule keepsI)
    fix s r t assume "at_path (k # p) m s = (r, t)"
    then have run: "at_child k (at_path p m) s = (r, t)" by simp
    show "inv_rel (\<lambda>s. P (node_at (here s) (k # p))) s t"
    proof (cases "\<exists>mt cs. here s = Some (Dir mt cs)")
      case True
      then obtain mt cs where h: "here s = Some (Dir mt cs)" by blast
      with run obtain v where v: "at_path p m (s\<lparr>here := map_of cs k\<rparr>) = (r, v)"
        and t: "t = v\<lparr>here := Some (Dir mt (put_opt k (here v) cs))\<rparr>" by (rule at_child_result)
      from keepsD [OF Cons v] h t show ?thesis by (simp add: inv_rel_def)
    next
      case False
      with at_child_no_dir [OF run] show ?thesis by (simp add: inv_rel_def)
    qed
  qed
qed

lemma node_at_path:
  "at_path p m s = (Inr x, t) \<Longrightarrow> \<exists>u v. here u = node_at (here s) p \<and> m u = (Inr x, v) \<and> here v = node_at (here t) p"
proof (induction p arbitrary: s t)
  case Nil
  then show ?case by auto
next
  case (Cons k p)
  then have run: "at_child k (at_path p m) s = (Inr x, t)" by simp
  show ?case
  proof (cases "\<exists>mt cs. here s = Some (Dir mt cs)")
    case True
    then obtain mt cs where h: "here s = Some (Dir mt cs)" by blast
    with run obtain v where v: "at_path p m (s\<lparr>here := map_of cs k\<rparr>) = (Inr x, v)"
      and t: "t = v\<lparr>here := Some (Dir mt (put_opt k (here v) cs))\<rparr>" by (rule at_child_result)
    from Cons.IH [OF v] h t show ?thesis by (auto simp: fun_upd_def)
  next
    case False
    with run show ?thesis by (auto simp: at_child_def split: option.splits node.splits)
  qed
qed

text \<open>
  Everything outside a directory: the nodes at the paths that do not lead to it, and the kind and metadata of
  the directories above it.
\<close>

definition outside :: "string list \<Rightarrow> node option \<Rightarrow> node option \<Rightarrow> bool" where
  "outside b v w \<longleftrightarrow> (\<forall>p. \<not> prefix b p \<longrightarrow> (if prefix p b then map_option node_leaf (node_at w p) = map_option node_leaf (node_at v p)
     else node_at w p = node_at v p))"

lemma outside_refl: "outside b v v"
  by (simp add: outside_def)

lemma outside_trans: "outside b u v \<Longrightarrow> outside b v w \<Longrightarrow> outside b u w"
  unfolding outside_def by metis

lemma outside_Nil: "outside [] v w"
  by (simp add: outside_def)

lemma outside_child:
  assumes "outside b (map_of cs k) v"
  shows "outside (k # b) (Some (Dir m cs)) (Some (Dir m (put_opt k v cs)))"
  unfolding outside_def
proof (intro allI impI)
  fix p assume p: "\<not> prefix (k # b) p"
  show "if prefix p (k # b) then map_option node_leaf (node_at (Some (Dir m (put_opt k v cs))) p) = map_option node_leaf (node_at (Some (Dir m cs)) p)
     else node_at (Some (Dir m (put_opt k v cs))) p = node_at (Some (Dir m cs)) p"
  proof (cases p)
    case (Cons j q)
    show ?thesis
    proof (cases "j = k")
      case True
      with p Cons have "\<not> prefix b q" by simp
      with assms True Cons show ?thesis by (auto simp: outside_def)
    next
      case False
      with Cons show ?thesis by simp
    qed
  qed simp
qed

lemma outside_path: "at_path b m s = (r, t) \<Longrightarrow> outside b (here s) (here t)"
proof (induction b arbitrary: s t)
  case (Cons k b)
  then have run: "at_child k (at_path b m) s = (r, t)" by simp
  show ?case
  proof (cases "\<exists>mt cs. here s = Some (Dir mt cs)")
    case True
    then obtain mt cs where h: "here s = Some (Dir mt cs)" by blast
    with run obtain v where v: "at_path b m (s\<lparr>here := map_of cs k\<rparr>) = (r, v)"
      and t: "t = v\<lparr>here := Some (Dir mt (put_opt k (here v) cs))\<rparr>" by (rule at_child_result)
    from Cons.IH [OF v] outside_child h t show ?thesis by simp
  next
    case False
    with at_child_no_dir [OF run] show ?thesis by (simp add: outside_refl)
  qed
qed (simp add: outside_Nil)

abbreviation outside_rel :: "string list \<Rightarrow> 'z slot_scheme \<Rightarrow> 'z slot_scheme \<Rightarrow> bool" where
  "outside_rel b s t \<equiv> outside b (here s) (here t)"

interpretation outer: state_preorder "outside_rel b" for b
  by unfold_locales (auto intro: outside_refl outside_trans)

lemma outside_at_path: "keeps (outside_rel b) (at_path (b @ q) m)"
  unfolding at_path_append by (auto intro!: keepsI outside_path)

lemma outside_tick: "keeps (outside_rel b) tick"
  by (auto simp: keeps_def tick_def Let_def outside_refl split: fault.splits)

subsection \<open>Paths of members\<close>

lemma walk_clean: "''..'' \<notin> set p \<Longrightarrow> walk cur p = cur @ p"
  by (induction p arbitrary: cur) auto

lemma os_path_clean: "''..'' \<notin> set p \<Longrightarrow> os_path p = p"
  by (simp add: os_path_def walk_clean)

text \<open>A checked name leads to a place in the staging directory, and the loop over its parents stays there.\<close>

lemma safe_destination:
  assumes "safe_archive_member_name name = Inr r" and "''..'' \<notin> set stage"
  shows "joinpath stage r = stage @ path_parts name" and "os_path (joinpath stage r) = stage @ path_parts name"
    and "prefix q (path_parts name) \<Longrightarrow> os_path (stage @ q) = stage @ q"
proof -
  have "\<not> is_absolute r" by (rule safe_name_cases(3) [OF safe_name_idem [OF assms(1)]])
  then show j: "joinpath stage r = stage @ path_parts name"
    using safe_name_cases(1) [OF assms(1)] by (simp add: joinpath_def)
  have dots: "''..'' \<notin> set (path_parts name)" using safe_name_cases(1,2) [OF assms(1)] by simp
  show "os_path (joinpath stage r) = stage @ path_parts name"
    unfolding j by (rule os_path_clean) (use dots assms(2) in auto)
  show "prefix q (path_parts name) \<Longrightarrow> os_path (stage @ q) = stage @ q"
    by (rule os_path_clean) (use dots assms(2) set_mono_prefix in auto)
qed

lemma safe_parts:
  assumes "safe_archive_member_name name = Inr r" and "r \<noteq> ''.''"
  shows "path_parts name \<noteq> []" and "hd (path_parts name) \<notin> set restore_transaction_names"
proof -
  show ne: "path_parts name \<noteq> []" using safe_name_cases(4) [OF assms(1)] assms(2) by auto
  then show "hd (path_parts name) \<notin> set restore_transaction_names"
    using safe_name_cases(1,5) [OF assms(1)] by simp
qed

lemma missing_parents_below:
  "d \<in> set (missing_parents fs stage (rev (stage @ q))) \<Longrightarrow> \<exists>p. d = stage @ p \<and> p \<noteq> [] \<and> prefix p q"
proof (induction q rule: rev_induct)
  case Nil
  then show ?case by (cases "rev stage") (auto simp: rev_swap split: if_splits)
next
  case (snoc k q)
  then have "d = stage @ q @ [k] \<or> d \<in> set (missing_parents fs stage (rev (stage @ q)))"
    by (auto split: if_splits)
  with snoc.IH show ?case by (auto intro: prefix_order.trans)
qed

text \<open>The path of a member below the staging directory.\<close>

definition member_parts :: "member \<Rightarrow> string list" where
  "member_parts m = path_parts (mem_name m)"

subsection \<open>What an extraction keeps\<close>

text \<open>
  An extraction works at paths below the staging directory: it makes directories where \<open>D\<close> allows them and
  files where \<open>W\<close> does. What those operations keep, the extraction of members whose paths are allowed keeps.
\<close>

locale below_stage =
  fixes R :: "'z slot_scheme \<Rightarrow> 'z slot_scheme \<Rightarrow> bool" and stage :: "string list" and D W :: "string list \<Rightarrow> bool"
  assumes pre: "state_preorder R"
    and mkdir_keeps: "D q \<Longrightarrow> keeps R (at_path (stage @ q) (thenM (create (Dir fresh_meta [])) (thenM (set_ownership uid gid) (chmod mode))))"
    and make_dir_keeps: "D q \<Longrightarrow> keeps R (at_path (stage @ q) make_dir)"
    and write_keeps: "W q \<Longrightarrow> keeps R (at_path (stage @ q) (write_new_file m data))"
    and meta_keeps: "D q \<Longrightarrow> keeps R (at_path (stage @ q) (member_metadata m))"
begin

definition fits :: "member \<Rightarrow> bool" where
  "fits m \<longleftrightarrow> (\<forall>name. safe_archive_member_name (mem_name m) = Inr name \<and> name \<noteq> ''.'' \<longrightarrow>
     (\<forall>q. q \<noteq> [] \<and> prefix q (member_parts m) \<and> (mem_kind m = KDir \<or> q \<noteq> member_parts m) \<longrightarrow> D q) \<and>
     (mem_kind m = KReg \<longrightarrow> W (member_parts m)))"

lemma keeps_parents:
  assumes "\<And>p. p \<noteq> [] \<Longrightarrow> prefix p q \<Longrightarrow> D p \<and> os_path (stage @ p) = stage @ p"
  shows "keeps R (ensure_archive_parents stage (stage @ q) uid gid)"
  unfolding ensure_archive_parents_def
proof (intro state_preorder.keeps_intros [OF pre])
  fix fs d assume "d \<in> set (rev (missing_parents fs stage (rev (stage @ q))))"
  then obtain p where "d = stage @ p" "p \<noteq> []" "prefix p q"
    using missing_parents_below [of d fs stage q] unfolding set_rev by blast
  with assms [of p] show "keeps R (at_path (os_path d) (thenM (create (Dir fresh_meta [])) (thenM (set_ownership uid gid) (chmod 493))))"
    using mkdir_keeps by simp
qed

lemma keeps_member:
  assumes "fits m" and "''..'' \<notin> set stage"
  shows "keeps R (extract_member stage m)"
proof (cases "\<exists>name. safe_archive_member_name (mem_name m) = Inr name \<and> name \<noteq> ''.''")
  case False
  then show ?thesis
    by (cases "safe_archive_member_name (mem_name m)")
      (auto simp: extract_member_def intro!: state_preorder.keeps_intros [OF pre])
next
  case True
  then obtain name where name: "safe_archive_member_name (mem_name m) = Inr name" "name \<noteq> ''.''" by blast
  let ?q = "member_parts m"
  note d = safe_destination [OF name(1) assms(2), folded member_parts_def]
  have ne: "?q \<noteq> []" using safe_parts [OF name] by (simp add: member_parts_def)
  have dest: "joinpath stage name = stage @ ?q" "os_path (stage @ ?q) = stage @ ?q" "butlast (stage @ ?q) = stage @ butlast ?q"
    using d(1,2) ne by (simp_all add: butlast_append)
  have up: "D p \<and> os_path (stage @ p) = stage @ p" if "p \<noteq> []" "prefix p (butlast ?q)" for p
  proof -
    have "prefix p ?q" using that(2) prefix_order.trans prefixeq_butlast by blast
    moreover have "p \<noteq> ?q" using ne prefix_length_le [OF that(2)] by (cases ?q rule: rev_cases) auto
    ultimately show ?thesis using assms(1) name d(3) that(1) by (auto simp: fits_def)
  qed
  have D: "mem_kind m = KDir \<Longrightarrow> D ?q" and W: "mem_kind m = KReg \<Longrightarrow> W ?q"
    using assms(1) name ne by (auto simp: fits_def)
  note parents = keeps_parents [OF up]
  show ?thesis
    unfolding extract_member_def name(1) Let_def sum.case dest
    using D W by (intro state_preorder.keeps_intros [OF pre] keeps_case_option parents make_dir_keeps write_keeps) auto
qed

lemma member_path:
  assumes "extract_member stage m s = (Inr (Some p), t)" and "fits m" and "''..'' \<notin> set stage"
  shows "\<exists>q. p = stage @ q \<and> os_path p = p \<and> D q"
proof -
  from assms(1) obtain name where name: "safe_archive_member_name (mem_name m) = Inr name" "name \<noteq> ''.''"
    and k: "mem_kind m = KDir" and p: "p = joinpath stage name"
    by (auto simp: extract_member_def Let_def prog_simps split: sum.splits if_splits option.splits prod.splits)
  from safe_destination [OF name(1) assms(3)] p have "p = stage @ member_parts m" "os_path p = p"
    by (simp_all add: member_parts_def)
  moreover have "D (member_parts m)"
    using assms(2) name k safe_parts [OF name] by (auto simp: fits_def member_parts_def)
  ultimately show ?thesis by blast
qed

lemma keeps_members:
  assumes "list_all fits ms" and "''..'' \<notin> set stage"
  shows "keeps R (extract_members stage ms dirs)"
  using assms
  by (induction ms arbitrary: dirs) (auto intro!: state_preorder.keeps_intros [OF pre] keeps_member)

lemma members_paths:
  assumes "extract_members stage ms dirs s = (Inr ds, t)" and "list_all fits ms" and "''..'' \<notin> set stage"
    and "\<forall>(p, m) \<in> set dirs. \<exists>q. p = stage @ q \<and> os_path p = p \<and> D q"
  shows "\<forall>(p, m) \<in> set ds. \<exists>q. p = stage @ q \<and> os_path p = p \<and> D q"
  using assms
proof (induction ms arbitrary: dirs s)
  case Nil
  then show ?case by (simp add: prog_simps)
next
  case (Cons m ms)
  then obtain r u where r: "extract_member stage m s = (Inr r, u)"
    and rest: "extract_members stage ms (case r of None \<Rightarrow> dirs | Some p \<Rightarrow> (p, m) # dirs) u = (Inr ds, t)"
    by (auto simp: prog_simps split: prod.splits sum.splits)
  show ?case
    by (rule Cons.IH [OF rest]) (use Cons.prems member_path [of m s _ u] r in \<open>auto split: option.splits\<close>)
qed

lemma keeps_finish:
  assumes "extract_members stage (tar_members tar) [] s = (Inr ds, t)" and "list_all fits (tar_members tar)" and "''..'' \<notin> set stage"
  shows "keeps R (forM ds (\<lambda>(p, m). at_path (os_path p) (member_metadata m)))"
proof (intro state_preorder.keeps_forM [OF pre], clarify)
  fix p m assume "(p, m) \<in> set ds"
  with members_paths [OF assms] obtain q where "p = stage @ q" "os_path p = p" "D q" by auto
  then show "keeps R (at_path (os_path p) (member_metadata m))" using meta_keeps by simp
qed

lemma keeps_all:
  assumes "list_all fits (tar_members tar)" and "''..'' \<notin> set stage"
  shows "keeps R (extract_all stage tar)"
proof (rule keepsI)
  fix s t :: "'z slot_scheme" and r assume run: "extract_all stage tar s = (r, t)"
  obtain q u where u: "extract_members stage (tar_members tar) [] s = (q, u)" by fastforce
  have su: "R s u" by (rule keepsD [OF keeps_members [OF assms] u])
  show "R s t"
  proof (cases "isl q \<or> tar_error tar \<noteq> None")
    case True
    with run u su show ?thesis
      by (auto simp: extract_all_def prog_simps isl_def split: sum.splits option.splits)
  next
    case False
    then obtain ds where q: "q = Inr ds" by (cases q) auto
    have "forM ds (\<lambda>(p, m). at_path (os_path p) (member_metadata m)) u = (r, t)"
      using run u q False by (auto simp: extract_all_def prog_simps split: option.splits)
    from keepsD [OF keeps_finish [OF u [unfolded q] assms] this] have "R u t" .
    with su show ?thesis using pre unfolding state_preorder_def by blast
  qed
qed

text \<open>An extraction that returns has extracted every member, and keeps what it has written.\<close>

lemma all_cases:
  assumes "extract_all stage tar s = (Inr (), t)" and "list_all fits (tar_members tar)" and "''..'' \<notin> set stage"
  obtains ds u where "extract_members stage (tar_members tar) [] s = (Inr ds, u)" and "tar_error tar = None" and "R u t"
proof -
  from assms(1) obtain ds u where u: "extract_members stage (tar_members tar) [] s = (Inr ds, u)" and e: "tar_error tar = None"
    and t: "forM ds (\<lambda>(p, m). at_path (os_path p) (member_metadata m)) u = (Inr (), t)"
    by (auto simp: extract_all_def prog_simps split: prod.splits sum.splits option.splits)
  from keepsD [OF keeps_finish [OF u assms(2,3)] t] u e show ?thesis by (rule that [rotated 2])
qed

end

interpretation beyond: below_stage "outside_rel stage" stage "\<lambda>_. True" "\<lambda>_. True" for stage
  by (rule below_stage.intro [OF outer.state_preorder_axioms]) (rule outside_at_path)+

subsection \<open>The staging directory stays a proper tree\<close>

definition good_slot :: "'z slot_scheme \<Rightarrow> bool" where
  "good_slot s \<longleftrightarrow> good_opt (here s)"

text \<open>A proper tree without special files, with none of the reserved names of the transaction among its entries.\<close>

definition staged :: "node option \<Rightarrow> bool" where
  "staged v \<longleftrightarrow> (\<exists>m cs. v = Some (Dir m cs) \<and> good (Dir m cs) \<and>
     set (keys cs) \<inter> set restore_transaction_names = {})"

lemma good_slot_tick [frame_rules]: "keeps (inv_rel good_slot) tick"
  by (auto simp: keeps_def inv_rel_def good_slot_def tick_def Let_def split: fault.splits)

lemma good_slot_put [frame_rules]: "good_opt v \<Longrightarrow> keeps (inv_rel good_slot) (put_here v)"
  by (auto simp: keeps_def inv_rel_def good_slot_def put_here_def prog_simps tick_def Let_def
      split: fault.splits prod.splits sum.splits)

lemma good_slot_create [frame_rules]: "good n \<Longrightarrow> keeps (inv_rel good_slot) (create n)"
  unfolding create_def by (intro inv.keeps_intros frame_rules) simp

lemma good_slot_make_dir [frame_rules]: "keeps (inv_rel good_slot) make_dir"
  unfolding make_dir_def by (intro inv.keeps_intros keeps_case_option frame_rules) simp

lemma good_slot_update:
  assumes "\<And>n. good n \<Longrightarrow> keeps (inv_rel good_slot) (f n)"
  shows "keeps (inv_rel good_slot) (bindM (getM here) (\<lambda>h. case h of None \<Rightarrow> raiseM e | Some n \<Rightarrow> f n))"
proof (rule keeps_invI)
  fix s :: "'a slot_scheme" assume s: "good_slot s"
  show "wp (bindM (getM here) (\<lambda>h. case h of None \<Rightarrow> raiseM e | Some n \<Rightarrow> f n)) (\<lambda>_. good_slot) (\<lambda>_. good_slot) s"
  proof (cases "here s")
    case None
    with s show ?thesis by (simp add: wp_rules)
  next
    case (Some n)
    with s have "good n" by (simp add: good_slot_def)
    from keeps_inv_wp [OF assms [OF this] s] Some show ?thesis by (simp add: wp_rules)
  qed
qed

lemma good_slot_meta [frame_rules]:
  "keeps (inv_rel good_slot) (set_ownership uid gid)"
  "keeps (inv_rel good_slot) (chmod mode)"
  "keeps (inv_rel good_slot) (utime mtime)"
  unfolding set_ownership_def chmod_def utime_def
  by (intro good_slot_update frame_rules; simp)+

lemma good_slot_write_content [frame_rules]: "keeps (inv_rel good_slot) (write_content c)"
  unfolding write_content_def
  by (intro inv.keeps_intros) (auto split: option.split node.split intro!: inv.keeps_intros frame_rules)

lemma good_slot_member [frame_rules]:
  "keeps (inv_rel good_slot) (member_metadata m)" "keeps (inv_rel good_slot) (write_new_file m data)"
  unfolding member_metadata_def write_new_file_def by (intro inv.keeps_intros frame_rules; simp)+

lemma good_slot_child [frame_rules]:
  assumes "keeps (inv_rel good_slot) m" shows "keeps (inv_rel good_slot) (at_child k m)"
proof (rule keepsI)
  fix s r t assume run: "at_child k m s = (r, t)"
  show "inv_rel good_slot s t"
    unfolding inv_rel_def
  proof
    assume s: "good_slot s"
    show "good_slot t"
    proof (cases "\<exists>mt cs. here s = Some (Dir mt cs)")
      case True
      then obtain mt cs where h: "here s = Some (Dir mt cs)" by blast
      with run obtain v where v: "m (s\<lparr>here := map_of cs k\<rparr>) = (r, v)"
        and t: "t = v\<lparr>here := Some (Dir mt (put_opt k (here v) cs))\<rparr>" by (rule at_child_result)
      from s h have g: "good (Dir mt cs)" by (simp add: good_slot_def)
      then have "good_slot (s\<lparr>here := map_of cs k\<rparr>)" by (simp add: good_slot_def good_entries_map_of)
      with keepsD [OF assms v] have "good_slot v" by (simp add: inv_rel_def)
      with good_Dir_put_opt [OF g] t show ?thesis by (simp add: good_slot_def)
    next
      case False
      with at_child_no_dir [OF run] s show ?thesis by blast
    qed
  qed
qed

lemma staged_child:
  assumes "keeps (inv_rel good_slot) m" and "k \<notin> set restore_transaction_names"
  shows "keeps (inv_rel (\<lambda>s. staged (here s))) (at_child k m)"
proof (rule keepsI)
  fix s r t assume run: "at_child k m s = (r, t)"
  show "inv_rel (\<lambda>s. staged (here s)) s t"
    unfolding inv_rel_def
  proof
    assume s: "staged (here s)"
    then obtain mt cs where h: "here s = Some (Dir mt cs)" and g: "good (Dir mt cs)"
      and n: "set (keys cs) \<inter> set restore_transaction_names = {}" by (auto simp: staged_def)
    from run h obtain v where v: "m (s\<lparr>here := map_of cs k\<rparr>) = (r, v)"
      and t: "t = v\<lparr>here := Some (Dir mt (put_opt k (here v) cs))\<rparr>" by (rule at_child_result)
    from g have "good_slot (s\<lparr>here := map_of cs k\<rparr>)" by (simp add: good_slot_def good_entries_map_of)
    with keepsD [OF assms(1) v] have "good_opt (here v)" by (simp add: inv_rel_def good_slot_def)
    from good_Dir_put_opt [OF g this, of k] t n assms(2) show "staged (here t)"
      unfolding staged_def using keys_put_opt [of k "here v" cs] by (auto simp del: good.simps split: if_splits)
  qed
qed

lemma good_slot_path [frame_rules]: "keeps (inv_rel good_slot) m \<Longrightarrow> keeps (inv_rel good_slot) (at_path p m)"
  by (induction p) (auto intro: frame_rules)

definition clean_path :: "string list \<Rightarrow> bool" where
  "clean_path q \<longleftrightarrow> q \<noteq> [] \<and> hd q \<notin> set restore_transaction_names"

lemma staged_path:
  assumes "keeps (inv_rel good_slot) m" and "clean_path q"
  shows "keeps (inv_rel (\<lambda>s. staged (node_at (here s) stage))) (at_path (stage @ q) m)"
  unfolding at_path_append
  by (rule lift_inv) (use assms in \<open>cases q; auto simp: clean_path_def intro: staged_child good_slot_path\<close>)

interpretation sound: below_stage "inv_rel good_slot" stage "\<lambda>_. True" "\<lambda>_. True" for stage
  by (rule below_stage.intro [OF inv.state_preorder_axioms]) (intro inv.keeps_intros frame_rules; simp)+

interpretation clean: below_stage "inv_rel (\<lambda>s. staged (node_at (here s) stage))" stage clean_path clean_path for stage
  by (rule below_stage.intro [OF inv.state_preorder_axioms]) (rule staged_path, (intro inv.keeps_intros frame_rules; simp), assumption)+

subsection \<open>What is written stays\<close>

definition file_at :: "string list \<Rightarrow> string \<Rightarrow> node option \<Rightarrow> bool" where
  "file_at p d v \<longleftrightarrow> (\<exists>mt. node_at v p = Some (File mt (Bytes d)))"

definition dir_there :: "string list \<Rightarrow> node option \<Rightarrow> bool" where
  "dir_there p v \<longleftrightarrow> (\<exists>mt cs. node_at v p = Some (Dir mt cs))"

text \<open>
  A property of what is at a path that survives a change of metadata there, a change of the children of the
  directories on the way, and that does not hold where nothing is.
\<close>

locale lasting =
  fixes P :: "string list \<Rightarrow> node option \<Rightarrow> bool"
  assumes absent: "\<not> P p None"
    and meta: "P p (Some n) \<Longrightarrow> P p (Some (set_meta mt n))"
    and inside: "P (k # p) (Some (Dir mt cs)) \<longleftrightarrow> P p (map_of cs k)"
    and here_file: "P [] (Some (Dir mt cs)) \<longleftrightarrow> P [] (Some (Dir mt' cs'))"
    and no_file: "P (k # p) (Some n) \<Longrightarrow> is_dir n"
begin

lemma lasts_tick: "keeps (inv_rel (\<lambda>s. P p (here s))) tick"
  by (auto simp: keeps_def inv_rel_def tick_def Let_def split: fault.splits)

lemma lasts_put:
  assumes "\<And>s. P p v" shows "keeps (inv_rel (\<lambda>s. P p (here s))) (put_here v)"
  using assms
  by (auto simp: keeps_def inv_rel_def put_here_def prog_simps tick_def Let_def split: fault.splits prod.splits sum.splits)

lemma lasts_update:
  fixes f :: "node \<Rightarrow> meta"
  shows "keeps (inv_rel (\<lambda>s. P p (here s))) (bindM (getM here) (\<lambda>h. case h of None \<Rightarrow> raiseM e | Some n \<Rightarrow> put_here (Some (set_meta (f n) n))))"
proof (rule keeps_invI)
  fix s :: "'a slot_scheme" assume s: "P p (here s)"
  then obtain n where n: "here s = Some n" by (cases "here s") (auto simp: absent)
  with s have "P p (Some (set_meta (f n) n))" by (simp add: meta)
  from keeps_inv_wp [OF lasts_put [OF this], of s] s n
  show "wp (bindM (getM here) (\<lambda>h. case h of None \<Rightarrow> raiseM e | Some n \<Rightarrow> put_here (Some (set_meta (f n) n))))
      (\<lambda>_ s. P p (here s)) (\<lambda>_ s. P p (here s)) s" by (simp add: wp_bind wp_get)
qed

lemma lasts_meta:
  "keeps (inv_rel (\<lambda>s. P p (here s))) (set_ownership uid gid)"
  "keeps (inv_rel (\<lambda>s. P p (here s))) (chmod mode)"
  "keeps (inv_rel (\<lambda>s. P p (here s))) (utime mtime)"
  unfolding set_ownership_def chmod_def utime_def by (rule lasts_update)+

text \<open>Where something is created nothing was before, so nothing is lost.\<close>

lemma lasts_create: "keeps (inv_rel (\<lambda>s. P p (here s))) (thenM (create n) m)"
proof (rule keeps_invI)
  fix s :: "'a slot_scheme" assume s: "P p (here s)"
  then have "here s \<noteq> None" by (cases "here s") (auto simp: absent)
  with s show "wp (thenM (create n) m) (\<lambda>_ s. P p (here s)) (\<lambda>_ s. P p (here s)) s"
    by (simp add: create_def wp_rules)
qed

lemma lasts_make_dir: "keeps (inv_rel (\<lambda>s. P p (here s))) make_dir"
proof (rule keeps_invI)
  fix s :: "'a slot_scheme" assume s: "P p (here s)"
  then obtain n where "here s = Some n" by (cases "here s") (auto simp: absent)
  with s keeps_inv_wp [OF lasts_tick, of p s] show "wp make_dir (\<lambda>_ s. P p (here s)) (\<lambda>_ s. P p (here s)) s"
    by (simp add: make_dir_def wp_rules)
qed

lemma lasts_child:
  assumes "\<And>p. keeps (inv_rel (\<lambda>s. P p (here s))) m" shows "keeps (inv_rel (\<lambda>s. P p (here s))) (at_child k m)"
proof (rule keepsI)
  fix s r t assume run: "at_child k m s = (r, t)"
  show "inv_rel (\<lambda>s. P p (here s)) s t"
    unfolding inv_rel_def
  proof
    assume s: "P p (here s)"
    show "P p (here t)"
    proof (cases "\<exists>mt cs. here s = Some (Dir mt cs)")
      case True
      then obtain mt cs where h: "here s = Some (Dir mt cs)" by blast
      with run obtain v where v: "m (s\<lparr>here := map_of cs k\<rparr>) = (r, v)"
        and t: "t = v\<lparr>here := Some (Dir mt (put_opt k (here v) cs))\<rparr>" by (rule at_child_result)
      show ?thesis
      proof (cases p)
        case Nil
        with s h t here_file show ?thesis by auto
      next
        case (Cons j q)
        show ?thesis
        proof (cases "j = k")
          case True
          with keepsD [OF assms [of q] v] s h t Cons show ?thesis by (simp add: inv_rel_def inside)
        next
          case False
          with s h t Cons show ?thesis by (simp add: inside)
        qed
      qed
    next
      case False
      with at_child_no_dir [OF run] s show ?thesis by blast
    qed
  qed
qed

lemma lasts_path:
  "(\<And>p. keeps (inv_rel (\<lambda>s. P p (here s))) m) \<Longrightarrow> keeps (inv_rel (\<lambda>s. P p (here s))) (at_path q m)"
  by (induction q arbitrary: p) (auto intro: lasts_child)

lemma lasts_metadata: "keeps (inv_rel (\<lambda>s. P p (here s))) (member_metadata m)"
  unfolding member_metadata_def by (intro inv.keeps_intros lasts_meta)

lemma lasts_write: "keeps (inv_rel (\<lambda>s. P p (here s))) (write_new_file m data)"
  unfolding write_new_file_def by (rule lasts_create)

end

sublocale lasting \<subseteq> below: below_stage "inv_rel (\<lambda>s. P p (node_at (here s) stage))" stage "\<lambda>_. True" "\<lambda>_. True" for p stage
  by (rule below_stage.intro [OF inv.state_preorder_axioms])
    (unfold at_path_append, (intro lift_inv lasts_path lasts_create lasts_make_dir lasts_write lasts_metadata)+)

interpretation files: lasting "\<lambda>p. file_at p d" for d
proof
  fix p n mt assume "file_at p d (Some n)"
  then show "file_at p d (Some (set_meta mt n))" by (cases p; cases n) (auto simp: file_at_def)
next
  fix k p n assume "file_at (k # p) d (Some n)"
  then show "is_dir n" by (cases n) (auto simp: file_at_def)
next
  fix p show "\<not> file_at p d None" by (cases p) (auto simp: file_at_def)
qed (auto simp: file_at_def)

interpretation dirs: lasting dir_there
proof
  fix p n mt assume "dir_there p (Some n)"
  then show "dir_there p (Some (set_meta mt n))" by (cases p; cases n) (auto simp: dir_there_def)
next
  fix k p n assume "dir_there (k # p) (Some n)"
  then show "is_dir n" by (cases n) (auto simp: dir_there_def)
next
  fix p show "\<not> dir_there p None" by (cases p) (auto simp: dir_there_def)
qed (auto simp: dir_there_def)

subsection \<open>Nothing but the members\<close>

text \<open>\<open>A p d\<close>: something may be at the path \<open>p\<close>, a directory (\<open>d\<close>) or not.\<close>

definition grown :: "(string list \<Rightarrow> bool \<Rightarrow> bool) \<Rightarrow> node option \<Rightarrow> bool" where
  "grown A v \<longleftrightarrow> (\<forall>p n. node_at v p = Some n \<longrightarrow> A p (is_dir n))"

lemma node_at_None [simp]: "node_at None p = None"
  by (cases p) auto

lemma grown_None [simp]: "grown A None"
  by (simp add: grown_def)

lemma grown_leaf: "\<not> is_dir n \<Longrightarrow> grown A (Some n) \<longleftrightarrow> A [] False"
proof -
  assume n: "\<not> is_dir n"
  then have sub: "node_at (Some n) (k # p) = None" for k p by (cases n) auto
  show ?thesis using n sub unfolding grown_def by (metis list.exhaust node_at.simps(1) option.distinct(1) option.inject)
qed

lemma grown_Dir: "grown A (Some (Dir m cs)) \<longleftrightarrow> A [] True \<and> (\<forall>k. grown (\<lambda>p. A (k # p)) (map_of cs k))"
proof
  assume g: "grown A (Some (Dir m cs))"
  from g [unfolded grown_def, rule_format, of "[]"] have "A [] True" by simp
  moreover have "grown (\<lambda>p. A (k # p)) (map_of cs k)" for k
    unfolding grown_def using g [unfolded grown_def, rule_format, of "k # _"] by simp
  ultimately show "A [] True \<and> (\<forall>k. grown (\<lambda>p. A (k # p)) (map_of cs k))" by blast
next
  assume g: "A [] True \<and> (\<forall>k. grown (\<lambda>p. A (k # p)) (map_of cs k))"
  show "grown A (Some (Dir m cs))"
    unfolding grown_def
  proof (intro allI impI)
    fix p n assume "node_at (Some (Dir m cs)) p = Some n"
    with g show "A p (is_dir n)" by (cases p) (auto simp: grown_def)
  qed
qed

lemma grown_set_meta: "grown A (Some (set_meta m n)) \<longleftrightarrow> grown A (Some n)"
  by (cases n) (simp_all add: grown_leaf grown_Dir)

abbreviation grown_rel :: "(string list \<Rightarrow> bool \<Rightarrow> bool) \<Rightarrow> 'z slot_scheme \<Rightarrow> 'z slot_scheme \<Rightarrow> bool" where
  "grown_rel A \<equiv> inv_rel (\<lambda>s. grown A (here s))"

lemma grown_tick: "keeps (grown_rel A) tick"
  by (auto simp: keeps_def inv_rel_def tick_def Let_def split: fault.splits)

lemma grown_put: "grown A v \<Longrightarrow> keeps (grown_rel A) (put_here v)"
  by (auto simp: keeps_def inv_rel_def put_here_def prog_simps tick_def Let_def split: fault.splits prod.splits sum.splits)

lemma grown_create: "grown A (Some n) \<Longrightarrow> keeps (grown_rel A) (create n)"
  unfolding create_def by (intro inv.keeps_intros grown_put)

lemma grown_update:
  assumes "\<And>n. grown A (Some n) \<Longrightarrow> keeps (grown_rel A) (f n)"
  shows "keeps (grown_rel A) (bindM (getM here) (\<lambda>h. case h of None \<Rightarrow> raiseM e | Some n \<Rightarrow> f n))"
proof (rule keeps_invI)
  fix s :: "'a slot_scheme" assume s: "grown A (here s)"
  show "wp (bindM (getM here) (\<lambda>h. case h of None \<Rightarrow> raiseM e | Some n \<Rightarrow> f n)) (\<lambda>_ s. grown A (here s)) (\<lambda>_ s. grown A (here s)) s"
  proof (cases "here s")
    case None
    then show ?thesis by (simp add: wp_rules)
  next
    case (Some n)
    with s assms have "keeps (grown_rel A) (f n)" by simp
    from keeps_inv_wp [OF this, of s] s Some show ?thesis by (simp add: wp_rules)
  qed
qed

lemma grown_meta:
  "keeps (grown_rel A) (set_ownership uid gid)" "keeps (grown_rel A) (chmod mode)" "keeps (grown_rel A) (utime mtime)"
  unfolding set_ownership_def chmod_def utime_def
  by (rule grown_update, rule grown_put, simp add: grown_set_meta)+

lemma grown_metadata: "keeps (grown_rel A) (member_metadata m)"
  unfolding member_metadata_def by (intro inv.keeps_intros grown_meta)

lemma grown_make_dir: "A [] True \<Longrightarrow> keeps (grown_rel A) make_dir"
  unfolding make_dir_def by (intro inv.keeps_intros keeps_case_option grown_create grown_tick) (simp add: grown_Dir)

lemma grown_write: "A [] False \<Longrightarrow> keeps (grown_rel A) (write_new_file m data)"
proof -
  assume A: "A [] False"
  have "keeps (grown_rel A) (put_here (Some (File mt c)))" for mt c
    by (rule grown_put) (simp add: grown_leaf A)
  then have "keeps (grown_rel A) (write_content (Bytes data))"
    unfolding write_content_def
    by (intro inv.keeps_intros) (auto split: option.split node.split intro!: inv.keeps_intros)
  then show ?thesis
    unfolding write_new_file_def
    by (intro inv.keeps_intros grown_create grown_tick grown_metadata) (simp add: grown_leaf A)
qed

lemma grown_path:
  "(keeps (grown_rel (\<lambda>p. A (q @ p))) m) \<Longrightarrow> keeps (grown_rel A) (at_path q m)"
proof (induction q arbitrary: A)
  case (Cons k q)
  then have sub: "keeps (grown_rel (\<lambda>p. A (k # p))) (at_path q m)" by simp
  show ?case
  proof (rule keepsI)
    fix s r t assume "at_path (k # q) m s = (r, t)"
    then have run: "at_child k (at_path q m) s = (r, t)" by simp
    show "grown_rel A s t"
    proof (cases "\<exists>mt cs. here s = Some (Dir mt cs)")
      case True
      then obtain mt cs where h: "here s = Some (Dir mt cs)" by blast
      with run obtain v where v: "at_path q m (s\<lparr>here := map_of cs k\<rparr>) = (r, v)"
        and t: "t = v\<lparr>here := Some (Dir mt (put_opt k (here v) cs))\<rparr>" by (rule at_child_result)
      from keepsD [OF sub v] h t show ?thesis by (auto simp: inv_rel_def grown_Dir)
    next
      case False
      with at_child_no_dir [OF run] show ?thesis by (simp add: inv_rel_def)
    qed
  qed
qed simp

interpretation limited: below_stage "inv_rel (\<lambda>s. grown A (node_at (here s) stage))" stage "\<lambda>q. A q True" "\<lambda>q. A q False" for A stage
proof (rule below_stage.intro [OF inv.state_preorder_axioms]; unfold at_path_append; intro lift_inv grown_path)
  show "A q True \<Longrightarrow> keeps (grown_rel (\<lambda>p. A (q @ p))) (thenM (create (Dir fresh_meta [])) (thenM (set_ownership uid gid) (chmod mode)))" for q uid gid mode
    by (intro inv.keeps_intros grown_create grown_meta) (simp add: grown_Dir)
qed (simp_all add: grown_make_dir grown_write grown_metadata)

subsection \<open>What a complete extraction leaves\<close>

text \<open>
  The tree of an archive: every regular file at its path with its bytes, every directory, and nothing else than
  those and the directories above them.
\<close>

definition allowed :: "member list \<Rightarrow> string list \<Rightarrow> bool \<Rightarrow> bool" where
  "allowed ms p d \<longleftrightarrow> (if d then \<exists>m \<in> set ms. prefix p (member_parts m) \<and> (mem_kind m = KDir \<or> p \<noteq> member_parts m)
     else \<exists>m \<in> set ms. mem_kind m = KReg \<and> p = member_parts m)"

definition unpacked :: "tarball \<Rightarrow> node option \<Rightarrow> bool" where
  "unpacked tar v \<longleftrightarrow>
     (\<forall>m \<in> set (tar_members tar). mem_kind m = KReg \<and> member_parts m \<noteq> [] \<longrightarrow>
        (\<exists>data. mem_data m = Some data \<and> file_at (member_parts m) data v)) \<and>
     (\<forall>m \<in> set (tar_members tar). mem_kind m = KDir \<longrightarrow> dir_there (member_parts m) v) \<and>
     grown (\<lambda>p d. p = [] \<or> allowed (tar_members tar) p d) v"

lemma wp_any_tick: "(\<And>x t. here t = here s \<Longrightarrow> Q x t) \<Longrightarrow> wp tick Q (\<lambda>_ _. True) s"
  by (rule wp_tick) simp_all

lemma write_new_file_writes: "write_new_file m data s = (Inr x, t) \<Longrightarrow> \<exists>mt. here t = Some (File mt (Bytes data))"
proof -
  have put: "wp (put_here (Some v)) Q (\<lambda>_ _. True) s" if "\<And>t. here t = Some v \<Longrightarrow> Q () t" for v Q and s :: "'a slot_scheme"
    by (rule wp_put_here [of False]) (simp_all add: that)
  have meta: "wp (member_metadata m) (\<lambda>_ t. \<exists>mt. here t = Some (File mt (Bytes data))) (\<lambda>_ _. True) s"
    if "here s = Some (File mt (Bytes data))" for mt and s :: "'a slot_scheme"
    using that by (auto simp: member_metadata_def set_ownership_def chmod_def utime_def wp_then wp_bind wp_get intro!: put)
  have "wp (write_new_file m data) (\<lambda>_ t. \<exists>mt. here t = Some (File mt (Bytes data))) (\<lambda>_ _. True) s"
  proof (cases "here s")
    case None
    show ?thesis
      unfolding write_new_file_def wp_then
      by (rule wp_create [of False, OF _ None], simp, rule wp_write_content [of False], simp, assumption, rule wp_any_tick)
        (auto intro: meta)
  next
    case (Some n)
    then show ?thesis by (simp add: write_new_file_def create_def wp_rules)
  qed
  then show "write_new_file m data s = (Inr x, t) \<Longrightarrow> \<exists>mt. here t = Some (File mt (Bytes data))"
    by (rule wp_retD)
qed

lemma make_dir_makes: "make_dir s = (Inr x, t) \<Longrightarrow> \<exists>mt cs. here t = Some (Dir mt cs)"
proof -
  have "wp make_dir (\<lambda>_ t. \<exists>mt cs. here t = Some (Dir mt cs)) (\<lambda>_ _. True) s"
  proof (cases "here s")
    case None
    then show ?thesis by (auto simp: make_dir_def wp_bind wp_get intro!: wp_create [of False])
  next
    case (Some n)
    then show ?thesis by (cases n) (auto simp: make_dir_def wp_rules intro!: wp_any_tick)
  qed
  then show "make_dir s = (Inr x, t) \<Longrightarrow> \<exists>mt cs. here t = Some (Dir mt cs)" by (rule wp_retD)
qed

lemma extract_member_writes:
  assumes "extract_member stage m s = (Inr r, t)" and "''..'' \<notin> set stage" and "member_parts m \<noteq> []"
  shows "mem_kind m = KReg \<Longrightarrow> \<exists>data. mem_data m = Some data \<and> file_at (member_parts m) data (node_at (here t) stage)"
    and "mem_kind m = KDir \<Longrightarrow> dir_there (member_parts m) (node_at (here t) stage)"
proof -
  from assms(1) obtain name where name: "safe_archive_member_name (mem_name m) = Inr name"
    by (auto simp: extract_member_def prog_simps split: sum.splits)
  then have dot: "name \<noteq> ''.''" using safe_name_cases(1) [OF name] assms(3) by (auto simp: member_parts_def)
  note dest = safe_destination(2) [OF name assms(2), folded member_parts_def]
  {
    assume k: "mem_kind m = KReg"
    from assms(1) name dot k obtain data u x where "mem_data m = Some data"
      and w: "at_path (os_path (joinpath stage name)) (write_new_file m data) u = (Inr x, t)"
      by (auto simp: extract_member_def Let_def prog_simps split: sum.splits if_splits option.splits prod.splits)
    from node_at_path [OF w] write_new_file_writes have "\<exists>mt. node_at (here t) (stage @ member_parts m) = Some (File mt (Bytes data))"
      unfolding dest by metis
    with \<open>mem_data m = Some data\<close> show "\<exists>data. mem_data m = Some data \<and> file_at (member_parts m) data (node_at (here t) stage)"
      by (simp add: file_at_def node_at_append)
  next
    assume k: "mem_kind m = KDir"
    from assms(1) name dot k obtain u x where w: "at_path (os_path (joinpath stage name)) make_dir u = (Inr x, t)"
      by (auto simp: extract_member_def Let_def prog_simps split: sum.splits if_splits option.splits prod.splits)
    from node_at_path [OF w] make_dir_makes have "\<exists>mt cs. node_at (here t) (stage @ member_parts m) = Some (Dir mt cs)"
      unfolding dest by metis
    then show "dir_there (member_parts m) (node_at (here t) stage)"
      by (simp add: dir_there_def node_at_append)
  }
qed

text \<open>What holds after a member lasts until the end.\<close>

lemma members_lasting:
  assumes "extract_members stage ms dirs (s :: 'z slot_scheme) = (Inr ds, t)" and "m \<in> set ms"
    and "\<And>u r v. extract_member stage m (u :: 'z slot_scheme) = (Inr r, v) \<Longrightarrow> L (node_at (here v) stage)"
    and "\<And>ms dirs. keeps (inv_rel (\<lambda>s :: 'z slot_scheme. L (node_at (here s) stage))) (extract_members stage ms dirs)"
  shows "L (node_at (here t) stage)"
  using assms(1,2)
proof (induction ms arbitrary: dirs s)
  case (Cons a ms)
  then obtain r u where r: "extract_member stage a s = (Inr r, u)"
    and rest: "extract_members stage ms (case r of None \<Rightarrow> dirs | Some p \<Rightarrow> (p, a) # dirs) u = (Inr ds, t)"
    by (auto simp: prog_simps split: prod.splits sum.splits)
  show ?case
  proof (cases "m \<in> set ms")
    case True
    then show ?thesis by (rule Cons.IH [OF rest])
  next
    case False
    with Cons.prems have "m = a" by simp
    with r have "L (node_at (here u) stage)" using assms(3) by blast
    with keepsD [OF assms(4) rest] show ?thesis by (simp add: inv_rel_def)
  qed
qed simp

lemma list_all_True: "(\<And>x. x \<in> set xs \<Longrightarrow> P x) \<Longrightarrow> list_all P xs"
  by (simp add: list_all_iff)

lemma extract_all_unpacks:
  assumes run: "extract_all stage tar s = (Inr (), t)" and dots: "''..'' \<notin> set stage"
    and empty: "node_at (here s) stage = Some (Dir mt [])"
  shows "unpacked tar (node_at (here t) stage)" and "staged (node_at (here t) stage)"
proof -
  let ?ms = "tar_members tar"
  have reg: "\<exists>data. mem_data m = Some data \<and> file_at (member_parts m) data (node_at (here t) stage)"
    if m: "m \<in> set ?ms" "mem_kind m = KReg" "member_parts m \<noteq> []" for m
  proof -
    have fit: "list_all (files.below.fits) ?ms" by (simp add: files.below.fits_def list_all_iff)
    obtain ds u where u: "extract_members stage ?ms [] s = (Inr ds, u)" using files.below.all_cases [OF run fit dots] by metis
    let ?L = "\<lambda>v. \<exists>data. mem_data m = Some data \<and> file_at (member_parts m) data v"
    show ?thesis
    proof (cases "mem_data m")
      case None
      have "False" if "extract_member stage m v = (Inr r, w)" for v w :: "'a slot_scheme" and r
        using extract_member_writes(1) [OF that dots m(3,2)] None by simp
      then have "(\<lambda>_. False) (node_at (here u) stage)"
        by (rule members_lasting [OF u m(1), where L = "\<lambda>_. False"]) (assumption, rule keepsI, simp add: inv_rel_def)
      then show ?thesis by simp
    next
      case (Some data)
      have k: "keeps (inv_rel (\<lambda>s :: 'a slot_scheme. file_at (member_parts m) data (node_at (here s) stage))) (extract_members stage ms dirs)" for ms dirs
        by (rule files.below.keeps_members) (simp_all add: files.below.fits_def list_all_iff dots)
      have "file_at (member_parts m) data (node_at (here u) stage)"
      proof (rule members_lasting [OF u m(1) _ k])
        fix v w :: "'a slot_scheme" and r assume "extract_member stage m v = (Inr r, w)"
        from extract_member_writes(1) [OF this dots m(3,2)] Some
        show "file_at (member_parts m) data (node_at (here w) stage)" by simp
      qed
      moreover obtain ds' u' where "extract_members stage ?ms [] s = (Inr ds', u')"
        "inv_rel (\<lambda>s. file_at (member_parts m) data (node_at (here s) stage)) u' t"
        by (rule files.below.all_cases [OF run fit dots])
      ultimately show ?thesis using u Some by (simp add: inv_rel_def)
    qed
  qed
  have dir: "dir_there (member_parts m) (node_at (here t) stage)" if m: "m \<in> set ?ms" "mem_kind m = KDir" for m
  proof -
    have fit: "list_all (dirs.below.fits) ?ms" by (simp add: dirs.below.fits_def list_all_iff)
    show ?thesis
    proof (cases "member_parts m = []")
      case True
      have k: "keeps (inv_rel (\<lambda>s :: 'a slot_scheme. dir_there [] (node_at (here s) stage))) (extract_all stage tar)"
        by (rule dirs.below.keeps_all [OF fit dots])
      from keepsD [OF k run] empty True show ?thesis by (simp add: inv_rel_def dir_there_def)
    next
      case False
      obtain ds u where u: "extract_members stage ?ms [] s = (Inr ds, u)"
        and ut: "inv_rel (\<lambda>s. dir_there (member_parts m) (node_at (here s) stage)) u t"
        by (rule dirs.below.all_cases [OF run fit dots])
      have k: "keeps (inv_rel (\<lambda>s :: 'a slot_scheme. dir_there (member_parts m) (node_at (here s) stage))) (extract_members stage ms dirs)" for ms dirs
        by (rule dirs.below.keeps_members) (simp_all add: dirs.below.fits_def list_all_iff dots)
      have "dir_there (member_parts m) (node_at (here u) stage)"
        by (rule members_lasting [OF u m(1) _ k]) (rule extract_member_writes(2) [OF _ dots False m(2)])
      with ut show ?thesis by (simp add: inv_rel_def)
    qed
  qed
  let ?A = "\<lambda>p d. p = [] \<or> allowed ?ms p d"
  have "list_all (limited.fits ?A) ?ms"
    by (rule list_all_True, subst limited.fits_def) (auto simp: allowed_def)
  from keepsD [OF limited.keeps_all [OF this dots] run] empty
  have g: "grown ?A (node_at (here t) stage)" by (simp add: inv_rel_def grown_Dir)
  show "unpacked tar (node_at (here t) stage)" unfolding unpacked_def using reg dir g by blast
  have "list_all clean.fits ?ms"
    by (rule list_all_True) (auto simp: clean.fits_def clean_path_def member_parts_def prefix_def hd_append dest: safe_parts)
  from keepsD [OF clean.keeps_all [OF this dots] run] empty
  show "staged (node_at (here t) stage)" by (simp add: inv_rel_def staged_def)
qed

subsection \<open>The whole extraction\<close>

text \<open>What the operations on the staging directory itself keep as well, the whole extraction keeps, whatever its outcome.\<close>

locale stage_owner = below_stage R stage "\<lambda>_. True" "\<lambda>_. True" for R stage +
  assumes tick_keeps: "keeps R tick"
    and remove_keeps: "keeps R (at_path stage remove_path)"
    and create_keeps: "keeps R (at_path stage (create (Dir m [])))"
begin

lemma keeps_extract:
  assumes "''..'' \<notin> set stage"
  shows "keeps R (extract_verified_archive arc stage)"
proof -
  have fit: "list_all fits (tar_members tar)" for tar by (simp add: fits_def list_all_iff)
  show ?thesis
    unfolding extract_verified_archive_def
    by (intro state_preorder.keeps_intros [OF pre] tick_keeps remove_keeps create_keeps keeps_all [OF fit assms])
qed

end

lemma good_slot_rmtree:
  "keeps (inv_rel (good_slot :: 'z slot_scheme \<Rightarrow> bool)) (rmtree n)" "keeps (inv_rel (good_slot :: 'z slot_scheme \<Rightarrow> bool)) (rmtree_entries cs)"
  by (induction n and cs rule: rmtree_rmtree_entries.induct)
    (auto intro!: inv.keeps_intros frame_rules)

lemma good_slot_remove_path: "keeps (inv_rel good_slot) remove_path"
  unfolding remove_path_def
  by (intro inv.keeps_intros) (auto split: option.split node.split intro!: inv.keeps_intros frame_rules good_slot_rmtree)

lemma keeps_at_path [frame_rules]: "keeps fs_rel m \<Longrightarrow> keeps fs_rel (at_path p m)"
  by (induction p) (auto intro: frame_rules)

lemma keeps_update_meta [frame_rules]:
  "keeps fs_rel (set_ownership uid gid)" "keeps fs_rel (chmod mode)" "keeps fs_rel (utime mtime)"
  unfolding set_ownership_def chmod_def utime_def by (intro fs.keeps_intros keeps_cases frame_rules)+

lemma keeps_member_ops [frame_rules]:
  "keeps fs_rel (member_metadata m)" "keeps fs_rel (write_new_file m data)" "keeps fs_rel make_dir"
  unfolding member_metadata_def write_new_file_def make_dir_def by (intro fs.keeps_intros keeps_cases frame_rules)+

interpretation owner_outside: stage_owner "outside_rel stage" stage for stage
  by unfold_locales (rule outside_tick outside_at_path [of stage "[]", simplified])+

interpretation owner_sound: stage_owner "inv_rel good_slot" stage for stage
  by unfold_locales (intro good_slot_tick good_slot_path good_slot_remove_path good_slot_create; simp)+

interpretation owner_frame: stage_owner fs_rel stage for stage
  by unfold_locales (auto intro: fs.reflR fs.transR intro!: fs.keeps_intros frame_rules)

text \<open>
  \<open>extracted arc world v\<close>: the archive was found restorable, with this world, when it was inspected, and \<open>v\<close>
  is the tree of what was then read from it; its fingerprint was the same before and after.
\<close>

definition extracted :: "(nat \<Rightarrow> tarball) \<Rightarrow> string \<Rightarrow> node option \<Rightarrow> bool" where
  "extracted arc world v \<longleftrightarrow> staged v \<and> (\<exists>a i n b. a \<le> i \<and> i \<le> n \<and> n \<le> b \<and>
     tar_fingerprint (arc a) = tar_fingerprint (arc b) \<and>
     insp_restorable (inspect_archive (arc i)) \<and> world = insp_world (inspect_archive (arc i)) \<and>
     tar_error (arc n) = None \<and> unpacked (arc n) v)"

lemma run_tick_then: "bindM (thenM tick (getM f)) k s = (Inr x, t) \<Longrightarrow>
    k (f (s\<lparr>io_step := Suc (io_step s)\<rparr>)) (s\<lparr>io_step := Suc (io_step s)\<rparr>) = (Inr x, t)"
  by (auto simp: prog_simps split: prod.splits sum.splits dest: tick_ret)

lemma run_then: "thenM m k s = (Inr x, t) \<Longrightarrow> \<exists>u. m s = (Inr (), u) \<and> k u = (Inr x, t)"
  by (auto simp: prog_simps split: prod.splits sum.splits)

lemma extract_all_error: "extract_all stage tar s = (Inr x, t) \<Longrightarrow> tar_error tar = None"
  by (auto simp: extract_all_def prog_simps split: option.splits sum.splits prod.splits)

lemma create_at_creates:
  assumes "at_path stage (create n) (s :: 'a slot_scheme) = (Inr x, t)" shows "node_at (here t) stage = Some n"
proof -
  from node_at_path [OF assms] obtain u v :: "'a slot_scheme" where c: "create n u = (Inr x, v)" and v: "here v = node_at (here t) stage" by blast
  have "wp (create n) (\<lambda>_ t. here t = Some n) (\<lambda>_ _. True) u"
    unfolding create_def wp_bind wp_get by (auto simp: wp_raise intro!: wp_put_here [of False])
  from wp_retD [OF this c] v show ?thesis by simp
qed

lemma extract_verified_archive_ok:
  assumes run: "extract_verified_archive arc stage s = (Inr world, t)" and dots: "''..'' \<notin> set stage"
  shows "extracted arc world (node_at (here t) stage)"
proof -
  let ?next = "\<lambda>s :: 'a slot_scheme. s\<lparr>io_step := Suc (io_step s)\<rparr>"
  let ?insp = "inspect_archive (arc (io_step (?next (?next s))))"
  note r2 = run_tick_then [OF run_tick_then [OF run [unfolded extract_verified_archive_def]]]
  have ok: "insp_ok ?insp" "insp_restorable ?insp" using r2 by (auto simp: prog_simps split: if_splits)
  from r2 ok obtain u1 u2 u3 where 1: "at_path stage remove_path (?next (?next s)) = (Inr (), u1)"
    and 2: "at_path stage (create (Dir (fresh_meta\<lparr>m_mode := 448\<rparr>) [])) u1 = (Inr (), u2)"
    and 3: "tryM (thenM tick (bindM (getM (\<lambda>s. arc (io_step s))) (extract_all stage)))
        (\<lambda>e. thenM (at_path stage remove_path) (raiseM e)) u2 = (Inr (), u3)"
    and 4: "bindM (thenM tick (getM (\<lambda>s. tar_fingerprint (arc (io_step s))))) (\<lambda>after.
        if after \<noteq> tar_fingerprint (arc (io_step (?next s)))
        then thenM (at_path stage remove_path) (raiseM (RestoreWorkerError ''l archive a change pendant son extraction''))
        else retM (insp_world ?insp)) u3 = (Inr world, t)"
    by (auto dest!: run_then)
  from 3 have 5: "extract_all stage (arc (io_step (?next u2))) (?next u2) = (Inr (), u3)"
    by (auto simp: prog_simps split: prod.splits sum.splits if_splits dest: tick_ret)
  from create_at_creates [OF 2] have "node_at (here (?next u2)) stage = Some (Dir (fresh_meta\<lparr>m_mode := 448\<rparr>) [])" by simp
  note up = extract_all_unpacks [OF 5 dots this] and err = extract_all_error [OF 5]
  from run_tick_then [OF 4] have 6: "tar_fingerprint (arc (io_step (?next u3))) = tar_fingerprint (arc (io_step (?next s)))"
    and world: "world = insp_world ?insp" and t: "here t = here u3"
    by (auto simp: prog_simps split: if_splits prod.splits sum.splits)
  have "io_step (?next (?next s)) \<le> io_step u1" "io_step u1 \<le> io_step u2" "io_step (?next u2) \<le> io_step u3"
    using keepsD [OF owner_frame.remove_keeps 1] keepsD [OF owner_frame.create_keeps 2]
      keepsD [OF owner_frame.keeps_all 5] dots by (auto simp: fs_rel_def owner_frame.fits_def list_all_iff)
  then show ?thesis
    unfolding extracted_def t world using up err 6 ok
    by (intro conjI exI [of _ "io_step (?next s)"] exI [of _ "io_step (?next (?next s))"]
        exI [of _ "io_step (?next u2)"] exI [of _ "io_step (?next u3)"]) simp_all
qed

text \<open>The extraction at a place below the root of a tree of its own, as the data root is.\<close>

lemma outside_entry: "outside [k] (Some (Dir m cs)) v \<Longrightarrow> \<exists>cs'. v = Some (Dir m cs') \<and> (\<forall>j. j \<noteq> k \<longrightarrow> map_of cs' j = map_of cs j)"
proof -
  assume o: "outside [k] (Some (Dir m cs)) v"
  from o [unfolded outside_def, rule_format, of "[]"] have "map_option node_leaf v = Some (LDir m)" by simp
  then obtain cs' where v: "v = Some (Dir m cs')" by (auto elim!: node_leaf.elims)
  have "map_of cs' j = map_of cs j" if "j \<noteq> k" for j
    using o [unfolded outside_def, rule_format, of "[j]"] that v by simp
  with v show ?thesis by blast
qed

end
