(* ===== verification/Restore_Worker.thy ===== *)
theory Restore_Worker
  imports Docker_Control Archive_Validation
begin

text \<open>
  The restore transaction of \<^verbatim>\<open>app/restore_worker.py\<close>: \<open>restore_transaction\<close>,
  \<open>_recover_interrupted_transaction\<close> and the helpers they call.

  The slot holds the data root of Minecraft, which stands for the root of the file system. The names in \<open>restore_transaction_names\<close> are the
  working files of the transaction; all other entries are the world. The operations that stop and
  start the server are arguments, as in the code, and are those of \<^verbatim>\<open>Docker_Control\<close> in the
  worker's \<open>main\<close>.

  The two flags of the transaction (\<open>stopped\<close>, \<open>rollback_ready\<close>) are local variables that the
  exception handler reads, so its body runs on the disk together with them.
\<close>

subsection \<open>The working files\<close>

definition stage_name :: string where
  "stage_name = ''.mc-restore-stage''"

definition rollback_name :: string where
  "rollback_name = ''.mc-restore-rollback''"

definition state_name :: string where
  "state_name = ''.mc-restore-transaction.json''"

definition state_tmp_name :: string where
  "state_tmp_name = ''.mc-restore-transaction.json.tmp''"

text \<open>\<open>path.exists()\<close> for an entry of the data root.\<close>

definition entry :: "string \<Rightarrow> 'z slot_scheme \<Rightarrow> node option" where
  "entry k s = node_at (here s) [k]"

subsection \<open>The transaction marker\<close>

definition payload :: "string \<Rightarrow> string \<Rightarrow> json" where
  "payload phase target =
     JObj [(''version'', JInt 1), (''phase'', JStr phase), (''target'', JStr target)]"

definition open_truncated :: "('z slot_scheme, unit) prog" where
  "open_truncated = bindM (getM here) (\<lambda>h. case h of
       None \<Rightarrow> put_here (Some (File fresh_meta (Bytes [])))
     | Some (File m c) \<Rightarrow> put_here (Some (File m (Bytes [])))
     | Some n \<Rightarrow> raiseM (OSError ''EISDIR''))"

text \<open>\<open>os.replace\<close> of one entry of a directory by another, in one step.\<close>

definition replace_entry :: "string \<Rightarrow> string \<Rightarrow> ('z slot_scheme, unit) prog" where
  "replace_entry src dst = bindM (getM here) (\<lambda>h. case h of
       Some (Dir mt cs) \<Rightarrow>
         (case map_of cs src of
            None \<Rightarrow> raiseM (OSError ''ENOENT'')
          | Some n \<Rightarrow>
              if (case map_of cs dst of None \<Rightarrow> False | Some d \<Rightarrow> is_dir d) then raiseM (OSError ''EISDIR'')
              else put_here (Some (Dir mt (AList.delete src (AList.update dst n cs)))))
     | _ \<Rightarrow> raiseM (OSError ''ENOTDIR''))"

definition write_state :: "string \<Rightarrow> string \<Rightarrow> ('z slot_scheme, unit) prog" where
  "write_state phase target =
     thenM (at_child state_tmp_name
       (thenM open_truncated (thenM (write_content (JsonText (payload phase target))) tick)))
       (replace_entry state_tmp_name state_name)"

definition read_state :: "('z slot_scheme, json option) prog" where
  "read_state = bindM (getM (entry state_name)) (\<lambda>st. case st of
       None \<Rightarrow> retM None
     | Some n \<Rightarrow>
         bindM (tryM (thenM tick (case n of
              File m (JsonText j) \<Rightarrow> retM j
            | _ \<Rightarrow> raiseM (OSError ''JSON'')))
            (\<lambda>e. raiseM (RestoreWorkerError ''marqueur de transaction illisible'')))
         (\<lambda>j. if \<not> is_obj j \<or> \<not> equals_one (jget j ''version'')
              then raiseM (RestoreWorkerError ''marqueur de transaction invalide'')
              else retM (Some j)))"

text \<open>
  \<open>str(value)\<close> of a JSON value. Only the text of strings matters: the phases compared below are
  not the text of any other value. Numbers with a fraction and containers are not spelled out.
\<close>

fun py_str :: "json \<Rightarrow> string" where
  "py_str (JStr s) = s"
| "py_str JNull = ''None''"
| "py_str (JBool b) = (if b then ''True'' else ''False'')"
| "py_str (JInt i) = str_int i"
| "py_str _ = ''[...]''"

definition state_text :: "json option \<Rightarrow> string \<Rightarrow> string \<Rightarrow> string" where
  "state_text state key dflt = (case state of
       None \<Rightarrow> dflt
     | Some j \<Rightarrow> if jhas j key then py_str (jget j key) else dflt)"

definition cleanup_transaction :: "('z slot_scheme, unit) prog" where
  "cleanup_transaction =
     thenM (at_child stage_name remove_path)
    (thenM (at_child rollback_name remove_path)
    (thenM (at_child state_name unlink_missing_ok)
           (at_child state_tmp_name unlink_missing_ok)))"

subsection \<open>Cloning the live tree, synchronising from a working directory\<close>

definition clone_live_tree :: "('z slot_scheme, unit) prog" where
  "clone_live_tree =
     thenM (at_child rollback_name (thenM remove_path (create (Dir (fresh_meta\<lparr>m_mode := 448\<rparr>) []))))
    (bindM (getM here) (\<lambda>root. case root of
       Some (Dir mt cs) \<Rightarrow>
         tryM (at_child rollback_name
                (thenM (clone_entries (filter (\<lambda>(k, n). k \<notin> set restore_transaction_names) cs))
                       (copy_metadata mt)))
           (\<lambda>e. thenM (at_child rollback_name remove_path) (raiseM e))
     | _ \<Rightarrow> raiseM (OSError ''ENOTDIR'')))"

definition sync_from :: "string \<Rightarrow> bool \<Rightarrow> ('z slot_scheme, unit) prog" where
  "sync_from source remove_absent = bindM (getM (entry source)) (\<lambda>src. case src of
       Some (Dir m cs) \<Rightarrow> thenM tick (sync_tree cs restore_transaction_names remove_absent)
     | _ \<Rightarrow> raiseM (OSError ''ENOTDIR''))"

subsection \<open>Recovery of an interrupted transaction\<close>

definition rollback_phases :: "string list" where
  "rollback_phases = [''rollback_ready'', ''applying'', ''applied'', ''starting'', ''rolling_back'', ''rollback_failed'']"

text \<open>What is done once the marker has been read; \<open>rollback\<close> says whether the rollback exists.\<close>

definition recover_decide ::
  "(disk, unit) prog \<Rightarrow> (disk, unit) prog \<Rightarrow> bool \<Rightarrow> json option \<Rightarrow> (disk, string option) prog" where
  "recover_decide stop start rollback state =
     (let phase = state_text state ''phase'' ''unknown''; target = state_text state ''target'' ''archive inconnue'' in
       if phase = ''started'' then thenM cleanup_transaction (retM (Some target))
       else if rollback \<and> (state = None \<or> phase \<in> set rollback_phases) then
         thenM stop
        (thenM (sync_from rollback_name True)
        (thenM start
        (thenM cleanup_transaction
           (raiseM (RestoreWorkerError
              ''une transaction interrompue a ete annulee ; l ancien monde est redemarre'')))))
       else if phase \<in> {''staged'', ''stopping'', ''stopped'', ''rollback_ready''} then
         thenM start
        (thenM cleanup_transaction
           (raiseM (RestoreWorkerError ''une transaction interrompue avant application a ete annulee'')))
       else if phase \<in> {''applied'', ''starting''} then
         thenM start
        (thenM cleanup_transaction
           (raiseM (RestoreWorkerError ''le monde restaure a ete redemarre, mais le rollback local etait absent'')))
       else raiseM (RestoreWorkerError
              ''transaction interrompue sans rollback utilisable ; intervention manuelle requise''))"

definition recover_interrupted_transaction ::
  "(disk, unit) prog \<Rightarrow> (disk, unit) prog \<Rightarrow> (disk, string option) prog" where
  "recover_interrupted_transaction stop start =
     bindM (getM (entry state_name)) (\<lambda>st.
     bindM (getM (entry rollback_name)) (\<lambda>rb.
     if st = None \<and> rb = None then
       thenM (at_child stage_name remove_path)
      (thenM (at_child state_tmp_name unlink_missing_ok)
         (retM None))
     else
       bindM (exceptM is_restore_worker_error read_state
                (\<lambda>e. if rb = None then raiseM e else retM None))
         (recover_decide stop start (rb \<noteq> None))))"

subsection \<open>The archive to restore\<close>

text \<open>
  The instruction left by the panel and the directory of backups. \<open>real_path\<close> is what
  \<open>Path.resolve(strict=True)\<close> of the backups root joined with some parts gives, following the
  symbolic links there; \<open>regular\<close> tells whether that path is a file.
\<close>

record consigne =
  target_size :: nat
  target_text :: "string option"
  backups_root :: "string list"
  real_path :: "string list \<Rightarrow> string list option"
  regular :: "string list \<Rightarrow> bool"

definition resolve_target_archive :: "consigne \<Rightarrow> exn + string \<times> string list" where
  "resolve_target_archive c =
     (if target_size c > 4096 then Inl (RestoreWorkerError ''fichier de consigne anormalement volumineux'')
      else case target_text c of
        None \<Rightarrow> Inl (OSError ''consigne'')
      | Some raw \<Rightarrow>
          if list_ex (\<lambda>ch. code ch = 10 \<or> code ch = 13) raw
          then Inl (RestoreWorkerError ''la consigne de restauration doit tenir sur une ligne'')
          else let target = strip raw; parts = path_parts target
            in if target = [] \<or> is_absolute target \<or> ''..'' \<in> set parts \<or> \<not> endswith target ''.tar.gz''
               then Inl (RestoreWorkerError ''chemin d archive cible invalide'')
               else (case real_path c parts of
                   None \<Rightarrow> Inl (OSError ''ENOENT'')
                 | Some path \<Rightarrow>
                     if \<not> prefix (backups_root c) path
                     then Inl (RestoreWorkerError ''l archive cible sort du dossier des sauvegardes'')
                     else if \<not> regular c path then Inl (RestoreWorkerError ''archive cible introuvable'')
                     else Inr (target, path)))"

subsection \<open>The transaction\<close>

type_synonym transaction = "disk \<times> bool \<times> bool"

definition call :: "(disk, 'a) prog \<Rightarrow> (transaction, 'a) prog" where
  "call m = zoomM fst (\<lambda>t (s, flags). (t, flags)) m"

definition set_stopped :: "bool \<Rightarrow> (transaction, unit) prog" where
  "set_stopped b = modM (\<lambda>(s, stopped, ready). (s, b, ready))"

definition set_rollback_ready :: "(transaction, unit) prog" where
  "set_rollback_ready = modM (\<lambda>(s, stopped, ready). (s, stopped, True))"

definition apply_restore ::
  "(disk, unit) prog \<Rightarrow> (disk, unit) prog \<Rightarrow> string \<Rightarrow> (transaction, unit) prog" where
  "apply_restore stop start target =
     thenM (call (write_state ''stopping'' target))
    (thenM (set_stopped True)
    (thenM (call stop)
    (thenM (call (write_state ''stopped'' target))
    (thenM (call clone_live_tree)
    (thenM set_rollback_ready
    (thenM (call (write_state ''rollback_ready'' target))
    (thenM (call (write_state ''applying'' target))
    (thenM (call (sync_from stage_name False))
    (thenM (call (write_state ''applied'' target))
    (thenM (call (write_state ''starting'' target))
    (thenM (call start)
    (thenM (set_stopped False)
           (call (write_state ''started'' target))))))))))))))"

definition undo_restore ::
  "(disk, unit) prog \<Rightarrow> (disk, unit) prog \<Rightarrow> string \<Rightarrow> (transaction, unit) prog" where
  "undo_restore stop start target =
     thenM (call (write_state ''rolling_back'' target))
    (thenM (call stop)
    (thenM (call (sync_from rollback_name True))
    (thenM (call start)
    (thenM (set_stopped False)
           (call cleanup_transaction)))))"

definition restore_failed ::
  "(disk, unit) prog \<Rightarrow> (disk, unit) prog \<Rightarrow> string \<Rightarrow> exn \<Rightarrow> (transaction, unit) prog" where
  "restore_failed stop start target e = bindM (getM snd) (\<lambda>(stopped, rollback_ready).
     if rollback_ready then
       thenM (tryM (undo_restore stop start target)
               (\<lambda>rollback_exc.
                  thenM (ignoreM (call (write_state ''rollback_failed'' target)))
                    (raiseM (RestoreWorkerError
                      ''restauration et rollback en echec ; intervention manuelle requise''))))
         (raiseM (RestoreWorkerError (''restauration annulee, rollback applique : '' @ exn_str e)))
     else
       thenM (whenM stopped
         (tryM (thenM (call start) (set_stopped False))
            (\<lambda>start_exc. raiseM (RestoreWorkerError ''echec avant application et redemarrage impossible''))))
      (thenM (call cleanup_transaction)
         (raiseM (RestoreWorkerError (''restauration annulee avant application : '' @ exn_str e)))))"

definition run_transaction :: "(transaction, 'a) prog \<Rightarrow> (disk, 'a) prog" where
  "run_transaction m = (\<lambda>s. case m (s, False, False) of (r, (t, flags)) \<Rightarrow> (r, t))"

definition restore_transaction ::
  "(disk, unit) prog \<Rightarrow> (disk, unit) prog \<Rightarrow> consigne \<Rightarrow> (string list \<Rightarrow> (disk, string) prog) \<Rightarrow> (disk, string) prog" where
  "restore_transaction stop start cons extract = bindM (getM here) (\<lambda>root.
     if \<not> (case root of Some n \<Rightarrow> is_dir n | None \<Rightarrow> False)
     then raiseM (RestoreWorkerError ''dossier de donnees Minecraft invalide'')
     else bindM (recover_interrupted_transaction stop start) (\<lambda>recovered. case recovered of
       Some target \<Rightarrow> retM target
     | None \<Rightarrow> (case resolve_target_archive cons of
         Inl e \<Rightarrow> raiseM e
       | Inr (target, path) \<Rightarrow>
           thenM (extract path)
          (thenM (write_state ''staged'' target)
          (thenM (run_transaction (tryM (apply_restore stop start target) (restore_failed stop start target)))
          (thenM (ignoreM cleanup_transaction)
             (retM target)))))))"


subsection \<open>Worlds, rollbacks, markers\<close>

type_synonym entries = "string \<Rightarrow> node option"

abbreviation reserved :: "string set" where
  "reserved \<equiv> set restore_transaction_names"

lemma reserved_names [simp]:
  "stage_name \<in> reserved" "rollback_name \<in> reserved" "state_name \<in> reserved" "state_tmp_name \<in> reserved"
  by (simp_all add: restore_transaction_names_def stage_name_def rollback_name_def state_name_def state_tmp_name_def)

lemma names_distinct [simp]:
  "stage_name \<noteq> rollback_name" "stage_name \<noteq> state_name" "stage_name \<noteq> state_tmp_name"
  "rollback_name \<noteq> stage_name" "rollback_name \<noteq> state_name" "rollback_name \<noteq> state_tmp_name"
  "state_name \<noteq> stage_name" "state_name \<noteq> rollback_name" "state_name \<noteq> state_tmp_name"
  "state_tmp_name \<noteq> stage_name" "state_tmp_name \<noteq> rollback_name" "state_tmp_name \<noteq> state_name"
  by (simp_all add: stage_name_def rollback_name_def state_name_def state_tmp_name_def)

text \<open>
  The entries \<open>g\<close> of the data root hold the world \<open>w\<close>: outside the working files, each entry has
  the contents \<open>w\<close> says. A rollback directory is complete when its entries do.
\<close>

definition world_is :: "entries \<Rightarrow> entries \<Rightarrow> bool" where
  "world_is w g \<longleftrightarrow> (\<forall>k. k \<notin> reserved \<longrightarrow> (case w k of None \<Rightarrow> g k = None | Some n \<Rightarrow> holds n (g k)))"

definition rollback_is :: "entries \<Rightarrow> node option \<Rightarrow> bool" where
  "rollback_is w v \<longleftrightarrow> (\<exists>m cs. v = Some (Dir m cs) \<and> set (keys cs) \<inter> reserved = {} \<and> world_is w (map_of cs))"

definition marker :: "string \<Rightarrow> node option \<Rightarrow> bool" where
  "marker ph v \<longleftrightarrow> (\<exists>m t. v = Some (File m (JsonText (payload ph t))))"

definition plain_file :: "node option \<Rightarrow> bool" where
  "plain_file v \<longleftrightarrow> (\<forall>n. v = Some n \<longrightarrow> is_file n)"

lemma plain_file_simps [simp]: "plain_file None" "plain_file (Some (File m c))"
  by (simp_all add: plain_file_def)

lemma marker_plain: "marker ph v \<Longrightarrow> plain_file v" and marker_present: "marker ph v \<Longrightarrow> v \<noteq> None"
  by (auto simp: marker_def)

lemma world_is_cong: "(\<And>k. k \<notin> reserved \<Longrightarrow> g' k = g k) \<Longrightarrow> world_is w g \<Longrightarrow> world_is w g'"
  by (auto simp: world_is_def split: option.split)

lemma world_is_self: "(\<And>k. good_opt (w k)) \<Longrightarrow> world_is w w"
  unfolding world_is_def good_opt_def holds_def by (auto split: option.split)

lemma not_reserved:
  "k \<notin> reserved \<Longrightarrow> k \<noteq> stage_name \<and> k \<noteq> rollback_name \<and> k \<noteq> state_name \<and> k \<noteq> state_tmp_name"
  by (metis reserved_names)

lemma world_is_trans: "world_is w f \<Longrightarrow> world_is f g \<Longrightarrow> world_is w g"
  unfolding world_is_def
proof (intro allI impI)
  fix k assume a: "\<forall>k. k \<notin> reserved \<longrightarrow> (case w k of None \<Rightarrow> f k = None | Some n \<Rightarrow> holds n (f k))"
    "\<forall>k. k \<notin> reserved \<longrightarrow> (case f k of None \<Rightarrow> g k = None | Some n \<Rightarrow> holds n (g k))" "k \<notin> reserved"
  then have "case w k of None \<Rightarrow> f k = None | Some n \<Rightarrow> holds n (f k)"
    "case f k of None \<Rightarrow> g k = None | Some n \<Rightarrow> holds n (g k)" by blast+
  then show "case w k of None \<Rightarrow> g k = None | Some n \<Rightarrow> holds n (g k)"
    by (cases "w k") (auto simp: holds_def, rule same_trans)
qed

lemma holds_trans: "holds n v \<Longrightarrow> holds n' (Some n) \<Longrightarrow> holds n' v"
  by (auto simp: holds_def intro: same_trans)

subsection \<open>Specifications of the helpers\<close>

lemma keeps_restore_helpers [frame_rules]:
  "keeps fs_rel open_truncated" "keeps fs_rel (replace_entry a b)" "keeps fs_rel clone_live_tree"
  "keeps fs_rel (sync_from d r)" "keeps fs_rel read_state"
  unfolding open_truncated_def replace_entry_def clone_live_tree_def sync_from_def read_state_def
  by ((intro fs.keeps_bind fs.keeps_get fs.keeps_then frame_rules)?;
      auto split: option.split node.split content.split intro!: fs.keeps_intros frame_rules)+

lemma keeps_write_state [frame_rules]: "keeps fs_rel (write_state ph t)"
  and keeps_cleanup [frame_rules]: "keeps fs_rel cleanup_transaction"
  unfolding write_state_def cleanup_transaction_def by (intro fs.keeps_intros frame_rules)+

lemma wp_open_truncated:
  assumes "calm F s" and "plain_file (here s)"
    and "\<And>t m. calm F t \<Longrightarrow> here t = Some (File m (Bytes [])) \<Longrightarrow> Q () t"
    and "\<And>e t. \<not> F \<Longrightarrow> here t = here s \<Longrightarrow> E e t"
  shows "wp open_truncated Q E s"
  using assms
  by (cases "here s")
    (auto simp: open_truncated_def wp_rules plain_file_def elim!: is_file.elims intro!: wp_put_here [where F = F])

lemma wp_write_state:
  assumes d: "dir_at mt (\<lambda>g. g = f) s" and F: "calm F s" and pl: "plain_file (f state_tmp_name)" "plain_file (f state_name)"
  shows "wp (write_state ph t)
    (\<lambda>_ s'. dir_at mt (\<lambda>g. (\<forall>k. k \<noteq> state_tmp_name \<and> k \<noteq> state_name \<longrightarrow> g k = f k) \<and> g state_tmp_name = None \<and> marker ph (g state_name)) s' \<and> calm F s')
    (\<lambda>_ s'. \<not> F \<and> dir_at mt (\<lambda>g. (\<forall>k. k \<noteq> state_tmp_name \<longrightarrow> g k = f k) \<and> plain_file (g state_tmp_name)) s') s"
proof -
  let ?E = "\<lambda>_ s'. \<not> F \<and> dir_at mt (\<lambda>g. (\<forall>k. k \<noteq> state_tmp_name \<longrightarrow> g k = f k) \<and> plain_file (g state_tmp_name)) s'"
  let ?c = "JsonText (payload ph t)"
  have tmp: "wp (at_child state_tmp_name (thenM open_truncated (thenM (write_content ?c) tick)))
     (\<lambda>_ s'. dir_at mt (\<lambda>g. (\<forall>k. k \<noteq> state_tmp_name \<longrightarrow> g k = f k) \<and> (\<exists>m. g state_tmp_name = Some (File m ?c))) s' \<and> calm F s')
     ?E s"
  proof (rule wp_at_child_dir [OF d F], goal_cases)
    case (1 f' u)
    show ?case
      unfolding wp_then
      by (rule wp_open_truncated [where F = F]; (rule wp_write_content [where F = F]; (rule wp_tick_calm [where F = F])?)?)
        (use 1 pl in \<open>auto simp: plain_file_def\<close>)
  qed
  show ?thesis
    unfolding write_state_def wp_then
  proof (rule wp_mono [OF tmp], goal_cases)
    case (1 x u)
    then obtain ds m where ds: "here u = Some (Dir mt ds)" "good (Dir mt ds)" "\<forall>k. k \<noteq> state_tmp_name \<longrightarrow> map_of ds k = f k"
      "map_of ds state_tmp_name = Some (File m ?c)" and "calm F u" by (auto simp: dir_at_def)
    have nd: "\<not> (case map_of ds state_name of None \<Rightarrow> False | Some d \<Rightarrow> is_dir d)"
      using ds(3) pl(2) by (auto simp: plain_file_def split: option.splits elim!: is_file.elims)
    let ?ds = "AList.delete state_tmp_name (AList.update state_name (File m ?c) ds)"
    have "good (Dir mt (put_opt state_tmp_name None (put_opt state_name (Some (File m ?c)) ds)))"
      by (intro good_Dir_put_opt ds(2)) auto
    then have "good (Dir mt ?ds)" by (simp add: put_opt_def)
    then have ok: "dir_at mt (\<lambda>g. (\<forall>k. k \<noteq> state_tmp_name \<and> k \<noteq> state_name \<longrightarrow> g k = f k) \<and> g state_tmp_name = None \<and> marker ph (g state_name)) v"
      if "here v = Some (Dir mt ?ds)" for v
      using that ds by (intro dir_atI [of _ _ ?ds]) (auto simp: marker_def simp del: good.simps)
    have bad: "dir_at mt (\<lambda>g. (\<forall>k. k \<noteq> state_tmp_name \<longrightarrow> g k = f k) \<and> plain_file (g state_tmp_name)) v"
      if "here v = Some (Dir mt ds)" for v
      using that ds by (intro dir_atI [of _ _ ds]) (auto simp del: good.simps)
    from ds nd \<open>calm F u\<close> show ?case
      unfolding replace_entry_def wp_bind wp_get
      by (auto intro!: wp_put_here [where F = F] ok bad simp del: good.simps)
  qed auto
qed


lemma wp_remove_entry:
  assumes d: "dir_at mt (\<lambda>g. g = f) s" and F: "calm F s"
  shows "wp (at_child k remove_path) (\<lambda>_ t. dir_at mt (\<lambda>g. g = f(k := None)) t \<and> calm F t)
    (\<lambda>_ t. \<not> F \<and> dir_at mt (\<lambda>g. \<forall>k'. k' \<noteq> k \<longrightarrow> g k' = f k') t) s"
  by (rule wp_at_child_dir [OF d F], rule wp_remove_path [where F = F]) auto

lemma wp_unlink_entry:
  assumes d: "dir_at mt (\<lambda>g. g = f) s" and F: "calm F s" and pl: "plain_file (f k)"
  shows "wp (at_child k unlink_missing_ok) (\<lambda>_ t. dir_at mt (\<lambda>g. g = f(k := None)) t \<and> calm F t)
    (\<lambda>_ t. \<not> F \<and> dir_at mt (\<lambda>g. g = f) t) s"
proof (rule wp_at_child_dir [OF d F], goal_cases)
  case (1 f' u)
  have "wp unlink_missing_ok (\<lambda>_ t. here t = None \<and> calm F t) (\<lambda>_ t. \<not> F \<and> here t = here u) u"
  proof (cases "f k")
    case None
    with 1 show ?thesis by (simp add: unlink_missing_ok_def wp_rules)
  next
    case (Some n)
    with pl obtain m c where "n = File m c" by (auto simp: plain_file_def elim!: is_file.elims)
    with Some 1 show ?thesis
      by (simp add: unlink_missing_ok_def wp_bind wp_get) (rule wp_put_here [where F = F]; simp)
  qed
  then show ?case by (rule wp_mono) (use 1 in \<open>auto simp: fun_upd_idem\<close>)
qed

text \<open>
  The cleanup removes the working files in order: while the marker is still there, the stage and
  the rollback may be half gone; the world is never touched.
\<close>

lemma wp_cleanup:
  assumes d: "dir_at mt (\<lambda>g. g = f) s" and F: "calm F s" and pl: "plain_file (f state_tmp_name)" "plain_file (f state_name)"
  shows "wp cleanup_transaction
    (\<lambda>_ t. dir_at mt (\<lambda>g. g = f(stage_name := None, rollback_name := None, state_name := None, state_tmp_name := None)) t \<and> calm F t)
    (\<lambda>_ t. \<not> F \<and> dir_at mt (\<lambda>g. (\<forall>k. k \<noteq> stage_name \<and> k \<noteq> rollback_name \<and> k \<noteq> state_name \<longrightarrow> g k = f k) \<and>
        (g state_name = f state_name \<or> g state_name = None \<and> g rollback_name = None)) t) s"
  (is "wp _ ?Q ?E s")
proof -
  let ?f1 = "f(stage_name := None)" and ?f2 = "f(stage_name := None, rollback_name := None)"
  let ?f3 = "f(stage_name := None, rollback_name := None, state_name := None)"
  have 4: "wp (at_child state_tmp_name unlink_missing_ok) ?Q ?E u" if "dir_at mt (\<lambda>g. g = ?f3) u" "calm F u" for u :: "'a slot_scheme"
    by (rule wp_mono [OF wp_unlink_entry [OF that]]) (auto simp: pl elim!: dir_at_mono)
  have 3: "wp (at_child state_name unlink_missing_ok) (\<lambda>_. wp (at_child state_tmp_name unlink_missing_ok) ?Q ?E) ?E u"
    if "dir_at mt (\<lambda>g. g = ?f2) u" "calm F u" for u :: "'a slot_scheme"
    by (rule wp_mono [OF wp_unlink_entry [OF that]]) (auto simp: pl elim!: dir_at_mono intro!: 4)
  have 2: "wp (at_child rollback_name remove_path)
      (\<lambda>_. wp (thenM (at_child state_name unlink_missing_ok) (at_child state_tmp_name unlink_missing_ok)) ?Q ?E) ?E u"
    if "dir_at mt (\<lambda>g. g = ?f1) u" "calm F u" for u :: "'a slot_scheme"
    unfolding wp_then
    by (rule wp_mono [OF wp_remove_entry [OF that]]) (auto elim!: dir_at_mono intro!: 3)
  show ?thesis
    unfolding cleanup_transaction_def wp_then [of "at_child stage_name _"] wp_then [of "at_child rollback_name _"]
    by (rule wp_mono [OF wp_remove_entry [OF d F]]) (auto elim!: dir_at_mono intro!: 2)
qed


lemma holds_rollback:
  assumes "holds (Dir mt ds) v" and "set (keys ds) \<inter> reserved = {}" and "world_is w (map_of ds)"
  shows "rollback_is w v"
proof -
  from assms(1) obtain n where n: "v = Some n" "good n" "same n (Dir mt ds)"
    by (auto simp: holds_def)
  with same_Dir_shape [OF n(3)] obtain cs
    where v: "v = Some (Dir mt cs)" "good (Dir mt cs)" and sm: "same (Dir mt cs) (Dir mt ds)" by blast
  have r: "rel_option same (map_of cs k) (map_of ds k)" for k by (rule same_Dir_lookup [OF sm])
  have "k \<notin> reserved" if "k \<in> set (keys cs)" for k
    using that r [of k] assms(2) unfolding set_keys_dom by (auto simp: dom_def elim!: option.rel_cases)
  moreover have "world_is w (map_of cs)"
    unfolding world_is_def
  proof (intro allI impI)
    fix k assume "k \<notin> reserved"
    with assms(3) have "case w k of None \<Rightarrow> map_of ds k = None | Some n \<Rightarrow> holds n (map_of ds k)"
      by (simp add: world_is_def)
    moreover have "good_opt (map_of cs k)" using v(2) by (intro good_entries_map_of) simp
    ultimately show "case w k of None \<Rightarrow> map_of cs k = None | Some n \<Rightarrow> holds n (map_of cs k)"
      using r [of k]
      by (auto split: option.splits simp: holds_def option_rel_Some2) (rule same_trans)
  qed
  ultimately show ?thesis using v(1) by (auto simp: rollback_is_def)
qed

text \<open>The clone of the live tree is a complete rollback; a failed clone touches nothing else.\<close>

lemma wp_clone_live_tree:
  assumes d: "dir_at mt (\<lambda>g. g = f) s" and F: "calm F s"
  shows "wp clone_live_tree
    (\<lambda>_ t. dir_at mt (\<lambda>g. (\<forall>k. k \<noteq> rollback_name \<longrightarrow> g k = f k) \<and> rollback_is f (g rollback_name)) t \<and> calm F t)
    (\<lambda>_ t. \<not> F \<and> dir_at mt (\<lambda>g. \<forall>k. k \<noteq> rollback_name \<longrightarrow> g k = f k) t) s"
  (is "wp _ ?Q ?E s")
proof -
  let ?new = "Dir (fresh_meta\<lparr>m_mode := 448\<rparr>) []"
  let ?keep = "\<lambda>cs :: (string \<times> node) list. filter (\<lambda>(k, n). k \<notin> reserved) cs"
  have make: "wp (at_child rollback_name (thenM remove_path (create ?new)))
      (\<lambda>_ t. dir_at mt (\<lambda>g. g = f(rollback_name := Some ?new)) t \<and> calm F t) ?E s"
    by (rule wp_at_child_dir [OF d F], unfold wp_then, rule wp_remove_path [where F = F], assumption+)
      (auto intro!: wp_create [where F = F])
  have work: "wp (at_child rollback_name (thenM (clone_entries (?keep cs)) (copy_metadata mt))) ?Q ?E u"
    if u: "dir_at mt (\<lambda>g. g = f(rollback_name := Some ?new)) u" "calm F u"
      and cs: "good (Dir mt cs)" "map_of cs = f(rollback_name := Some ?new)" for u :: "'a slot_scheme" and cs
  proof (rule wp_at_child_dir [OF u], goal_cases)
    case (1 f' v)
    have g: "good (Dir mt (?keep cs))"
      using cs(1) by (auto simp: good_entries_iff intro: distinct_map_filter)
    have v: "dir_at (fresh_meta\<lparr>m_mode := 448\<rparr>) (\<lambda>g. g = Map.empty) v"
      using 1 by (intro dir_atI) auto
    have ks: "set (keys (?keep cs)) \<inter> reserved = {}" by auto
    have wi: "world_is f (map_of (?keep cs))"
      unfolding world_is_def map_of_filter_keys
    proof (intro allI impI)
      fix k assume "k \<notin> reserved"
      then have k: "k \<noteq> rollback_name" by auto
      have "good_opt (map_of cs k)" using cs(1) by (intro good_entries_map_of) simp
      with k cs(2) \<open>k \<notin> reserved\<close> show "case f k of None \<Rightarrow> (if k \<notin> reserved then map_of cs k else None) = None
          | Some n \<Rightarrow> holds n (if k \<notin> reserved then map_of cs k else None)"
        by (auto split: option.split simp: holds_Some)
    qed
    have c: "wp (clone_entries (?keep cs))
        (\<lambda>_ t. dir_at (fresh_meta\<lparr>m_mode := 448\<rparr>) (written (?keep cs) Map.empty) t \<and> calm F t)
        (\<lambda>_ t. \<not> F \<and> dir_at (fresh_meta\<lparr>m_mode := 448\<rparr>) (untouched (?keep cs) Map.empty) t) v"
      using g 1 v by (intro wp_clone(2)) auto
    have "wp (thenM (clone_entries (?keep cs)) (copy_metadata mt))
        (\<lambda>_ t. holds (Dir mt (?keep cs)) (here t) \<and> calm F t) (\<lambda>_ t. \<not> F \<and> good_opt (here t)) v"
      unfolding wp_then
      by (rule wp_mono [OF c]) (auto intro!: wp_Dir_meta g simp del: good.simps intro: dir_at_good)
    then show ?case
      by (rule wp_mono) (use 1 holds_rollback [OF _ ks wi] in \<open>auto intro: holds_good\<close>)
  qed
  have undo: "wp (thenM (at_child rollback_name remove_path) (raiseM e)) ?Q ?E u"
    if "\<not> F" "dir_at mt (\<lambda>g. \<forall>k. k \<noteq> rollback_name \<longrightarrow> g k = f k) u" for e and u :: "'a slot_scheme"
  proof -
    from that obtain f' where f': "dir_at mt (\<lambda>g. g = f') u" "\<forall>k. k \<noteq> rollback_name \<longrightarrow> f' k = f k"
      by (auto simp: dir_at_def)
    show ?thesis
      unfolding wp_then wp_raise
      by (rule wp_mono [OF wp_remove_entry [OF f'(1), of False]]) (use f'(2) that(1) in \<open>auto elim!: dir_at_mono\<close>)
  qed
  show ?thesis
    unfolding clone_live_tree_def wp_then [of "at_child rollback_name _"] wp_bind wp_get
  proof (rule wp_mono [OF make], goal_cases)
    case (1 x t)
    then obtain cs where cs: "here t = Some (Dir mt cs)" "good (Dir mt cs)" "map_of cs = f(rollback_name := Some ?new)"
      by (auto simp: dir_at_def)
    have "wp (tryM (at_child rollback_name (thenM (clone_entries (?keep cs)) (copy_metadata mt)))
        (\<lambda>e. thenM (at_child rollback_name remove_path) (raiseM e))) ?Q ?E t"
      unfolding wp_try by (rule wp_mono [OF work [OF _ _ cs(2,3)]]) (use 1 undo in auto)
    with cs(1) show ?case by simp
  qed auto
qed


text \<open>
  Synchronising from the rollback gives back the world it holds; from the stage, it lays the
  staged entries over the world. Neither touches the working files.
\<close>

lemma written_world:
  assumes "written cs f g" and "\<And>k. k \<notin> reserved \<Longrightarrow> map_of cs k = None \<Longrightarrow> f k = None" and "world_is w (map_of cs)"
    and "good_entries cs"
  shows "world_is w g"
  unfolding world_is_def
proof (intro allI impI)
  fix k assume k: "k \<notin> reserved"
  with assms(3) have c: "case w k of None \<Rightarrow> map_of cs k = None | Some n \<Rightarrow> holds n (map_of cs k)"
    by (simp add: world_is_def)
  show "case w k of None \<Rightarrow> g k = None | Some n \<Rightarrow> holds n (g k)"
  proof (cases "w k")
    case None
    with c written_absent [OF assms(1)] assms(2) [OF k] show ?thesis by simp
  next
    case (Some n)
    with c obtain n' where n': "map_of cs k = Some n'" "same n' n" by (auto simp: holds_def)
    from written_present [OF assms(1) n'(1)] n'(2) Some show ?thesis
      by (auto simp: holds_def intro: same_trans)
  qed
qed

lemma dir_at_entry_good: "dir_at mt (\<lambda>g. g = f) s \<Longrightarrow> good_opt (f k)"
  by (auto simp: dir_at_def intro: good_entries_map_of)

lemma wp_sync_from:
  assumes d: "dir_at mt (\<lambda>g. g = f) s" and F: "calm F s" and e: "f src = Some (Dir m cs)"
    and step: "\<And>u :: 'z slot_scheme. dir_at mt (\<lambda>g. g = f) u \<Longrightarrow> calm F u \<Longrightarrow>
      wp (sync_tree cs restore_transaction_names ra) Q (\<lambda>_ t. \<not> F \<and> dir_at mt (\<lambda>g. \<forall>k \<in> reserved. g k = f k) t) u"
  shows "wp (sync_from src ra) Q (\<lambda>_ t. \<not> F \<and> dir_at mt (\<lambda>g. \<forall>k \<in> reserved. g k = f k) t) (s :: 'z slot_scheme)"
proof -
  from d e have "entry src s = Some (Dir m cs)" by (auto simp: dir_at_def entry_def)
  moreover have "dir_at mt P (s\<lparr>io_step := n\<rparr>) = dir_at mt P s" for P n by (simp add: dir_at_def)
  ultimately show ?thesis
    using d F
    by (auto simp: sync_from_def wp_bind wp_get wp_then intro!: wp_tick_calm [where F = F] step elim!: dir_at_mono)
qed

lemma wp_sync_rollback:
  assumes d: "dir_at mt (\<lambda>g. g = f) s" and F: "calm F s" and rb: "rollback_is w (f rollback_name)"
  shows "wp (sync_from rollback_name True)
    (\<lambda>_ t. dir_at mt (\<lambda>g. (\<forall>k \<in> reserved. g k = f k) \<and> world_is w g) t \<and> calm F t)
    (\<lambda>_ t. \<not> F \<and> dir_at mt (\<lambda>g. \<forall>k \<in> reserved. g k = f k) t) s"
proof -
  from rb obtain m cs where cs: "f rollback_name = Some (Dir m cs)" "set (keys cs) \<inter> reserved = {}" "world_is w (map_of cs)"
    by (auto simp: rollback_is_def)
  from dir_at_entry_good [OF d, of rollback_name] cs(1) have g: "good (Dir m cs)" by simp
  let ?f = "\<lambda>k. if True \<and> k \<notin> reserved \<and> k \<notin> set (keys cs) then None else f k"
  show ?thesis
  proof (rule wp_sync_from [OF d F cs(1)], goal_cases)
    case (1 u)
    note u = 1
    show ?case
  proof (rule wp_mono [OF wp_sync_tree [OF _ _ cs(2) u]], goal_cases)
    case (3 x t)
    show ?case
    proof (intro conjI)
      from 3 show "calm F t" by simp
      from 3 have w: "dir_at mt (written cs ?f) t" by simp
      show "dir_at mt (\<lambda>g. (\<forall>k \<in> reserved. g k = f k) \<and> world_is w g) t"
      proof (rule dir_at_mono [OF w], intro conjI ballI)
        fix g k assume "written cs ?f g" "k \<in> reserved"
        with cs(2) have "map_of cs k = None" by (auto simp: map_of_eq_None_iff)
        from written_absent [OF \<open>written cs ?f g\<close> this] \<open>k \<in> reserved\<close> show "g k = f k" by simp
      next
        fix g assume "written cs ?f g"
        then show "world_is w g"
          by (rule written_world [OF _ _ cs(3)]) (use g in \<open>auto simp: map_of_eq_None_iff\<close>)
      qed
    qed
    qed (use g in auto)
  qed
qed

lemma wp_sync_stage:
  assumes d: "dir_at mt (\<lambda>g. g = f) s" and F: "calm F s"
    and st: "f stage_name = Some (Dir m cs)" "set (keys cs) \<inter> reserved = {}" and w: "world_is w f"
  shows "wp (sync_from stage_name False)
    (\<lambda>_ t. dir_at mt (\<lambda>g. (\<forall>k \<in> reserved. g k = f k) \<and> world_is (w ++ map_of cs) g) t \<and> calm F t)
    (\<lambda>_ t. \<not> F \<and> dir_at mt (\<lambda>g. \<forall>k \<in> reserved. g k = f k) t) s"
proof (rule wp_sync_from [OF d F st(1)], goal_cases)
  case (1 u)
  from dir_at_entry_good [OF d, of stage_name] st(1) have g: "good (Dir m cs)" by simp
  show ?case
  proof (rule wp_mono [OF wp_sync_tree [OF _ _ st(2) 1]], goal_cases)
    case (3 x t)
    then have "dir_at mt (written cs f) t" by simp
    then have "dir_at mt (\<lambda>g. (\<forall>k \<in> reserved. g k = f k) \<and> world_is (w ++ map_of cs) g) t"
    proof (rule dir_at_mono)
      fix g assume wr: "written cs f g"
      have "g k = f k" if "k \<in> reserved" for k
        using that st(2) by (intro written_absent [OF wr]) (auto simp: map_of_eq_None_iff)
      moreover have "world_is (w ++ map_of cs) g"
        unfolding world_is_def
      proof (intro allI impI)
        fix k assume k: "k \<notin> reserved"
        show "case (w ++ map_of cs) k of None \<Rightarrow> g k = None | Some n \<Rightarrow> holds n (g k)"
        proof (cases "map_of cs k")
          case None
          then have "g k = f k" by (rule written_absent [OF wr])
          moreover have "case w k of None \<Rightarrow> f k = None | Some n \<Rightarrow> holds n (f k)" using w k by (simp add: world_is_def)
          ultimately show ?thesis using None by (simp add: map_add_def split: option.splits)
        next
          case (Some n)
          from written_present [OF wr Some] Some show ?thesis by (simp add: map_add_def)
        qed
      qed
      ultimately show "(\<forall>k \<in> reserved. g k = f k) \<and> world_is (w ++ map_of cs) g" by simp
    qed
    with 3 show ?case by simp
  qed (use g in auto)
qed

end
