(* ===== verification/Restore_Safety.thy ===== *)
theory Restore_Safety
  imports Restore_Worker
begin

text \<open>
  What the restore transaction guarantees when any access to the disk or to Docker may fail and
  the process may die at any point.

  The invariant speaks of the entries of the data root. \<open>w\<close> is the world before the transaction;
  \<open>X\<close> is what the extractor promises of the staged entries, and a new world is \<open>w\<close> overlaid with
  such entries. \<open>recoverable\<close> describes the states from which the recovery procedure leads back to
  the old world or to the new one; \<open>spent\<close> is the state in which the old world is in place but
  the marker still asks for a rollback that is already being deleted.
\<close>

subsection \<open>Predicates on the data root\<close>

definition tidy :: "entries \<Rightarrow> bool" where
  "tidy g \<longleftrightarrow> plain_file (g state_name) \<and> plain_file (g state_tmp_name)"

definition staged_with :: "((string \<times> node) list \<Rightarrow> bool) \<Rightarrow> node option \<Rightarrow> bool" where
  "staged_with X v \<longleftrightarrow> (\<exists>m cs. v = Some (Dir m cs) \<and> set (keys cs) \<inter> reserved = {} \<and> X cs)"

definition new_world :: "entries \<Rightarrow> ((string \<times> node) list \<Rightarrow> bool) \<Rightarrow> entries \<Rightarrow> bool" where
  "new_world w X g \<longleftrightarrow> (\<exists>cs. X cs \<and> world_is (w ++ map_of cs) g)"

text \<open>A phase of the transaction: which of the four facts hold, and what the marker says.\<close>

definition phase_inv ::
  "entries \<Rightarrow> ((string \<times> node) list \<Rightarrow> bool) \<Rightarrow> bool \<Rightarrow> bool \<Rightarrow> bool \<Rightarrow> bool \<Rightarrow> string set \<Rightarrow> entries \<Rightarrow> bool" where
  "phase_inv w X W R S N M g \<longleftrightarrow> tidy g \<and> (W \<longrightarrow> world_is w g) \<and> (R \<longrightarrow> rollback_is w (g rollback_name)) \<and>
     (S \<longrightarrow> staged_with X (g stage_name)) \<and> (N \<longrightarrow> new_world w X g) \<and> (\<exists>ph \<in> M. marker ph (g state_name))"

definition early_phases :: "string set" where
  "early_phases = {''staged'', ''stopping'', ''stopped''}"

definition recoverable :: "entries \<Rightarrow> ((string \<times> node) list \<Rightarrow> bool) \<Rightarrow> entries \<Rightarrow> bool" where
  "recoverable w X g \<longleftrightarrow>
     tidy g \<and> g state_name = None \<and> g rollback_name = None \<and> (world_is w g \<or> new_world w X g) \<or>
     phase_inv w X True False False False early_phases g \<or>
     phase_inv w X False True False False (set rollback_phases) g \<or>
     phase_inv w X False False False True {''started''} g"

definition spent :: "entries \<Rightarrow> ((string \<times> node) list \<Rightarrow> bool) \<Rightarrow> entries \<Rightarrow> bool" where
  "spent w X g \<longleftrightarrow> phase_inv w X True False False False (set rollback_phases) g"

lemma tidy_agree: "(\<And>k. k = state_name \<or> k = state_tmp_name \<Longrightarrow> g k = f k) \<Longrightarrow> tidy f \<Longrightarrow> tidy g"
  by (simp add: tidy_def)

lemma new_world_cong: "(\<And>k. k \<notin> reserved \<Longrightarrow> g k = f k) \<Longrightarrow> new_world w X f \<Longrightarrow> new_world w X g"
  unfolding new_world_def by (blast intro: world_is_cong)

lemma phase_inv_write:
  assumes "phase_inv w X W R S N M f" and "\<forall>k. k \<noteq> state_tmp_name \<and> k \<noteq> state_name \<longrightarrow> g k = f k"
    and "g state_tmp_name = None" and "marker ph (g state_name)"
  shows "phase_inv w X W R S N {ph} g"
proof -
  have k: "g k = f k" if "k \<notin> reserved" for k using not_reserved [OF that] assms(2) by simp
  show ?thesis
    using assms world_is_cong [OF k] new_world_cong [OF k] by (auto simp: phase_inv_def tidy_def marker_plain)
qed

lemma phase_inv_tmp:
  assumes "phase_inv w X W R S N M f" and "\<forall>k. k \<noteq> state_tmp_name \<longrightarrow> g k = f k" and "plain_file (g state_tmp_name)"
  shows "phase_inv w X W R S N M g"
proof -
  have k: "g k = f k" if "k \<notin> reserved" for k using not_reserved [OF that] assms(2) by simp
  show ?thesis
    using assms world_is_cong [OF k] new_world_cong [OF k] by (auto simp: phase_inv_def tidy_def)
qed

lemma phase_inv_weaken:
  "phase_inv w X W R S N M g \<Longrightarrow> (W' \<Longrightarrow> W) \<Longrightarrow> (R' \<Longrightarrow> R) \<Longrightarrow> (S' \<Longrightarrow> S) \<Longrightarrow> (N' \<Longrightarrow> N) \<Longrightarrow> M \<subseteq> M' \<Longrightarrow>
   phase_inv w X W' R' S' N' M' g"
  by (auto simp: phase_inv_def)

lemma phase_inv_reserved:
  assumes "phase_inv w X W R S N M f" and "\<forall>k \<in> reserved. g k = f k"
  shows "phase_inv w X False R S False M g"
  using assms by (auto simp: phase_inv_def tidy_def)

lemma recoverable_early: "phase_inv w X True R S N M g \<Longrightarrow> M \<subseteq> early_phases \<Longrightarrow> recoverable w X g"
  by (simp add: recoverable_def phase_inv_weaken)

lemma recoverable_rollback: "phase_inv w X W True S N M g \<Longrightarrow> M \<subseteq> set rollback_phases \<Longrightarrow> recoverable w X g"
  by (simp add: recoverable_def phase_inv_weaken)

lemma recoverable_started: "phase_inv w X W R S True {''started''} g \<Longrightarrow> recoverable w X g"
  by (simp add: recoverable_def phase_inv_weaken)

lemma phase_inv_new: "phase_inv w X W R S True M g \<Longrightarrow> new_world w X g"
  by (simp add: phase_inv_def)

lemma recoverable_none:
  "tidy g \<Longrightarrow> g state_name = None \<Longrightarrow> g rollback_name = None \<Longrightarrow> world_is w g \<or> new_world w X g \<Longrightarrow> recoverable w X g"
  by (simp add: recoverable_def)

subsection \<open>States of the worker\<close>

definition st :: "(disk \<Rightarrow> bool) \<Rightarrow> meta \<Rightarrow> bool \<Rightarrow> bool \<Rightarrow> (entries \<Rightarrow> bool) \<Rightarrow> disk \<Rightarrow> bool" where
  "st able mt F u P s \<longleftrightarrow> dir_at mt P s \<and> (F \<longrightarrow> able s) \<and> (u \<longrightarrow> mc_up s)"

lemma st_mono: "st able mt F u P s \<Longrightarrow> (\<And>g. P g \<Longrightarrow> P' g) \<Longrightarrow> (u' \<Longrightarrow> u) \<Longrightarrow> st able mt F u' P' s"
  by (auto simp: st_def elim: dir_at_mono)

lemma st_exists: "st able mt F u P s \<longleftrightarrow> (\<exists>f. P f \<and> st able mt F u (\<lambda>g. g = f) s)"
  by (auto simp: st_def dir_at_def)

definition on_txn ::
  "(disk \<Rightarrow> bool) \<Rightarrow> meta \<Rightarrow> bool \<Rightarrow> bool \<Rightarrow> bool \<times> bool \<Rightarrow> (entries \<Rightarrow> bool) \<Rightarrow> transaction \<Rightarrow> bool" where
  "on_txn able mt F u flags P = (\<lambda>(s, fl). st able mt F u P s \<and> fl = flags)"

lemma triple_call:
  assumes "triple P m Q E" and "\<And>e s. E e s \<Longrightarrow> E' e (s, flags)"
  shows "triple (\<lambda>(s, fl). P s \<and> fl = flags) (call m) (\<lambda>x (s, fl). Q x s \<and> fl = flags) E'"
proof (rule tripleI)
  fix p assume "case p of (s, fl) \<Rightarrow> P s \<and> fl = flags"
  then obtain s where p: "p = (s, flags)" and "P s" by auto
  with assms(1) have "wp m Q E s" by (auto dest: tripleD)
  then show "wp (call m) (\<lambda>x (s, fl). Q x s \<and> fl = flags) E' p"
    unfolding call_def wp_zoom p by (auto elim!: wp_mono intro: assms(2))
qed

lemma triple_set_stopped:
  "triple (on_txn able mt F u (a, r) P) (set_stopped b) (\<lambda>_. on_txn able mt F u (b, r) P) E"
  and triple_set_ready:
  "triple (on_txn able mt F u (a, r) P) set_rollback_ready (\<lambda>_. on_txn able mt F u (a, True) P) E"
  unfolding set_stopped_def set_rollback_ready_def by (auto intro!: triple_mod simp: on_txn_def)

lemma txn_call:
  assumes "triple (st able mt F u P) m (\<lambda>_. st able mt F u' Q) (\<lambda>_ s. \<not> F \<and> st able mt F v E s)"
    and "\<And>s. \<not> F \<Longrightarrow> st able mt F v E s \<Longrightarrow> B (s, flags)"
  shows "triple (on_txn able mt F u flags P) (call m) (\<lambda>_. on_txn able mt F u' flags Q) (\<lambda>_. B)"
  unfolding on_txn_def by (rule triple_call [OF assms(1)]) (use assms(2) in auto)

lemma wp_run_transaction:
  "wp (run_transaction m) Q E s \<longleftrightarrow> wp m (\<lambda>x (t, fl). Q x t) (\<lambda>e (t, fl). E e t) (s, False, False)"
  by (auto simp: wp_def run_transaction_def split: prod.splits sum.splits)

text \<open>The errors that report a transaction undone.\<close>

definition cancelled :: "exn \<Rightarrow> bool" where
  "cancelled e \<longleftrightarrow> (\<exists>m. e = RestoreWorkerError (''restauration annulee'' @ m))"

lemma not_cancelled [simp]:
  "\<not> cancelled Killed" "\<not> cancelled (OSError m)"
  "\<not> cancelled (RestoreWorkerError ''restauration et rollback en echec ; intervention manuelle requise'')"
  "\<not> cancelled (RestoreWorkerError ''echec avant application et redemarrage impossible'')"
  by (simp_all add: cancelled_def)

text \<open>What the exception handler finds: the disk and the two flags.\<close>

definition failed_at ::
  "(disk \<Rightarrow> bool) \<Rightarrow> meta \<Rightarrow> bool \<Rightarrow> bool \<Rightarrow> entries \<Rightarrow> ((string \<times> node) list \<Rightarrow> bool) \<Rightarrow> transaction \<Rightarrow> bool" where
  "failed_at able mt F u w X = (\<lambda>(s, stopped, ready). \<not> F \<and>
     (if ready
      then st able mt F False (\<lambda>g. phase_inv w X False True False False (set rollback_phases) g \<or>
             phase_inv w X True True False False {''stopped''} g) s
      else st able mt F (u \<and> \<not> stopped) (phase_inv w X True False False False early_phases) s))"

lemma failed_before:
  "\<not> F \<Longrightarrow> st able mt F v (phase_inv w X True R S N M) s \<Longrightarrow> M \<subseteq> early_phases \<Longrightarrow> (u \<and> \<not> stopped \<Longrightarrow> v) \<Longrightarrow>
   failed_at able mt F u w X (s, stopped, False)"
  by (auto simp: failed_at_def elim!: st_mono phase_inv_weaken)

lemma failed_ready:
  "\<not> F \<Longrightarrow> st able mt F v (phase_inv w X W True S N M) s \<Longrightarrow> M \<subseteq> set rollback_phases \<or> W \<and> M = {''stopped''} \<Longrightarrow>
   failed_at able mt F u w X (s, stopped, True)"
  by (auto simp: failed_at_def elim!: st_mono intro: phase_inv_weaken)

lemma on_txn_weaken:
  "on_txn able mt F u flags P p \<Longrightarrow> (\<And>g. P g \<Longrightarrow> P' g) \<Longrightarrow> on_txn able mt F u flags P' p"
  by (auto simp: on_txn_def elim: st_mono)

lemma early_call:
  assumes "triple (st able mt F u P) m (\<lambda>_. st able mt F u' Q) (\<lambda>_ s. \<not> F \<and> st able mt F v (phase_inv w X True R S N M) s)"
    and "M \<subseteq> early_phases" and "u0 \<and> \<not> stopped \<Longrightarrow> v"
  shows "triple (on_txn able mt F u (stopped, False) P) (call m) (\<lambda>_. on_txn able mt F u' (stopped, False) Q)
    (\<lambda>_. failed_at able mt F u0 w X)"
  by (rule txn_call [OF assms(1)]) (use assms(2,3) in \<open>auto intro: failed_before\<close>)

lemma ready_call:
  assumes "triple (st able mt F u P) m (\<lambda>_. st able mt F u' Q) (\<lambda>_ s. \<not> F \<and> st able mt F v (phase_inv w X W True S N M) s)"
    and "M \<subseteq> set rollback_phases \<or> W \<and> M = {''stopped''}"
  shows "triple (on_txn able mt F u (stopped, True) P) (call m) (\<lambda>_. on_txn able mt F u' (stopped, True) Q)
    (\<lambda>_. failed_at able mt F u0 w X)"
  by (rule txn_call [OF assms(1)]) (use assms(2) in \<open>auto intro: failed_ready\<close>)

text \<open>
  The states the handler may leave behind when the rollback itself fails: the old world is in
  place or in the rollback directory.
\<close>

definition salvage :: "entries \<Rightarrow> ((string \<times> node) list \<Rightarrow> bool) \<Rightarrow> entries \<Rightarrow> bool" where
  "salvage w X g \<longleftrightarrow> (recoverable w X g \<or> spent w X g) \<and> (rollback_is w (g rollback_name) \<or> world_is w g)"

lemma salvage_rollback:
  "phase_inv w X W True S N M g \<Longrightarrow> M \<subseteq> set rollback_phases \<or> W \<and> M = {''stopped''} \<Longrightarrow> salvage w X g"
proof -
  assume g: "phase_inv w X W True S N M g" and M: "M \<subseteq> set rollback_phases \<or> W \<and> M = {''stopped''}"
  from M g have "recoverable w X g"
    by (auto simp: early_phases_def intro: recoverable_rollback recoverable_early)
  moreover from g have "rollback_is w (g rollback_name)" by (simp add: phase_inv_def)
  ultimately show ?thesis by (simp add: salvage_def)
qed

lemma salvage_world: "phase_inv w X True R S N M g \<Longrightarrow> M \<subseteq> set rollback_phases \<Longrightarrow> salvage w X g"
proof -
  assume g: "phase_inv w X True R S N M g" and "M \<subseteq> set rollback_phases"
  then have "spent w X g" unfolding spent_def by (auto intro: phase_inv_weaken)
  moreover from g have "world_is w g" by (simp add: phase_inv_def)
  ultimately show ?thesis by (simp add: salvage_def)
qed

lemma salvage_none: "tidy g \<Longrightarrow> g state_name = None \<Longrightarrow> g rollback_name = None \<Longrightarrow> world_is w g \<Longrightarrow> salvage w X g"
  by (simp add: salvage_def recoverable_def)

lemma salvage_tmp:
  assumes "salvage w X f" and g: "\<forall>k. k \<noteq> state_tmp_name \<longrightarrow> g k = f k" "plain_file (g state_tmp_name)"
  shows "salvage w X g"
proof -
  have k: "g k = f k" if "k \<notin> reserved" for k using not_reserved [OF that] g(1) by simp
  from assms(1) show ?thesis
    using g phase_inv_tmp [OF _ g] world_is_cong [OF k] new_world_cong [OF k]
    unfolding salvage_def recoverable_def spent_def by (auto simp: tidy_def)
qed

lemma salvage_failed:
  assumes "salvage w X f" and g: "\<forall>k. k \<noteq> state_tmp_name \<and> k \<noteq> state_name \<longrightarrow> g k = f k"
    "g state_tmp_name = None" "marker ''rollback_failed'' (g state_name)"
  shows "salvage w X g"
proof -
  have k: "g k = f k" if "k \<notin> reserved" for k using not_reserved [OF that] g(1) by simp
  have t: "tidy g" using g(2,3) by (simp add: tidy_def marker_plain)
  have m: "\<exists>ph \<in> set rollback_phases. marker ph (g state_name)" using g(3) by (auto simp: rollback_phases_def)
  from assms(1) have "rollback_is w (f rollback_name) \<or> world_is w f" by (simp add: salvage_def)
  then show ?thesis
  proof
    assume "rollback_is w (f rollback_name)"
    with g(1) t m have "phase_inv w X False True False False (set rollback_phases) g" by (simp add: phase_inv_def)
    then show ?thesis by (rule salvage_rollback) simp
  next
    assume "world_is w f"
    then have "world_is w g" by (rule world_is_cong [rotated]) (rule k)
    with t m have "phase_inv w X True False False False (set rollback_phases) g" by (simp add: phase_inv_def)
    then show ?thesis by (rule salvage_world) simp
  qed
qed

definition failed_outcome ::
  "(disk \<Rightarrow> bool) \<Rightarrow> meta \<Rightarrow> bool \<Rightarrow> bool \<Rightarrow> entries \<Rightarrow> ((string \<times> node) list \<Rightarrow> bool) \<Rightarrow> exn \<Rightarrow> transaction \<Rightarrow> bool" where
  "failed_outcome able mt F u w X e = (\<lambda>(s, fl). \<not> F \<and>
     (if cancelled e then st able mt F u (\<lambda>g. (\<forall>k \<in> reserved. g k = None) \<and> world_is w g) s
      else st able mt F False (\<lambda>g. recoverable w X g \<or> spent w X g) s))"

lemma salvage_outcome:
  "\<not> F \<Longrightarrow> st able mt F v (salvage w X) s \<Longrightarrow> \<not> cancelled e \<Longrightarrow> failed_outcome able mt F u w X e (s, fl)"
  by (auto simp: failed_outcome_def salvage_def elim!: st_mono)

lemma cancelled_outcome:
  "\<not> F \<Longrightarrow> st able mt F v (\<lambda>g. (\<forall>k \<in> reserved. g k = None) \<and> world_is w g) s \<Longrightarrow> (u \<Longrightarrow> v) \<Longrightarrow> cancelled e \<Longrightarrow>
   failed_outcome able mt F u w X e (s, fl)"
  by (auto simp: failed_outcome_def elim!: st_mono)

text \<open>The two errors with which the recovery reports that the old world is back.\<close>

definition recovered_outcome :: "meta \<Rightarrow> entries \<Rightarrow> exn \<Rightarrow> disk \<Rightarrow> bool" where
  "recovered_outcome mt w e s \<longleftrightarrow>
     e \<in> {RestoreWorkerError ''une transaction interrompue a ete annulee ; l ancien monde est redemarre'',
          RestoreWorkerError ''une transaction interrompue avant application a ete annulee''} \<and>
     mc_up s \<and> dir_at mt (\<lambda>g. (\<forall>k \<in> reserved. g k = None) \<and> world_is w g) s"

definition recovered_value :: "meta \<Rightarrow> entries \<Rightarrow> ((string \<times> node) list \<Rightarrow> bool) \<Rightarrow> string option \<Rightarrow> disk \<Rightarrow> bool" where
  "recovered_value mt w X r s \<longleftrightarrow> (case r of
       None \<Rightarrow> dir_at mt (\<lambda>g. (\<forall>k \<in> reserved. g k = None) \<and> (world_is w g \<or> new_world w X g)) s
     | Some target \<Rightarrow> dir_at mt (\<lambda>g. (\<forall>k \<in> reserved. g k = None) \<and> new_world w X g) s)"

text \<open>The removal of the working files raises nothing but I/O errors.\<close>

definition only_io :: "('s, 'a) prog \<Rightarrow> bool" where
  "only_io m \<longleftrightarrow> (\<forall>s e t. m s = (Inl e, t) \<longrightarrow> e = Killed \<or> (\<exists>x. e = OSError x))"

lemma only_io_wp: "only_io m \<Longrightarrow> wp m (\<lambda>_ _. True) (\<lambda>e _. e = Killed \<or> (\<exists>x. e = OSError x)) s"
  by (auto simp: only_io_def intro!: wpI)

lemma only_io_basic: "only_io (retM x)" "only_io (getM f)" "only_io (modM g)" "only_io (raiseM (OSError m))" "only_io tick"
  by (auto simp: only_io_def prog_simps tick_def Let_def split: fault.splits)

lemma only_io_bind: "only_io m \<Longrightarrow> (\<And>x. only_io (k x)) \<Longrightarrow> only_io (bindM m k)"
  unfolding only_io_def prog_simps by (auto split: prod.splits sum.splits)

lemma only_io_then: "only_io m \<Longrightarrow> only_io n \<Longrightarrow> only_io (thenM m n)"
  unfolding thenM_def by (rule only_io_bind)

lemma only_io_at_child: "only_io m \<Longrightarrow> only_io (at_child k m)"
  unfolding only_io_def at_child_def by (auto split: prod.splits option.splits node.splits)

lemmas only_io_intros = only_io_basic only_io_bind only_io_then only_io_at_child

lemma only_io_put_here: "only_io (put_here v)"
  unfolding put_here_def by (intro only_io_intros)

lemma only_io_rmtree: "only_io (rmtree n :: ('z slot_scheme, unit) prog)" "only_io (rmtree_entries cs :: ('z slot_scheme, unit) prog)"
  by (induction n and cs rule: rmtree_rmtree_entries.induct) (auto intro!: only_io_intros only_io_put_here)

lemma only_io_cleanup: "only_io cleanup_transaction"
  unfolding cleanup_transaction_def remove_path_def unlink_missing_ok_def
  by (intro only_io_intros; auto split: option.split node.split intro!: only_io_intros only_io_put_here only_io_rmtree)+

context controller
begin

lemma fs_triple:
  assumes frame: "keeps fs_rel m"
    and spec: "\<And>f s. P f \<Longrightarrow> dir_at mt (\<lambda>g. g = f) s \<Longrightarrow> calm F s \<Longrightarrow>
      wp m (\<lambda>x t. dir_at mt (Q x) t \<and> calm F t) (\<lambda>_ t. \<not> F \<and> dir_at mt E t) s"
  shows "triple (st able mt F u P) m (\<lambda>x. st able mt F u (Q x)) (\<lambda>_ t. \<not> F \<and> st able mt F u E t)"
proof (rule tripleI)
  fix s assume s: "st able mt F u P s"
  then obtain f where f: "P f" "dir_at mt (\<lambda>g. g = f) s" by (auto simp: st_def dir_at_def)
  from s have "calm F s" by (auto simp: st_def calm_def intro: able_faults)
  have "wp m (\<lambda>_. fs_rel s) (\<lambda>_. fs_rel s) s" using frame by (simp add: keeps_wp)
  from wp_conj [OF spec [OF f \<open>calm F s\<close>] this]
  show "wp m (\<lambda>x. st able mt F u (Q x)) (\<lambda>_ t. \<not> F \<and> st able mt F u E t) s"
    by (rule wp_mono) (use s in \<open>auto simp: st_def dest!: fs_rel_env intro: able_env\<close>)
qed

lemma ctl_triple_stop: "triple (st able mt F u P) stop (\<lambda>_. st able mt F False P) (\<lambda>_ t. \<not> F \<and> st able mt F False P t)"
  and ctl_triple_start: "triple (st able mt F u P) start (\<lambda>_. st able mt F True P) (\<lambda>_ t. \<not> F \<and> st able mt F False P t)"
proof -
  have keep: "st able mt F v P t" if "st able mt F u P s" "ctl_rel s t" "v \<Longrightarrow> mc_up t" for v s t
    using that by (auto simp: st_def dir_at_def ctl_rel_def intro: able_env)
  show "triple (st able mt F u P) stop (\<lambda>_. st able mt F False P) (\<lambda>_ t. \<not> F \<and> st able mt F False P t)"
  proof (rule tripleI)
    fix s assume s: "st able mt F u P s"
    then have "F \<Longrightarrow> able s" by (simp add: st_def)
    from stop_spec [OF this] show "wp stop (\<lambda>_. st able mt F False P) (\<lambda>_ t. \<not> F \<and> st able mt F False P t) s"
      by (rule wp_mono) (auto intro: keep [OF s])
  qed
  show "triple (st able mt F u P) start (\<lambda>_. st able mt F True P) (\<lambda>_ t. \<not> F \<and> st able mt F False P t)"
  proof (rule tripleI)
    fix s assume s: "st able mt F u P s"
    then have "F \<Longrightarrow> able s" by (simp add: st_def)
    from start_spec [OF this] show "wp start (\<lambda>_. st able mt F True P) (\<lambda>_ t. \<not> F \<and> st able mt F False P t) s"
      by (rule wp_mono) (auto intro: keep [OF s])
  qed
qed

lemma write_triple:
  "triple (st able mt F u (phase_inv w X W R S N M)) (write_state ph t)
     (\<lambda>_. st able mt F u (phase_inv w X W R S N {ph})) (\<lambda>_ s. \<not> F \<and> st able mt F u (phase_inv w X W R S N M) s)"
proof (rule fs_triple [OF keeps_write_state], goal_cases)
  case (1 f s)
  then have "plain_file (f state_tmp_name)" "plain_file (f state_name)" by (auto simp: phase_inv_def tidy_def)
  from wp_write_state [OF 1(2,3) this] show ?case
    by (rule wp_mono) (auto elim!: dir_at_mono intro: phase_inv_write [OF 1(1)] phase_inv_tmp [OF 1(1)])
qed

lemma clone_triple:
  "triple (st able mt F u (phase_inv w X True False S N M)) clone_live_tree
     (\<lambda>_. st able mt F u (phase_inv w X True True S N M)) (\<lambda>_ s. \<not> F \<and> st able mt F u (phase_inv w X True False S N M) s)"
proof (rule fs_triple [OF keeps_restore_helpers(3)], goal_cases)
  case (1 f s)
  have rb: "rollback_is w v" if "rollback_is f v" for v
    using that 1(1) by (auto simp: rollback_is_def phase_inv_def intro: world_is_trans)
  have same: "phase_inv w X True False S N M g" if "\<forall>k. k \<noteq> rollback_name \<longrightarrow> g k = f k" for g
  proof -
    have k: "g k = f k" if "k \<notin> reserved" for k
      using not_reserved [OF that] \<open>\<forall>k. k \<noteq> rollback_name \<longrightarrow> g k = f k\<close> by simp
    show ?thesis using that 1(1) world_is_cong [OF k] new_world_cong [OF k] by (auto simp: phase_inv_def tidy_def)
  qed
  have full: "phase_inv w X True True S N M g"
    if "\<forall>k. k \<noteq> rollback_name \<longrightarrow> g k = f k" "rollback_is f (g rollback_name)" for g
    using same [OF that(1)] rb [OF that(2)] by (simp add: phase_inv_def)
  show ?case
    by (rule wp_mono [OF wp_clone_live_tree [OF 1(2,3)]]) (auto elim!: dir_at_mono intro: same full)
qed

lemma sync_stage_triple:
  "triple (st able mt F u (phase_inv w X True R True N M)) (sync_from stage_name False)
     (\<lambda>_. st able mt F u (phase_inv w X False R True True M)) (\<lambda>_ s. \<not> F \<and> st able mt F u (phase_inv w X False R True False M) s)"
proof (rule fs_triple [OF keeps_restore_helpers(4)], goal_cases)
  case (1 f s)
  then obtain m cs where cs: "f stage_name = Some (Dir m cs)" "set (keys cs) \<inter> reserved = {}" "X cs" and w: "world_is w f"
    by (auto simp: phase_inv_def staged_with_def)
  have "phase_inv w X False R True True M g" if "\<forall>k \<in> reserved. g k = f k" "world_is (w ++ map_of cs) g" for g
    using phase_inv_reserved [OF 1(1) that(1)] that(2) cs(3) by (auto simp: phase_inv_def new_world_def)
  then show ?case
    by (intro wp_mono [OF wp_sync_stage [OF 1(2,3) cs(1,2) w]])
      (auto elim!: dir_at_mono intro: phase_inv_reserved [OF 1(1)])
qed

lemma sync_rollback_triple:
  "triple (st able mt F u (phase_inv w X W True S N M)) (sync_from rollback_name True)
     (\<lambda>_. st able mt F u (phase_inv w X True True S False M)) (\<lambda>_ s. \<not> F \<and> st able mt F u (phase_inv w X False True S False M) s)"
proof (rule fs_triple [OF keeps_restore_helpers(4)], goal_cases)
  case (1 f s)
  then have rb: "rollback_is w (f rollback_name)" by (simp add: phase_inv_def)
  have "phase_inv w X True True S False M g" if "\<forall>k \<in> reserved. g k = f k" "world_is w g" for g
    using phase_inv_reserved [OF 1(1) that(1)] that(2) by (simp add: phase_inv_def)
  then show ?case
    by (intro wp_mono [OF wp_sync_rollback [OF 1(2,3) rb]])
      (auto elim!: dir_at_mono intro: phase_inv_reserved [OF 1(1)])
qed

text \<open>After the cleanup no working file is left; cut short, it leaves the marker or nothing to act on.\<close>

lemma cleanup_triple:
  "triple (st able mt F u (phase_inv w X W R S N M)) cleanup_transaction
     (\<lambda>_. st able mt F u (\<lambda>g. tidy g \<and> (\<forall>k \<in> reserved. g k = None) \<and> (W \<longrightarrow> world_is w g) \<and> (N \<longrightarrow> new_world w X g)))
     (\<lambda>_ s. \<not> F \<and> st able mt F u (\<lambda>g. phase_inv w X W False False N M g \<or>
        tidy g \<and> g state_name = None \<and> g rollback_name = None \<and> (W \<longrightarrow> world_is w g) \<and> (N \<longrightarrow> new_world w X g)) s)"
proof (rule fs_triple [OF keeps_cleanup], goal_cases)
  case (1 f s)
  then have pl: "plain_file (f state_tmp_name)" "plain_file (f state_name)" by (auto simp: phase_inv_def tidy_def)
  have ws: "(W \<longrightarrow> world_is w g) \<and> (N \<longrightarrow> new_world w X g)" if "\<And>k. k \<notin> reserved \<Longrightarrow> g k = f k" for g
    using 1(1) world_is_cong [OF that] new_world_cong [OF that] by (auto simp: phase_inv_def)
  have res: "reserved = {stage_name, rollback_name, state_name, state_tmp_name}"
    by (simp add: restore_transaction_names_def stage_name_def rollback_name_def state_name_def state_tmp_name_def)
  let ?f = "f(stage_name := None, rollback_name := None, state_name := None, state_tmp_name := None)"
  have fin: "tidy ?f \<and> (\<forall>k \<in> reserved. ?f k = None) \<and> (W \<longrightarrow> world_is w ?f) \<and> (N \<longrightarrow> new_world w X ?f)"
  proof -
    have "(W \<longrightarrow> world_is w ?f) \<and> (N \<longrightarrow> new_world w X ?f)"
      by (rule ws) (use not_reserved in simp)
    then show ?thesis by (simp add: res tidy_def)
  qed
  have cut: "phase_inv w X W False False N M g \<or>
        tidy g \<and> g state_name = None \<and> g rollback_name = None \<and> (W \<longrightarrow> world_is w g) \<and> (N \<longrightarrow> new_world w X g)"
    if g: "\<forall>k. k \<noteq> stage_name \<and> k \<noteq> rollback_name \<and> k \<noteq> state_name \<longrightarrow> g k = f k"
      "g state_name = f state_name \<or> g state_name = None \<and> g rollback_name = None" for g
  proof -
    have "(W \<longrightarrow> world_is w g) \<and> (N \<longrightarrow> new_world w X g)"
      by (rule ws) (use g(1) not_reserved in simp)
    moreover have "tidy g" using g pl by (auto simp: tidy_def)
    moreover from 1(1) have "\<exists>ph \<in> M. marker ph (f state_name)" by (simp add: phase_inv_def)
    ultimately show ?thesis using g(2) unfolding phase_inv_def by (elim disjE) simp_all
  qed
  show ?case
  proof (rule wp_mono [OF wp_cleanup [OF 1(2,3) pl]], goal_cases)
    case (1 x t)
    then show ?case using fin by (simp only:) (auto elim!: dir_at_mono)
  next
    case (2 e t)
    then show ?case by (intro conjI; elim conjE dir_at_mono) (assumption | rule cut)+
  qed
qed

lemma apply_triple:
  "triple (on_txn able mt F u (False, False) (phase_inv w X True False True False {''staged''}))
     (apply_restore stop start target)
     (\<lambda>_. on_txn able mt F True (False, True) (phase_inv w X False True True True {''started''}))
     (\<lambda>_. failed_at able mt F u w X)"
  unfolding apply_restore_def
  by (rule triple_then early_call ready_call triple_set_stopped triple_set_ready write_triple
      ctl_triple_stop ctl_triple_start clone_triple sync_stage_triple
      | simp add: early_phases_def rollback_phases_def)+

text \<open>
  The rollback of the handler. Once it has begun to delete the working files, the old world is
  in place but the marker still says \<open>rolling_back\<close>.
\<close>

lemma undo_triple:
  assumes M: "M \<subseteq> set rollback_phases \<or> W \<and> M = {''stopped''}"
  shows "triple (on_txn able mt F u (stopped, True) (phase_inv w X W True S N M)) (undo_restore stop start target)
     (\<lambda>_. on_txn able mt F True (False, True) (\<lambda>g. (\<forall>k \<in> reserved. g k = None) \<and> world_is w g))
     (\<lambda>_ (s, fl). \<not> F \<and> st able mt F False (salvage w X) s)"
  (is "triple _ _ _ (\<lambda>_. ?E)")
proof -
  let ?rb = "{''rolling_back''}"
  have rb: "?rb \<subseteq> set rollback_phases" by (simp add: rollback_phases_def)
  have step: "?E (s, fl)" if "\<not> F" "st able mt F v P s" "\<And>g. P g \<Longrightarrow> salvage w X g" for s fl v P
    using that by (auto elim!: st_mono)
  have w1: "triple (on_txn able mt F u (stopped, True) (phase_inv w X W True S N M)) (call (write_state ''rolling_back'' target))
      (\<lambda>_. on_txn able mt F u (stopped, True) (phase_inv w X W True S N ?rb)) (\<lambda>_. ?E)"
    by (rule txn_call [OF write_triple], erule (1) step) (rule salvage_rollback [OF _ M])
  have w2: "triple (on_txn able mt F u (stopped, True) (phase_inv w X W True S N ?rb)) (call stop)
      (\<lambda>_. on_txn able mt F False (stopped, True) (phase_inv w X W True S N ?rb)) (\<lambda>_. ?E)"
    by (rule txn_call [OF ctl_triple_stop], erule (1) step) (rule salvage_rollback [OF _ disjI1 [OF rb]])
  have w3: "triple (on_txn able mt F False (stopped, True) (phase_inv w X W True S N ?rb)) (call (sync_from rollback_name True))
      (\<lambda>_. on_txn able mt F False (stopped, True) (phase_inv w X True True S False ?rb)) (\<lambda>_. ?E)"
    by (rule txn_call [OF sync_rollback_triple], erule (1) step) (rule salvage_rollback [OF _ disjI1 [OF rb]])
  have w4: "triple (on_txn able mt F False (stopped, True) (phase_inv w X True True S False ?rb)) (call start)
      (\<lambda>_. on_txn able mt F True (stopped, True) (phase_inv w X True True S False ?rb)) (\<lambda>_. ?E)"
    by (rule txn_call [OF ctl_triple_start], erule (1) step) (rule salvage_rollback [OF _ disjI1 [OF rb]])
  have w5: "triple (on_txn able mt F True (False, True) (phase_inv w X True True S False ?rb)) (call cleanup_transaction)
      (\<lambda>_. on_txn able mt F True (False, True) (\<lambda>g. (\<forall>k \<in> reserved. g k = None) \<and> world_is w g)) (\<lambda>_. ?E)"
    by (rule triple_conseq [OF txn_call [OF cleanup_triple, where B = ?E]], erule (1) step)
      (auto elim: on_txn_weaken intro: salvage_world [OF _ rb] salvage_none)
  show ?thesis
    unfolding undo_restore_def
    by (rule triple_then [OF w1 triple_then [OF w2 triple_then [OF w3 triple_then [OF w4 triple_then [OF triple_set_stopped w5]]]]])
qed

lemma write_failed_triple:
  "triple (st able mt F u (salvage w X)) (write_state ''rollback_failed'' t)
     (\<lambda>_. st able mt F u (salvage w X)) (\<lambda>_ s. \<not> F \<and> st able mt F u (salvage w X) s)"
proof (rule fs_triple [OF keeps_write_state], goal_cases)
  case (1 f s)
  then have "plain_file (f state_tmp_name)" "plain_file (f state_name)"
    by (auto simp: salvage_def recoverable_def spent_def phase_inv_def tidy_def)
  from wp_write_state [OF 1(2,3) this] show ?case
    by (rule wp_mono) (auto elim!: dir_at_mono intro: salvage_failed [OF 1(1)] salvage_tmp [OF 1(1)])
qed

text \<open>
  The exception handler never returns. It reports a cancelled transaction only with the old
  world in place, no working file left and, where the server was up before, the server up again.
\<close>

lemma failed_ready_triple:
  assumes M: "M \<subseteq> set rollback_phases \<or> W \<and> M = {''stopped''}" and nF: "\<not> F"
  shows "triple (on_txn able mt F False (stopped, True) (phase_inv w X W True S N M))
     (restore_failed stop start target e) (\<lambda>_ _. False) (failed_outcome able mt F u w X)"
proof -
  have undo: "triple (on_txn able mt F False (stopped, True) (phase_inv w X W True S N M))
      (tryM (undo_restore stop start target) (\<lambda>rollback_exc.
         thenM (ignoreM (call (write_state ''rollback_failed'' target)))
           (raiseM (RestoreWorkerError ''restauration et rollback en echec ; intervention manuelle requise''))))
      (\<lambda>_. on_txn able mt F True (False, True) (\<lambda>g. (\<forall>k \<in> reserved. g k = None) \<and> world_is w g))
      (failed_outcome able mt F u w X)"
  proof (rule triple_try [OF undo_triple [OF M]], goal_cases)
    case (1 e)
    show ?case
    proof (rule triple_then)
      show "triple (\<lambda>(s, fl). \<not> F \<and> st able mt F False (salvage w X) s)
        (ignoreM (call (write_state ''rollback_failed'' target)))
        (\<lambda>_ (s, fl). \<not> F \<and> st able mt F False (salvage w X) s) (failed_outcome able mt F u w X)"
      proof (rule tripleI, clarify)
        fix s a b assume a: "\<not> F" "st able mt F False (salvage w X) s"
        from tripleD [OF write_failed_triple a(2)]
        show "wp (ignoreM (call (write_state ''rollback_failed'' target)))
           (\<lambda>_ (s, fl). \<not> F \<and> st able mt F False (salvage w X) s) (failed_outcome able mt F u w X) (s, a, b)"
          unfolding wp_ignore call_def wp_zoom fst_conv prod.case
          by (rule wp_mono) (use a(1) in \<open>auto simp: catchable_def intro: salvage_outcome\<close>)
      qed
    qed (auto intro!: triple_raise salvage_outcome simp: not_cancelled)
  qed (auto intro: salvage_outcome simp: not_cancelled)
  have all: "triple (on_txn able mt F False (stopped, True) (phase_inv w X W True S N M))
      (thenM (tryM (undo_restore stop start target) (\<lambda>rollback_exc.
         thenM (ignoreM (call (write_state ''rollback_failed'' target)))
           (raiseM (RestoreWorkerError ''restauration et rollback en echec ; intervention manuelle requise''))))
        (raiseM (RestoreWorkerError (''restauration annulee, rollback applique : '' @ exn_str e))))
      (\<lambda>_ _. False) (failed_outcome able mt F u w X)"
    by (rule triple_then [OF undo], rule triple_raise)
      (auto simp: on_txn_def cancelled_def intro!: cancelled_outcome [OF nF])
  show ?thesis
  proof (rule tripleI)
    fix p assume p: "on_txn able mt F False (stopped, True) (phase_inv w X W True S N M) p"
    then obtain s where "p = (s, stopped, True)" by (auto simp: on_txn_def)
    with tripleD [OF all p] show "wp (restore_failed stop start target e) (\<lambda>_ _. False) (failed_outcome able mt F u w X) p"
      by (simp add: restore_failed_def wp_bind wp_get)
  qed
qed

lemma failed_early_triple:
  assumes nF: "\<not> F"
  shows "triple (on_txn able mt F v (stopped, False) (phase_inv w X True False S N early_phases))
     (restore_failed stop start target e) (\<lambda>_ _. False) (failed_outcome able mt F (v \<or> stopped) w X)"
proof -
  let ?P = "phase_inv w X True False S N early_phases"
  let ?O = "failed_outcome able mt F (v \<or> stopped) w X"
  have rec: "recoverable w X g" if "?P g" for g
    using that by (rule recoverable_early) simp
  have restart: "triple (on_txn able mt F v (stopped, False) ?P)
      (whenM stopped (tryM (thenM (call start) (set_stopped False))
         (\<lambda>start_exc. raiseM (RestoreWorkerError ''echec avant application et redemarrage impossible''))))
      (\<lambda>_. on_txn able mt F (v \<or> stopped) (False, False) ?P) ?O"
  proof (cases stopped)
    case False
    then show ?thesis by (simp add: triple_def wp_when)
  next
    case True
    have "triple (on_txn able mt F v (True, False) ?P) (thenM (call start) (set_stopped False))
        (\<lambda>_. on_txn able mt F True (False, False) ?P) (\<lambda>_ (s, fl). st able mt F False ?P s)"
      by (rule triple_then [OF txn_call [OF ctl_triple_start] triple_set_stopped]) simp
    then have "triple (on_txn able mt F v (True, False) ?P)
        (tryM (thenM (call start) (set_stopped False))
          (\<lambda>start_exc. raiseM (RestoreWorkerError ''echec avant application et redemarrage impossible'')))
        (\<lambda>_. on_txn able mt F True (False, False) ?P) ?O"
      by (rule triple_try)
        (auto intro!: triple_raise elim!: st_mono intro: rec simp: failed_outcome_def nF)
    with True show ?thesis by (simp add: whenM_def)
  qed
  have clean: "triple (on_txn able mt F (v \<or> stopped) (False, False) ?P) (call cleanup_transaction)
      (\<lambda>_. on_txn able mt F (v \<or> stopped) (False, False) (\<lambda>g. (\<forall>k \<in> reserved. g k = None) \<and> world_is w g)) ?O"
  proof (rule tripleI)
    fix p assume "on_txn able mt F (v \<or> stopped) (False, False) ?P p"
    then obtain s where p: "p = (s, False, False)" and s: "st able mt F (v \<or> stopped) ?P s" by (auto simp: on_txn_def)
    from wp_conj [OF tripleD [OF cleanup_triple s] only_io_wp [OF only_io_cleanup]]
    show "wp (call cleanup_transaction)
      (\<lambda>_. on_txn able mt F (v \<or> stopped) (False, False) (\<lambda>g. (\<forall>k \<in> reserved. g k = None) \<and> world_is w g)) ?O p"
      unfolding call_def wp_zoom p fst_conv prod.case
    proof (rule wp_mono, goal_cases)
      case (1 x t)
      then show ?case by (auto simp: on_txn_def elim!: st_mono)
    next
      case (2 e t)
      have "st able mt F False (\<lambda>g. recoverable w X g \<or> spent w X g) t"
        using 2 by (elim conjE st_mono) (auto intro: recoverable_early recoverable_none)
      moreover have "\<not> cancelled e" using 2 by auto
      ultimately show ?case by (simp add: failed_outcome_def nF)
    qed
  qed
  have all: "triple (on_txn able mt F v (stopped, False) ?P)
      (thenM (whenM stopped (tryM (thenM (call start) (set_stopped False))
         (\<lambda>start_exc. raiseM (RestoreWorkerError ''echec avant application et redemarrage impossible''))))
      (thenM (call cleanup_transaction)
         (raiseM (RestoreWorkerError (''restauration annulee avant application : '' @ exn_str e)))))
      (\<lambda>_ _. False) ?O"
    by (rule triple_then [OF restart triple_then [OF clean]], rule triple_raise)
      (auto simp: on_txn_def cancelled_def intro!: cancelled_outcome [OF nF])
  show ?thesis
  proof (rule tripleI)
    fix p assume p: "on_txn able mt F v (stopped, False) ?P p"
    then obtain s where "p = (s, stopped, False)" by (auto simp: on_txn_def)
    with tripleD [OF all p] show "wp (restore_failed stop start target e) (\<lambda>_ _. False) ?O p"
      by (simp add: restore_failed_def wp_bind wp_get)
  qed
qed

text \<open>The transaction from the staged archive to its end.\<close>

lemma transaction_triple:
  "triple (st able mt F u (phase_inv w X True False True False {''staged''}))
     (run_transaction (tryM (apply_restore stop start target) (restore_failed stop start target)))
     (\<lambda>_. st able mt F True (phase_inv w X False True True True {''started''}))
     (\<lambda>e s. failed_outcome able mt F u w X e (s, False, False))"
proof -
  have out: "failed_outcome able mt F u w X Killed p" if p: "failed_at able mt F u w X p" for p
  proof -
    have "recoverable w X g" if "phase_inv w X False True False False (set rollback_phases) g \<or>
        phase_inv w X True True False False {''stopped''} g" for g
      using that by (auto simp: early_phases_def intro: recoverable_rollback recoverable_early)
    with p show ?thesis
      by (auto simp: failed_at_def failed_outcome_def elim!: st_mono intro: recoverable_early split: if_splits)
  qed
  have handler: "triple (failed_at able mt F u w X) (restore_failed stop start target e) (\<lambda>_ _. False) (failed_outcome able mt F u w X)" for e
  proof (rule tripleI)
    fix p assume p: "failed_at able mt F u w X p"
    obtain s stopped ready where ps: "p = (s, stopped, ready)" by (cases p) auto
    from p have nF: "\<not> F" by (auto simp: failed_at_def)
    show "wp (restore_failed stop start target e) (\<lambda>_ _. False) (failed_outcome able mt F u w X) p"
    proof (cases ready)
      case True
      with p ps have "st able mt F False (phase_inv w X False True False False (set rollback_phases)) s \<or>
          st able mt F False (phase_inv w X True True False False {''stopped''}) s"
        by (auto simp: failed_at_def st_def dir_at_def)
      then have "on_txn able mt F False (stopped, True) (phase_inv w X False True False False (set rollback_phases)) p \<or>
          on_txn able mt F False (stopped, True) (phase_inv w X True True False False {''stopped''}) p"
        using True ps by (simp add: on_txn_def)
      then show ?thesis
        by (elim disjE; intro tripleD [OF failed_ready_triple [OF _ nF]]) auto
    next
      case False
      with p ps have "on_txn able mt F (u \<and> \<not> stopped) (stopped, False) (phase_inv w X True False False False early_phases) p"
        by (auto simp: failed_at_def on_txn_def)
      from tripleD [OF failed_early_triple [OF nF] this] show ?thesis
        by (rule wp_mono) (auto simp: failed_outcome_def split: if_splits elim!: st_mono)
    qed
  qed
  have body: "triple (on_txn able mt F u (False, False) (phase_inv w X True False True False {''staged''}))
     (tryM (apply_restore stop start target) (restore_failed stop start target))
     (\<lambda>_. on_txn able mt F True (False, True) (phase_inv w X False True True True {''started''}))
     (failed_outcome able mt F u w X)"
    by (rule triple_try [OF apply_triple])
      (auto intro: out intro!: triple_conseq [OF handler])
  show ?thesis
  proof (rule tripleI)
    fix s assume "st able mt F u (phase_inv w X True False True False {''staged''}) s"
    then have "on_txn able mt F u (False, False) (phase_inv w X True False True False {''staged''}) (s, False, False)"
      by (simp add: on_txn_def)
    with body have "wp (tryM (apply_restore stop start target) (restore_failed stop start target))
       (\<lambda>_. on_txn able mt F True (False, True) (phase_inv w X False True True True {''started''}))
       (failed_outcome able mt F u w X) (s, False, False)" unfolding triple_def by blast
    then show "wp (run_transaction (tryM (apply_restore stop start target) (restore_failed stop start target)))
       (\<lambda>_. st able mt F True (phase_inv w X False True True True {''started''}))
       (\<lambda>e s. failed_outcome able mt F u w X e (s, False, False)) s"
      unfolding wp_run_transaction by (rule wp_mono) (auto simp: on_txn_def failed_outcome_def)
  qed
qed

text \<open>
  Recovery without faults: an interrupted transaction ends with the old world in place and the
  server running, and the error says so; a transaction that had started the server on the new
  world is completed; and where nothing was interrupted nothing happens to the world.
\<close>

lemma read_marker:
  assumes "entry state_name s = Some (File m (JsonText (payload ph t)))" and "no_faults s"
  shows "read_state s = (Inr (Some (payload ph t)), s\<lparr>io_step := Suc (io_step s)\<rparr>)"
  using assms tick_no_faults [OF assms(2)] by (simp add: read_state_def prog_simps payload_def)

lemma payload_text [simp]:
  "state_text (Some (payload ph t)) ''phase'' d = ph" "state_text (Some (payload ph t)) ''target'' d = t"
  by (simp_all add: state_text_def payload_def jhas_def)

lemma entry_dir_at: "dir_at mt (\<lambda>g. g = f) s \<Longrightarrow> entry k s = f k"
  by (auto simp: dir_at_def entry_def)

lemma st_step: "st able mt F u P s \<Longrightarrow> st able mt F u P (s\<lparr>io_step := Suc (io_step s)\<rparr>)"
  by (auto simp: st_def dir_at_def intro: able_env simp: env_le_def)

lemma reserved_set: "reserved = {stage_name, rollback_name, state_name, state_tmp_name}"
  by (simp add: restore_transaction_names_def stage_name_def rollback_name_def state_name_def state_tmp_name_def)

lemma recover_nothing_triple:
  "triple (st able mt F u (\<lambda>g. tidy g \<and> g state_name = None \<and> g rollback_name = None \<and> P g))
     (thenM (at_child stage_name remove_path) (thenM (at_child state_tmp_name unlink_missing_ok) (retM None)))
     (\<lambda>r. st able mt F u (\<lambda>g. r = None \<and> (\<forall>k \<in> reserved. g k = None) \<and> (\<exists>f. P f \<and> (\<forall>k. k \<notin> reserved \<longrightarrow> g k = f k))))
     (\<lambda>_ s. \<not> F \<and> st able mt F u (\<lambda>g. tidy g \<and> g state_name = None \<and> g rollback_name = None \<and>
        (\<exists>f. P f \<and> (\<forall>k. k \<notin> reserved \<longrightarrow> g k = f k))) s)"
proof (rule fs_triple, goal_cases)
  case 1
  show ?case by (intro fs.keeps_intros frame_rules)
next
  case (2 f s)
  let ?E = "\<lambda>_ t. \<not> F \<and> dir_at mt (\<lambda>g. tidy g \<and> g state_name = None \<and> g rollback_name = None \<and>
        (\<exists>f. P f \<and> (\<forall>k. k \<notin> reserved \<longrightarrow> g k = f k))) t"
  have cut: "tidy g \<and> g state_name = None \<and> g rollback_name = None \<and> (\<exists>f. P f \<and> (\<forall>k. k \<notin> reserved \<longrightarrow> g k = f k))"
    if "\<forall>k. k \<noteq> stage_name \<longrightarrow> g k = f k" for g
    using that 2(1) not_reserved by (auto simp: tidy_def)
  let ?f = "f(stage_name := None, state_tmp_name := None)"
  have fin: "(\<forall>k \<in> reserved. ?f k = None) \<and> (\<exists>f. P f \<and> (\<forall>k. k \<notin> reserved \<longrightarrow> ?f k = f k))"
    using 2(1) not_reserved unfolding reserved_set by (auto simp: tidy_def)
  have pl: "plain_file ((f(stage_name := None)) state_tmp_name)" using 2(1) by (simp add: tidy_def)
  show ?case
    unfolding wp_then
  proof (rule wp_mono [OF wp_remove_entry [OF 2(2,3)]], goal_cases)
    case (1 x t)
    then have "dir_at mt (\<lambda>g. g = f(stage_name := None)) t" "calm F t" by auto
    from wp_unlink_entry [OF this pl] show ?case
    proof (rule wp_mono, goal_cases)
      case (1 x t)
      then show ?case unfolding wp_ret using fin by (elim conjE) (auto elim!: dir_at_mono simp del: fun_upd_apply)
    next
      case (2 e t)
      then show ?case by (auto elim!: dir_at_mono intro!: cut)
    qed
  next
    case (2 e t)
    then show ?case by (auto elim!: dir_at_mono intro!: cut)
  qed
qed

lemma recover_marked:
  assumes s: "st able mt True u (phase_inv w X W R S N M) s"
    and k: "\<And>ph t u'. ph \<in> M \<Longrightarrow> st able mt True u (phase_inv w X W R S N {ph}) u' \<Longrightarrow>
      wp (recover_decide stop start (entry rollback_name s \<noteq> None) (Some (payload ph t))) Q E u'"
  shows "wp (recover_interrupted_transaction stop start) Q E s"
proof -
  from s obtain f where f: "phase_inv w X W R S N M f" "st able mt True u (\<lambda>g. g = f) s"
    unfolding st_exists [of able mt True u "phase_inv w X W R S N M"] by blast
  then obtain ph m t where ph: "ph \<in> M" "f state_name = Some (File m (JsonText (payload ph t)))"
    by (auto simp: phase_inv_def marker_def)
  from f(2) have e: "entry state_name s = Some (File m (JsonText (payload ph t)))"
    using entry_dir_at [of mt f s state_name] ph(2) by (simp add: st_def)
  from f(2) have nf: "no_faults s" by (auto simp: st_def intro: able_faults)
  have "phase_inv w X W R S N {ph} f" using f(1) ph(2) by (auto simp: phase_inv_def marker_def)
  with st_step [OF f(2)] have "st able mt True u (phase_inv w X W R S N {ph}) (s\<lparr>io_step := Suc (io_step s)\<rparr>)"
    by (auto elim: st_mono)
  from k [OF ph(1) this, of t] show ?thesis
    unfolding recover_interrupted_transaction_def
    by (simp add: wp_bind wp_get e exceptM_run read_marker [OF e nf] wp_def [of "exceptM _ _ _"])
qed

lemma recover_spec:
  assumes s: "st able mt True u (recoverable w X) s"
  shows "wp (recover_interrupted_transaction stop start) (recovered_value mt w X) (recovered_outcome mt w) s"
proof -
  from s obtain f where f: "recoverable w X f" "st able mt True u (\<lambda>g. g = f) s"
    unfolding st_exists [of able mt True u "recoverable w X"] by blast
  have ent: "entry k s = f k" for k using entry_dir_at [of mt f s k] f(2) by (simp add: st_def)
  have pin: "st able mt True u P s" if "P f" for P using f(2) that by (auto elim: st_mono)
  have clean: "triple (st able mt True True (phase_inv w X True R S N M)) (thenM cleanup_transaction (raiseM e))
      (recovered_value mt w X) (recovered_outcome mt w)" 
    if "e \<in> {RestoreWorkerError ''une transaction interrompue a ete annulee ; l ancien monde est redemarre'',
          RestoreWorkerError ''une transaction interrompue avant application a ete annulee''}" for e R S N M
    by (rule triple_then [OF triple_conseq [OF cleanup_triple]], assumption, assumption, simp, rule triple_raise)
      (use that in \<open>auto simp: st_def recovered_outcome_def elim!: dir_at_mono\<close>)
  have no: "triple P m (\<lambda>_. Q) E" if "triple P m (\<lambda>_. Q) (\<lambda>_ t. \<not> True \<and> E' t)" for P Q E E' and m :: "(disk, unit) prog"
    by (rule triple_conseq [OF that]) simp_all
  from f(1) have "tidy f \<and> f state_name = None \<and> f rollback_name = None \<and> (world_is w f \<or> new_world w X f) \<or>
     phase_inv w X True False False False early_phases f \<or>
     phase_inv w X False True False False (set rollback_phases) f \<or>
     phase_inv w X False False False True {''started''} f" by (simp add: recoverable_def)
  then show ?thesis
  proof (elim disjE)
    assume "tidy f \<and> f state_name = None \<and> f rollback_name = None \<and> (world_is w f \<or> new_world w X f)"
    then have "st able mt True u (\<lambda>g. tidy g \<and> g state_name = None \<and> g rollback_name = None \<and> (world_is w g \<or> new_world w X g)) s"
      by (intro pin)
    from tripleD [OF recover_nothing_triple this] have "wp (recover_interrupted_transaction stop start)
        (\<lambda>r. st able mt True u (\<lambda>g. r = None \<and> (\<forall>k \<in> reserved. g k = None) \<and>
          (\<exists>f. (world_is w f \<or> new_world w X f) \<and> (\<forall>k. k \<notin> reserved \<longrightarrow> g k = f k)))) (\<lambda>_ _. False) s"
      using \<open>tidy f \<and> _\<close> unfolding recover_interrupted_transaction_def wp_bind wp_get ent by simp
    then show ?thesis
      by (rule wp_mono) (auto simp: recovered_value_def st_def elim!: dir_at_mono intro: world_is_cong new_world_cong split: option.split)
  next
    assume early: "phase_inv w X True False False False early_phases f"
    show ?thesis
    proof (rule recover_marked [OF pin [of "phase_inv w X True False False False early_phases", OF early]])
      fix ph t u' assume ph: "ph \<in> early_phases" and u': "st able mt True u (phase_inv w X True False False False {ph}) u'"
      have "triple (st able mt True u (phase_inv w X True False False False {ph}))
          (thenM start (thenM cleanup_transaction (raiseM (RestoreWorkerError ''une transaction interrompue avant application a ete annulee''))))
          (recovered_value mt w X) (recovered_outcome mt w)"
        by (rule triple_then [OF no [OF ctl_triple_start] clean]) simp
      from tripleD [OF this u'] ph show "wp (recover_decide stop start (entry rollback_name s \<noteq> None) (Some (payload ph t)))
          (recovered_value mt w X) (recovered_outcome mt w) u'"
        by (auto simp: recover_decide_def early_phases_def rollback_phases_def)
    qed
  next
    assume rollback: "phase_inv w X False True False False (set rollback_phases) f"
    then have rb: "entry rollback_name s \<noteq> None" unfolding ent by (auto simp: phase_inv_def rollback_is_def)
    show ?thesis
    proof (rule recover_marked [OF pin [of "phase_inv w X False True False False (set rollback_phases)", OF rollback]])
      fix ph t u' assume ph: "ph \<in> set rollback_phases" and u': "st able mt True u (phase_inv w X False True False False {ph}) u'"
      have "triple (st able mt True u (phase_inv w X False True False False {ph}))
          (thenM stop (thenM (sync_from rollback_name True) (thenM start (thenM cleanup_transaction
            (raiseM (RestoreWorkerError ''une transaction interrompue a ete annulee ; l ancien monde est redemarre''))))))
          (recovered_value mt w X) (recovered_outcome mt w)"
        by (rule triple_then [OF no [OF ctl_triple_stop] triple_then [OF no [OF sync_rollback_triple]
              triple_then [OF no [OF ctl_triple_start] clean]]]) simp
      from tripleD [OF this u'] ph rb show "wp (recover_decide stop start (entry rollback_name s \<noteq> None) (Some (payload ph t)))
          (recovered_value mt w X) (recovered_outcome mt w) u'"
        by (auto simp: recover_decide_def rollback_phases_def)
    qed
  next
    assume started: "phase_inv w X False False False True {''started''} f"
    show ?thesis
    proof (rule recover_marked [OF pin [of "phase_inv w X False False False True {''started''}", OF started]])
      fix ph t u' assume ph: "ph \<in> {''started''}" and u': "st able mt True u (phase_inv w X False False False True {ph}) u'"
      have "triple (st able mt True u (phase_inv w X False False False True {ph})) (thenM cleanup_transaction (retM (Some t)))
          (recovered_value mt w X) (recovered_outcome mt w)"
        by (rule triple_then [OF no [OF cleanup_triple]], rule triple_ret)
          (auto simp: recovered_value_def st_def elim!: dir_at_mono)
      from tripleD [OF this u'] ph show "wp (recover_decide stop start (entry rollback_name s \<noteq> None) (Some (payload ph t)))
          (recovered_value mt w X) (recovered_outcome mt w) u'"
        by (simp add: recover_decide_def)
    qed
  qed
qed

end

subsection \<open>The whole run\<close>

text \<open>
  What the transaction relies on in the extractor: it changes nothing of the data root but the staging
  directory, and on success leaves there a directory without reserved names whose entries satisfy \<open>X\<close>.
\<close>

locale extractor =
  fixes unpack :: "string list \<Rightarrow> (disk, string) prog" and X :: "string list \<Rightarrow> (string \<times> node) list \<Rightarrow> bool"
  assumes extract_frame: "keeps fs_rel (unpack path)"
    and extract_spec: "dir_at mt (\<lambda>g. g = f) s \<Longrightarrow> wp (unpack path)
      (\<lambda>_. dir_at mt (\<lambda>g. (\<forall>k. k \<noteq> stage_name \<longrightarrow> g k = f k) \<and> staged_with (X path) (g stage_name)))
      (\<lambda>_. dir_at mt (\<lambda>g. \<forall>k. k \<noteq> stage_name \<longrightarrow> g k = f k)) s"

locale restore = controller stop start able + extractor unpack X
  for stop start able unpack X

context restore
begin

lemma stage_triple:
  "triple (st able mt False u (\<lambda>g. (\<forall>k \<in> reserved. g k = None) \<and> world_is w g)) (unpack path)
     (\<lambda>_. st able mt False u (\<lambda>g. (\<forall>k \<in> reserved. k \<noteq> stage_name \<longrightarrow> g k = None) \<and> world_is w g \<and> staged_with (X path) (g stage_name)))
     (\<lambda>_ s. \<not> False \<and> st able mt False u (\<lambda>g. tidy g \<and> g state_name = None \<and> g rollback_name = None \<and> world_is w g) s)"
proof (rule fs_triple [OF extract_frame])
  fix f and s :: disk assume f: "(\<forall>k \<in> reserved. f k = None) \<and> world_is w f" and s: "dir_at mt (\<lambda>g. g = f) s"
  have w: "world_is w g" if "\<forall>k. k \<noteq> stage_name \<longrightarrow> g k = f k" for g
    by (rule world_is_cong [of _ f]) (use that f not_reserved in auto)
  from extract_spec [OF s, of path] show "wp (unpack path)
      (\<lambda>x t. dir_at mt (\<lambda>g. (\<forall>k \<in> reserved. k \<noteq> stage_name \<longrightarrow> g k = None) \<and> world_is w g \<and> staged_with (X path) (g stage_name)) t \<and> calm False t)
      (\<lambda>_ t. \<not> False \<and> dir_at mt (\<lambda>g. tidy g \<and> g state_name = None \<and> g rollback_name = None \<and> world_is w g) t) s"
    by (rule wp_mono) (use w f in \<open>auto simp: tidy_def elim!: dir_at_mono\<close>)
qed

lemma write_staged_triple:
  "triple (st able mt F u (\<lambda>g. (\<forall>k \<in> reserved. k \<noteq> stage_name \<longrightarrow> g k = None) \<and> world_is w g \<and> staged_with Y (g stage_name)))
     (write_state ''staged'' t) (\<lambda>_. st able mt F u (phase_inv w Y True False True False {''staged''}))
     (\<lambda>_ s. \<not> F \<and> st able mt F u (\<lambda>g. tidy g \<and> g state_name = None \<and> g rollback_name = None \<and> world_is w g) s)"
proof (rule fs_triple [OF keeps_write_state], goal_cases)
  case (1 f s)
  then have "plain_file (f state_tmp_name)" "plain_file (f state_name)" by auto
  from wp_write_state [OF 1(2,3) this] show ?case
  proof (rule wp_mono, goal_cases)
    case (1 x s')
    have "phase_inv w Y True False True False {''staged''} g"
      if "\<forall>k. k \<noteq> state_tmp_name \<and> k \<noteq> state_name \<longrightarrow> g k = f k" "g state_tmp_name = None" "marker ''staged'' (g state_name)" for g
    proof -
      have "world_is w g" by (rule world_is_cong [of _ f]) (use that not_reserved \<open>_ \<and> world_is w f \<and> _\<close> in auto)
      with that \<open>_ \<and> world_is w f \<and> _\<close> show ?thesis by (auto simp: phase_inv_def tidy_def marker_plain)
    qed
    with 1 show ?case by (auto elim!: dir_at_mono)
  next
    case (2 e s')
    have "world_is w g" if "\<forall>k. k \<noteq> state_tmp_name \<longrightarrow> g k = f k" for g
      by (rule world_is_cong [of _ f]) (use that not_reserved \<open>_ \<and> world_is w f \<and> _\<close> in auto)
    with 2 \<open>_ \<and> world_is w f \<and> _\<close> show ?case by (auto elim!: dir_at_mono simp: tidy_def)
  qed
qed

text \<open>After the server runs on the new world, the cleanup may fail without consequence.\<close>

lemma last_cleanup_triple:
  "triple (st able mt False True (phase_inv w Y False True True True {''started''})) (ignoreM cleanup_transaction)
     (\<lambda>_. st able mt False True (\<lambda>g. recoverable w Y g \<and> new_world w Y g))
     (\<lambda>_. st able mt False False (recoverable w Y))"
proof -
  have "triple (st able mt False True (phase_inv w Y False True True True {''started''})) cleanup_transaction
     (\<lambda>_. st able mt False True (\<lambda>g. recoverable w Y g \<and> new_world w Y g))
     (\<lambda>_. st able mt False True (\<lambda>g. recoverable w Y g \<and> new_world w Y g))"
    by (rule triple_conseq [OF cleanup_triple])
      (auto elim!: st_mono intro: recoverable_none recoverable_started phase_inv_new)
  then show ?thesis by (rule triple_ignore) (auto elim!: st_mono)
qed

lemma recover_fresh:
  assumes "st able mt False u (\<lambda>g. tidy g \<and> g state_name = None \<and> g rollback_name = None \<and> world_is w g) s"
  shows "wp (recover_interrupted_transaction stop start)
     (\<lambda>r t. r = None \<and> st able mt False u (\<lambda>g. (\<forall>k \<in> reserved. g k = None) \<and> world_is w g) t)
     (\<lambda>_. st able mt False u (\<lambda>g. tidy g \<and> g state_name = None \<and> g rollback_name = None \<and> world_is w g)) s"
proof -
  from assms have e: "entry state_name s = None" "entry rollback_name s = None"
    by (auto simp: st_def dir_at_def entry_def)
  have k: "world_is w g" if "world_is w f" "\<forall>k. k \<notin> reserved \<longrightarrow> g k = f k" for f g
    using that by (auto intro: world_is_cong)
  from tripleD [OF recover_nothing_triple assms] show ?thesis
    unfolding recover_interrupted_transaction_def wp_bind wp_get e
    by simp (erule wp_mono; auto simp: st_def dir_at_def dest: k)
qed

definition kept_by :: "entries \<Rightarrow> consigne \<Rightarrow> entries \<Rightarrow> bool" where
  "kept_by w cons g \<longleftrightarrow> (case resolve_target_archive cons of
       Inl e \<Rightarrow> world_is w g
     | Inr (target, path) \<Rightarrow> recoverable w (X path) g \<or> spent w (X path) g)"

lemma restore_spec:
  assumes s: "st able mt False u (\<lambda>g. tidy g \<and> g state_name = None \<and> g rollback_name = None \<and> world_is w g) s"
  shows "wp (restore_transaction stop start cons unpack)
     (\<lambda>target t. \<exists>path. resolve_target_archive cons = Inr (target, path) \<and>
        st able mt False True (\<lambda>g. recoverable w (X path) g \<and> new_world w (X path) g) t)
     (\<lambda>_. st able mt False False (kept_by w cons)) s"
  (is "wp _ ?Q ?E s")
proof -
  have E: "?E e t" if "st able mt False v P t" "\<And>g. P g \<Longrightarrow> kept_by w cons g" for e t v P
    using that by (auto elim: st_mono)
  have none: "kept_by w cons g"
    if "tidy g \<and> g state_name = None \<and> g rollback_name = None \<and> world_is w g" for g
    using that by (auto simp: kept_by_def intro: recoverable_none split: sum.split)
  have main: "triple (st able mt False u (\<lambda>g. (\<forall>k \<in> reserved. g k = None) \<and> world_is w g))
      (thenM (unpack path)
          (thenM (write_state ''staged'' target)
          (thenM (run_transaction (tryM (apply_restore stop start target) (restore_failed stop start target)))
          (thenM (ignoreM cleanup_transaction)
             (retM target))))) ?Q ?E"
    if r: "resolve_target_archive cons = Inr (target, path)" for target path
  proof -
    have kept: "kept_by w cons g" if "recoverable w (X path) g \<or> spent w (X path) g" for g
      using that r by (simp add: kept_by_def)
    have out: "?E e t" if "failed_outcome able mt False u w (X path) e (t, False, False)" for e t
      using that
      by (auto simp: failed_outcome_def tidy_def split: if_splits intro!: kept recoverable_none elim!: st_mono)
    have 1: "triple (st able mt False u (\<lambda>g. (\<forall>k \<in> reserved. g k = None) \<and> world_is w g)) (unpack path)
       (\<lambda>_. st able mt False u (\<lambda>g. (\<forall>k \<in> reserved. k \<noteq> stage_name \<longrightarrow> g k = None) \<and> world_is w g \<and> staged_with (X path) (g stage_name))) ?E"
      by (rule triple_conseq [OF stage_triple [where path = path]]) (auto elim!: st_mono intro: none)
    have 2: "triple (st able mt False u (\<lambda>g. (\<forall>k \<in> reserved. k \<noteq> stage_name \<longrightarrow> g k = None) \<and> world_is w g \<and> staged_with (X path) (g stage_name)))
       (write_state ''staged'' target) (\<lambda>_. st able mt False u (phase_inv w (X path) True False True False {''staged''})) ?E"
      by (rule triple_conseq [OF write_staged_triple [where Y = "X path"]]) (auto elim!: st_mono intro: none)
    have 3: "triple (st able mt False u (phase_inv w (X path) True False True False {''staged''}))
       (run_transaction (tryM (apply_restore stop start target) (restore_failed stop start target)))
       (\<lambda>_. st able mt False True (phase_inv w (X path) False True True True {''started''})) ?E"
      by (rule triple_conseq [OF transaction_triple [where X = "X path"]]) (auto intro: out)
    have 4: "triple (st able mt False True (phase_inv w (X path) False True True True {''started''})) (ignoreM cleanup_transaction)
       (\<lambda>_. st able mt False True (\<lambda>g. recoverable w (X path) g \<and> new_world w (X path) g)) ?E"
      by (rule triple_conseq [OF last_cleanup_triple [where Y = "X path"]]) (auto elim!: st_mono intro: kept)
    have 5: "triple (st able mt False True (\<lambda>g. recoverable w (X path) g \<and> new_world w (X path) g)) (retM target) ?Q ?E"
      by (rule triple_ret) (use r in auto)
    show ?thesis by (rule triple_then [OF 1 triple_then [OF 2 triple_then [OF 3 triple_then [OF 4 5]]]])
  qed
  have root: "(case here s of Some n \<Rightarrow> is_dir n | None \<Rightarrow> False)"
    using s by (auto simp: st_def dir_at_def)
  show ?thesis
    unfolding restore_transaction_def
  proof (simp only: wp_bind wp_get root not_True_eq_False if_False, rule wp_mono [OF recover_fresh [OF s]], goal_cases)
    case (1 r t)
    then show ?case
    proof (cases "resolve_target_archive cons")
      case (Inl e)
      with 1 show ?thesis
        by (auto simp: wp_raise kept_by_def elim!: st_mono)
    next
      case (Inr tp)
      obtain target path where "tp = (target, path)" by (cases tp)
      with tripleD [OF main] Inr 1 show ?thesis by auto
    qed
  next
    case (2 e t)
    then show ?case by (rule E) (rule none)
  qed
qed

end

subsection \<open>The worker's own controllers and extractor\<close>

text \<open>
  The entries an archive yields: those of the tree that a complete extraction of it leaves, the archive having
  been found restorable and its file having the same fingerprint before and after.
\<close>

definition archive_entries :: "(string list \<Rightarrow> nat \<Rightarrow> tarball) \<Rightarrow> string list \<Rightarrow> (string \<times> node) list \<Rightarrow> bool" where
  "archive_entries arc path cs \<longleftrightarrow> (\<exists>m world. extracted (arc path) world (Some (Dir m cs)))"

lemma extracted_staged:
  assumes "extracted (arc path) world v"
  shows "staged_with (archive_entries arc path) v"
proof -
  from assms obtain m cs where cs: "v = Some (Dir m cs)" "set (keys cs) \<inter> reserved = {}"
    unfolding extracted_def staged_def by blast
  with assms show ?thesis unfolding staged_with_def archive_entries_def by blast
qed

lemma stage_name_plain: "''..'' \<notin> set [stage_name]"
  by (simp add: stage_name_def)

interpretation verified: extractor "\<lambda>path. extract_verified_archive (arc path) [stage_name]" "archive_entries arc" for arc
proof
  fix path mt f and s :: disk assume s: "dir_at mt (\<lambda>g. g = f) s"
  then obtain ds where ds: "here s = Some (Dir mt ds)" "map_of ds = f" and g: "good_slot s"
    by (auto simp: dir_at_def good_slot_def)
  have root: "dir_at mt (\<lambda>g. (\<forall>k. k \<noteq> stage_name \<longrightarrow> g k = f k) \<and> g stage_name = node_at (here t) [stage_name]) t"
    if run: "extract_verified_archive (arc path) [stage_name] s = (r, t)" for r t
  proof -
    from keepsD [OF owner_outside.keeps_extract [OF stage_name_plain] run] ds(1)
    have "outside [stage_name] (Some (Dir mt ds)) (here t)" by simp
    then obtain cs where cs: "here t = Some (Dir mt cs)" "\<forall>j. j \<noteq> stage_name \<longrightarrow> map_of cs j = map_of ds j"
      using outside_entry by blast
    moreover from keepsD [OF owner_sound.keeps_extract [OF stage_name_plain] run] g have "good_slot t" by (simp add: inv_rel_def)
    ultimately show ?thesis using ds(2) by (auto simp: dir_at_def good_slot_def)
  qed
  show "wp (extract_verified_archive (arc path) [stage_name])
      (\<lambda>_. dir_at mt (\<lambda>g. (\<forall>k. k \<noteq> stage_name \<longrightarrow> g k = f k) \<and> staged_with (archive_entries arc path) (g stage_name)))
      (\<lambda>_. dir_at mt (\<lambda>g. \<forall>k. k \<noteq> stage_name \<longrightarrow> g k = f k)) s"
  proof (rule wpI)
    fix world t assume run: "extract_verified_archive (arc path) [stage_name] s = (Inr world, t)"
    from extracted_staged [of arc path, OF extract_verified_archive_ok [OF run stage_name_plain]] root [OF run]
    show "dir_at mt (\<lambda>g. (\<forall>k. k \<noteq> stage_name \<longrightarrow> g k = f k) \<and> staged_with (archive_entries arc path) (g stage_name)) t"
      by (auto elim!: dir_at_mono)
  qed (auto dest!: root elim!: dir_at_mono)
qed (rule owner_frame.keeps_extract [OF stage_name_plain])

interpretation plain_worker: restore "mc_stop mc" "mc_start mc" "mc_able mc"
  "\<lambda>path. extract_verified_archive (arc path) [stage_name]" "archive_entries arc" for mc arc
  by unfold_locales

interpretation worker: restore "aware_stop mc dm" "aware_start mc dm" "aware_able mc dm"
  "\<lambda>path. extract_verified_archive (arc path) [stage_name]" "archive_entries arc" for mc dm arc
  by unfold_locales

text \<open>The state in which a transaction may begin: no marker and no rollback left behind.\<close>

definition fresh_root :: "meta \<Rightarrow> (string \<times> node) list \<Rightarrow> disk \<Rightarrow> bool" where
  "fresh_root mt ds s \<longleftrightarrow> here s = Some (Dir mt ds) \<and> good (Dir mt ds) \<and>
     map_of ds state_name = None \<and> map_of ds rollback_name = None \<and> plain_file (map_of ds state_tmp_name)"

lemma fresh_root_st:
  "fresh_root mt ds s \<Longrightarrow> st able mt False (mc_up s)
     (\<lambda>g. tidy g \<and> g state_name = None \<and> g rollback_name = None \<and> world_is (map_of ds) g) s"
  by (auto simp: fresh_root_def st_def dir_at_def tidy_def intro!: world_is_self good_entries_map_of)

end
