(* ===== verification/Restore_Theorems.thy ===== *)
theory Restore_Theorems
  imports Restore_Safety
begin

text \<open>
  The guarantees of the restore worker, stated over its own controllers and extractor. Each rests
  on the contracts of \<^verbatim>\<open>Restore_Safety\<close> through their interpretations.

  A concrete world of two files, an archive with a small world and a Docker that answers as it
  should serve as the inputs at which the theorems are applied.
\<close>

subsection \<open>Concrete inputs\<close>

definition mc0 :: docker_config where
  "mc0 = \<lparr>c_name = ''minecraft'', c_timeout = 300, c_poll = 2\<rparr>"

definition dm0 :: docker_config where
  "dm0 = \<lparr>c_name = ''mc-doorman'', c_timeout = 15, c_poll = 1/2\<rparr>"

definition file0 :: "string \<Rightarrow> node" where
  "file0 d = File fresh_meta (Bytes d)"

definition member0 :: "string \<Rightarrow> string \<Rightarrow> member" where
  "member0 n d = \<lparr>mem_name = n, mem_kind = KReg, mem_size = length d, mem_data = Some d, mem_uid = 0, mem_gid = 0,
     mem_mode = 420, mem_mtime = 0\<rparr>"

definition tar0 :: tarball where
  "tar0 = \<lparr>tar_members = [member0 ''server.properties'' ''level-name=w'', member0 ''w/level.dat'' ''new''],
     tar_error = None, tar_fingerprint = (0, 0, 0, 0)\<rparr>"

definition consigne0 :: consigne where
  "consigne0 = \<lparr>target_size = 8, target_text = Some ''a.tar.gz'', backups_root = [''b''],
     real_path = (\<lambda>p. Some (''b'' # p)), regular = (\<lambda>_. True)\<rparr>"

definition world0 :: "(string \<times> node) list" where
  "world0 = [(''a'', file0 ''1''), (''b'', file0 ''2'')]"

text \<open>
  A Docker that reports a started Minecraft as starting before it reports it healthy, and a doorman that is
  still reported running for a while after it was told to stop. The two share their address.
\<close>

definition health0 :: "string \<Rightarrow> json \<times> json" where
  "health0 h = (JObj [(''Status'', JStr h)], JObj [(''Healthcheck'', JObj [(''Test'', JArr [JStr ''CMD''])])])"

definition disk0 :: "(string \<times> node) list \<Rightarrow> (nat \<Rightarrow> fault) \<Rightarrow> disk" where
  "disk0 cs plan = \<lparr>io_step = 0, io_plan = plan, here = Some (Dir fresh_meta cs), mc_up = True, dm_up = False,
     dm_leaving = False, address_shared = True, resolved = (\<lambda>n _. n), mc_dies = (\<lambda>_. False), mc_idle = (\<lambda>_. Exited),
     mc_report = (\<lambda>n. health0 (if even n then ''healthy'' else ''starting'')), dm_gone = (\<lambda>n. n mod 4 < 2),
     clock = 0, delay = (\<lambda>_. 0)\<rparr>"

lemma health0_view:
  "readiness ''running'' (container_attrs ''running'' (health0 h)) = (''running'', JStr h, True)"
  by (simp add: readiness_def container_attrs_def health0_def jget_or_def jhas_def jget_def Let_def)

lemma able0: "aware_able mc0 dm0 (disk0 cs (\<lambda>_. NoFault)\<lparr>mc_up := a, dm_up := b\<rparr>)" (is "aware_able _ _ ?s")
proof -
  have gone: "\<exists>j. (n + 2 * j) mod 4 < 2 \<and> j \<le> 1" for n :: nat
    by (cases "n mod 4 < 2") (force, intro exI [of _ 1], presburger)
  have "\<exists>j. healthy_at ?s (n + j) \<and> (\<forall>i<j. starting_at ?s (n + i) \<and> waited (c_poll mc0) 1 ?s n i < c_timeout mc0)" for n
    by (intro exI [of _ "if even n then 0 else 1"])
      (auto simp: healthy_at_def starting_at_def running_view_def disk0_def health0_view waited_def mc0_def)
  moreover have "\<exists>j. dm_gone ?s (n + 2 * j) \<and> (\<forall>i<j. waited (c_poll dm0) 2 ?s n i < c_timeout dm0)" for n
  proof -
    from gone [of n] obtain j where j: "(n + 2 * j) mod 4 < 2" "j \<le> 1" by blast
    have "waited (c_poll dm0) 2 ?s n i < c_timeout dm0" if "i < j" for i
    proof -
      have "i = 0" using that j(2) by simp
      then show ?thesis by (simp add: waited_def dm0_def)
    qed
    with j show ?thesis by (auto simp: disk0_def)
  qed
  ultimately show ?thesis
    by (auto simp: aware_able_def comes_up_def goes_away_def names_resolve_def no_faults_def disk0_def mc0_def dm0_def
        removeprefix_slash_def)
qed

abbreviation run_worker :: "docker_config \<Rightarrow> docker_config \<Rightarrow> consigne \<Rightarrow> (string list \<Rightarrow> nat \<Rightarrow> tarball) \<Rightarrow> (disk, string) prog" where
  "run_worker mc dm cons arc \<equiv>
     restore_transaction (aware_stop mc dm) (aware_start mc dm) cons (\<lambda>path. extract_verified_archive (arc path) [stage_name])"

subsection \<open>No world is lost\<close>

lemma kept_somewhere:
  "recoverable w X g \<or> spent w X g \<Longrightarrow>
   world_is w g \<or> rollback_is w (g rollback_name) \<or> new_world w X g"
  by (auto simp: recoverable_def spent_def phase_inv_def)

text \<open>
  C1. A run of the restore transaction starts in a data root where no earlier transaction has left a marker or
  a rollback. Whatever access to the disk or to Docker fails then, and wherever the process dies, the data root
  stays a well-formed directory in which the old world is in place, or complete in the rollback directory, or
  replaced by the old world with the entries of the archive laid over it: those of the archive the instruction
  names, found restorable and unpacked completely, and nothing else.
\<close>

theorem restore_no_loss:
  assumes "fresh_root mt ds s"
  shows "dir_at mt (\<lambda>g. world_is (map_of ds) g \<or> rollback_is (map_of ds) (g rollback_name) \<or>
      (\<exists>target path. resolve_target_archive cons = Inr (target, path) \<and>
         new_world (map_of ds) (archive_entries arc path) g)) (snd (run_worker mc dm cons arc s))"
proof -
  let ?P = "\<lambda>g. world_is (map_of ds) g \<or> rollback_is (map_of ds) (g rollback_name) \<or>
      (\<exists>target path. resolve_target_archive cons = Inr (target, path) \<and> new_world (map_of ds) (archive_entries arc path) g)"
  have P: "?P g" if "worker.kept_by arc (map_of ds) cons g" for g
    using that by (auto simp: worker.kept_by_def dest: kept_somewhere [OF disjI1] kept_somewhere [OF disjI2] split: sum.splits)
  from worker.restore_spec [OF fresh_root_st [OF assms], of mc dm cons arc]
  have "wp (run_worker mc dm cons arc) (\<lambda>_. dir_at mt ?P) (\<lambda>_. dir_at mt ?P) s"
    unfolding st_def
    by (rule wp_mono) (elim exE conjE, erule dir_at_mono, (rule P, assumption | blast))+
  then show ?thesis by (auto simp: wp_def split: prod.splits sum.splits)
qed

theorem restore_no_loss_witness:
  "dir_at fresh_meta (\<lambda>g. world_is (map_of world0) g \<or> rollback_is (map_of world0) (g rollback_name) \<or>
      (\<exists>target path. resolve_target_archive consigne0 = Inr (target, path) \<and>
         new_world (map_of world0) (archive_entries (\<lambda>_ _. tar0) path) g))
     (snd (run_worker mc0 dm0 consigne0 (\<lambda>_ _. tar0) (disk0 world0 (\<lambda>n. if n = 100 then Kill else NoFault))))"
  by (rule restore_no_loss) (simp add: fresh_root_def disk0_def world0_def file0_def state_name_def rollback_name_def state_tmp_name_def)

text \<open>
  C2. Where no earlier transaction has left a marker or a rollback, a run that returns has restored the archive
  the instruction names: the server runs, and the world is the old one with the entries of the completely
  unpacked archive in the place of those of the same names, and every other entry as it was.
\<close>

theorem restore_success:
  assumes "fresh_root mt ds s" and "run_worker mc dm cons arc s = (Inr target, t)"
  shows "mc_up t \<and> (\<exists>path. resolve_target_archive cons = Inr (target, path) \<and>
    dir_at mt (new_world (map_of ds) (archive_entries arc path)) t)"
  using wp_retD [OF worker.restore_spec [OF fresh_root_st [OF assms(1)], of mc dm cons arc] assms(2)]
  by (auto simp: st_def elim: dir_at_mono)

lemma run0:
  "fst (run_worker mc0 dm0 consigne0 (\<lambda>_ _. tar0) (disk0 world0 (\<lambda>_. NoFault))) = Inr ''a.tar.gz''"
  by code_simp

theorem restore_success_witness:
  "mc_up (snd (run_worker mc0 dm0 consigne0 (\<lambda>_ _. tar0) (disk0 world0 (\<lambda>_. NoFault)))) \<and>
   (\<exists>path. resolve_target_archive consigne0 = Inr (''a.tar.gz'', path) \<and>
    dir_at fresh_meta (new_world (map_of world0) (archive_entries (\<lambda>_ _. tar0) path))
      (snd (run_worker mc0 dm0 consigne0 (\<lambda>_ _. tar0) (disk0 world0 (\<lambda>_. NoFault)))))"
proof (rule restore_success)
  show "fresh_root fresh_meta world0 (disk0 world0 (\<lambda>_. NoFault))"
    by (simp add: fresh_root_def disk0_def world0_def file0_def state_name_def rollback_name_def state_tmp_name_def)
  show "run_worker mc0 dm0 consigne0 (\<lambda>_ _. tar0) (disk0 world0 (\<lambda>_. NoFault)) =
      (Inr ''a.tar.gz'', snd (run_worker mc0 dm0 consigne0 (\<lambda>_ _. tar0) (disk0 world0 (\<lambda>_. NoFault))))"
    using run0 by (metis prod.collapse)
qed


text \<open>
  C3. When the staged archive is in place, the rest of the transaction either returns with the
  server running on the new world, or raises; and where it reports a cancelled restoration, the
  old world is in place, no working file is left, and the server is up if it was up before.
\<close>

theorem restore_cancelled:
  assumes "here s = Some (Dir mt ds)" and "good (Dir mt ds)"
    and "phase_inv w X True False True False {''staged''} (map_of ds)"
    and "run_transaction (tryM (apply_restore (aware_stop mc dm) (aware_start mc dm) target)
           (restore_failed (aware_stop mc dm) (aware_start mc dm) target)) s = (Inl e, t)"
    and "cancelled e"
  shows "(mc_up s \<longrightarrow> mc_up t) \<and> dir_at mt (\<lambda>g. (\<forall>k \<in> reserved. g k = None) \<and> world_is w g) t"
proof -
  have "st (aware_able mc dm) mt False (mc_up s) (phase_inv w X True False True False {''staged''}) s"
    using assms(1-3) by (auto simp: st_def dir_at_def)
  with aware.transaction_triple [of mc dm mt False "mc_up s" w X target]
  have "wp (run_transaction (tryM (apply_restore (aware_stop mc dm) (aware_start mc dm) target)
      (restore_failed (aware_stop mc dm) (aware_start mc dm) target)))
    (\<lambda>_. st (aware_able mc dm) mt False True (phase_inv w X False True True True {''started''}))
    (\<lambda>e s'. failed_outcome (aware_able mc dm) mt False (mc_up s) w X e (s', False, False)) s"
    unfolding triple_def by blast
  from wp_raiseD [OF this assms(4)] assms(5) show ?thesis
    by (auto simp: failed_outcome_def st_def)
qed

text \<open>The archive of the example, unpacked in the staging directory.\<close>

definition stage0 :: "(string \<times> node) list" where
  "stage0 = [(''server.properties'', file0 ''level-name=w''), (''w'', Dir fresh_meta [(''level.dat'', file0 ''new'')])]"

definition staged_root0 :: "(string \<times> node) list" where
  "staged_root0 = world0 @ [(stage_name, Dir fresh_meta stage0), (state_name, File fresh_meta (JsonText (payload ''staged'' ''t'')))]"

lemma staged_root0_inv: "phase_inv (map_of world0) (\<lambda>_. True) True False True False {''staged''} (map_of staged_root0)"
proof -
  have "world_is (map_of world0) (map_of staged_root0)"
    by (rule world_is_cong [OF _ world_is_self])
      (auto simp: staged_root0_def world0_def file0_def map_add_def dest: not_reserved split: option.splits)
  then show ?thesis
    by (auto simp: phase_inv_def tidy_def staged_with_def marker_def staged_root0_def world0_def stage0_def file0_def
        restore_transaction_names_def stage_name_def state_name_def state_tmp_name_def)
qed

abbreviation txn0 :: "(disk, unit) prog" where
  "txn0 \<equiv> run_transaction (tryM (apply_restore (aware_stop mc0 dm0) (aware_start mc0 dm0) ''t'')
     (restore_failed (aware_stop mc0 dm0) (aware_start mc0 dm0) ''t''))"

lemma cancel0:
  "fst (txn0 (disk0 staged_root0 (\<lambda>n. if n = 65 then Fail else NoFault))) =
   Inl (RestoreWorkerError (''restauration annulee'' @ '', rollback applique : I/O''))"
  by code_simp

theorem restore_cancelled_witness:
  "mc_up (snd (txn0 (disk0 staged_root0 (\<lambda>n. if n = 65 then Fail else NoFault)))) \<and>
   dir_at fresh_meta (\<lambda>g. (\<forall>k \<in> reserved. g k = None) \<and> world_is (map_of world0) g)
    (snd (txn0 (disk0 staged_root0 (\<lambda>n. if n = 65 then Fail else NoFault))))"
proof -
  let ?s = "disk0 staged_root0 (\<lambda>n. if n = 65 then Fail else NoFault)"
  have "here ?s = Some (Dir fresh_meta staged_root0)" by (simp add: disk0_def)
  moreover have "good (Dir fresh_meta staged_root0)"
    by (simp add: staged_root0_def world0_def stage0_def file0_def stage_name_def state_name_def)
  moreover have "txn0 ?s = (Inl (RestoreWorkerError (''restauration annulee'' @ '', rollback applique : I/O'')), snd (txn0 ?s))"
    using cancel0 by (metis prod.collapse)
  moreover have "cancelled (RestoreWorkerError (''restauration annulee'' @ '', rollback applique : I/O''))"
    unfolding cancelled_def by blast
  ultimately have "(mc_up ?s \<longrightarrow> mc_up (snd (txn0 ?s))) \<and>
      dir_at fresh_meta (\<lambda>g. (\<forall>k \<in> reserved. g k = None) \<and> world_is (map_of world0) g) (snd (txn0 ?s))"
    by (rule restore_cancelled [OF _ _ staged_root0_inv])
  moreover have "mc_up ?s" by (simp add: disk0_def)
  ultimately show ?thesis by blast
qed

subsection \<open>Recovery\<close>




text \<open>A transaction interrupted while the stage was being applied: entry \<open>a\<close> is already gone.\<close>

definition applying_root0 :: "(string \<times> node) list" where
  "applying_root0 = [(''b'', file0 ''x''), (rollback_name, Dir fresh_meta world0),
     (state_name, File fresh_meta (JsonText (payload ''applying'' ''t'')))]"

lemma applying_root0_recoverable: "recoverable (map_of world0) (\<lambda>_. True) (map_of applying_root0)"
proof (rule recoverable_rollback)
  have "world_is (map_of world0) (map_of world0)"
    by (rule world_is_self) (simp add: world0_def file0_def)
  then show "phase_inv (map_of world0) (\<lambda>_. True) False True False False {''applying''} (map_of applying_root0)"
    by (auto simp: phase_inv_def tidy_def marker_def rollback_is_def applying_root0_def world0_def file0_def
        restore_transaction_names_def rollback_name_def state_name_def state_tmp_name_def)
qed (simp add: rollback_phases_def)



text \<open>
  C5. Recovery is not safe against a crash of its own. A first recovery restores the old world
  and dies while it deletes the rollback directory, whose marker still asks for a rollback; the
  next recovery synchronises the remains of that directory over the world, deletes entry
  \<open>a\<close>, and reports that the old world was restarted.
\<close>

theorem recovery_crash_loses_world:
  "\<exists>s t u. recoverable (map_of world0) (\<lambda>_. True) (map_of (children (the (here s)))) \<and>
     recover_interrupted_transaction (mc_stop mc0) (mc_start mc0) s = (Inl Killed, t) \<and>
     entry ''a'' t = Some (file0 ''1'') \<and>
     recover_interrupted_transaction (mc_stop mc0) (mc_start mc0) (t\<lparr>io_plan := (\<lambda>_. NoFault)\<rparr>) =
       (Inl (RestoreWorkerError ''une transaction interrompue a ete annulee ; l ancien monde est redemarre''), u) \<and>
     entry ''a'' u = None"
proof -
  let ?s = "disk0 applying_root0 (\<lambda>n. if n = 23 then Kill else NoFault)"
  let ?r = "recover_interrupted_transaction (mc_stop mc0) (mc_start mc0)"
  have "case ?r ?s of (r, t) \<Rightarrow> (case ?r (t\<lparr>io_plan := (\<lambda>_. NoFault)\<rparr>) of (r', u) \<Rightarrow>
      r = Inl Killed \<and> entry ''a'' t = Some (file0 ''1'') \<and> entry ''a'' u = None \<and>
      r' = Inl (RestoreWorkerError ''une transaction interrompue a ete annulee ; l ancien monde est redemarre''))"
    by code_simp
  moreover have "recoverable (map_of world0) (\<lambda>_. True) (map_of (children (the (here ?s))))"
    using applying_root0_recoverable by (simp add: disk0_def)
  ultimately show ?thesis by (auto split: prod.splits)
qed


subsection \<open>Archives\<close>

text \<open>
  C6. Where an archive is found restorable, its reading raised no error, every member read from it is a directory
  or a regular file under a name that stays below the root, no two regular files have the same name, and it
  holds a \<open>server.properties\<close> of at most one megabyte whose \<open>level-name\<close> names a world of which it holds a
  \<open>level.dat\<close> that is not empty.
\<close>

theorem restorable_archive:
  assumes "insp_restorable (inspect_archive tar)"
  shows "tar_error tar = None \<and> list_all safe_member (tar_members tar) \<and> distinct (regular_names (tar_members tar)) \<and>
    (\<exists>m \<in> set (tar_members tar). \<exists>d. mem_kind m = KReg \<and> mem_data m = Some d \<and>
      int (length d) \<le> max_server_properties_bytes \<and>
      safe_archive_member_name (mem_name m) = Inr ''server.properties'' \<and>
      safe_archive_member_name (shown (level_name (splitlines (decode_nats (cps d))))) = Inr (insp_world (inspect_archive tar))) \<and>
    (\<exists>m \<in> set (tar_members tar). mem_kind m = KReg \<and> 0 < mem_size m \<and>
      safe_archive_member_name (mem_name m) = Inr (insp_world (inspect_archive tar) @ ''/level.dat''))"
  using inspect_archive_ok [OF inspect_archive_restorable(1) [OF assms]] inspect_archive_restorable(2,3) [OF assms] by blast

theorem restorable_archive_witness:
  "tar_error tar0 = None \<and> insp_world (inspect_archive tar0) = ''w'' \<and>
    (\<exists>m \<in> set (tar_members tar0). mem_kind m = KReg \<and> 0 < mem_size m \<and>
      safe_archive_member_name (mem_name m) = Inr (insp_world (inspect_archive tar0) @ ''/level.dat''))"
proof -
  have "insp_restorable (inspect_archive tar0) \<and> insp_world (inspect_archive tar0) = ''w''" by code_simp
  with restorable_archive [of tar0] show ?thesis by blast
qed

text \<open>
  C7. A member name that passes the check is relative, climbs nowhere, is not one of the
  transaction's own names at its root, and is a fixed point of the check.
\<close>

theorem safe_name_stays_inside:
  assumes "safe_archive_member_name name = Inr r"
  shows "\<not> is_absolute name \<and> path_parts r = path_parts name \<and> ''..'' \<notin> set (path_parts r) \<and>
    (path_parts r \<noteq> [] \<longrightarrow> hd (path_parts r) \<notin> set restore_transaction_names) \<and>
    safe_archive_member_name r = Inr r"
  using safe_name_cases [OF assms] safe_name_idem [OF assms] by blast

theorem safe_name_stays_inside_witness:
  "safe_archive_member_name ''./w//level.dat'' = Inr ''w/level.dat'' \<and> ''..'' \<notin> set (path_parts ''w/level.dat'') \<and>
   safe_archive_member_name ''w/level.dat'' = Inr ''w/level.dat''"
proof -
  have "safe_archive_member_name ''./w//level.dat'' = Inr ''w/level.dat''" by code_simp
  from safe_name_stays_inside [OF this] this show ?thesis by blast
qed

text \<open>
  C8. The extraction works on the tree of the file system, where \<open>..\<close> climbs and an absolute name starts at the
  root. Whatever the archive contains and wherever the extraction fails, everything outside the staging directory
  stays as it was, with the kinds and metadata of the directories above it, and the tree stays a proper one. When it
  succeeds, the staging directory holds every regular file of the archive with its bytes, its directories, and
  nothing else, the archive having been found restorable with the world returned and its file having the same
  fingerprint before and after.
\<close>

theorem extraction_unpacks:
  assumes "good_opt (here s)" and "''..'' \<notin> set stage"
  shows "case extract_verified_archive arc stage s of (r, t) \<Rightarrow>
    outside stage (here s) (here t) \<and> fs_rel s t \<and> good_opt (here t) \<and>
    (\<forall>world. r = Inr world \<longrightarrow> extracted arc world (node_at (here t) stage))"
proof -
  obtain r t where run: "extract_verified_archive arc stage s = (r, t)" by fastforce
  have "good_opt (here t)"
    using keepsD [OF owner_sound.keeps_extract [OF assms(2)] run] assms(1) by (simp add: inv_rel_def good_slot_def)
  then show ?thesis
    using keepsD [OF owner_outside.keeps_extract [OF assms(2)] run] keepsD [OF owner_frame.keeps_extract [OF assms(2)] run]
      extract_verified_archive_ok [OF _ assms(2)] run by auto
qed

text \<open>The data root two directories below the root, beside a file that is no part of it.\<close>

definition deep0 :: disk where
  "deep0 = disk0 [(''srv'', Dir fresh_meta [(''data'', Dir fresh_meta world0), (''passwd'', file0 ''p'')])] (\<lambda>_. NoFault)"

theorem extraction_unpacks_witness:
  "extracted (\<lambda>_. tar0) ''w'' (node_at (here (snd (extract_verified_archive (\<lambda>_. tar0) [''srv'', ''data'', stage_name] deep0)))
     [''srv'', ''data'', stage_name]) \<and>
   node_at (here (snd (extract_verified_archive (\<lambda>_. tar0) [''srv'', ''data'', stage_name] deep0))) [''srv'', ''passwd''] = Some (file0 ''p'')"
proof -
  let ?p = "[''srv'', ''data'', stage_name]"
  let ?r = "extract_verified_archive (\<lambda>_. tar0) ?p deep0"
  have "fst ?r = Inr ''w''" by code_simp
  moreover have "good_opt (here deep0)" by (simp add: deep0_def disk0_def world0_def file0_def)
  moreover have "''..'' \<notin> set ?p" by (simp add: stage_name_def)
  ultimately have "outside ?p (here deep0) (here (snd ?r)) \<and> extracted (\<lambda>_. tar0) ''w'' (node_at (here (snd ?r)) ?p)"
    using extraction_unpacks [of deep0 ?p "\<lambda>_. tar0"] by (auto split: prod.splits)
  then have o: "outside ?p (here deep0) (here (snd ?r))" and e: "extracted (\<lambda>_. tar0) ''w'' (node_at (here (snd ?r)) ?p)" by blast+
  from o [unfolded outside_def, rule_format, of "[''srv'', ''passwd'']"]
  have "node_at (here (snd ?r)) [''srv'', ''passwd''] = node_at (here deep0) [''srv'', ''passwd'']" by simp
  with e show ?thesis by (simp add: deep0_def disk0_def)
qed

subsection \<open>The controllers\<close>

text \<open>
  C9. Minecraft and the doorman share one address, and Docker starts neither while the other has it. On every
  outcome of a start or a stop the two do not run together. A start that returns leaves the doorman stopped and
  Minecraft running, reported healthy by its health check or, without one, having run for two seconds (or
  the delay of the start, if shorter); a stop that returns leaves Minecraft stopped. Where nothing fails, both
  return, however long the doorman takes to leave within the delay of the release.
\<close>

theorem doorman_exclusive:
  assumes "address_shared s" and "exclusive s"
  shows "(\<forall>r t. aware_start mc dm s = (r, t) \<or> aware_stop mc dm s = (r, t) \<longrightarrow> \<not> (mc_up t \<and> dm_up t)) \<and>
    (\<forall>t. aware_start mc dm s = (Inr (), t) \<longrightarrow> \<not> dm_up t \<and> started_well (clock s) (c_timeout mc) t) \<and>
    (\<forall>t. aware_stop mc dm s = (Inr (), t) \<longrightarrow> \<not> mc_up t) \<and>
    (aware_able mc dm s \<longrightarrow> fst (aware_start mc dm s) = Inr () \<and> fst (aware_stop mc dm s) = Inr ())"
proof -
  have apart: "\<not> (mc_up t \<and> dm_up t)" if "keeps ctl_rel m" "keeps (inv_rel exclusive) m" "m s = (r, t)" for m :: "(disk, unit) prog" and r t
    using keepsD [OF that(1,3)] keepsD [OF that(2,3)] assms by (auto simp: ctl_rel_def env_le_def inv_rel_def exclusive_def)
  note apart = apart [OF ctl_aware(1) exclusive_aware(1)] apart [OF ctl_aware(2) exclusive_aware(2)]
  have "\<not> dm_up t \<and> started_well (clock s) (c_timeout mc) t" if "aware_start mc dm s = (Inr (), t)" for t
    using apart(2) [OF that] aware_start_starts [OF that] started_well_up by blast
  moreover have "fst (aware_start mc dm s) = Inr () \<and> fst (aware_stop mc dm s) = Inr ()" if "aware_able mc dm s"
    using aware_start_able [OF that] aware_stop_able [OF that] by auto
  ultimately show ?thesis using apart aware_stop_stops by blast
qed

theorem doorman_exclusive_witness:
  "case aware_start mc0 dm0 (disk0 world0 (\<lambda>_. NoFault)\<lparr>mc_up := False, dm_up := True\<rparr>) of (r, t) \<Rightarrow>
     r = Inr () \<and> mc_up t \<and> \<not> dm_up t \<and> mc_ready t"
proof -
  let ?s = "disk0 world0 (\<lambda>_. NoFault)\<lparr>mc_up := False, dm_up := True\<rparr>"
  have "address_shared ?s" "exclusive ?s" by (simp_all add: disk0_def exclusive_def)
  from doorman_exclusive [OF this, of mc0 dm0] able0 [where cs = world0 and a = False and b = True] show ?thesis
    by (auto simp: started_well_def dest: mc_ready_up split: prod.splits)
qed

text \<open>
  An error of Docker while the doorman is first looked up is taken for its absence: it is not told to leave,
  and the start of Minecraft is refused, with the doorman still there.
\<close>

lemma doorman_error_taken_for_absence:
  assumes "address_shared s" and "dm_up s" and "\<not> mc_up s" and "io_plan s (io_step s) = Fail"
    and "aware_start mc dm s = (r, t)"
  shows "isl r \<and> \<not> mc_up t \<and> dm_up t"
proof -
  have "release dm s = (Inr (), s\<lparr>io_step := Suc (io_step s)\<rparr>)"
    using assms(4) by (simp add: release_def container_get_def exceptM_def prog_simps tick_def Let_def catchable_def)
  with assms(5) have "mc_start mc (s\<lparr>io_step := Suc (io_step s)\<rparr>) = (r, t)"
    by (auto simp: aware_start_def prog_simps split: prod.splits sum.splits)
  from start_refused [OF _ _ _ this] assms(1-3) show ?thesis by simp
qed

end
