(* ===== verification/Doorman_Server.thy ===== *)
theory Doorman_Server
  imports Json "HOL-Library.Word"
begin

text \<open>
  The maintenance doorman of \<^verbatim>\<open>app/doorman_server.py\<close>: variable-length integers, packets, and
  one whole conversation with a client.

  Bytes are 8-bit words. The bytes a client sends are a finite list: at its end the client has
  closed the connection or let it time out, which both end the conversation. Threads share
  nothing but the two texts, so one conversation is the whole server for one client.
\<close>

unbundle bit_operations_syntax

type_synonym byte = "8 word"
type_synonym bytes = "8 word list"

text \<open>\<open>str.encode("utf-8")\<close> for the code points of the model: one byte below 128, two bytes above.\<close>

definition utf8_char :: "char \<Rightarrow> bytes" where
  "utf8_char c = (if code c < 128 then [of_nat (code c)]
     else [of_nat (192 + code c div 64), of_nat (128 + code c mod 64)])"

definition utf8 :: "string \<Rightarrow> bytes" where
  "utf8 s = concat (map utf8_char s)"

definition max_packet_bytes :: int where
  "max_packet_bytes = 32768"

definition max_string_bytes :: int where
  "max_string_bytes = 1024"

subsection \<open>The instruction file\<close>

definition default_motd :: string where
  "default_motd = ''Serveur en maintenance''"

definition default_kick :: string where
  "default_kick = ''Le serveur est en maintenance. Reviens un peu plus tard !''"

text \<open>
  \<open>str(payload.get(key) or "").strip()\<close>. The text \<open>str\<close> gives a float or a container is left
  to \<open>other\<close>.
\<close>

definition consigne_text :: "(json \<Rightarrow> string) \<Rightarrow> json \<Rightarrow> string \<Rightarrow> string" where
  "consigne_text other j key =
     (let v = jget j key
      in if \<not> truthy v then []
         else strip (py_str other v))"

definition load_consigne :: "(json \<Rightarrow> string) \<Rightarrow> jfile \<Rightarrow> string \<times> string" where
  "load_consigne other f = (case f of
       Doc j \<Rightarrow>
         if is_obj j then
           let motd = consigne_text other j ''motd''; kick = consigne_text other j ''kick''
           in (if motd = [] then default_motd else motd, if kick = [] then default_kick else kick)
         else (default_motd, default_kick)
     | _ \<Rightarrow> (default_motd, default_kick))"

subsection \<open>Variable-length integers and packets\<close>

text \<open>
  The loop of \<open>_read_varint\<close> and of \<open>_PacketReader.varint\<close>: at most five bytes, seven bits each,
  the lowest first. \<open>n\<close> rounds are left, \<open>position\<close> were done. \<open>None\<close> is \<open>ProtocolError\<close>.
\<close>

fun varint_loop :: "nat \<Rightarrow> nat \<Rightarrow> int \<Rightarrow> bytes \<Rightarrow> (int \<times> bytes) option" where
  "varint_loop 0 position v bs = None"
| "varint_loop (Suc n) position v [] = None"
| "varint_loop (Suc n) position v (b # bs) =
     (let v' = v OR push_bit (7 * position) (uint (b AND 0x7F))
      in if b AND 0x80 = 0 then Some (v', bs) else varint_loop n (Suc position) v' bs)"

definition read_varint :: "bytes \<Rightarrow> (int \<times> bytes) option" where
  "read_varint bs = varint_loop 5 0 0 bs"

function encode_varint :: "nat \<Rightarrow> bytes" where
  "encode_varint v =
     (let b = of_nat (v AND 0x7F) :: byte; v' = drop_bit 7 v
      in if v' = 0 then [b] else (b OR 0x80) # encode_varint v')"
  by pat_completeness auto
termination
  by (relation "measure id") (auto simp: drop_bit_eq_div intro!: div_less_dividend dest: gr0I)

declare encode_varint.simps [simp del]

definition read_exact :: "int \<Rightarrow> bytes \<Rightarrow> (bytes \<times> bytes) option" where
  "read_exact count bs =
     (if int (length bs) < count then None else Some (take (nat count) bs, drop (nat count) bs))"

definition read_packet :: "bytes \<Rightarrow> (bytes \<times> bytes) option" where
  "read_packet bs = (case read_varint bs of
       None \<Rightarrow> None
     | Some (len, rest) \<Rightarrow>
         if \<not> (0 < len \<and> len \<le> max_packet_bytes) then None else read_exact len rest)"

definition send_packet :: "bytes \<Rightarrow> bytes" where
  "send_packet payload = encode_varint (length payload) @ payload"

text \<open>Reading the body of a packet: the bytes that are left stand for the offset.\<close>

definition reader_string :: "bytes \<Rightarrow> (bytes \<times> bytes) option" where
  "reader_string bs = (case read_varint bs of
       None \<Rightarrow> None
     | Some (len, rest) \<Rightarrow>
         if \<not> (0 \<le> len \<and> len \<le> max_string_bytes) then None
         else if int (length rest) < len then None
         else Some (take (nat len) rest, drop (nat len) rest))"

fun reader_unsigned_short :: "bytes \<Rightarrow> (int \<times> bytes) option" where
  "reader_unsigned_short (hi # lo # rest) = Some (256 * uint hi + uint lo, rest)"
| "reader_unsigned_short _ = None"

subsection \<open>Messages\<close>

definition hex_digit :: "nat \<Rightarrow> char" where
  "hex_digit n = (if n < 10 then char_of (48 + n) else char_of (87 + n))"

definition json_escape_char :: "char \<Rightarrow> string" where
  "json_escape_char c =
     (if code c = 34 then [CHR 0x5C, CHR 0x22]
      else if code c = 92 then [CHR 0x5C, CHR 0x5C]
      else if code c = 10 then [CHR 0x5C, CHR ''n'']
      else if code c = 13 then [CHR 0x5C, CHR ''r'']
      else if code c = 9 then [CHR 0x5C, CHR ''t'']
      else if code c = 8 then [CHR 0x5C, CHR ''b'']
      else if code c = 12 then [CHR 0x5C, CHR ''f'']
      else if code c < 32 then [CHR 0x5C, CHR ''u'', CHR ''0'', CHR ''0'', hex_digit (code c div 16), hex_digit (code c mod 16)]
      else [c])"

definition json_string :: "string \<Rightarrow> string" where
  "json_string s = [CHR 0x22] @ concat (map json_escape_char s) @ [CHR 0x22]"

definition json_key :: "string \<Rightarrow> string \<Rightarrow> string" where
  "json_key k v = json_string k @ '': '' @ v"

definition json_dict :: "string list \<Rightarrow> string" where
  "json_dict kvs = ''{'' @ join '', '' kvs @ ''}''"

definition chat_json :: "string \<Rightarrow> bytes" where
  "chat_json text =
     (let encoded = utf8 (json_dict [json_key ''text'' (json_string text)])
      in encode_varint (length encoded) @ encoded)"

definition status_payload :: "string \<Rightarrow> int \<Rightarrow> bytes" where
  "status_payload motd client_protocol =
     (let encoded = utf8 (json_dict
        [json_key ''version'' (json_dict [json_key ''name'' (json_string ''Maintenance''),
            json_key ''protocol'' (str_int client_protocol)]),
         json_key ''players'' (json_dict [json_key ''online'' ''0'', json_key ''max'' ''0'']),
         json_key ''description'' (json_dict [json_key ''text'' (json_string motd)])])
      in 0 # encode_varint (length encoded) @ encoded)"

subsection \<open>A conversation\<close>

text \<open>The handshake: protocol version, address (ignored), port (ignored), next state.\<close>

definition read_handshake :: "bytes \<Rightarrow> (int \<times> int) option" where
  "read_handshake body = (case read_varint body of
       None \<Rightarrow> None
     | Some (packet_id, r1) \<Rightarrow>
         if packet_id \<noteq> 0 then None
         else (case read_varint r1 of
             None \<Rightarrow> None
           | Some (client_protocol, r2) \<Rightarrow> (case reader_string r2 of
               None \<Rightarrow> None
             | Some (_, r3) \<Rightarrow> (case reader_unsigned_short r3 of
                 None \<Rightarrow> None
               | Some (_, r4) \<Rightarrow> (case read_varint r4 of
                   None \<Rightarrow> None
                 | Some (next_state, _) \<Rightarrow> Some (client_protocol, next_state))))))"

text \<open>
  \<open>handle_client\<close>: the packets sent to the client, in order. Every anomaly ends it silently.
  \<open>status_exchange\<close> is its branch for the server list: a status, then the ping sent back.
\<close>

definition status_exchange :: "string \<Rightarrow> int \<Rightarrow> bytes \<Rightarrow> bytes list" where
  "status_exchange motd client_protocol inp = (case read_packet inp of
       None \<Rightarrow> []
     | Some (request, rest) \<Rightarrow> (case read_varint request of
         None \<Rightarrow> []
       | Some (request_id, _) \<Rightarrow>
           if request_id \<noteq> 0 then []
           else send_packet (status_payload motd client_protocol) #
             (case read_packet rest of
                None \<Rightarrow> []
              | Some (ping, _) \<Rightarrow>
                  if take 1 ping = [1] \<and> length ping = 9 then [send_packet ping] else [])))"

definition handle_client :: "string \<Rightarrow> string \<Rightarrow> bytes \<Rightarrow> bytes list" where
  "handle_client motd kick inp = (case read_packet inp of
       None \<Rightarrow> []
     | Some (first, rest) \<Rightarrow> (case read_handshake first of
         None \<Rightarrow> []
       | Some (client_protocol, next_state) \<Rightarrow>
           if next_state = 1 then status_exchange motd client_protocol rest
           else if next_state = 2 \<or> next_state = 3 then [send_packet (0 # chat_json kick)]
           else []))"

subsection \<open>Bits of a byte\<close>

lemma low7: "uint ((b :: 8 word) AND 0x7F) = uint b mod 128"
proof -
  have "b AND 0x7F = take_bit 7 b" by (simp add: take_bit_eq_mask mask_numeral)
  then show ?thesis by (simp only: unsigned_take_bit_eq) (simp add: take_bit_eq_mod)
qed

lemma high_bit: "(b :: 8 word) AND 0x80 = 0 \<longleftrightarrow> \<not> bit b 7"
  using and_exp_eq_0_iff_not_bit [of b 7] by simp

lemma or_add: "0 \<le> (v::int) \<Longrightarrow> v < 2 ^ k \<Longrightarrow> v OR push_bit k u = v + u * 2 ^ k"
  using concat_bit_eq [of k v u] by (simp add: concat_bit_def take_bit_int_eq_self push_bit_eq_mult)

lemma nat_and: "(v :: nat) AND 0x7F = v mod 128"
  using take_bit_eq_mask [of 7 v] by (simp add: take_bit_eq_mod mask_eq_exp_minus_1)

lemma byte_low: "uint (of_nat (v AND 0x7F) :: 8 word) = int (v mod 128)"
  by (simp add: nat_and unsigned_of_nat take_bit_eq_mod zmod_int [symmetric])

lemma byte_low_bit: "\<not> bit (of_nat (v AND 0x7F) :: 8 word) 7"
proof -
  have "\<not> bit (int (v mod 128)) 7" by (simp add: bit_iff_odd)
  with bit_uint_iff [of "of_nat (v AND 0x7F) :: 8 word" 7] show ?thesis by (simp add: byte_low)
qed

lemma byte_high: "uint ((b OR 0x80 :: 8 word) AND 0x7F) = uint (b AND 0x7F)"
proof -
  have "(b OR 0x80) AND 0x7F = b AND (0x7F :: 8 word)" by (simp add: bit.conj_disj_distrib2)
  then show ?thesis by simp
qed

lemma byte_high_bit: "bit (b OR 0x80 :: 8 word) 7"
proof -
  have "bit (2 ^ 7 :: 8 word) 7" unfolding bit_exp_iff by simp
  then show ?thesis by (simp add: bit_or_iff)
qed

lemma seven_more_bits: "(v :: int) < p \<Longrightarrow> u \<le> 127 \<Longrightarrow> 0 \<le> p \<Longrightarrow> v + u * p < 128 * p"
  using mult_right_mono [of u 127 p] by linarith

lemma varint_encode:
  "0 \<le> v \<Longrightarrow> v < 2 ^ (7 * pos) \<Longrightarrow> x < 2 ^ (7 * Suc n) \<Longrightarrow>
   varint_loop (Suc n) pos v (encode_varint x @ rest) = Some (v + int x * 2 ^ (7 * pos), rest)"
proof (induction n arbitrary: x v pos)
  case 0
  then have x: "drop_bit 7 x = 0" by (simp add: drop_bit_eq_div)
  have "int (x mod 128) = int x" using 0 by simp
  with 0 x show ?case
    by (subst encode_varint.simps) (simp add: Let_def high_bit byte_low_bit low7 byte_low or_add)
next
  case (Suc n)
  let ?b = "of_nat (x AND 0x7F) :: 8 word"
  show ?case
  proof (cases "drop_bit 7 x = 0")
    case True
    then have "x < 128" by (simp add: drop_bit_eq_div div_eq_0_iff)
    with Suc True show ?thesis
      by (subst encode_varint.simps) (simp add: Let_def high_bit byte_low_bit low7 byte_low or_add)
  next
    case False
    let ?v = "v + int (x mod 128) * 2 ^ (7 * pos)"
    have v: "?v < 2 ^ (7 * Suc pos)"
    proof -
      have "?v < 128 * 2 ^ (7 * pos)" using Suc.prems(2) by (intro seven_more_bits) auto
      then show ?thesis by (simp add: power_add)
    qed
    have d: "drop_bit 7 x < 2 ^ (7 * Suc n)"
      using Suc.prems(3) by (simp add: drop_bit_eq_div power_add less_mult_imp_div_less)
    have x: "int x = int (x mod 128) + 128 * int (drop_bit 7 x)"
      by (simp add: drop_bit_eq_div zmod_int zdiv_int)
    from Suc.IH [OF _ v d] Suc.prems(1) have
      "varint_loop (Suc n) (Suc pos) ?v (encode_varint (drop_bit 7 x) @ rest) = Some (?v + int (drop_bit 7 x) * 2 ^ (7 * Suc pos), rest)"
      by simp
    moreover have "?v + int (drop_bit 7 x) * 2 ^ (7 * Suc pos) = v + int x * 2 ^ (7 * pos)"
    proof -
      have "int x * 2 ^ (7 * pos) = (int (x mod 128) + 128 * int (drop_bit 7 x)) * 2 ^ (7 * pos)"
        using x by (rule arg_cong)
      then show ?thesis by (simp add: power_add algebra_simps)
    qed
    ultimately have step: "varint_loop (Suc n) (Suc pos) ?v (encode_varint (drop_bit 7 x) @ rest) =
        Some (v + int x * 2 ^ (7 * pos), rest)" by (simp only:)
    have low: "uint ((?b OR 0x80) AND 0x7F) = int (x mod 128)"
      by (subst byte_high, subst low7, subst byte_low) simp
    have "encode_varint x = (?b OR 0x80) # encode_varint (drop_bit 7 x)"
      using False by (subst encode_varint.simps) (simp add: Let_def)
    then have "varint_loop (Suc (Suc n)) pos v (encode_varint x @ rest) =
        varint_loop (Suc n) (Suc pos) ?v (encode_varint (drop_bit 7 x) @ rest)"
      using Suc.prems(1,2) by (simp only: append_Cons varint_loop.simps Let_def high_bit byte_high_bit low or_add) simp
    with step show ?thesis by simp
  qed
qed

subsection \<open>Reading back what was written\<close>

lemma five: "(5 :: nat) = Suc 4"
  by simp

lemma read_encode_varint: "x < 2 ^ 35 \<Longrightarrow> read_varint (encode_varint x @ rest) = Some (int x, rest)"
  using varint_encode [of 0 0 x 4 rest] unfolding read_varint_def five by simp



lemma read_exact_append: "read_exact (int (length p)) (p @ rest) = Some (p, rest)"
  by (simp add: read_exact_def)

lemma read_send_packet:
  assumes "0 < length p" and "int (length p) \<le> max_packet_bytes"
  shows "read_packet (send_packet p @ rest) = Some (p, rest)"
proof -
  have "length p < 2 ^ 35" using assms(2) by (simp add: max_packet_bytes_def)
  with assms show ?thesis by (simp add: read_packet_def send_packet_def read_encode_varint read_exact_append)
qed


lemma encode_varint_small: "v < 128 \<Longrightarrow> encode_varint v = [of_nat v]"
  by (subst encode_varint.simps) (simp add: Let_def drop_bit_eq_div nat_and)

definition handshake :: "nat \<Rightarrow> bytes \<Rightarrow> byte \<Rightarrow> byte \<Rightarrow> nat \<Rightarrow> bytes" where
  "handshake protocol addr hi lo next_state =
     encode_varint 0 @ encode_varint protocol @ encode_varint (length addr) @ addr @ [hi, lo] @ encode_varint next_state"

lemma read_handshake_handshake:
  assumes "protocol < 2 ^ 35" and "int (length addr) \<le> max_string_bytes" and "next_state < 2 ^ 35"
  shows "read_handshake (handshake protocol addr hi lo next_state) = Some (int protocol, int next_state)"
proof -
  have a: "length addr < 2 ^ 35" using assms(2) by (simp add: max_string_bytes_def)
  have e: "read_varint (encode_varint next_state) = Some (int next_state, [])"
    using read_encode_varint [OF assms(3), of "[]"] by simp
  have z: "read_varint (encode_varint 0 @ r) = Some (0, r)" for r using read_encode_varint [of 0 r] by simp
  show ?thesis
    using assms(2)
    by (simp add: read_handshake_def handshake_def z read_encode_varint [OF assms(1)] reader_string_def read_encode_varint [OF a] e)
qed

lemma encode_varint_length: "x < 2 ^ (7 * Suc n) \<Longrightarrow> length (encode_varint x) \<le> Suc n"
proof (induction n arbitrary: x)
  case 0
  then show ?case by (subst encode_varint.simps) (simp add: Let_def drop_bit_eq_div)
next
  case (Suc n)
  have "drop_bit 7 x < 2 ^ (7 * Suc n)"
    using Suc.prems by (simp add: drop_bit_eq_div power_add less_mult_imp_div_less)
  with Suc.IH show ?case by (subst encode_varint.simps) (simp add: Let_def)
qed






lemma encode_varint_nonempty [simp]: "encode_varint x \<noteq> []"
  by (subst encode_varint.simps) (simp add: Let_def)

lemma send_handshake_read:
  assumes "protocol < 2 ^ 28" and "int (length addr) \<le> max_string_bytes" and "next_state < 4"
  shows "read_packet (send_packet (handshake protocol addr hi lo next_state) @ rest) =
    Some (handshake protocol addr hi lo next_state, rest)"
proof (rule read_send_packet)
  show "0 < length (handshake protocol addr hi lo next_state)" by (simp add: handshake_def)
  have e: "length (encode_varint v) \<le> 5" if "v < 2 ^ 35" for v
    using encode_varint_length [of v 4] that by simp
  show "int (length (handshake protocol addr hi lo next_state)) \<le> max_packet_bytes"
    using assms e [of 0] e [of protocol] e [of "length addr"] e [of next_state]
    by (simp add: handshake_def max_packet_bytes_def max_string_bytes_def)
qed

subsection \<open>Properties\<close>




text \<open>
  C27. A client that follows the protocol is answered: a login (or transfer) gets exactly the
  refusal message; a status request followed by a ping gets the status text, with the client's own
  protocol number, and then the same ping.
\<close>

theorem doorman_conversation:
  assumes "protocol < 2 ^ 28" and "int (length addr) \<le> max_string_bytes"
    and "login = 2 \<or> login = 3" and "length stamp = 8"
  shows "handle_client motd kick (send_packet (handshake protocol addr hi lo login) @ tail) =
      [send_packet (0 # chat_json kick)] \<and>
    handle_client motd kick
      (send_packet (handshake protocol addr hi lo 1) @ send_packet [0] @ send_packet (1 # stamp)) =
      [send_packet (status_payload motd (int protocol)), send_packet (1 # stamp)]"
proof -
  have h: "read_packet (send_packet (handshake protocol addr hi lo n) @ r) = Some (handshake protocol addr hi lo n, r)"
    "read_handshake (handshake protocol addr hi lo n) = Some (int protocol, int n)" if "n < 4" for n r
    using send_handshake_read [OF assms(1,2) that] read_handshake_handshake [of protocol addr n] assms(1,2) that
    by auto
  have request: "read_packet (send_packet [0] @ r) = Some ([0], r)" for r
    using read_send_packet [of "[0]" r] by (simp add: max_packet_bytes_def)
  have id: "read_varint [0] = Some (0, [])" by code_simp
  have ping: "read_packet (send_packet (1 # stamp)) = Some (1 # stamp, [])"
    using read_send_packet [of "1 # stamp" "[]"] assms(4) by (simp add: max_packet_bytes_def)
  have "login < 4" using assms(3) by auto
  with assms(3) h have
    "handle_client motd kick (send_packet (handshake protocol addr hi lo login) @ tail) = [send_packet (0 # chat_json kick)]"
    by (auto simp: handle_client_def)
  moreover have "handle_client motd kick
      (send_packet (handshake protocol addr hi lo 1) @ send_packet [0] @ send_packet (1 # stamp)) =
      [send_packet (status_payload motd (int protocol)), send_packet (1 # stamp)]"
    using assms(4) by (simp add: handle_client_def status_exchange_def h request id ping)
  ultimately show ?thesis by blast
qed

theorem doorman_conversation_witness:
  "handle_client ''M'' ''K'' (send_packet (handshake 770 [104] 99 221 2)) = [send_packet (0 # chat_json ''K'')]"
  using doorman_conversation [of 770 "[104]" 2 "[0, 0, 0, 0, 0, 0, 0, 0]" "''M''" "''K''" 99 221 "[]"]
  by (simp add: max_string_bytes_def)

end
