(* ===== verification/Rcon.thy ===== *)
theory Rcon
  imports Doorman_Server Utf8 "HOL-Library.List_Lexorder" "HOL-Library.Char_ord"
begin

text \<open>
  The RCON client of \<^verbatim>\<open>app/adapters/rcon.py\<close>: packets, one connection with its reassembly of
  long answers, and the game commands built on it.

  The wire carries UTF-8, so the first part works on texts given by their code points. The bytes
  the server sends over the whole connection are a finite list; at its end the server has closed the
  connection or let it time out. A broken connection shows at the read that follows a write.
\<close>

subsection \<open>Texts on the wire\<close>

definition encode_text :: "codepoints \<Rightarrow> bytes" where
  "encode_text cs = map of_nat (concat (map cp_bytes cs))"

definition decode_text :: "bytes \<Rightarrow> codepoints" where
  "decode_text bs = decode_nats (map unat bs)"

subsection \<open>Packets\<close>

text \<open>\<open>struct.pack("<i", i)\<close> and \<open>struct.unpack("<i", b)\<close>; the pack fails outside 32 bits.\<close>

definition int32 :: "int \<Rightarrow> bool" where
  "int32 i \<longleftrightarrow> - (2 ^ 31) \<le> i \<and> i < 2 ^ 31"

definition pack_i :: "int \<Rightarrow> bytes" where
  "pack_i i = [word_of_int i, word_of_int (i div 2 ^ 8), word_of_int (i div 2 ^ 16), word_of_int (i div 2 ^ 24)]"

fun unpack_i :: "bytes \<Rightarrow> int" where
  "unpack_i [b0, b1, b2, b3] =
     sint (word_of_int (uint b0 + 2 ^ 8 * uint b1 + 2 ^ 16 * uint b2 + 2 ^ 24 * uint b3) :: 32 word)"
| "unpack_i _ = 0"

text \<open>\<open>None\<close> is \<open>struct.error\<close> for a number that does not fit, or a text with a lone surrogate.\<close>

definition encode_packet :: "int \<Rightarrow> int \<Rightarrow> codepoints \<Rightarrow> bytes option" where
  "encode_packet req_id ptype payload =
     (let body = pack_i req_id @ pack_i ptype @ encode_text payload @ [0, 0]
      in if int32 req_id \<and> int32 ptype \<and> int32 (int (length body)) \<and> list_all scalar payload
         then Some (pack_i (int (length body)) @ body) else None)"

text \<open>\<open>body[8:-2]\<close> is empty for a body of fewer than ten bytes; \<open>body[:8]\<close> must have eight.\<close>

definition decode_packet :: "bytes \<Rightarrow> (int \<times> int \<times> codepoints) option" where
  "decode_packet body =
     (if length body < 8 then None
      else Some (unpack_i (take 4 body), unpack_i (take 4 (drop 4 body)),
                 decode_text (take (length body - 10) (drop 8 body))))"

subsection \<open>A connection\<close>

record conn =
  next_id :: int
  inbox :: bytes
  sent :: "bytes list"

definition AUTH :: int where "AUTH = 3"
definition EXEC :: int where "EXEC = 2"
definition max_payload :: int where "max_payload = 4096"

definition recv_exact :: "int \<Rightarrow> (conn, bytes) prog" where
  "recv_exact n = (\<lambda>c.
     if int (length (inbox c)) < n
     then (Inl (OSError ''connexion RCON fermee par le serveur''), c\<lparr>inbox := []\<rparr>)
     else (Inr (take (nat n) (inbox c)), c\<lparr>inbox := drop (nat n) (inbox c)\<rparr>))"

definition send_rcon :: "int \<Rightarrow> codepoints \<Rightarrow> (conn, int) prog" where
  "send_rcon ptype payload =
     thenM (modM (\<lambda>c. c\<lparr>next_id := next_id c + 1\<rparr>))
       (bindM (getM next_id) (\<lambda>i. case encode_packet i ptype payload of
            None \<Rightarrow> raiseM (if list_all scalar payload then StructError ''argument out of range''
                           else ValueError ''surrogates not allowed'')
          | Some p \<Rightarrow> thenM (modM (\<lambda>c. c\<lparr>sent := sent c @ [p]\<rparr>)) (retM i)))"

definition recv_packet :: "(conn, int \<times> int \<times> codepoints \<times> int) prog" where
  "recv_packet =
     bindM (recv_exact 4) (\<lambda>l. bindM (recv_exact (unpack_i l)) (\<lambda>body.
       case decode_packet body of
         None \<Rightarrow> raiseM (StructError ''unpack requires a buffer of 8 bytes'')
       | Some (req_id, ptype, payload) \<Rightarrow> retM (req_id, ptype, payload, int (length body) - 10)))"

definition roundtrip :: "int \<Rightarrow> codepoints \<Rightarrow> (conn, int \<times> int \<times> codepoints) prog" where
  "roundtrip ptype payload =
     thenM (send_rcon ptype payload)
       (bindM recv_packet (\<lambda>(req_id, t, reply, _). retM (req_id, t, reply)))"

definition enter_rcon :: "codepoints \<Rightarrow> (conn, unit) prog" where
  "enter_rcon password = bindM (roundtrip AUTH password) (\<lambda>(req_id, _, _).
     if req_id = -1
     then raiseM (ServerUnavailable ''authentification RCON refusee (verifier RCON_PASSWORD)'')
     else retM ())"

lemma recv_exact_inbox: "recv_exact n c = (Inr b, d) \<Longrightarrow> length (inbox d) + nat n = length (inbox c)"
  by (auto simp: recv_exact_def split: if_splits)

lemma recv_packet_inbox: "recv_packet c = (Inr r, d) \<Longrightarrow> length (inbox d) < length (inbox c)"
  by (auto simp: recv_packet_def prog_simps split: prod.splits sum.splits option.splits dest!: recv_exact_inbox)

text \<open>
  The loop that collects fragments until the sentinel's answer. Every packet takes four bytes of
  the inbox at least, so it ends: by the sentinel, or by the end of the connection.
\<close>

function collect :: "int \<Rightarrow> codepoints list \<Rightarrow> (conn, codepoints) prog" where
  "collect end_id parts c = (case recv_packet c of
       (Inl e, d) \<Rightarrow> (Inl e, d)
     | (Inr (req_id, _, payload, _), d) \<Rightarrow>
         if req_id = end_id then (Inr (concat parts), d) else collect end_id (parts @ [payload]) d)"
  by pat_completeness auto

termination
  by (relation "measure (\<lambda>(_, _, c). length (inbox c))") (auto dest: recv_packet_inbox [OF sym])

declare collect.simps [simp del]

definition command :: "codepoints \<Rightarrow> (conn, codepoints) prog" where
  "command cmd =
     thenM (send_rcon EXEC cmd)
       (bindM recv_packet (\<lambda>(_, _, payload, size).
          if size < max_payload then retM payload
          else bindM (send_rcon EXEC []) (\<lambda>end_id. collect end_id [payload])))"

text \<open>
  \<open>RconGame._command\<close>: one connection per command. \<open>stream\<close> is what the server sends on it;
  \<open>None\<close> when the connection cannot be made. Network errors become \<open>ServerUnavailable\<close>.
\<close>

fun is_os_error :: "exn \<Rightarrow> bool" where
  "is_os_error (OSError m) = True"
| "is_os_error _ = False"

definition fresh_conn :: "bytes \<Rightarrow> conn" where
  "fresh_conn stream = \<lparr>next_id = 0, inbox = stream, sent = []\<rparr>"

definition rcon_command :: "string \<Rightarrow> codepoints \<Rightarrow> bytes option \<Rightarrow> codepoints \<Rightarrow> exn + codepoints" where
  "rcon_command endpoint password stream cmd =
     (let outcome = (case stream of
            None \<Rightarrow> Inl (OSError ''connection refused'')
          | Some bs \<Rightarrow> fst (thenM (enter_rcon password) (command cmd) (fresh_conn bs)))
      in case outcome of
           Inl e \<Rightarrow> if is_os_error e then Inl (ServerUnavailable (''RCON injoignable ('' @ endpoint @ '')'')) else Inl e
         | Inr t \<Rightarrow> Inr t)"


subsection \<open>Decoding what was encoded\<close>

lemma unat_byte: "n < 256 \<Longrightarrow> unat (of_nat n :: 8 word) = n"
  by (simp add: unat_of_nat)

lemma cp_bytes_small: "scalar c \<Longrightarrow> b \<in> set (cp_bytes c) \<Longrightarrow> b < 256"
proof -
  assume "scalar c" and "b \<in> set (cp_bytes c)"
  moreover have "c < 0x800 \<Longrightarrow> c div 64 < 32" "c < 0x10000 \<Longrightarrow> c div 4096 < 16" "c < 0x110000 \<Longrightarrow> c div 262144 < 5"
    by linarith+
  moreover have "c div 64 mod 64 < 64" "c mod 64 < 64" "c div 4096 mod 64 < 64" by simp_all
  ultimately show ?thesis by (auto simp: cp_bytes_def scalar_def split: if_splits)
qed

lemma decode_step_cp: "scalar c \<Longrightarrow> decode_step (cp_bytes c @ r) = (c, length (cp_bytes c))"
proof -
  assume s: "scalar c"
  let ?lo = "c mod 64" and ?mid = "c div 64 mod 64" and ?up = "c div 4096 mod 64"
  have m: "c div 4096 = c div 64 div 64" "c div 262144 = c div 64 div 64 div 64" by (simp_all add: div_mult2_eq)
  have c1: "c = 64 * (c div 64) + ?lo" by simp
  have c2: "c div 64 = 64 * (c div 4096) + ?mid" unfolding m by simp
  have c3: "c div 4096 = 64 * (c div 262144) + ?up" unfolding m by simp
  have lt: "?lo < 64" "?mid < 64" "?up < 64" by simp_all
  consider "c < 0x80" | "0x80 \<le> c" "c < 0x800" | "0x800 \<le> c" "c < 0x10000" | "0x10000 \<le> c" by linarith
  then show ?thesis
  proof cases
    case 1
    then show ?thesis by (simp add: cp_bytes_def)
  next
    case 2
    then have h: "2 \<le> c div 64" "c div 64 < 32" by linarith+
    have e: "64 * (c div 64) + ?lo = c" by simp
    have b: "cp_bytes c = [0xC0 + c div 64, 0x80 + ?lo]" using 2 by (simp add: cp_bytes_def)
    show ?thesis unfolding b using h lt e by (simp add: cont_def)
  next
    case 3
    then have h: "c div 4096 < 16" by linarith
    have so: "second_ok (0xE0 + c div 4096) (0x80 + ?mid)"
      using 3 lt c1 c2 s unfolding second_ok_def cont_def scalar_def by linarith
    have e: "4096 * (c div 4096) + 64 * ?mid + ?lo = c" using c1 c2 by linarith
    have b: "cp_bytes c = [0xE0 + c div 4096, 0x80 + ?mid, 0x80 + ?lo]" using 3 by (simp add: cp_bytes_def)
    show ?thesis unfolding b using lt h so e by (simp add: cont_def)
  next
    case 4
    then have h: "c div 262144 < 5" using s unfolding scalar_def by linarith
    have so: "second_ok (0xF0 + c div 262144) (0x80 + ?up)"
      using 4 lt c1 c2 c3 s unfolding second_ok_def cont_def scalar_def by linarith
    have e: "262144 * (c div 262144) + 4096 * ?up + 64 * ?mid + ?lo = c" using c1 c2 c3 by linarith
    have b: "cp_bytes c = [0xF0 + c div 262144, 0x80 + ?up, 0x80 + ?mid, 0x80 + ?lo]"
      using 4 by (simp add: cp_bytes_def)
    show ?thesis unfolding b using lt h so e by (simp add: cont_def)
  qed
qed

lemma cp_bytes_nonempty: "cp_bytes c \<noteq> []"
  by (simp add: cp_bytes_def)

lemma decode_nats_cp: "scalar c \<Longrightarrow> decode_nats (cp_bytes c @ r) = c # decode_nats r"
proof -
  assume s: "scalar c"
  obtain b bs where b: "cp_bytes c = b # bs" using cp_bytes_nonempty by (cases "cp_bytes c") auto
  have "decode_step (b # bs @ r) = (c, length (cp_bytes c))" using decode_step_cp [OF s, of r] b by simp
  then show ?thesis using b by simp
qed

lemma decode_nats_concat: "list_all scalar cs \<Longrightarrow> decode_nats (concat (map cp_bytes cs) @ r) = cs @ decode_nats r"
  by (induction cs) (simp_all add: decode_nats_cp del: decode_nats.simps(2))

lemma unat_encode_text: "list_all scalar cs \<Longrightarrow> map unat (encode_text cs) = concat (map cp_bytes cs)"
  unfolding encode_text_def map_map
  by (rule map_idI) (auto simp: list_all_iff intro!: unat_byte intro: cp_bytes_small)

lemma decode_encode_text: "list_all scalar cs \<Longrightarrow> decode_text (encode_text cs @ bs) = cs @ decode_text bs"
  by (simp add: decode_text_def unat_encode_text decode_nats_concat)


subsection \<open>Receiving what was sent\<close>

lemma unpack_pack: "int32 i \<Longrightarrow> unpack_i (pack_i i) = i"
proof -
  assume i: "int32 i"
  have "i mod 4294967296 = i mod 256 + 256 * (i div 256 mod 16777216)"
    "i div 256 mod 16777216 = i div 256 mod 256 + 256 * (i div 256 div 256 mod 65536)"
    "i div 256 div 256 mod 65536 = i div 256 div 256 mod 256 + 256 * (i div 256 div 256 div 256 mod 256)"
    using zmod_zmult2_eq [of 16777216 i 256] zmod_zmult2_eq [of 65536 "i div 256" 256]
      zmod_zmult2_eq [of 256 "i div 256 div 256" 256]
    by (simp_all only: arith_simps)
  then have bytes: "i mod 256 + 256 * (i div 256 mod 256) + 65536 * (i div 256 div 256 mod 256) +
      16777216 * (i div 256 div 256 div 256 mod 256) = i mod 4294967296"
    by linarith
  have "i div 65536 = i div 256 div 256" "i div 16777216 = i div 256 div 256 div 256"
    using zdiv_zmult2_eq [of 256 i 256] zdiv_zmult2_eq [of 65536 i 256] zdiv_zmult2_eq [of 256 "i div 256" 256]
    by (simp_all only: arith_simps)
  moreover have "signed_take_bit 31 (i mod 4294967296) = i"
  proof -
    have "i mod 4294967296 = take_bit 32 i" by (simp add: take_bit_eq_mod)
    then have "signed_take_bit 31 (i mod 4294967296) = signed_take_bit 31 i"
      by (simp only: signed_take_bit_take_bit) simp
    also have "\<dots> = i" using i by (intro signed_take_bit_int_eq_self) (simp_all add: int32_def)
    finally show ?thesis .
  qed
  ultimately show ?thesis
    using bytes by (simp add: pack_i_def uint_word_of_int sint_sbintrunc')
qed

lemma length_pack [simp]: "length (pack_i i) = 4"
  by (simp add: pack_i_def)

text \<open>A packet on the wire: its identifier, its type and the bytes of its text.\<close>

type_synonym frame = "int \<times> int \<times> bytes"

definition frame_ok :: "frame \<Rightarrow> bool" where
  "frame_ok = (\<lambda>(i, t, bs). int32 i \<and> int32 t \<and> int (length bs) < 2 ^ 31 - 10)"

definition wire :: "frame \<Rightarrow> bytes" where
  "wire = (\<lambda>(i, t, bs). pack_i (10 + int (length bs)) @ pack_i i @ pack_i t @ bs @ [0, 0])"

definition frame_text :: "frame \<Rightarrow> codepoints" where
  "frame_text = (\<lambda>(i, t, bs). decode_text bs)"

lemma encode_packet_wire:
  "frame_ok (i, t, encode_text p) \<Longrightarrow> list_all scalar p \<Longrightarrow> encode_packet i t p = Some (wire (i, t, encode_text p))"
  by (simp add: encode_packet_def frame_ok_def wire_def Let_def int32_def add.commute)

lemma recv_packet_wire:
  assumes "frame_ok (i, t, bs)" and "inbox c = wire (i, t, bs) @ rest"
  shows "recv_packet c = (Inr (i, t, decode_text bs, int (length bs)), c\<lparr>inbox := rest\<rparr>)"
proof -
  let ?n = "10 + int (length bs)"
  have n: "int32 ?n" using assms(1) by (simp add: frame_ok_def int32_def)
  have "take 4 (inbox c) = pack_i ?n" and "drop 4 (inbox c) = pack_i i @ pack_i t @ bs @ [0, 0] @ rest"
    using assms(2) by (simp_all add: wire_def)
  then have "recv_exact 4 c = (Inr (pack_i ?n), c\<lparr>inbox := pack_i i @ pack_i t @ bs @ [0, 0] @ rest\<rparr>)"
    using assms(2) by (simp add: recv_exact_def wire_def)
  moreover have "decode_packet (pack_i i @ pack_i t @ bs @ [0, 0]) = Some (i, t, decode_text bs)"
    using assms(1) by (simp add: decode_packet_def frame_ok_def unpack_pack)
  moreover have "nat ?n = length (pack_i i @ pack_i t @ bs @ [0, 0])" by simp
  then have "recv_exact ?n (c\<lparr>inbox := pack_i i @ pack_i t @ bs @ [0, 0] @ rest\<rparr>) =
      (Inr (pack_i i @ pack_i t @ bs @ [0, 0]), c\<lparr>inbox := rest\<rparr>)"
    by (simp add: recv_exact_def)
  ultimately show ?thesis
    by (simp add: recv_packet_def prog_simps unpack_pack [OF n])
qed

lemma collect_wire:
  assumes "\<And>f. f \<in> set fs \<Longrightarrow> frame_ok f \<and> fst f \<noteq> end_id"
    and "frame_ok (end_id, te, be)" and "inbox c = concat (map wire fs) @ wire (end_id, te, be) @ rest"
  shows "collect end_id parts c = (Inr (concat parts @ concat (map frame_text fs)), c\<lparr>inbox := rest\<rparr>)"
  using assms
proof (induction fs arbitrary: parts c)
  case Nil
  then show ?case by (subst collect.simps) (simp add: recv_packet_wire)
next
  case (Cons f fs)
  obtain i t bs where f: "f = (i, t, bs)" by (cases f) auto
  let ?d = "c\<lparr>inbox := concat (map wire fs) @ wire (end_id, te, be) @ rest\<rparr>"
  have "recv_packet c = (Inr (i, t, decode_text bs, int (length bs)), ?d)"
    using Cons.prems f by (intro recv_packet_wire) auto
  moreover have "i \<noteq> end_id" using Cons.prems(1) [of f] f by simp
  moreover have "collect end_id (parts @ [decode_text bs]) ?d =
      (Inr (concat (parts @ [decode_text bs]) @ concat (map frame_text fs)), ?d\<lparr>inbox := rest\<rparr>)"
    using Cons.prems by (intro Cons.IH) auto
  ultimately show ?case by (subst collect.simps) (simp add: f frame_text_def)
qed

text \<open>A text that the client can put into a packet.\<close>

definition sendable :: "codepoints \<Rightarrow> bool" where
  "sendable p \<longleftrightarrow> list_all scalar p \<and> int (length (encode_text p)) < 2 ^ 31 - 10"

lemma send_rcon_wire:
  "sendable p \<Longrightarrow> int32 (next_id c + 1) \<Longrightarrow> int32 t \<Longrightarrow>
   send_rcon t p c = (Inr (next_id c + 1),
     c\<lparr>next_id := next_id c + 1, sent := sent c @ [wire (next_id c + 1, t, encode_text p)]\<rparr>)"
  by (simp add: send_rcon_def prog_simps encode_packet_wire sendable_def frame_ok_def)

lemma int32_small [simp]: "int32 1" "int32 2" "int32 3" "int32 0" "int32 AUTH" "int32 EXEC"
  by (simp_all add: int32_def AUTH_def EXEC_def)

lemma enter_wire:
  assumes "sendable password" and "frame_ok (a, t, bs)" and "a \<noteq> -1"
  shows "enter_rcon password (fresh_conn (wire (a, t, bs) @ rest)) =
    (Inr (), \<lparr>next_id = 1, inbox = rest, sent = [wire (1, AUTH, encode_text password)]\<rparr>)"
proof -
  let ?c = "\<lambda>r. \<lparr>next_id = 1, inbox = r, sent = [wire (1, AUTH, encode_text password)]\<rparr>"
  have "send_rcon AUTH password (fresh_conn (wire (a, t, bs) @ rest)) = (Inr 1, ?c (wire (a, t, bs) @ rest))"
    using assms(1) by (simp add: send_rcon_wire fresh_conn_def)
  moreover have "recv_packet (?c (wire (a, t, bs) @ rest)) = (Inr (a, t, decode_text bs, int (length bs)), ?c rest)"
    using recv_packet_wire [OF assms(2)] by simp
  ultimately show ?thesis using assms(3) by (simp add: enter_rcon_def roundtrip_def prog_simps)
qed

lemma command_short_wire:
  assumes "sendable cmd" and "int32 (next_id c + 1)" and "frame_ok (i, t, bs)"
    and "inbox c = wire (i, t, bs) @ rest" and "int (length bs) < max_payload"
  shows "fst (command cmd c) = Inr (decode_text bs)"
proof -
  let ?c = "c\<lparr>next_id := next_id c + 1, sent := sent c @ [wire (next_id c + 1, EXEC, encode_text cmd)]\<rparr>"
  have "recv_packet ?c = (Inr (i, t, decode_text bs, int (length bs)), ?c\<lparr>inbox := rest\<rparr>)"
    using assms(3,4) by (intro recv_packet_wire) auto
  with assms(1,2,5) show ?thesis by (simp add: command_def prog_simps send_rcon_wire)
qed

lemma command_long_wire:
  assumes "sendable cmd" and "int32 (next_id c + 1)" and "int32 (next_id c + 2)"
    and "frame_ok (i, t, bs)" and "max_payload \<le> int (length bs)"
    and fs: "\<And>f. f \<in> set fs \<Longrightarrow> frame_ok f \<and> fst f \<noteq> next_id c + 2"
    and last: "frame_ok (next_id c + 2, te, be)"
    and inp: "inbox c = wire (i, t, bs) @ concat (map wire fs) @ wire (next_id c + 2, te, be) @ rest"
  shows "fst (command cmd c) = Inr (decode_text bs @ concat (map frame_text fs))"
proof -
  let ?c = "c\<lparr>next_id := next_id c + 1, sent := sent c @ [wire (next_id c + 1, EXEC, encode_text cmd)]\<rparr>"
  let ?d = "?c\<lparr>inbox := concat (map wire fs) @ wire (next_id c + 2, te, be) @ rest\<rparr>"
  let ?e = "?d\<lparr>next_id := next_id c + 2, sent := sent ?d @ [wire (next_id c + 2, EXEC, encode_text [])]\<rparr>"
  have "recv_packet ?c = (Inr (i, t, decode_text bs, int (length bs)), ?d)"
    using assms(4) inp by (intro recv_packet_wire) auto
  moreover have "sendable []" by (simp add: sendable_def encode_text_def)
  then have "send_rcon EXEC [] ?d = (Inr (next_id c + 2), ?e)"
    using send_rcon_wire [of "[]" ?d EXEC] assms(3) by (simp add: add.assoc)
  moreover have "collect (next_id c + 2) [decode_text bs] ?e =
      (Inr (concat [decode_text bs] @ concat (map frame_text fs)), ?e\<lparr>inbox := rest\<rparr>)"
    using fs last by (intro collect_wire) auto
  ultimately show ?thesis using assms(1,2,5) by (simp add: command_def prog_simps send_rcon_wire)
qed

text \<open>One whole exchange, with the connection and the password.\<close>

lemma rcon_command_wire:
  assumes "sendable password" and "sendable cmd" and "frame_ok (a, ta, ba)" and "a \<noteq> -1"
    and "frame_ok (i, t, bs)" and "\<And>f. f \<in> set fs \<Longrightarrow> frame_ok f \<and> fst f \<noteq> 3" and "frame_ok (3, te, be)"
  shows "int (length bs) < max_payload \<Longrightarrow>
      rcon_command endpoint password (Some (wire (a, ta, ba) @ wire (i, t, bs) @ rest)) cmd = Inr (decode_text bs)"
    and "max_payload \<le> int (length bs) \<Longrightarrow>
      rcon_command endpoint password
        (Some (wire (a, ta, ba) @ wire (i, t, bs) @ concat (map wire fs) @ wire (3, te, be) @ rest)) cmd
      = Inr (decode_text bs @ concat (map frame_text fs))"
proof -
  let ?c = "\<lambda>r. \<lparr>next_id = 1, inbox = r, sent = [wire (1, AUTH, encode_text password)]\<rparr>"
  have run: "rcon_command endpoint password (Some (wire (a, ta, ba) @ r)) cmd = Inr q"
    if "fst (command cmd (?c r)) = Inr q" for r q
    using that enter_wire [OF assms(1,3,4), of r]
    by (cases "command cmd (?c r)") (simp add: rcon_command_def prog_simps)
  show "rcon_command endpoint password (Some (wire (a, ta, ba) @ wire (i, t, bs) @ rest)) cmd = Inr (decode_text bs)"
    if "int (length bs) < max_payload"
    using assms(2,5) that by (intro run command_short_wire) auto
  show "rcon_command endpoint password
        (Some (wire (a, ta, ba) @ wire (i, t, bs) @ concat (map wire fs) @ wire (3, te, be) @ rest)) cmd
      = Inr (decode_text bs @ concat (map frame_text fs))" if "max_payload \<le> int (length bs)"
    using assms(2,5,6,7) that by (intro run command_long_wire [where te = te and be = be]) auto
qed

lemma encode_ascii: "list_all (\<lambda>c. c < 128) cs \<Longrightarrow> encode_text cs = map of_nat cs"
  by (induction cs) (auto simp: encode_text_def cp_bytes_def)

lemma scalar_ascii: "list_all (\<lambda>c. c < 128) cs \<Longrightarrow> list_all scalar cs"
  by (auto simp: list_all_iff scalar_def)

lemma sendable_ascii: "list_all (\<lambda>c. c < 128) p \<Longrightarrow> length p < 5000 \<Longrightarrow> sendable p"
  by (simp add: sendable_def scalar_ascii encode_ascii)

subsection \<open>Properties\<close>



text \<open>
  Fragments are decoded one by one, so a character that the server's cut splits is lost: the
  two bytes of one character arrive at the end of a full fragment and the start of the
  next, and the answer holds two replacement characters in its place.
\<close>

theorem rcon_split_character:
  "rcon_command endpoint [112]
     (Some (wire (1, 2, []) @ wire (2, 0, encode_text (replicate 4095 97) @ [0xC3]) @ wire (2, 0, [0xA9]) @ wire (3, 0, []))) [108]
   = Inr (replicate 4095 97 @ [0xFFFD, 0xFFFD]) \<and>
   decode_text (encode_text (replicate 4095 97) @ [0xC3, 0xA9]) = replicate 4095 97 @ [0xE9]"
proof -
  let ?b = "encode_text (replicate 4095 97) @ [0xC3]"
  have sc: "list_all scalar (replicate 4095 97)" by (simp add: list_all_iff scalar_def)
  have len: "length ?b = 4096" by (simp add: encode_ascii list_all_iff)
  have b: "decode_text ?b = replicate 4095 97 @ [0xFFFD]"
    using decode_encode_text [OF sc, of "[0xC3]"] by (simp add: decode_text_def)
  have whole: "decode_text (encode_text (replicate 4095 97) @ [0xC3, 0xA9]) = replicate 4095 97 @ [0xE9]"
    using decode_encode_text [OF sc, of "[0xC3, 0xA9]"] by (simp add: decode_text_def cont_def)
  have rest: "frame_text (2, 0, [0xA9]) = [0xFFFD]" by (simp add: frame_text_def decode_text_def)
  have "sendable [112]" "sendable [108]" by (auto intro!: sendable_ascii)
  moreover have "frame_ok (1, 2, [])" "frame_ok (2, 0, ?b)" "frame_ok (2, 0, [0xA9])" "frame_ok (3, 0, [])"
    using len by (simp_all add: frame_ok_def)
  ultimately have "rcon_command endpoint [112]
      (Some (wire (1, 2, []) @ wire (2, 0, ?b) @ concat (map wire [(2, 0, [0xA9])]) @ wire (3, 0, []) @ [])) [108]
      = Inr (decode_text ?b @ concat (map frame_text [(2, 0, [0xA9])]))"
    using len by (intro rcon_command_wire(2)) (auto simp: max_payload_def)
  with b whole rest show ?thesis by simp
qed

text \<open>
  Every failure of the network is reported as \<open>ServerUnavailable\<close>, except one: a packet that
  announces fewer than eight bytes ends the command with \<open>struct.error\<close>, which the callers that
  degrade on \<open>ServerUnavailable\<close> do not catch.
\<close>

theorem rcon_short_packet_escapes:
  "rcon_command endpoint [112] None [108] = Inl (ServerUnavailable (''RCON injoignable ('' @ endpoint @ '')'')) \<and>
   rcon_command endpoint [112] (Some []) [108] = Inl (ServerUnavailable (''RCON injoignable ('' @ endpoint @ '')'')) \<and>
   rcon_command endpoint [112] (Some (pack_i 0)) [108] = Inl (StructError ''unpack requires a buffer of 8 bytes'')"
proof -
  have s: "sendable [112]" by (auto intro!: sendable_ascii)
  have z: "unpack_i (pack_i 0) = 0" by (rule unpack_pack) simp
  have r: "recv_packet c = (Inl (OSError ''connexion RCON fermee par le serveur''), c)" if "inbox c = []" for c
    using that by (cases c) (simp add: recv_packet_def recv_exact_def prog_simps)
  have r0: "recv_packet c = (Inl (StructError ''unpack requires a buffer of 8 bytes''), c\<lparr>inbox := []\<rparr>)"
    if "inbox c = pack_i 0" for c
    using that z by (simp add: recv_packet_def recv_exact_def prog_simps decode_packet_def)
  show ?thesis
    using r [of "\<lparr>next_id = 1, inbox = [], sent = [wire (1, AUTH, encode_text [112])]\<rparr>"]
      r0 [of "\<lparr>next_id = 1, inbox = pack_i 0, sent = [wire (1, AUTH, encode_text [112])]\<rparr>"]
    by (simp add: rcon_command_def enter_rcon_def roundtrip_def prog_simps send_rcon_wire s fresh_conn_def)
qed

end
