(* ===== verification/Model.thy ===== *)
theory Model
  imports Effects
begin

text \<open>
  The domain model of \<^verbatim>\<open>app/domain/model.py\<close> that the services work on, and the construction of
  roles and users of \<^verbatim>\<open>app/domain/rbac.py\<close>.

  A \<open>datetime\<close> is an instant, counted in microseconds since 1970-01-01T00:00:00 UTC; every clock
  of the program is in UTC.
\<close>

type_synonym datetime = int

subsection \<open>Permissions, roles, users\<close>

datatype permission =
    STATUS | LOGS_VIEW | RESTART | START | BACKUP_TRIGGER | BACKUP_DOWNLOAD | BACKUP_RESTORE
  | BACKUP_RETENTION | RCON_RAW | OP_MANAGE | STOP | UPDATE | AUDIT_VIEW | WHITELIST_MANAGE | KICK
  | BAN_MANAGE | GAME_SETTINGS | BACKUP_MANAGE | SERVER_MANAGE | USER_MANAGE | MAINTENANCE

fun permission_value :: "permission \<Rightarrow> string" where
  "permission_value STATUS = ''STATUS''"
| "permission_value LOGS_VIEW = ''LOGS_VIEW''"
| "permission_value RESTART = ''RESTART''"
| "permission_value START = ''START''"
| "permission_value BACKUP_TRIGGER = ''BACKUP_TRIGGER''"
| "permission_value BACKUP_DOWNLOAD = ''BACKUP_DOWNLOAD''"
| "permission_value BACKUP_RESTORE = ''BACKUP_RESTORE''"
| "permission_value BACKUP_RETENTION = ''BACKUP_RETENTION''"
| "permission_value RCON_RAW = ''RCON_RAW''"
| "permission_value OP_MANAGE = ''OP_MANAGE''"
| "permission_value STOP = ''STOP''"
| "permission_value UPDATE = ''UPDATE''"
| "permission_value AUDIT_VIEW = ''AUDIT_VIEW''"
| "permission_value WHITELIST_MANAGE = ''WHITELIST_MANAGE''"
| "permission_value KICK = ''KICK''"
| "permission_value BAN_MANAGE = ''BAN_MANAGE''"
| "permission_value GAME_SETTINGS = ''GAME_SETTINGS''"
| "permission_value BACKUP_MANAGE = ''BACKUP_MANAGE''"
| "permission_value SERVER_MANAGE = ''SERVER_MANAGE''"
| "permission_value USER_MANAGE = ''USER_MANAGE''"
| "permission_value MAINTENANCE = ''MAINTENANCE''"

definition all_permissions :: "permission list" where
  "all_permissions =
     [STATUS, LOGS_VIEW, RESTART, START, BACKUP_TRIGGER, BACKUP_DOWNLOAD, BACKUP_RESTORE,
      BACKUP_RETENTION, RCON_RAW, OP_MANAGE, STOP, UPDATE, AUDIT_VIEW, WHITELIST_MANAGE, KICK,
      BAN_MANAGE, GAME_SETTINGS, BACKUP_MANAGE, SERVER_MANAGE, USER_MANAGE, MAINTENANCE]"

text \<open>\<open>Permission(token)\<close>: the member with that value; \<open>None\<close> is \<open>ValueError\<close>.\<close>

definition permission_of :: "string \<Rightarrow> permission option" where
  "permission_of token = find (\<lambda>p. permission_value p = token) all_permissions"

record role =
  role_name :: string
  permissions :: "permission set"
  grants_all :: bool

definition allows :: "role \<Rightarrow> permission \<Rightarrow> bool" where
  "allows r p \<longleftrightarrow> grants_all r \<or> p \<in> permissions r"

record user =
  username :: string
  user_role :: role

definition can :: "user \<Rightarrow> permission \<Rightarrow> bool" where
  "can u p \<longleftrightarrow> allows (user_role u) p"

subsection \<open>Objects the ports and the services exchange\<close>

record audit_entry =
  ae_timestamp :: datetime
  ae_username :: string
  ae_role :: string
  ae_action :: string
  ae_target :: string
  ae_outcome :: string
  ae_detail :: string

record container_state =
  cs_running :: bool
  cs_status :: string
  cs_health :: "string option"

record backup_archive =
  ba_filename :: string
  ba_size_bytes :: int
  ba_created_at :: datetime

record archive_check =
  ac_filename :: string
  ac_ok :: bool
  ac_size_bytes :: int
  ac_detail :: string
  ac_restorable :: "bool option"
  ac_archive_created_at :: "datetime option"

record backup_outcome =
  bo_kind :: string
  bo_ok :: bool
  bo_finished_at :: datetime
  bo_archive :: "string option"
  bo_label :: string

record backup_progress =
  bpg_kind :: string
  bpg_running :: bool
  bpg_percent :: "int option"
  bpg_archive :: "backup_archive option"
  bpg_label :: string

record pending_restore =
  pr_filename :: string
  pr_requested_by :: string
  pr_deadline :: datetime
  pr_operation_id :: string
  pr_safety_before :: "string list"

record restore_progress =
  rpg_pending :: "pending_restore option"
  rpg_phase :: string
  rpg_running :: bool
  rpg_percent :: "int option"
  rpg_archive :: "backup_archive option"
  rpg_operation_id :: "string option"
  rpg_filename :: "string option"
  rpg_message :: string
  rpg_level :: string

record op_entry =
  oe_name :: string
  oe_level :: int

record pending_op_level =
  po_name :: string
  po_level :: int
  po_applying :: bool

record pending_unban =
  pu_player :: string
  pu_unban_at :: datetime

record scheduled_restart =
  restart_at :: datetime
  scheduled_by :: string
  sr_defer :: bool

record restore_operation =
  ro_filename :: string
  ro_requested_by :: string
  ro_phase :: string
  ro_started_at :: datetime
  ro_deadline :: datetime
  ro_message :: string
  ro_completed_at :: "datetime option"
  ro_operation_id :: string

record pending_maintenance =
  engage_at :: datetime
  pm_requested_by :: string
  pm_motd :: string
  pm_kick :: string
  pm_operation_id :: string
  pm_defer :: bool

record maintenance_status =
  ms_active :: bool
  ms_pending :: "pending_maintenance option"
  ms_motd :: string
  ms_restoring :: bool

record recurring_restart =
  rr_time :: string
  rr_lead :: int
  rr_defer :: bool

record scheduled_maintenance =
  sm_id :: string
  sm_kind :: string
  sm_time :: string
  sm_date :: string
  sm_weekdays :: "int list"
  sm_lead :: int
  sm_message :: string
  sm_until :: string
  sm_defer :: bool

record game_settings =
  gs_difficulty :: "string option"
  gs_keep_inventory :: "bool option"
  gs_mob_griefing :: "bool option"
  gs_daylight_cycle :: "bool option"

subsection \<open>Roles and users from the configuration\<close>

text \<open>
  The configuration is given as parsed: \<open>None\<close> where a dictionary is expected and something else
  is found, and a missing permission list or user entry as the empty one. Scalars are given by
  their \<open>str\<close>.
\<close>

definition default_roles_spec :: "(string \<times> string list) list" where
  "default_roles_spec =
     [(''owner'', [''*'']),
      (''admin'', [''STATUS'', ''LOGS_VIEW'', ''AUDIT_VIEW'', ''KICK'', ''BAN_MANAGE'', ''WHITELIST_MANAGE'',
        ''RESTART'', ''START'', ''MAINTENANCE'', ''BACKUP_TRIGGER'', ''BACKUP_DOWNLOAD'', ''GAME_SETTINGS'',
        ''OP_MANAGE'']),
      (''moderator'', [''STATUS'', ''LOGS_VIEW'', ''AUDIT_VIEW'', ''KICK'', ''BAN_MANAGE'', ''WHITELIST_MANAGE'']),
      (''viewer'', [''STATUS'', ''LOGS_VIEW''])]"

fun build_perms :: "string \<Rightarrow> string list \<Rightarrow> permission set \<Rightarrow> bool \<Rightarrow> exn + role" where
  "build_perms name [] perms grants = Inr \<lparr>role_name = name, permissions = perms, grants_all = grants\<rparr>"
| "build_perms name (raw # rest) perms grants =
     (let token = strip raw
      in if token = ''*'' then build_perms name rest perms True
         else (case permission_of token of
             None \<Rightarrow> Inl (ConfigError (''role '' @ name @ '' : permission inconnue '' @ token))
           | Some p \<Rightarrow> build_perms name rest (insert p perms) grants))"

definition build_role :: "string \<Rightarrow> string list \<Rightarrow> exn + role" where
  "build_role name permission_names = build_perms name permission_names {} False"

fun build_role_list :: "(string \<times> string list) list \<Rightarrow> exn + (string \<times> role) list" where
  "build_role_list [] = Inr []"
| "build_role_list ((name, perms) # rest) = (case build_role name perms of
       Inl e \<Rightarrow> Inl e
     | Inr r \<Rightarrow> (case build_role_list rest of Inl e \<Rightarrow> Inl e | Inr rs \<Rightarrow> Inr ((name, r) # rs)))"

definition build_roles :: "(string \<times> string list) list option \<Rightarrow> exn + (string \<times> role) list" where
  "build_roles spec = (case spec of
       None \<Rightarrow> Inl (ConfigError ''section roles invalide (dict attendu)'')
     | Some d \<Rightarrow> build_role_list d)"

fun build_user_list :: "(string \<times> string option) list \<Rightarrow> (string \<times> role) list \<Rightarrow> exn + (string \<times> user) list" where
  "build_user_list [] roles = Inr []"
| "build_user_list ((name, wanted) # rest) roles = (case wanted of
       None \<Rightarrow> Inl (ConfigError (''utilisateur '' @ name @ '' : champ role manquant''))
     | Some rn \<Rightarrow> (case map_of roles rn of
         None \<Rightarrow> Inl (ConfigError (''utilisateur '' @ name @ '' : role inconnu '' @ rn))
       | Some r \<Rightarrow> (case build_user_list rest roles of
           Inl e \<Rightarrow> Inl e
         | Inr us \<Rightarrow> Inr ((name, \<lparr>username = name, user_role = r\<rparr>) # us))))"

definition build_users :: "(string \<times> string option) list option \<Rightarrow> (string \<times> role) list \<Rightarrow> exn + (string \<times> user) list" where
  "build_users spec roles = (case spec of
       None \<Rightarrow> Inl (ConfigError ''section users invalide (dict attendu)'')
     | Some d \<Rightarrow> build_user_list d roles)"

subsection \<open>Lemmas\<close>

lemma all_permissions_complete [simp]: "p \<in> set all_permissions"
  by (cases p) (simp_all add: all_permissions_def)

lemma permission_value_inj: "permission_value p = permission_value q \<longleftrightarrow> p = q"
  by (cases p; cases q) simp_all

lemma permission_of_value [simp]: "permission_of (permission_value p) = Some p"
proof -
  have "find (\<lambda>q. permission_value q = permission_value p) all_permissions \<noteq> None"
    by (auto simp: find_None_iff)
  then obtain q where "permission_of (permission_value p) = Some q"
    by (auto simp: permission_of_def)
  moreover from this have "permission_value q = permission_value p"
    by (auto simp: permission_of_def find_Some_iff)
  ultimately show ?thesis by (simp add: permission_value_inj)
qed

lemma permission_of_Some: "permission_of t = Some p \<Longrightarrow> permission_value p = t"
  by (auto simp: permission_of_def find_Some_iff)

lemma wildcard_no_permission [simp]: "permission_of ''*'' = None"
  by (simp add: permission_of_def all_permissions_def)

lemma build_perms_spec:
  "build_perms name raws perms grants = Inr r \<Longrightarrow>
     role_name r = name \<and> (grants_all r \<longleftrightarrow> grants \<or> ''*'' \<in> strip ` set raws) \<and>
     permissions r = perms \<union> {p. permission_value p \<in> strip ` set raws}"
proof (induction name raws perms grants rule: build_perms.induct)
  case (2 name raw rest perms grants)
  show ?case
  proof (cases "strip raw = ''*''")
    case True
    have "permission_value p \<noteq> ''*''" for p using permission_of_value [of p] by fastforce
    then have "{p. permission_value p = ''*''} = {}" by simp
    with True 2 show ?thesis by (auto simp: Let_def)
  next
    case False
    with 2(3) obtain p where p: "permission_of (strip raw) = Some p"
      by (auto simp: Let_def split: option.splits)
    then have "permission_value p = strip raw" by (rule permission_of_Some)
    then have "{q. permission_value q = strip raw} = {p}" by (auto simp: permission_value_inj simp flip: \<open>permission_value p = strip raw\<close>)
    with False p 2 show ?thesis by (auto simp: Let_def)
  qed
qed auto

lemma build_perms_error:
  "(\<exists>e. build_perms name raws perms grants = Inl e) \<longleftrightarrow>
   (\<exists>raw \<in> set raws. strip raw \<noteq> ''*'' \<and> strip raw \<notin> range permission_value)"
proof (induction name raws perms grants rule: build_perms.induct)
  case (2 name raw rest perms grants)
  then show ?case
  proof (cases "permission_of (strip raw)")
    case None
    then have "strip raw \<notin> range permission_value" using permission_of_value by (metis option.distinct(1) rangeE)
    with None 2 show ?thesis by (auto simp: Let_def)
  next
    case (Some p)
    then have "strip raw \<in> range permission_value" using permission_of_Some by (metis rangeI)
    moreover from Some have "strip raw \<noteq> ''*''" by auto
    ultimately show ?thesis using Some 2(2) by (auto simp: Let_def)
  qed
qed auto

subsection \<open>Properties\<close>

text \<open>
  A role grants exactly what its list names: each listed permission, everything with the
  wildcard, and nothing else; and a list with one unknown name is refused as a whole.
\<close>

theorem role_grants_exactly:
  "(case build_role name raws of
      Inr r \<Rightarrow> {p. allows r p} = (if ''*'' \<in> strip ` set raws then UNIV else {p. permission_value p \<in> strip ` set raws})
    | Inl e \<Rightarrow> \<exists>raw \<in> set raws. strip raw \<noteq> ''*'' \<and> strip raw \<notin> range permission_value)"
proof (cases "build_role name raws")
  case (Inl e)
  then show ?thesis using build_perms_error [of name raws "{}" False] by (auto simp: build_role_def)
next
  case (Inr r)
  then show ?thesis
    using build_perms_spec [of name raws "{}" False r] by (auto simp: build_role_def allows_def)
qed

definition default_can :: "string \<Rightarrow> permission list" where
  "default_can name = (case build_roles (Some default_roles_spec) of
       Inl e \<Rightarrow> []
     | Inr rs \<Rightarrow> (case map_of rs name of None \<Rightarrow> [] | Some r \<Rightarrow> filter (allows r) all_permissions))"

text \<open>
  The default roles form a chain from viewer to owner, and the permissions of the owner alone
  are these eight: the six the comment of \<open>rbac.py\<close> lists (stop and update count as two), and also
  the backup retention and the management of backup profiles.
\<close>

theorem default_roles_chain:
  "set (default_can ''viewer'') \<subset> set (default_can ''moderator'') \<and>
   set (default_can ''moderator'') \<subset> set (default_can ''admin'') \<and>
   set (default_can ''owner'') = UNIV \<and>
   UNIV - set (default_can ''admin'') =
     {RCON_RAW, BACKUP_RESTORE, STOP, UPDATE, SERVER_MANAGE, USER_MANAGE, BACKUP_RETENTION, BACKUP_MANAGE}"
proof -
  have r: "default_can ''viewer'' = [STATUS, LOGS_VIEW]"
    "default_can ''moderator'' = [STATUS, LOGS_VIEW, AUDIT_VIEW, WHITELIST_MANAGE, KICK, BAN_MANAGE]"
    "default_can ''admin'' = [STATUS, LOGS_VIEW, RESTART, START, BACKUP_TRIGGER, BACKUP_DOWNLOAD, OP_MANAGE,
       AUDIT_VIEW, WHITELIST_MANAGE, KICK, BAN_MANAGE, GAME_SETTINGS, MAINTENANCE]"
    "default_can ''owner'' = all_permissions"
    by code_simp+
  have "UNIV - set (default_can ''admin'') =
      {RCON_RAW, BACKUP_RESTORE, STOP, UPDATE, SERVER_MANAGE, USER_MANAGE, BACKUP_RETENTION, BACKUP_MANAGE}" (is "?l = ?r")
  proof (rule set_eqI)
    fix p show "p \<in> ?l \<longleftrightarrow> p \<in> ?r" unfolding r by (cases p) simp_all
  qed
  moreover have "set (default_can ''owner'') = UNIV" unfolding r by auto
  moreover have "set (default_can ''viewer'') \<subset> set (default_can ''moderator'')"
    "set (default_can ''moderator'') \<subset> set (default_can ''admin'')"
    unfolding r less_le_not_le by simp_all
  ultimately show ?thesis by blast
qed

end
