(* ===== verification/Calendar.thy ===== *)
theory Calendar
  imports Model
begin

text \<open>
  Dates and durations as the sources use them: \<open>isoformat\<close>, local days and the \<open>HH:MM\<close> texts of
  the schedules, \<open>timedelta\<close> from a number, and \<open>_format_seconds\<close> of
  \<^verbatim>\<open>app/domain/services/base.py\<close>.

  Numbers that Python keeps as floats are rationals here; NaN, the infinities and instants outside
  the years 1 to 9999 are not modelled.
\<close>

definition us_per_second :: int where "us_per_second = 1000000"
definition us_per_day :: int where "us_per_day = 86400000000"

text \<open>\<open>timedelta(seconds=x)\<close>: rounded to the nearest microsecond, halves to even.\<close>

definition seconds_delta :: "rat \<Rightarrow> int" where
  "seconds_delta x = round_half_even (x * 1000000)"

definition total_seconds :: "int \<Rightarrow> rat" where
  "total_seconds d = of_int d / 1000000"

text \<open>\<open>int(x)\<close> of a float: towards zero.\<close>

definition trunc_rat :: "rat \<Rightarrow> int" where
  "trunc_rat x = (if 0 \<le> x then floor x else - floor (- x))"

subsection \<open>Civil dates\<close>

text \<open>The proleptic Gregorian date of a day counted from 1970-01-01.\<close>

definition civil_from_days :: "int \<Rightarrow> int \<times> int \<times> int" where
  "civil_from_days day =
     (let z = day + 719468; era = z div 146097; doe = z mod 146097;
          yoe = (doe - doe div 1460 + doe div 36524 - doe div 146096) div 365;
          doy = doe - (365 * yoe + yoe div 4 - yoe div 100); mp = (5 * doy + 2) div 153;
          d = doy - (153 * mp + 2) div 5 + 1; m = (if mp < 10 then mp + 3 else mp - 9)
      in (yoe + era * 400 + (if m \<le> 2 then 1 else 0), m, d))"

definition pad :: "nat \<Rightarrow> int \<Rightarrow> string" where
  "pad w i = zfill w (str_int i)"

definition iso_date :: "int \<Rightarrow> string" where
  "iso_date day = (case civil_from_days day of (y, m, d) \<Rightarrow> pad 4 y @ ''-'' @ pad 2 m @ ''-'' @ pad 2 d)"

text \<open>\<open>datetime.isoformat()\<close> of an instant in UTC: the microseconds only when they are not zero.\<close>

definition isoformat :: "datetime \<Rightarrow> string" where
  "isoformat t =
     (let day = t div us_per_day; us = t mod us_per_day; sec = us div us_per_second; micro = us mod us_per_second
      in iso_date day @ ''T'' @ pad 2 (sec div 3600) @ '':'' @ pad 2 (sec div 60 mod 60) @ '':'' @ pad 2 (sec mod 60) @
         (if micro = 0 then [] else ''.'' @ pad 6 micro) @ ''+00:00'')"

text \<open>
  \<open>now.astimezone()\<close> at a UTC offset in seconds: the local day, and the instant at which that
  local day reaches \<open>hour:minute\<close> with the same offset (\<open>replace(hour=..., minute=..., ...)\<close>).
\<close>

definition local_day :: "int \<Rightarrow> datetime \<Rightarrow> int" where
  "local_day offset t = (t + offset * us_per_second) div us_per_day"

definition local_at :: "int \<Rightarrow> datetime \<Rightarrow> int \<Rightarrow> int \<Rightarrow> datetime" where
  "local_at offset t hour minute =
     local_day offset t * us_per_day + (hour * 3600 + minute * 60 - offset) * us_per_second"

text \<open>\<open>date.weekday()\<close>: Monday is 0.\<close>

definition weekday :: "int \<Rightarrow> int" where
  "weekday day = (day + 3) mod 7"

subsection \<open>Times of day\<close>

text \<open>
  \<open>hour, minute = (int(part) for part in text.split(":"))\<close>, then \<open>replace\<close>: \<open>None\<close> is \<open>ValueError\<close>.
\<close>

definition parse_hhmm :: "string \<Rightarrow> (int \<times> int) option" where
  "parse_hhmm text = (case split_on (CHR '':'') text of
       [h, m] \<Rightarrow> (case (parse_int h, parse_int m) of (Some hh, Some mm) \<Rightarrow> Some (hh, mm) | _ \<Rightarrow> None)
     | _ \<Rightarrow> None)"

definition hour_minute_ok :: "int \<times> int \<Rightarrow> bool" where
  "hour_minute_ok hm \<longleftrightarrow> 0 \<le> fst hm \<and> fst hm < 24 \<and> 0 \<le> snd hm \<and> snd hm < 60"

text \<open>
  \<open>re.match(r"^([01]\d|2[0-3]):[0-5]\d$", text)\<close>. A final newline is accepted: \<open>$\<close> also matches
  before it.
\<close>

fun hhmm_core :: "string \<Rightarrow> bool" where
  "hhmm_core [a, b, c, d, e] \<longleftrightarrow>
     ((a = CHR ''0'' \<or> a = CHR ''1'') \<and> is_dec b \<or> a = CHR ''2'' \<and> 48 \<le> code b \<and> code b \<le> 51) \<and>
     c = CHR '':'' \<and> (48 \<le> code d \<and> code d \<le> 53) \<and> is_dec e"
| "hhmm_core _ \<longleftrightarrow> False"

definition strip_final_newline :: "string \<Rightarrow> string" where
  "strip_final_newline s = (if s \<noteq> [] \<and> last s = CHR 0x0A then butlast s else s)"

definition hhmm_match :: "string \<Rightarrow> bool" where
  "hhmm_match s \<longleftrightarrow> hhmm_core (strip_final_newline s)"

definition format_seconds :: "int \<Rightarrow> string" where
  "format_seconds seconds =
     (if seconds \<ge> 60 then str_int (seconds div 60) @ '' minute(s)'' else str_int seconds @ '' seconde(s)'')"

subsection \<open>Lemmas\<close>

lemma seconds_delta_int [simp]: "seconds_delta (of_int k) = k * 1000000"
proof -
  have "of_int k * (1000000 :: rat) = of_int (k * 1000000)" by simp
  then show ?thesis unfolding seconds_delta_def round_half_even_def Let_def
    by (simp only: floor_of_int) simp
qed

lemma local_at_day:
  assumes "hour_minute_ok (h, m)"
  shows "local_day offset (local_at offset t h m) = local_day offset t"
proof -
  have "local_at offset t h m + offset * us_per_second =
      local_day offset t * us_per_day + (h * 3600 + m * 60) * us_per_second"
    by (simp add: local_at_def algebra_simps)
  moreover have "0 \<le> (h * 3600 + m * 60) * us_per_second" "(h * 3600 + m * 60) * us_per_second < us_per_day"
    using assms by (simp_all add: hour_minute_ok_def us_per_second_def us_per_day_def)
  ultimately show ?thesis
    unfolding local_day_def [of offset "local_at offset t h m"] by (simp add: us_per_day_def)
qed

lemma dec_not_space: "is_dec c \<Longrightarrow> \<not> is_space c"
  by (auto simp: is_dec_def is_space_def)

lemma newline_space: "is_space (CHR 0x0A)"
  by (simp add: is_space_def)

lemma parse_int_two:
  assumes "is_dec a" and "is_dec b"
  shows "parse_int [a, b] = Some (int (10 * (code a - 48) + (code b - 48)))"
    and "parse_int [a, b, CHR 0x0A] = Some (int (10 * (code a - 48) + (code b - 48)))"
proof -
  have "a \<noteq> CHR ''-''" "a \<noteq> CHR ''+''" using assms(1) by (auto simp: is_dec_def)
  moreover have "strip [a, b] = [a, b]" "strip [a, b, CHR 0x0A] = [a, b]"
    using assms by (simp_all add: strip_def lstrip_def dec_not_space newline_space)
  ultimately show "parse_int [a, b] = Some (int (10 * (code a - 48) + (code b - 48)))"
    and "parse_int [a, b, CHR 0x0A] = Some (int (10 * (code a - 48) + (code b - 48)))"
    using assms by (simp_all add: parse_int_def)
qed

lemma dec_not_colon: "is_dec c \<Longrightarrow> c \<noteq> CHR '':''"
  by (auto simp: is_dec_def)

lemma hhmm_core_cases:
  assumes "hhmm_core s"
  obtains a b d e where "s = [a, b, CHR '':'', d, e]" "is_dec a" "is_dec b" "is_dec d" "is_dec e"
    "10 * (code a - 48) + (code b - 48) < 24" "10 * (code d - 48) + (code e - 48) < 60"
  using assms
proof (cases s rule: hhmm_core.cases)
  case (1 a b c d e)
  with assms have "c = CHR '':''" "is_dec b" "is_dec d" "is_dec e" "code d \<le> 53"
    and a: "a = CHR ''0'' \<or> a = CHR ''1'' \<or> a = CHR ''2'' \<and> code b \<le> 51"
    by (auto simp: is_dec_def)
  moreover from a have "is_dec a" by (auto simp: is_dec_def)
  moreover have "code b \<le> 57" "code e \<le> 57" using \<open>is_dec b\<close> \<open>is_dec e\<close> by (simp_all add: is_dec_def)
  moreover from a this have "10 * (code a - 48) + (code b - 48) < 24" by auto
  ultimately show ?thesis using 1 that by simp
qed auto

text \<open>An hour the pattern accepts is one the scheduler can use, with or without the final newline.\<close>

lemma hhmm_match_parse: "hhmm_match s \<Longrightarrow> \<exists>hm. parse_hhmm s = Some hm \<and> hour_minute_ok hm"
proof -
  assume "hhmm_match s"
  then obtain a b d e where s: "strip_final_newline s = [a, b, CHR '':'', d, e]"
    and dec: "is_dec a" "is_dec b" "is_dec d" "is_dec e"
    and lt: "10 * (code a - 48) + (code b - 48) < 24" "10 * (code d - 48) + (code e - 48) < 60"
    unfolding hhmm_match_def by (rule hhmm_core_cases)
  have "s = [a, b, CHR '':'', d, e] \<or> s = [a, b, CHR '':'', d, e, CHR 0x0A]"
    using s append_butlast_last_id [of s, symmetric] unfolding strip_final_newline_def
    by (cases "s \<noteq> [] \<and> last s = CHR 0x0A") (simp_all only: if_True if_False, simp_all)
  moreover have "split_on (CHR '':'') ([a, b] @ CHR '':'' # r) = [a, b] # split_on (CHR '':'') r" for r
    using dec by (intro split_on_append_sep) (auto dest: dec_not_colon)
  moreover have "split_on (CHR '':'') [d, e] = [[d, e]]" "split_on (CHR '':'') [d, e, CHR 0x0A] = [[d, e, CHR 0x0A]]"
    using dec by (auto intro!: split_on_no_sep dest: dec_not_colon)
  ultimately have "parse_hhmm s = Some (int (10 * (code a - 48) + (code b - 48)), int (10 * (code d - 48) + (code e - 48)))"
    using parse_int_two [OF dec(1,2)] parse_int_two [OF dec(3,4)] by (auto simp: parse_hhmm_def)
  with lt show ?thesis by (simp add: hour_minute_ok_def)
qed

end
