(* ===== verification/Schedules.thy ===== *)
theory Schedules
  imports Calendar
begin

text \<open>
  The three schedules kept in memory: the announced restart
  (\<^verbatim>\<open>app/adapters/restart_schedule.py\<close>), the announced maintenance
  (\<^verbatim>\<open>app/adapters/maintenance_state.py\<close>) and the restore that waits for its safety backup
  (\<^verbatim>\<open>app/adapters/pending_restore.py\<close>).

  The first two share a contract, the locale \<open>countdown\<close>: a deadline, and warnings at fixed numbers
  of seconds before it, each given once and never for a time longer than the delay announced.
  Each method runs under the object's lock, hence as one step.
\<close>

definition default_thresholds :: "int list" where
  "default_thresholds = [600, 300, 60, 30, 10]"

definition sorted_thresholds :: "int list \<Rightarrow> int list" where
  "sorted_thresholds ws = rev (sort ws)"

subsection \<open>The announced restart\<close>

record restart_schedule =
  rs_state :: "scheduled_restart option"
  rs_announced :: "int set"

definition new_restart_schedule :: restart_schedule where
  "new_restart_schedule = \<lparr>rs_state = None, rs_announced = {}\<rparr>"

definition rs_schedule :: "int list \<Rightarrow> datetime \<Rightarrow> string \<Rightarrow> rat \<Rightarrow> bool \<Rightarrow> restart_schedule \<Rightarrow> restart_schedule" where
  "rs_schedule ths at_time who delay defer s =
     \<lparr>rs_state = Some \<lparr>restart_at = at_time, scheduled_by = who, sr_defer = defer\<rparr>,
      rs_announced = set (filter (\<lambda>t. delay < of_int t) ths)\<rparr>"

definition rs_cancel :: "restart_schedule \<Rightarrow> bool \<times> restart_schedule" where
  "rs_cancel s = (rs_state s \<noteq> None, \<lparr>rs_state = None, rs_announced = {}\<rparr>)"

definition rs_take_due_warning :: "int list \<Rightarrow> datetime \<Rightarrow> restart_schedule \<Rightarrow> int option \<times> restart_schedule" where
  "rs_take_due_warning ths now s = (case rs_state s of
       None \<Rightarrow> (None, s)
     | Some r \<Rightarrow>
         (let remaining = total_seconds (restart_at r - now)
          in case find (\<lambda>t. remaining \<le> of_int t \<and> t \<notin> rs_announced s) ths of
               None \<Rightarrow> (None, s)
             | Some t \<Rightarrow> (Some t, s\<lparr>rs_announced := insert t (rs_announced s)\<rparr>)))"

subsection \<open>The announced maintenance\<close>

record maintenance_schedule =
  mt_state :: "pending_maintenance option"
  mt_announced :: "int set"

definition new_maintenance_schedule :: maintenance_schedule where
  "new_maintenance_schedule = \<lparr>mt_state = None, mt_announced = {}\<rparr>"

definition mt_schedule ::
  "int list \<Rightarrow> datetime \<Rightarrow> string \<Rightarrow> string \<Rightarrow> string \<Rightarrow> rat \<Rightarrow> bool \<Rightarrow> maintenance_schedule \<Rightarrow> maintenance_schedule" where
  "mt_schedule ths at_time who motd kick delay defer s =
     \<lparr>mt_state = Some \<lparr>engage_at = at_time, pm_requested_by = who, pm_motd = motd, pm_kick = kick,
        pm_operation_id = ''maintenance::'' @ isoformat at_time, pm_defer = defer\<rparr>,
      mt_announced = set (filter (\<lambda>t. delay < of_int t) ths)\<rparr>"

definition mt_cancel :: "maintenance_schedule \<Rightarrow> bool \<times> maintenance_schedule" where
  "mt_cancel s = (mt_state s \<noteq> None, \<lparr>mt_state = None, mt_announced = {}\<rparr>)"

definition mt_take_due_warning :: "int list \<Rightarrow> datetime \<Rightarrow> maintenance_schedule \<Rightarrow> int option \<times> maintenance_schedule" where
  "mt_take_due_warning ths now s = (case mt_state s of
       None \<Rightarrow> (None, s)
     | Some m \<Rightarrow>
         (let remaining = total_seconds (engage_at m - now)
          in case find (\<lambda>t. remaining \<le> of_int t \<and> t \<notin> mt_announced s) ths of
               None \<Rightarrow> (None, s)
             | Some t \<Rightarrow> (Some t, s\<lparr>mt_announced := insert t (mt_announced s)\<rparr>)))"

subsection \<open>The restore that waits\<close>

definition pr_set :: "pending_restore \<Rightarrow> pending_restore option \<Rightarrow> pending_restore option" where
  "pr_set p s = Some p"

definition pr_clear :: "pending_restore option \<Rightarrow> bool \<times> pending_restore option" where
  "pr_clear s = (s \<noteq> None, None)"

subsection \<open>The contract\<close>

text \<open>The warnings that a sequence of polls gives, in order.\<close>

primrec polls :: "('n \<Rightarrow> 's \<Rightarrow> 'r option \<times> 's) \<Rightarrow> 'n list \<Rightarrow> 's \<Rightarrow> 'r list" where
  "polls warn [] s = []"
| "polls warn (n # ns) s = (case warn n s of
       (None, t) \<Rightarrow> polls warn ns t
     | (Some r, t) \<Rightarrow> r # polls warn ns t)"

locale countdown =
  fixes ths :: "int list"
    and due_at :: "'s \<Rightarrow> datetime option"
    and told :: "'s \<Rightarrow> int set"
    and warn :: "datetime \<Rightarrow> 's \<Rightarrow> int option \<times> 's"
    and cancel :: "'s \<Rightarrow> bool \<times> 's"
  assumes warn_idle: "due_at s = None \<Longrightarrow> warn now s = (None, s)"
    and warn_first: "due_at s = Some d \<Longrightarrow>
      fst (warn now s) = find (\<lambda>t. total_seconds (d - now) \<le> of_int t \<and> t \<notin> told s) ths"
    and warn_told: "told (snd (warn now s)) = told s \<union> set_option (fst (warn now s))"
    and warn_due: "due_at (snd (warn now s)) = due_at s"
    and cancel_due: "due_at (snd (cancel s)) = None"
    and cancel_had: "fst (cancel s) \<longleftrightarrow> due_at s \<noteq> None"
begin

lemma polls_told: "t \<in> set (polls warn ns s) \<Longrightarrow> t \<in> set ths - told s"
proof (induction ns arbitrary: s)
  case (Cons n ns)
  obtain w u where wu: "warn n s = (w, u)" by (cases "warn n s")
  have told: "told u = told s \<union> set_option w" using warn_told [of n s] wu by simp
  have first: "w = Some x \<Longrightarrow> x \<in> set ths - told s" for x
  proof -
    assume "w = Some x"
    then obtain d where "due_at s = Some d" using warn_idle [of s n] wu by fastforce
    from warn_first [OF this, of n] wu \<open>w = Some x\<close>
    have "find (\<lambda>t. total_seconds (d - n) \<le> of_int t \<and> t \<notin> told s) ths = Some x" by simp
    then show ?thesis by (auto simp: find_Some_iff)
  qed
  show ?case
    using Cons.prems Cons.IH [of u] first wu told by (cases w) auto
qed simp

lemma polls_distinct: "distinct (polls warn ns s)"
proof (induction ns arbitrary: s)
  case (Cons n ns)
  obtain w u where wu: "warn n s = (w, u)" by (cases "warn n s")
  have "told u = told s \<union> set_option w" using warn_told [of n s] wu by simp
  then show ?case using wu Cons.IH [of u] polls_told [of _ ns u] by (cases w) auto
qed simp

lemma find_sorted:
  "sorted_wrt (>) ths \<Longrightarrow> find P ths = Some x \<Longrightarrow> y \<in> set ths \<Longrightarrow> x < y \<Longrightarrow> \<not> P y"
proof (induction ths)
  case (Cons a l)
  then show ?case by (cases "P a") auto
qed simp

lemma polls_decreasing:
  assumes "sorted_wrt (>) ths" and "sorted ns"
  shows "sorted_wrt (>) (polls warn ns s)"
  using assms(2)
proof (induction ns arbitrary: s)
  case (Cons n ns)
  obtain w u where wu: "warn n s = (w, u)" by (cases "warn n s")
  show ?case
  proof (cases w)
    case None
    with Cons wu show ?thesis by simp
  next
    case (Some x)
    then obtain d where d: "due_at s = Some d" using warn_idle [of s n] wu by fastforce
    let ?P = "\<lambda>t. total_seconds (d - n) \<le> of_int t \<and> t \<notin> told s"
    have x: "find ?P ths = Some x" using warn_first [OF d, of n] wu Some by simp
    then have px: "?P x" by (auto simp: find_Some_iff)
    have told: "told u = insert x (told s)" using warn_told [of n s] wu Some by simp
    have "y \<in> told u" if "y \<in> set ths" "x \<le> y" for y
    proof (cases "y = x")
      case False
      with that have "x < y" by simp
      from find_sorted [OF assms(1) x that(1) this] have "\<not> ?P y" .
      moreover have "total_seconds (d - n) \<le> of_int y"
        using px \<open>x < y\<close> by (metis less_imp_le of_int_le_iff order_trans)
      ultimately show ?thesis using told by auto
    qed (simp add: told)
    then have "t < x" if "t \<in> set (polls warn ns u)" for t
      using polls_told [OF that] by (meson DiffD1 DiffD2 not_le_imp_less)
    with Cons wu Some show ?thesis by auto
  qed
qed simp

end

interpretation rs: countdown ths "\<lambda>s. map_option restart_at (rs_state s)" rs_announced "rs_take_due_warning ths" rs_cancel
  for ths
  by unfold_locales
    (auto simp: rs_take_due_warning_def rs_cancel_def Let_def split: option.splits)

interpretation mt: countdown ths "\<lambda>s. map_option engage_at (mt_state s)" mt_announced "mt_take_due_warning ths" mt_cancel
  for ths
  by unfold_locales
    (auto simp: mt_take_due_warning_def mt_cancel_def Let_def split: option.splits)

subsection \<open>Properties\<close>

text \<open>
  However the background thread polls, the in-game warnings of an announced restart, and of an
  announced maintenance, come in strictly decreasing order, so none comes twice, and none speaks of
  more time than was announced.
\<close>

theorem warnings_decrease:
  assumes "sorted_wrt (>) ths" and "sorted polls_at"
  shows "sorted_wrt (>) (polls (rs_take_due_warning ths) polls_at (rs_schedule ths d who delay defer s)) \<and>
    (\<forall>t \<in> set (polls (rs_take_due_warning ths) polls_at (rs_schedule ths d who delay defer s)). of_int t \<le> delay) \<and>
    sorted_wrt (>) (polls (mt_take_due_warning ths) polls_at (mt_schedule ths d who motd kick delay defer m)) \<and>
    (\<forall>t \<in> set (polls (mt_take_due_warning ths) polls_at (mt_schedule ths d who motd kick delay defer m)). of_int t \<le> delay)"
proof (intro conjI ballI)
  show "sorted_wrt (>) (polls (rs_take_due_warning ths) polls_at (rs_schedule ths d who delay defer s))"
    "sorted_wrt (>) (polls (mt_take_due_warning ths) polls_at (mt_schedule ths d who motd kick delay defer m))"
    using assms by (rule rs.polls_decreasing mt.polls_decreasing)+
  fix t
  show "of_int t \<le> delay" if "t \<in> set (polls (rs_take_due_warning ths) polls_at (rs_schedule ths d who delay defer s))"
    using rs.polls_told [OF that] by (simp add: rs_schedule_def not_less)
  show "of_int t \<le> delay" if "t \<in> set (polls (mt_take_due_warning ths) polls_at (mt_schedule ths d who motd kick delay defer m))"
    using mt.polls_told [OF that] by (simp add: mt_schedule_def not_less)
qed

theorem warnings_decrease_witness:
  "polls (rs_take_due_warning default_thresholds) [0, 100000000, 200000000, 232000000]
     (rs_schedule default_thresholds 240000000 ''alice'' 240 False new_restart_schedule) = [60, 30] \<and>
   sorted_wrt (>) (polls (rs_take_due_warning default_thresholds) [0, 100000000, 200000000, 232000000]
     (rs_schedule default_thresholds 240000000 ''alice'' 240 False new_restart_schedule))"
proof -
  have "polls (rs_take_due_warning default_thresholds) [0, 100000000, 200000000, 232000000]
     (rs_schedule default_thresholds 240000000 ''alice'' 240 False new_restart_schedule) = [60, 30]"
    by code_simp
  moreover have "sorted_wrt (>) default_thresholds" "sorted [0, 100000000, 200000000, 232000000 :: int]"
    by (simp_all add: default_thresholds_def)
  ultimately show ?thesis using warnings_decrease by blast
qed

end
