(* ===== verification/Json_Stores.thy ===== *)
theory Json_Stores
  imports Json Schedules "HOL-Library.List_Lexorder" "HOL-Library.Char_ord"
begin

text \<open>
  The small persistent stores of \<^verbatim>\<open>app/adapters/\<close>: temporary bans (\<^verbatim>\<open>temp_bans.py\<close>), the daily
  restart (\<^verbatim>\<open>recurring_restart.py\<close>) and the planned maintenances (\<^verbatim>\<open>scheduled_maintenance.py\<close>).

  A store is its file. An operation that writes reads the file strictly first, so a corrupt file
  is reported and left alone; an operation that only reads is tolerant. The failure of the
  write itself is added where the services call the store. \<open>fromiso\<close> stands for
  \<open>datetime.fromisoformat\<close>.
\<close>

subsection \<open>Temporary bans\<close>

definition tb_read :: "jfile \<Rightarrow> exn + json list" where
  "tb_read f = (case load_json is_arr (JArr []) True f of
       Inl e \<Rightarrow> Inl e
     | Inr j \<Rightarrow>
         if list_all is_obj (arr_items j) then Inr (arr_items j)
         else Inl (CorruptJsonError ''entree de bannissement temporaire invalide''))"

definition tb_read_tolerant :: "jfile \<Rightarrow> json list" where
  "tb_read_tolerant f = filter is_obj (arr_items (read_json is_arr (JArr []) f))"

definition tb_entry :: "string \<Rightarrow> datetime \<Rightarrow> json" where
  "tb_entry player t = JObj [(''player'', JStr player), (''unban_at'', JStr (isoformat t))]"

definition tb_others :: "string \<Rightarrow> json list \<Rightarrow> json list" where
  "tb_others player es = filter (\<lambda>e. jget e ''player'' \<noteq> JStr player) es"

definition tb_schedule :: "string \<Rightarrow> datetime \<Rightarrow> jfile \<Rightarrow> exn + jfile" where
  "tb_schedule player unban_at f = (case tb_read f of
       Inl e \<Rightarrow> Inl e
     | Inr es \<Rightarrow> Inr (Doc (JArr (tb_others player es @ [tb_entry player unban_at]))))"

definition tb_cancel :: "string \<Rightarrow> jfile \<Rightarrow> exn + jfile" where
  "tb_cancel player f = (case tb_read f of
       Inl e \<Rightarrow> Inl e
     | Inr es \<Rightarrow> Inr (Doc (JArr (tb_others player es))))"

text \<open>An entry that cannot be read is skipped. A name that is no text would be refused by \<open>pardon\<close>.\<close>

definition tb_decode :: "(string \<Rightarrow> datetime option) \<Rightarrow> json \<Rightarrow> pending_unban option" where
  "tb_decode fromiso e = (case (jget e ''player'', jget e ''unban_at'') of
       (JStr p, JStr t) \<Rightarrow> map_option (\<lambda>d. \<lparr>pu_player = p, pu_unban_at = d\<rparr>) (fromiso t)
     | _ \<Rightarrow> None)"

definition tb_pending :: "(string \<Rightarrow> datetime option) \<Rightarrow> jfile \<Rightarrow> pending_unban list" where
  "tb_pending fromiso f = List.map_filter (tb_decode fromiso) (tb_read_tolerant f)"

definition tb_due :: "(string \<Rightarrow> datetime option) \<Rightarrow> datetime \<Rightarrow> jfile \<Rightarrow> pending_unban list" where
  "tb_due fromiso now f = filter (\<lambda>p. pu_unban_at p \<le> now) (tb_pending fromiso f)"

subsection \<open>The daily restart\<close>

definition rr_get :: "jfile \<Rightarrow> recurring_restart option" where
  "rr_get f =
     (let data = read_json is_obj (JObj []) f; time = jget data ''time''; lead = jget data ''lead_seconds''
      in if \<not> is_str time \<or> str_of time = [] then None
         else Some \<lparr>rr_time = str_of time,
                    rr_lead = (if is_int lead \<and> 0 < int_of lead then int_of lead else 300),
                    rr_defer = truthy (jget data ''defer_if_players'')\<rparr>)"

definition rr_set_config :: "recurring_restart \<Rightarrow> jfile \<Rightarrow> exn + jfile" where
  "rr_set_config config = update_json is_obj (JObj []) (\<lambda>data.
     jpop ''last_fired''
       (jset ''defer_if_players'' (JBool (rr_defer config))
         (jset ''lead_seconds'' (JInt (rr_lead config)) (jset ''time'' (JStr (rr_time config)) data))))"

definition rr_clear :: "jfile \<Rightarrow> exn + jfile" where
  "rr_clear = update_json is_obj (JObj []) (\<lambda>_. JObj [])"

definition day_of :: "json \<Rightarrow> string option" where
  "day_of v = (if is_str v \<and> str_of v \<noteq> [] then Some (str_of v) else None)"

definition rr_last_fired :: "jfile \<Rightarrow> string option" where
  "rr_last_fired f = day_of (jget (read_json is_obj (JObj []) f) ''last_fired'')"

definition rr_mark_fired :: "string \<Rightarrow> jfile \<Rightarrow> exn + jfile" where
  "rr_mark_fired day = update_json is_obj (JObj []) (jset ''last_fired'' (JStr day))"

subsection \<open>Planned maintenances\<close>

fun weekday_of :: "json \<Rightarrow> int list" where
  "weekday_of (JInt i) = [i]"
| "weekday_of (JBool b) = [if b then 1 else 0]"
| "weekday_of (JFloat r) = [trunc_rat r]"
| "weekday_of _ = []"

definition clean_weekdays :: "json \<Rightarrow> int list" where
  "clean_weekdays raw =
     (if is_arr raw then sort (remdups (filter (\<lambda>d. 0 \<le> d \<and> d \<le> 6) (concat (map weekday_of (arr_items raw))))) else [])"

definition or_empty :: "(json \<Rightarrow> string) \<Rightarrow> json \<Rightarrow> string" where
  "or_empty other v = (if truthy v then py_str other v else [])"

definition sm_decode :: "(json \<Rightarrow> string) \<Rightarrow> json \<Rightarrow> scheduled_maintenance option" where
  "sm_decode other raw =
     (let kind = jget raw ''kind''; time = jget raw ''time''; entry_id = jget raw ''id''; lead = jget raw ''lead_seconds''
      in if \<not> is_obj raw then None
         else if kind \<notin> {JStr ''once'', JStr ''weekly''} \<or> \<not> is_str time \<or> \<not> truthy entry_id then None
         else Some
           \<lparr>sm_id = py_str other entry_id, sm_kind = str_of kind, sm_time = str_of time,
            sm_date = or_empty other (jget raw ''date''),
            sm_weekdays = clean_weekdays (jget raw ''weekdays''),
            sm_lead = (if is_int lead \<and> 0 < int_of lead then int_of lead else 300),
            sm_message = or_empty other (jget raw ''message''), sm_until = or_empty other (jget raw ''until''),
            sm_defer = truthy (jget raw ''defer_if_players'')\<rparr>)"

text \<open>\<open>data.get("entries") or []\<close>, then the loop over it.\<close>

definition entries_of :: "json \<Rightarrow> exn + json list" where
  "entries_of data = (let v = jget data ''entries'' in if truthy v then iter_items v else Inr [])"

definition sm_list :: "(json \<Rightarrow> string) \<Rightarrow> jfile \<Rightarrow> exn + scheduled_maintenance list" where
  "sm_list other f = (case entries_of (read_json is_obj (JObj []) f) of
       Inl e \<Rightarrow> Inl e
     | Inr raws \<Rightarrow> Inr (List.map_filter (sm_decode other) raws))"

definition sm_encode :: "string \<Rightarrow> scheduled_maintenance \<Rightarrow> json" where
  "sm_encode entry_id e = JObj
     [(''id'', JStr entry_id), (''kind'', JStr (sm_kind e)), (''time'', JStr (sm_time e)), (''date'', JStr (sm_date e)),
      (''weekdays'', JArr (map JInt (sm_weekdays e))), (''lead_seconds'', JInt (sm_lead e)),
      (''message'', JStr (sm_message e)), (''until'', JStr (sm_until e)), (''defer_if_players'', JBool (sm_defer e))]"

text \<open>\<open>fresh\<close> is the value of \<open>secrets.token_hex(8)\<close>.\<close>

definition sm_add :: "string \<Rightarrow> scheduled_maintenance \<Rightarrow> jfile \<Rightarrow> exn + (string \<times> jfile)" where
  "sm_add fresh e f =
     (let entry_id = (if sm_id e = [] then fresh else sm_id e)
      in case update_json is_obj (JObj []) (\<lambda>data.
           jset ''entries'' (JArr (arr_items (jget data ''entries'') @ [sm_encode entry_id e])) data) f of
         Inl x \<Rightarrow> Inl x
       | Inr g \<Rightarrow> Inr (entry_id, g))"

definition pop_fired :: "string \<Rightarrow> json \<Rightarrow> json" where
  "pop_fired entry_id data =
     (let fired = jget data ''fired'' in if is_obj fired then jset ''fired'' (jpop entry_id fired) data else data)"

definition sm_remove :: "string \<Rightarrow> jfile \<Rightarrow> exn + (bool \<times> jfile)" where
  "sm_remove entry_id f = (case load_json is_obj (JObj []) True f of
       Inl e \<Rightarrow> Inl e
     | Inr data \<Rightarrow> (case entries_of data of
         Inl e \<Rightarrow> Inl e
       | Inr entries \<Rightarrow>
           (let kept = filter (\<lambda>e. is_obj e \<and> jget e ''id'' \<noteq> JStr entry_id) entries;
                had = length kept \<noteq> length entries
            in if had then Inr (True, Doc (pop_fired entry_id (jset ''entries'' (JArr kept) data)))
               else Inr (False, f))))"

definition sm_last_fired :: "string \<Rightarrow> jfile \<Rightarrow> string option" where
  "sm_last_fired entry_id f =
     (let fired = jget (read_json is_obj (JObj []) f) ''fired'' in if is_obj fired then day_of (jget fired entry_id) else None)"

definition sm_mark_fired :: "string \<Rightarrow> string \<Rightarrow> jfile \<Rightarrow> exn + jfile" where
  "sm_mark_fired entry_id day = update_json is_obj (JObj []) (\<lambda>data.
     (let fired = jget data ''fired'' in jset ''fired'' (jset entry_id (JStr day) (if is_obj fired then fired else JObj [])) data))"

subsection \<open>Temporary bans: lookup after update\<close>

lemma tb_read_ok: "tb_read f = Inr es \<Longrightarrow> tb_read_tolerant f = es"
  by (auto simp: tb_read_def tb_read_tolerant_def read_json_def list_all_iff split: sum.splits if_splits
      dest!: load_json_agree)

lemma tb_doc: "list_all is_obj es \<Longrightarrow> tb_read_tolerant (Doc (JArr es)) = es"
  by (simp add: tb_read_tolerant_def read_json_Doc list_all_iff)

lemma tb_read_objs: "tb_read f = Inr es \<Longrightarrow> list_all is_obj es"
  by (auto simp: tb_read_def split: sum.splits if_splits)

lemma tb_others_objs: "list_all is_obj es \<Longrightarrow> list_all is_obj (tb_others p es)"
  by (auto simp: tb_others_def list_all_iff)

lemma tb_decode_player: "tb_decode fromiso e = Some u \<Longrightarrow> jget e ''player'' = JStr (pu_player u)"
  by (auto simp: tb_decode_def split: json.splits)

lemma map_filter_others:
  "List.map_filter (tb_decode fromiso) (tb_others p es) =
   filter (\<lambda>u. pu_player u \<noteq> p) (List.map_filter (tb_decode fromiso) es)"
proof (induction es)
  case (Cons e es)
  then show ?case
    by (cases "tb_decode fromiso e") (auto simp: tb_others_def map_filter_Cons dest: tb_decode_player)
qed (simp add: tb_others_def List.map_filter_simps)

lemma tb_pending_cancel:
  "tb_cancel p f = Inr g \<Longrightarrow> tb_pending fromiso g = filter (\<lambda>u. pu_player u \<noteq> p) (tb_pending fromiso f)"
  by (auto simp: tb_cancel_def tb_pending_def tb_read_ok tb_doc tb_others_objs tb_read_objs map_filter_others
      split: sum.splits)

lemma tb_decode_entry: "fromiso (isoformat t) = Some t \<Longrightarrow> tb_decode fromiso (tb_entry p t) = Some \<lparr>pu_player = p, pu_unban_at = t\<rparr>"
  by (simp add: tb_decode_def tb_entry_def)

lemma tb_pending_schedule:
  "tb_schedule p t f = Inr g \<Longrightarrow> fromiso (isoformat t) = Some t \<Longrightarrow>
   tb_pending fromiso g = filter (\<lambda>u. pu_player u \<noteq> p) (tb_pending fromiso f) @ [\<lparr>pu_player = p, pu_unban_at = t\<rparr>]"
proof -
  assume s: "tb_schedule p t f = Inr g" and iso: "fromiso (isoformat t) = Some t"
  then obtain es where es: "tb_read f = Inr es" and g: "g = Doc (JArr (tb_others p es @ [tb_entry p t]))"
    by (auto simp: tb_schedule_def split: sum.splits)
  have "list_all is_obj (tb_others p es @ [tb_entry p t])"
    using tb_others_objs [OF tb_read_objs [OF es]] by (simp add: tb_entry_def)
  then have "tb_read_tolerant g = tb_others p es @ [tb_entry p t]" unfolding g by (rule tb_doc)
  then show ?thesis
    by (simp add: tb_pending_def tb_read_ok [OF es] map_filter_others
        List.map_filter_simps tb_decode_entry [of fromiso, OF iso])
qed

subsection \<open>The daily restart: lookup after update\<close>

lemma rr_get_set:
  "rr_set_config c f = Inr g \<Longrightarrow> rr_time c \<noteq> [] \<Longrightarrow> 0 < rr_lead c \<Longrightarrow> rr_get g = Some c \<and> rr_last_fired g = None"
  by (auto simp: rr_set_config_def rr_get_def rr_last_fired_def read_json_Doc day_of_def dest!: update_json_read)

lemma rr_mark: "rr_mark_fired day f = Inr g \<Longrightarrow> day \<noteq> [] \<Longrightarrow> rr_last_fired g = Some day \<and> rr_get g = rr_get f"
  by (auto simp: rr_mark_fired_def rr_get_def rr_last_fired_def read_json_Doc day_of_def Let_def dest!: update_json_read)

lemma rr_cleared: "rr_clear f = Inr g \<Longrightarrow> rr_get g = None \<and> rr_last_fired g = None"
  by (auto simp: rr_clear_def rr_get_def rr_last_fired_def read_json_Doc day_of_def dest!: update_json_read)

subsection \<open>Planned maintenances: lookup after update\<close>

lemma sort_remdups_id: "sorted xs \<Longrightarrow> distinct xs \<Longrightarrow> sort (remdups xs) = xs"
  by (simp add: sorted_sort_id distinct_remdups_id)

lemma clean_weekdays_id:
  assumes "sorted ws" and "distinct ws" and "\<And>w. w \<in> set ws \<Longrightarrow> 0 \<le> w \<and> w \<le> 6"
  shows "clean_weekdays (JArr (map JInt ws)) = ws"
proof -
  have "concat (map weekday_of (map JInt ws)) = ws" by (induction ws) auto
  moreover have "filter (\<lambda>d. 0 \<le> d \<and> d \<le> 6) ws = ws" using assms(3) by (simp add: filter_id_conv)
  ultimately show ?thesis using assms(1,2) by (simp add: clean_weekdays_def sort_remdups_id)
qed

text \<open>An entry the store can give back as it was: the form the service builds.\<close>

definition sm_wellformed :: "scheduled_maintenance \<Rightarrow> bool" where
  "sm_wellformed e \<longleftrightarrow> (sm_kind e = ''once'' \<or> sm_kind e = ''weekly'') \<and> 0 < sm_lead e \<and>
     sorted (sm_weekdays e) \<and> distinct (sm_weekdays e) \<and> list_all (\<lambda>w. 0 \<le> w \<and> w \<le> 6) (sm_weekdays e)"

lemma sm_decode_encode:
  "sm_wellformed e \<Longrightarrow> i \<noteq> [] \<Longrightarrow> sm_decode other (sm_encode i e) = Some (e\<lparr>sm_id := i\<rparr>)"
  by (cases e) (auto simp: sm_decode_def sm_encode_def sm_wellformed_def or_empty_def list_all_iff clean_weekdays_id)

lemma entries_of_list: "is_arr (jget data ''entries'') \<or> jget data ''entries'' = JNull \<Longrightarrow> entries_of data = Inr (arr_items (jget data ''entries''))"
  by (cases "jget data ''entries''") (auto simp: entries_of_def)

text \<open>The files this store writes: a dictionary whose entries, if any, are a list.\<close>

definition sm_file_ok :: "jfile \<Rightarrow> bool" where
  "sm_file_ok f \<longleftrightarrow>
     (let v = jget (read_json is_obj (JObj []) f) ''entries'' in is_arr v \<or> v = JNull)"

lemma sm_list_add:
  assumes "sm_add fresh e f = Inr (i, g)" and "sm_file_ok f" and "sm_wellformed e" and "fresh \<noteq> []"
  shows "\<exists>es. sm_list other f = Inr es \<and> sm_list other g = Inr (es @ [e\<lparr>sm_id := i\<rparr>]) \<and> sm_file_ok g"
proof -
  let ?d = "read_json is_obj (JObj []) f"
  have i: "i \<noteq> []" using assms(1,4) by (auto simp: sm_add_def Let_def split: sum.splits if_splits)
  have g: "g = Doc (jset ''entries'' (JArr (arr_items (jget ?d ''entries'') @ [sm_encode i e])) ?d)"
    using assms(1) by (auto simp: sm_add_def Let_def split: sum.splits dest!: update_json_read)
  have f: "entries_of ?d = Inr (arr_items (jget ?d ''entries''))"
    using assms(2) by (intro entries_of_list) (simp add: sm_file_ok_def Let_def)
  have "entries_of (read_json is_obj (JObj []) g) = Inr (arr_items (jget ?d ''entries'') @ [sm_encode i e])"
    unfolding g read_json_Doc by (simp add: entries_of_def)
  with f i show ?thesis
    using assms(3) unfolding sm_list_def
    by (simp add: List.map_filter_simps sm_decode_encode sm_file_ok_def g read_json_Doc)
qed

lemma sm_mark_list: "sm_mark_fired i day f = Inr g \<Longrightarrow> sm_list other g = sm_list other f"
  unfolding sm_mark_fired_def
  by (drule update_json_read) (simp add: sm_list_def entries_of_def read_json_Doc Let_def)

lemma sm_mark_last:
  "sm_mark_fired i day f = Inr g \<Longrightarrow> day \<noteq> [] \<Longrightarrow>
   sm_last_fired i' g = (if i' = i then Some day else sm_last_fired i' f)"
  unfolding sm_mark_fired_def
  by (drule update_json_read) (simp add: sm_last_fired_def read_json_Doc day_of_def Let_def)

subsection \<open>Stores that are maps\<close>

text \<open>
  What several stores promise: seen through \<open>view\<close>, a file is a map from keys to values, \<open>put\<close> and
  \<open>del\<close> change it at one key, and neither fails on a file that can be read. A client that makes
  any sequence of changes then finds what a map would hold.
\<close>

datatype 'v change = Put 'v | Del string

fun change_map :: "('v \<Rightarrow> string) \<Rightarrow> 'v change list \<Rightarrow> (string \<rightharpoonup> 'v) \<Rightarrow> (string \<rightharpoonup> 'v)" where
  "change_map key [] m = m"
| "change_map key (Put v # cs) m = change_map key cs (m(key v \<mapsto> v))"
| "change_map key (Del k # cs) m = change_map key cs (m(k := None))"

fun change_store :: "('v \<Rightarrow> 'f \<Rightarrow> exn + 'f) \<Rightarrow> (string \<Rightarrow> 'f \<Rightarrow> exn + 'f) \<Rightarrow> 'v change list \<Rightarrow> 'f \<Rightarrow> exn + 'f" where
  "change_store put del [] f = Inr f"
| "change_store put del (Put v # cs) f = (case put v f of Inl e \<Rightarrow> Inl e | Inr g \<Rightarrow> change_store put del cs g)"
| "change_store put del (Del k # cs) f = (case del k f of Inl e \<Rightarrow> Inl e | Inr g \<Rightarrow> change_store put del cs g)"

fun valid_change :: "('v \<Rightarrow> bool) \<Rightarrow> 'v change \<Rightarrow> bool" where
  "valid_change valid (Put v) = valid v"
| "valid_change valid (Del k) = True"

locale map_store =
  fixes readable :: "'f \<Rightarrow> bool" and view :: "'f \<Rightarrow> (string \<rightharpoonup> 'v)" and key :: "'v \<Rightarrow> string" and valid :: "'v \<Rightarrow> bool"
    and put :: "'v \<Rightarrow> 'f \<Rightarrow> exn + 'f" and del :: "string \<Rightarrow> 'f \<Rightarrow> exn + 'f"
  assumes put_ok: "readable f \<Longrightarrow> valid v \<Longrightarrow> \<exists>g. put v f = Inr g \<and> readable g \<and> view g = (view f)(key v \<mapsto> v)"
    and del_ok: "readable f \<Longrightarrow> \<exists>g. del k f = Inr g \<and> readable g \<and> view g = (view f)(k := None)"
begin

lemma changes_refine:
  assumes "readable f" and "list_all (valid_change valid) cs"
  shows "\<exists>g. change_store put del cs f = Inr g \<and> readable g \<and> view g = change_map key cs (view f)"
  using assms
proof (induction cs arbitrary: f)
  case (Cons c cs)
  then have cs: "list_all (valid_change valid) cs" by simp
  show ?case
  proof (cases c)
    case (Put v)
    with Cons.prems put_ok [of f v] obtain g where g: "put v f = Inr g" "readable g" "view g = (view f)(key v \<mapsto> v)" by auto
    show ?thesis unfolding Put change_store.simps g(1) sum.case change_map.simps g(3) [symmetric] by (rule Cons.IH [OF g(2) cs])
  next
    case (Del k)
    with Cons.prems del_ok [of f k] obtain g where g: "del k f = Inr g" "readable g" "view g = (view f)(k := None)" by auto
    show ?thesis unfolding Del change_store.simps g(1) sum.case change_map.simps g(3) [symmetric] by (rule Cons.IH [OF g(2) cs])
  qed
qed simp

end

end
