(* ===== verification/Pending_Op_Levels.thy ===== *)
theory Pending_Op_Levels
  imports Json_Stores "HOL-Library.Multiset"
begin

text \<open>
  The queue of operator levels of \<^verbatim>\<open>app/adapters/pending_op_levels.py\<close>: the file mc-admin writes
  requests to, and the file the worker moves a batch to while it applies it. Both sides hold the
  same \<open>flock\<close> during an operation.

  A file's content is a dictionary from lower-case names to requests. The operations of mc-admin
  work on the first file and write once; those of the worker write both files, in the order of the
  code, and may be interrupted between the two writes.
\<close>

type_synonym levels = "(string \<times> pending_op_level) list"

definition op_request :: "string \<Rightarrow> int \<Rightarrow> pending_op_level" where
  "op_request name level = \<lparr>po_name = name, po_level = level, po_applying = False\<rparr>"

definition valid_level_item :: "string \<Rightarrow> json \<Rightarrow> bool" where
  "valid_level_item key item \<longleftrightarrow> is_obj item \<and> is_str (jget item ''name'') \<and> is_proper_int (jget item ''level'') \<and>
     1 \<le> int_of (jget item ''level'') \<and> int_of (jget item ''level'') \<le> 4 \<and> key = lower (str_of (jget item ''name''))"

fun decode_items :: "(string \<times> json) list \<Rightarrow> exn + levels" where
  "decode_items [] = Inr []"
| "decode_items ((key, item) # rest) =
     (if \<not> valid_level_item key item then Inl (CorruptJsonError ''entree de niveau OP invalide'')
      else (case decode_items rest of
          Inl e \<Rightarrow> Inl e
        | Inr d \<Rightarrow> Inr ((key, op_request (str_of (jget item ''name'')) (int_of (jget item ''level''))) # d)))"

text \<open>\<open>_decode(path, strict=True)\<close>, the only way the class calls it.\<close>

definition decode_levels :: "jfile \<Rightarrow> exn + levels" where
  "decode_levels f = (case load_json is_obj (JObj []) True f of
       Inl e \<Rightarrow> Inl e
     | Inr raw \<Rightarrow>
         if raw = JObj [] then Inr []
         else if \<not> equals_one (jget raw ''version'') \<or> \<not> is_obj (jget raw ''levels'')
         then Inl (CorruptJsonError ''etat des niveaux OP invalide'')
         else decode_items (obj_fields (jget raw ''levels'')))"

definition level_item :: "pending_op_level \<Rightarrow> json" where
  "level_item i = JObj [(''name'', JStr (po_name i)), (''level'', JInt (po_level i))]"

definition levels_payload :: "levels \<Rightarrow> json" where
  "levels_payload d = JObj [(''version'', JInt 1), (''levels'', JObj (map (\<lambda>(k, i). (k, level_item i)) (sort_key fst d)))]"

definition update_all :: "levels \<Rightarrow> levels \<Rightarrow> levels" where
  "update_all new d = fold (\<lambda>(k, v). AList.update k v) new d"

definition by_name_order :: "levels \<Rightarrow> pending_op_level list" where
  "by_name_order d = sort_key (\<lambda>i. lower (po_name i)) (map snd d)"

subsection \<open>The operations of mc-admin\<close>

definition ol_list_pending :: "jfile \<Rightarrow> jfile \<Rightarrow> exn + pending_op_level list" where
  "ol_list_pending pending applying = (case (decode_levels applying, decode_levels pending) of
       (Inr a, Inr p) \<Rightarrow> Inr (by_name_order (update_all p (map (\<lambda>(k, i). (k, i\<lparr>po_applying := True\<rparr>)) a)))
     | _ \<Rightarrow> Inl (OpLevelsUnavailable ''etat des niveaux OP en attente corrompu''))"

definition ol_set_level :: "string \<Rightarrow> int \<Rightarrow> jfile \<Rightarrow> exn + jfile" where
  "ol_set_level name level f =
     (if name = [] \<or> level \<notin> {1, 2, 3, 4} then Inl (ValueError ''niveau OP en attente invalide'')
      else (case decode_levels f of
          Inl e \<Rightarrow> Inl e
        | Inr d \<Rightarrow> Inr (Doc (levels_payload (AList.update (lower name) (op_request name level) d)))))"

definition ol_remove :: "string \<Rightarrow> jfile \<Rightarrow> exn + jfile" where
  "ol_remove name f = (case decode_levels f of
       Inl e \<Rightarrow> Inl e
     | Inr d \<Rightarrow>
         if map_of d (lower name) = None then Inr f
         else Inr (Doc (levels_payload (AList.delete (lower name) d))))"

subsection \<open>Reading back what was written\<close>

text \<open>The dictionaries the store works with: keys are distinct, valid and match their items.\<close>

definition levels_ok :: "levels \<Rightarrow> bool" where
  "levels_ok d \<longleftrightarrow> distinct (keys d) \<and>
     list_all (\<lambda>(k, i). k = lower (po_name i) \<and> 1 \<le> po_level i \<and> po_level i \<le> 4 \<and> \<not> po_applying i) d"

lemma decode_items_encode:
  "list_all (\<lambda>(k, i). k = lower (po_name i) \<and> 1 \<le> po_level i \<and> po_level i \<le> 4 \<and> \<not> po_applying i) d \<Longrightarrow>
   decode_items (map (\<lambda>(k, i). (k, level_item i)) d) = Inr d"
  by (induction d) (auto simp: valid_level_item_def level_item_def op_request_def)

lemma decode_payload: "levels_ok d \<Longrightarrow> decode_levels (Doc (levels_payload d)) = Inr (sort_key fst d)"
proof -
  assume d: "levels_ok d"
  have "list_all (\<lambda>(k, i). k = lower (po_name i) \<and> 1 \<le> po_level i \<and> po_level i \<le> 4 \<and> \<not> po_applying i) (sort_key fst d)"
    using d by (simp add: levels_ok_def list_all_iff)
  from decode_items_encode [OF this] show ?thesis
    by (simp add: decode_levels_def load_json_def levels_payload_def)
qed

lemma distinct_keys_sort: "distinct (keys (sort_key fst d)) \<longleftrightarrow> distinct (keys d)"
proof -
  have "mset (keys (sort_key fst d)) = mset (keys d)" by simp
  then show ?thesis by (rule mset_eq_imp_distinct_iff)
qed

lemma map_of_sort: "distinct (keys d) \<Longrightarrow> map_of (sort_key fst d) = map_of d"
  by (rule map_of_eqI) (auto simp: distinct_keys_sort)

lemma levels_ok_sort: "levels_ok d \<Longrightarrow> levels_ok (sort_key fst d)"
  by (auto simp: levels_ok_def distinct_keys_sort list_all_iff)

lemma decode_items_ok:
  "decode_items raws = Inr d \<Longrightarrow> keys d = keys raws \<and>
     list_all (\<lambda>(k, i). k = lower (po_name i) \<and> 1 \<le> po_level i \<and> po_level i \<le> 4 \<and> \<not> po_applying i) d"
  by (induction raws arbitrary: d rule: decode_items.induct)
    (auto simp: valid_level_item_def op_request_def split: if_splits sum.splits)

text \<open>A JSON object has one entry per key; a file that holds one is well formed.\<close>

definition level_file_ok :: "jfile \<Rightarrow> bool" where
  "level_file_ok f = (case f of Doc raw \<Rightarrow> distinct (keys (obj_fields (jget raw ''levels''))) | _ \<Rightarrow> True)"

lemma decode_levels_ok: "decode_levels f = Inr d \<Longrightarrow> level_file_ok f \<Longrightarrow> levels_ok d"
  by (auto simp: decode_levels_def load_json_def level_file_ok_def levels_ok_def split: jfile.splits if_splits
      dest!: decode_items_ok)

lemma level_file_ok_payload: "levels_ok d \<Longrightarrow> level_file_ok (Doc (levels_payload d))"
  by (simp add: level_file_ok_def levels_payload_def levels_ok_def comp_def case_prod_unfold distinct_keys_sort [unfolded comp_def])

lemma levels_ok_put:
  assumes "levels_ok d" and "k = lower (po_name i)" and "1 \<le> po_level i" and "po_level i \<le> 4" and "\<not> po_applying i"
  shows "levels_ok (AList.update k i d)"
  using assms set_update_alist [of k i d] unfolding levels_ok_def list_all_iff
  by (fastforce intro: distinct_update)

lemma levels_ok_delete: "levels_ok d \<Longrightarrow> levels_ok (AList.delete k d)"
  using set_delete_alist [of k d] unfolding levels_ok_def list_all_iff by (auto intro: distinct_delete)

lemma update_all_Cons: "update_all ((k, v) # new) d = update_all new (AList.update k v d)"
  by (simp add: update_all_def)

lemma map_of_update_all:
  "distinct (keys new) \<Longrightarrow> map_of (update_all new d) k = (case map_of new k of Some v \<Rightarrow> Some v | None \<Rightarrow> map_of d k)"
proof (induction new arbitrary: d)
  case (Cons p new)
  obtain k' v where p: "p = (k', v)" by (cases p)
  with Cons.prems have new: "map_of new k' = None" by (simp add: map_of_None_key)
  have "map_of (update_all new (AList.update k' v d)) k =
      (case map_of new k of Some w \<Rightarrow> Some w | None \<Rightarrow> map_of (AList.update k' v d) k)"
    using Cons.prems by (intro Cons.IH) simp
  with new show ?case by (cases "map_of new k") (auto simp: p update_all_Cons)
qed (simp add: update_all_def)

lemma levels_ok_update_all: "levels_ok new \<Longrightarrow> levels_ok d \<Longrightarrow> levels_ok (update_all new d)"
proof (induction new arbitrary: d)
  case (Cons p new)
  obtain k v where p: "p = (k, v)" by (cases p)
  from Cons.prems(1) p have "levels_ok new" by (simp add: levels_ok_def)
  moreover have "levels_ok (AList.update k v d)" using Cons.prems p by (intro levels_ok_put) (auto simp: levels_ok_def)
  ultimately show ?case using Cons.IH p by (simp add: update_all_Cons)
qed (simp add: update_all_def)

text \<open>The request recorded for a name, whatever its case.\<close>

definition requested_level :: "string \<Rightarrow> jfile \<Rightarrow> int option" where
  "requested_level name f = (case decode_levels f of
       Inl e \<Rightarrow> None
     | Inr d \<Rightarrow> map_option po_level (map_of d (lower name)))"

lemma decode_Doc_payload:
  "levels_ok d \<Longrightarrow> \<exists>d'. decode_levels (Doc (levels_payload d)) = Inr d' \<and> map_of d' = map_of d \<and> levels_ok d'"
  by (simp add: decode_payload map_of_sort levels_ok_sort) (simp add: levels_ok_def map_of_sort)

lemma set_level_lookup:
  assumes "level_file_ok f" and "ol_set_level name level f = Inr g"
  shows "requested_level other g = (if lower other = lower name then Some level else requested_level other f) \<and> level_file_ok g"
proof -
  from assms(2) obtain d where d: "decode_levels f = Inr d" and lv: "level \<in> {1, 2, 3, 4}"
    and g: "g = Doc (levels_payload (AList.update (lower name) (op_request name level) d))"
    by (auto simp: ol_set_level_def split: if_splits sum.splits)
  have ok: "levels_ok (AList.update (lower name) (op_request name level) d)"
    using decode_levels_ok [OF d assms(1)] lv by (intro levels_ok_put) (auto simp: op_request_def)
  from decode_Doc_payload [OF this] show ?thesis
    using d level_file_ok_payload [OF ok] unfolding g requested_level_def by (auto simp: op_request_def)
qed

lemma remove_lookup:
  assumes "level_file_ok f" and "ol_remove name f = Inr g"
  shows "requested_level other g = (if lower other = lower name then None else requested_level other f) \<and> level_file_ok g"
proof -
  from assms(2) obtain d where d: "decode_levels f = Inr d" by (auto simp: ol_remove_def split: sum.splits)
  show ?thesis
  proof (cases "map_of d (lower name) = None")
    case True
    with assms d show ?thesis by (auto simp: ol_remove_def requested_level_def)
  next
    case False
    with assms(2) d have g: "g = Doc (levels_payload (AList.delete (lower name) d))" by (simp add: ol_remove_def)
    have ok: "levels_ok (AList.delete (lower name) d)"
      using decode_levels_ok [OF d assms(1)] by (rule levels_ok_delete)
    from decode_Doc_payload [OF this] show ?thesis
      using d level_file_ok_payload [OF ok] unfolding g requested_level_def by auto
  qed
qed

end
