(* ===== verification/Backup_Profiles.thy ===== *)
theory Backup_Profiles
  imports Json_Stores
begin

text \<open>
  The backup profiles of \<^verbatim>\<open>app/adapters/backup_profiles.py\<close>: names turned into identifiers,
  categories turned into the patterns of the backup image, and the file that holds the profiles.
  Writing reads strictly, so a corrupt file is reported and left alone; reading skips what is
  not valid. \<open>fromiso\<close> stands for \<open>datetime.fromisoformat\<close>.
\<close>

record backup_profile =
  bp_id :: string
  bp_name :: string
  bp_include :: "string list"
  bp_dest :: string
  bp_hours :: rat
  bp_daily_at :: "string option"
  bp_daily_days :: int
  bp_monthly_months :: int
  bp_enabled :: bool
  bp_last_run :: "datetime option"

subsection \<open>Identifiers\<close>

definition slug_char :: "char \<Rightarrow> bool" where
  "slug_char c \<longleftrightarrow> 97 \<le> code c \<and> code c \<le> 122 \<or> is_dec c \<or> c = CHR ''-''"

text \<open>\<open>_SLUG_RE.sub("-", text)\<close>: a run of other characters becomes one dash.\<close>

fun slug_sub :: "bool \<Rightarrow> string \<Rightarrow> string" where
  "slug_sub inside [] = []"
| "slug_sub inside (c # cs) =
     (if slug_char c then c # slug_sub False cs
      else if inside then slug_sub True cs else CHR ''-'' # slug_sub True cs)"

definition strip_dashes :: "string \<Rightarrow> string" where
  "strip_dashes s = rev (dropWhile (\<lambda>c. c = CHR ''-'') (rev (dropWhile (\<lambda>c. c = CHR ''-'') s)))"

definition slugify :: "string \<Rightarrow> string" where
  "slugify name = (let slug = take 32 (strip_dashes (slug_sub False (strip (lower name))))
     in if slug = [] then ''profil'' else slug)"

text \<open>
  The loop of \<open>create_backup_profile\<close>: \<open>base\<close>, then \<open>base-2\<close>, \<open>base-3\<close>, until a slug is free. It ends
  because different numbers give different slugs, which the termination proof uses.
\<close>

definition numbered :: "string \<Rightarrow> nat \<Rightarrow> string" where
  "numbered base n = base @ ''-'' @ str_int (int n)"

lemma digit_inj: "char_of (48 + a) = (char_of (48 + b) :: char) \<Longrightarrow> a < 10 \<Longrightarrow> b < (10 :: nat) \<Longrightarrow> a = b"
proof -
  assume eq: "char_of (48 + a) = (char_of (48 + b) :: char)" and "a < 10" "b < 10"
  then have "code (char_of (48 + a) :: char) = 48 + a" "code (char_of (48 + b) :: char) = 48 + b" by simp_all
  with eq show ?thesis by simp
qed

lemma digits_nonempty: "digits_of n \<noteq> []"
  by (subst digits_of.simps) simp

lemma digits_inj: "digits_of m = digits_of n \<Longrightarrow> m = n"
proof (induction m arbitrary: n rule: digits_of.induct)
  case (1 m)
  have d: "digits_of k = (if k < 10 then [] else digits_of (k div 10)) @ [char_of (48 + k mod 10)]" for k
    by (subst digits_of.simps) simp
  have "(if m < 10 then [] else digits_of (m div 10)) @ [char_of (48 + m mod 10)] =
      (if n < 10 then [] else digits_of (n div 10)) @ [char_of (48 + n mod 10)]"
    using 1(2) by (simp only: d [symmetric])
  then have rest: "(if m < 10 then [] else digits_of (m div 10)) = (if n < 10 then [] else digits_of (n div 10))"
    and "char_of (48 + m mod 10) = (char_of (48 + n mod 10) :: char)" by (simp_all only: append1_eq_conv)
  from digit_inj [OF this(2)] have last: "m mod 10 = n mod 10" by simp
  show ?case
  proof (cases "m < 10")
    case True
    with rest have "n < 10" using digits_nonempty by (metis (no_types))
    with True last show ?thesis by simp
  next
    case False
    with rest have n: "\<not> n < 10" using digits_nonempty by (metis (no_types))
    with False rest have "digits_of (m div 10) = digits_of (n div 10)" by simp
    with 1(1) False have "m div 10 = n div 10" by blast
    with last show ?thesis by (metis div_mult_mod_eq)
  qed
qed

lemma numbered_inj: "numbered base m = numbered base n \<longleftrightarrow> m = n"
  by (auto simp: numbered_def str_int_def dest: digits_inj)

definition later_slugs :: "string list \<Rightarrow> string \<Rightarrow> nat \<Rightarrow> string set" where
  "later_slugs existing base n = {x \<in> set existing. \<exists>m\<ge>n. x = numbered base m}"

lemma later_slugs_Suc:
  "later_slugs existing base (Suc n) = later_slugs existing base n - {numbered base n}"
  by (auto simp: later_slugs_def numbered_inj Suc_le_eq le_neq_implies_less)

lemma finite_later_slugs [simp]: "finite (later_slugs existing base n)"
  by (simp add: later_slugs_def)

function free_slug :: "string list \<Rightarrow> string \<Rightarrow> string \<Rightarrow> nat \<Rightarrow> string" where
  "free_slug existing base slug n =
     (if slug \<in> set existing then free_slug existing base (numbered base n) (Suc n) else slug)"
  by pat_completeness auto
termination
proof (relation "measure (\<lambda>(existing, base, slug, n). 2 * card (later_slugs existing base n) + (if slug \<in> set existing then 1 else 0))")
  fix existing base slug n assume slug: "slug \<in> set (existing :: string list)"
  have "2 * card (later_slugs existing base (Suc n)) + (if numbered base n \<in> set existing then 1 else 0)
      < 2 * card (later_slugs existing base n) + (1 :: nat)"
  proof (cases "numbered base n \<in> set existing")
    case True
    then have "numbered base n \<in> later_slugs existing base n" by (auto simp: later_slugs_def)
    from card_Suc_Diff1 [OF finite_later_slugs this] True show ?thesis by (simp add: later_slugs_Suc)
  next
    case False
    have "card (later_slugs existing base (Suc n)) \<le> card (later_slugs existing base n)"
      by (rule card_mono) (auto simp: later_slugs_Suc)
    with False show ?thesis by simp
  qed
  with slug show "((existing, base, numbered base n, Suc n), (existing, base, slug, n)) \<in> measure
      (\<lambda>(existing, base, slug, n). 2 * card (later_slugs existing base n) + (if slug \<in> set existing then 1 else 0))" by simp
qed simp

declare free_slug.simps [simp del]

lemma free_slug_free: "free_slug existing base slug n \<notin> set existing"
  by (induction existing base slug n rule: free_slug.induct) (subst free_slug.simps, simp)

subsection \<open>Patterns\<close>

definition admin_files :: "string list" where
  "admin_files = [''ops.json'', ''whitelist.json'', ''banned-players.json'', ''banned-ips.json'', ''usercache.json'']"

definition default_excludes :: string where
  "default_excludes = ''cache,logs''"

definition includes_for :: "string list \<Rightarrow> string \<Rightarrow> string \<times> string" where
  "includes_for categories world_dir =
     ((if ''all'' \<in> set categories then ''.''
       else (let parts =
           (if ''world'' \<in> set categories then [world_dir] else []) @
           (if ''mods'' \<in> set categories \<or> ''mods_jars'' \<in> set categories then [''mods''] else []) @
           (if ''config'' \<in> set categories then [''config'', ''server.properties''] else []) @
           (if ''admin'' \<in> set categories then admin_files else []);
         includes = join '','' parts
         in if includes = [] then ''.'' else includes)),
      default_excludes)"

subsection \<open>The file\<close>

text \<open>\<open>raw.get(key, default)\<close>.\<close>

definition jdefault :: "json \<Rightarrow> string \<Rightarrow> json \<Rightarrow> json" where
  "jdefault j k d = (if jhas j k then jget j k else d)"

fun is_number :: "json \<Rightarrow> bool" where
  "is_number (JInt i) = True"
| "is_number (JFloat r) = True"
| "is_number _ = False"

fun number_of :: "json \<Rightarrow> rat" where
  "number_of (JInt i) = of_int i"
| "number_of (JFloat r) = r"
| "number_of _ = 0"

definition null_or_text :: "json \<Rightarrow> bool" where
  "null_or_text j \<longleftrightarrow> j = JNull \<or> is_str j"

definition default_dest :: "json \<Rightarrow> json" where
  "default_dest raw = JStr (''profiles/'' @ str_of (jget raw ''id''))"

definition validate_raw :: "json \<Rightarrow> bool" where
  "validate_raw raw \<longleftrightarrow>
     is_str (jget raw ''id'') \<and> str_of (jget raw ''id'') \<noteq> [] \<and>
     is_str (jdefault raw ''name'' (jget raw ''id'')) \<and>
     is_arr (jdefault raw ''include'' (JArr [JStr ''all''])) \<and>
     list_all is_str (arr_items (jdefault raw ''include'' (JArr [JStr ''all'']))) \<and>
     is_str (jdefault raw ''dest'' (default_dest raw)) \<and>
     is_number (jdefault raw ''hours'' (JInt 0)) \<and>
     null_or_text (jget raw ''daily_at'') \<and>
     is_proper_int (jdefault raw ''retention_daily_days'' (JInt 0)) \<and>
     is_proper_int (jdefault raw ''retention_monthly_months'' (JInt 0)) \<and>
     is_bool (jdefault raw ''enabled'' (JBool True)) \<and>
     null_or_text (jget raw ''last_run'')"

definition text_option :: "json \<Rightarrow> string option" where
  "text_option j = (case j of JStr s \<Rightarrow> Some s | _ \<Rightarrow> None)"

text \<open>\<open>_to_profile\<close> of an entry that passed the check; \<open>None\<close> is the \<open>ValueError\<close> of a bad date.\<close>

definition to_profile :: "(string \<Rightarrow> datetime option) \<Rightarrow> json \<Rightarrow> backup_profile option" where
  "to_profile fromiso raw =
     (let p = (\<lambda>run. \<lparr>bp_id = str_of (jget raw ''id''), bp_name = str_of (jdefault raw ''name'' (jget raw ''id'')),
          bp_include = map str_of (arr_items (jdefault raw ''include'' (JArr [JStr ''all'']))),
          bp_dest = str_of (jdefault raw ''dest'' (default_dest raw)),
          bp_hours = number_of (jdefault raw ''hours'' (JInt 0)),
          bp_daily_at = text_option (jget raw ''daily_at''),
          bp_daily_days = int_of (jdefault raw ''retention_daily_days'' (JInt 0)),
          bp_monthly_months = int_of (jdefault raw ''retention_monthly_months'' (JInt 0)),
          bp_enabled = truthy (jdefault raw ''enabled'' (JBool True)), bp_last_run = run\<rparr>)
      in if truthy (jget raw ''last_run'') then map_option (\<lambda>t. p (Some t)) (fromiso (str_of (jget raw ''last_run'')))
         else Some (p None))"

definition opt_text :: "string option \<Rightarrow> json" where
  "opt_text x = (case x of Some s \<Rightarrow> JStr s | None \<Rightarrow> JNull)"

definition to_raw :: "backup_profile \<Rightarrow> json" where
  "to_raw p = JObj [(''id'', JStr (bp_id p)), (''name'', JStr (bp_name p)),
     (''include'', JArr (map JStr (bp_include p))), (''dest'', JStr (bp_dest p)), (''hours'', JFloat (bp_hours p)),
     (''daily_at'', opt_text (bp_daily_at p)), (''retention_daily_days'', JInt (bp_daily_days p)),
     (''retention_monthly_months'', JInt (bp_monthly_months p)), (''enabled'', JBool (bp_enabled p)),
     (''last_run'', opt_text (map_option isoformat (bp_last_run p)))]"

definition readable :: "(string \<Rightarrow> datetime option) \<Rightarrow> json \<Rightarrow> bool" where
  "readable fromiso raw \<longleftrightarrow> is_obj raw \<and> validate_raw raw \<and> to_profile fromiso raw \<noteq> None"

definition raw_id :: "json \<Rightarrow> string" where
  "raw_id raw = str_of (jget raw ''id'')"

text \<open>The loop of \<open>_load\<close> in its strict mode: an entry that is not readable, or a second one with an
  identifier already seen, ends it.\<close>

fun load_strict :: "(string \<Rightarrow> datetime option) \<Rightarrow> string list \<Rightarrow> json list \<Rightarrow> (json list) option" where
  "load_strict fromiso seen [] = Some []"
| "load_strict fromiso seen (raw # rest) =
     (if readable fromiso raw \<and> raw_id raw \<notin> set seen
      then map_option (Cons raw) (load_strict fromiso (raw_id raw # seen) rest) else None)"

definition bp_load :: "(string \<Rightarrow> datetime option) \<Rightarrow> bool \<Rightarrow> jfile \<Rightarrow> exn + json list" where
  "bp_load fromiso strict f = (case load_json is_obj (JObj []) strict f of
       Inl e \<Rightarrow> Inl e
     | Inr data \<Rightarrow>
         (let entries = jdefault data ''profiles'' (JArr []); bad = CorruptJsonError ''schema JSON inattendu'' in
          if \<not> is_arr entries then (if strict then Inl bad else Inr [])
          else if strict then (case load_strict fromiso [] (arr_items entries) of Some rs \<Rightarrow> Inr rs | None \<Rightarrow> Inl bad)
          else Inr (filter (readable fromiso) (arr_items entries))))"

definition bp_write :: "json list \<Rightarrow> jfile" where
  "bp_write rs = Doc (JObj [(''profiles'', JArr rs)])"

definition list_profiles :: "(string \<Rightarrow> datetime option) \<Rightarrow> jfile \<Rightarrow> backup_profile list" where
  "list_profiles fromiso f = (case bp_load fromiso False f of
       Inl e \<Rightarrow> []
     | Inr rs \<Rightarrow> List.map_filter (to_profile fromiso) rs)"

definition bp_get :: "(string \<Rightarrow> datetime option) \<Rightarrow> string \<Rightarrow> jfile \<Rightarrow> backup_profile option" where
  "bp_get fromiso i f = List.find (\<lambda>p. bp_id p = i) (list_profiles fromiso f)"

fun put_raw :: "string \<Rightarrow> json \<Rightarrow> json list \<Rightarrow> json list" where
  "put_raw i raw [] = [raw]"
| "put_raw i raw (r # rs) = (if raw_id r = i then raw # rs else r # put_raw i raw rs)"

definition bp_upsert :: "(string \<Rightarrow> datetime option) \<Rightarrow> backup_profile \<Rightarrow> jfile \<Rightarrow> exn + jfile" where
  "bp_upsert fromiso p f = (case bp_load fromiso True f of
       Inl e \<Rightarrow> Inl e
     | Inr rs \<Rightarrow> Inr (bp_write (put_raw (bp_id p) (to_raw p) rs)))"

text \<open>Whether there was such a profile, and the new file if there was.\<close>

definition bp_delete :: "(string \<Rightarrow> datetime option) \<Rightarrow> string \<Rightarrow> jfile \<Rightarrow> exn + (bool \<times> jfile option)" where
  "bp_delete fromiso i f = (case bp_load fromiso True f of
       Inl e \<Rightarrow> Inl e
     | Inr rs \<Rightarrow> (let kept = filter (\<lambda>r. raw_id r \<noteq> i) rs in
         if length kept = length rs then Inr (False, None) else Inr (True, Some (bp_write kept))))"

fun mark_raw :: "string \<Rightarrow> json \<Rightarrow> json list \<Rightarrow> json list" where
  "mark_raw i stamp [] = []"
| "mark_raw i stamp (r # rs) = (if raw_id r = i then jset ''last_run'' stamp r # rs else r # mark_raw i stamp rs)"

definition bp_mark_run :: "(string \<Rightarrow> datetime option) \<Rightarrow> string \<Rightarrow> datetime \<Rightarrow> jfile \<Rightarrow> exn + jfile" where
  "bp_mark_run fromiso i stamp f = (case bp_load fromiso True f of
       Inl e \<Rightarrow> Inl e
     | Inr rs \<Rightarrow> Inr (bp_write (mark_raw i (JStr (isoformat stamp)) rs)))"

text \<open>
  \<open>seed_from_legacy\<close>: the first profiles, from the schedule of the version before if there is one
  (its interval, its time of day and its last run). \<open>None\<close>: the file exists, nothing is written.
\<close>

definition seed_from_legacy :: "(rat \<times> string option \<times> datetime option) option \<Rightarrow> jfile \<Rightarrow> jfile option" where
  "seed_from_legacy schedule f =
     (if f \<noteq> Absent then None
      else Some (bp_write
        [to_raw \<lparr>bp_id = ''manual'', bp_name = ''Manuelles'', bp_include = [''all''], bp_dest = ''manual'', bp_hours = 0,
           bp_daily_at = None, bp_daily_days = 0, bp_monthly_months = 0, bp_enabled = True, bp_last_run = None\<rparr>,
         to_raw \<lparr>bp_id = ''auto'', bp_name = ''Automatiques'', bp_include = [''all''], bp_dest = ''scheduled'',
           bp_hours = (case schedule of Some (h, _, _) \<Rightarrow> h | None \<Rightarrow> 0),
           bp_daily_at = (case schedule of Some (_, d, _) \<Rightarrow> d | None \<Rightarrow> None),
           bp_daily_days = 30, bp_monthly_months = 12, bp_enabled = True,
           bp_last_run = (case schedule of Some (_, _, r) \<Rightarrow> r | None \<Rightarrow> None)\<rparr>]))"

subsection \<open>The file as a map\<close>

lemma load_strict_spec:
  "load_strict fromiso seen rs = Some rs' \<longleftrightarrow>
     rs' = rs \<and> list_all (readable fromiso) rs \<and> distinct (map raw_id rs) \<and> set (map raw_id rs) \<inter> set seen = {}"
  by (induction fromiso seen rs arbitrary: rs' rule: load_strict.induct) auto

text \<open>Entries that can be read strictly.\<close>

definition entries_ok :: "(string \<Rightarrow> datetime option) \<Rightarrow> json list \<Rightarrow> bool" where
  "entries_ok fromiso rs \<longleftrightarrow> list_all (readable fromiso) rs \<and> distinct (map raw_id rs)"

lemma load_written [simp]: "entries_ok fromiso rs \<Longrightarrow> bp_load fromiso strict (bp_write rs) = Inr rs"
proof -
  assume "entries_ok fromiso rs"
  then have "load_strict fromiso [] rs = Some rs" "filter (readable fromiso) rs = rs"
    by (auto simp: entries_ok_def load_strict_spec list_all_iff intro: filter_True)
  then show ?thesis by (simp add: bp_load_def bp_write_def load_json_def jdefault_def jhas_def Let_def)
qed

lemma load_strict_ok:
  assumes "bp_load fromiso True f = Inr rs"
  shows "entries_ok fromiso rs" "bp_load fromiso False f = Inr rs"
proof -
  from assms obtain data where d: "load_json is_obj (JObj []) True f = Inr data" "is_arr (jdefault data ''profiles'' (JArr []))"
    and "load_strict fromiso [] (arr_items (jdefault data ''profiles'' (JArr []))) = Some rs"
    by (auto simp: bp_load_def Let_def split: sum.splits if_splits option.splits)
  then have rs: "rs = arr_items (jdefault data ''profiles'' (JArr []))" and ok: "entries_ok fromiso rs"
    by (auto simp: load_strict_spec entries_ok_def)
  show "entries_ok fromiso rs" by (rule ok)
  have "load_json is_obj (JObj []) False f = Inr data"
    using d(1) by (auto simp: load_json_def split: jfile.splits if_splits)
  moreover have "filter (readable fromiso) rs = rs" using ok by (auto simp: entries_ok_def list_all_iff intro: filter_True)
  ultimately show "bp_load fromiso False f = Inr rs" using d(2) rs by (simp add: bp_load_def Let_def)
qed

definition entry_of :: "(string \<Rightarrow> datetime option) \<Rightarrow> json list \<Rightarrow> string \<Rightarrow> backup_profile option" where
  "entry_of fromiso rs i = Option.bind (map_of (map (\<lambda>r. (raw_id r, r)) rs) i) (to_profile fromiso)"

lemma to_profile_id: "to_profile fromiso r = Some p \<Longrightarrow> bp_id p = raw_id r"
  by (auto simp: to_profile_def raw_id_def Let_def split: if_splits)

lemma find_entry:
  "list_all (readable fromiso) rs \<Longrightarrow> List.find (\<lambda>p. bp_id p = i) (List.map_filter (to_profile fromiso) rs) = entry_of fromiso rs i"
proof (induction rs)
  case (Cons r rs)
  then obtain p where "to_profile fromiso r = Some p" by (auto simp: readable_def)
  with Cons to_profile_id [OF this] show ?case by (auto simp: List.map_filter_def entry_of_def)
qed (simp add: entry_of_def List.map_filter_def)

definition profiles_readable :: "(string \<Rightarrow> datetime option) \<Rightarrow> jfile \<Rightarrow> bool" where
  "profiles_readable fromiso f \<longleftrightarrow> (\<exists>rs. bp_load fromiso True f = Inr rs)"

definition profile_map :: "(string \<Rightarrow> datetime option) \<Rightarrow> jfile \<Rightarrow> (string \<rightharpoonup> backup_profile)" where
  "profile_map fromiso f i = bp_get fromiso i f"

lemma profile_map_loaded: "bp_load fromiso True f = Inr rs \<Longrightarrow> profile_map fromiso f = entry_of fromiso rs"
  using load_strict_ok [of fromiso f rs]
  by (auto simp: profile_map_def bp_get_def list_profiles_def entries_ok_def find_entry fun_eq_iff)

lemma profile_map_written: "entries_ok fromiso rs \<Longrightarrow> profile_map fromiso (bp_write rs) = entry_of fromiso rs"
  by (rule profile_map_loaded) simp

text \<open>A profile that has an identifier and a date that is read back as it was written.\<close>

definition valid_profile :: "(string \<Rightarrow> datetime option) \<Rightarrow> backup_profile \<Rightarrow> bool" where
  "valid_profile fromiso p \<longleftrightarrow> bp_id p \<noteq> [] \<and> (\<forall>t. bp_last_run p = Some t \<longrightarrow> fromiso (isoformat t) = Some t)"

lemma isoformat_nonempty: "isoformat t \<noteq> []"
  by (simp add: isoformat_def Let_def)

lemma to_profile_raw:
  assumes "valid_profile fromiso p"
  shows "to_profile fromiso (to_raw p) = Some p \<and> readable fromiso (to_raw p) \<and> raw_id (to_raw p) = bp_id p"
  using assms
  by (cases p; cases "bp_last_run p"; cases "bp_daily_at p")
    (auto simp: to_profile_def to_raw_def readable_def validate_raw_def raw_id_def jdefault_def jhas_def jget_def opt_text_def
      text_option_def null_or_text_def valid_profile_def isoformat_nonempty list_all_iff comp_def)

lemma put_raw_ok:
  assumes "entries_ok fromiso rs" "valid_profile fromiso p"
  shows "entries_ok fromiso (put_raw (bp_id p) (to_raw p) rs)"
    and "entry_of fromiso (put_raw (bp_id p) (to_raw p) rs) = (entry_of fromiso rs)(bp_id p \<mapsto> p)"
proof -
  note p = to_profile_raw [OF assms(2)]
  have ids: "set (map raw_id (put_raw (bp_id p) (to_raw p) rs)) = insert (bp_id p) (set (map raw_id rs))" for rs
    using p by (induction rs) auto
  show "entries_ok fromiso (put_raw (bp_id p) (to_raw p) rs)"
    using assms(1) p ids by (induction rs) (auto simp: entries_ok_def)
  show "entry_of fromiso (put_raw (bp_id p) (to_raw p) rs) = (entry_of fromiso rs)(bp_id p \<mapsto> p)"
    using p by (induction rs) (auto simp: entry_of_def fun_eq_iff)
qed

lemma kept_ok:
  assumes "entries_ok fromiso rs"
  shows "entries_ok fromiso (filter (\<lambda>r. raw_id r \<noteq> i) rs)"
    and "entry_of fromiso (filter (\<lambda>r. raw_id r \<noteq> i) rs) = (entry_of fromiso rs)(i := None)"
proof -
  show "entries_ok fromiso (filter (\<lambda>r. raw_id r \<noteq> i) rs)"
    using assms by (auto simp: entries_ok_def list_all_iff distinct_map_filter)
  show "entry_of fromiso (filter (\<lambda>r. raw_id r \<noteq> i) rs) = (entry_of fromiso rs)(i := None)"
    by (induction rs) (auto simp: entry_of_def fun_eq_iff)
qed

text \<open>The deletion as a change of the file: a profile that is not there leaves it as it is.\<close>

definition bp_without :: "(string \<Rightarrow> datetime option) \<Rightarrow> string \<Rightarrow> jfile \<Rightarrow> exn + jfile" where
  "bp_without fromiso i f = (case bp_delete fromiso i f of Inl e \<Rightarrow> Inl e | Inr (_, g) \<Rightarrow> Inr (case g of Some h \<Rightarrow> h | None \<Rightarrow> f))"

interpretation profiles: map_store "profiles_readable fromiso" "profile_map fromiso" bp_id "valid_profile fromiso"
    "bp_upsert fromiso" "bp_without fromiso" for fromiso
proof unfold_locales
  fix f p assume "profiles_readable fromiso f" and p: "valid_profile fromiso p"
  then obtain rs where rs: "bp_load fromiso True f = Inr rs" by (auto simp: profiles_readable_def)
  note ok = put_raw_ok [OF load_strict_ok(1) [OF rs] p]
  with rs show "\<exists>g. bp_upsert fromiso p f = Inr g \<and> profiles_readable fromiso g \<and>
      profile_map fromiso g = (profile_map fromiso f)(bp_id p \<mapsto> p)"
    by (auto simp: bp_upsert_def profiles_readable_def profile_map_written profile_map_loaded)
next
  fix f i assume "profiles_readable fromiso f"
  then obtain rs where rs: "bp_load fromiso True f = Inr rs" by (auto simp: profiles_readable_def)
  note ok = kept_ok [OF load_strict_ok(1) [OF rs], of i]
  show "\<exists>g. bp_without fromiso i f = Inr g \<and> profiles_readable fromiso g \<and>
      profile_map fromiso g = (profile_map fromiso f)(i := None)"
  proof (cases "length (filter (\<lambda>r. raw_id r \<noteq> i) rs) = length rs")
    case True
    then have "filter (\<lambda>r. raw_id r \<noteq> i) rs = rs" by (metis filter_True length_filter_less less_irrefl)
    with True rs ok show ?thesis
      by (auto simp: bp_without_def bp_delete_def profiles_readable_def profile_map_loaded)
  next
    case False
    with rs ok show ?thesis
      by (auto simp: bp_without_def bp_delete_def Let_def profiles_readable_def profile_map_written profile_map_loaded)
  qed
qed

text \<open>
  C32. The file of the profiles is a map: after any sequence of upserts of profiles with an
  identifier and of deletions, none of which fails, the listing finds under each identifier what
  a map changed the same way holds; a profile comes back as it was written. The dates of the
  profiles must be read back by \<open>fromisoformat\<close> as \<open>isoformat\<close> wrote them.
\<close>

theorem profiles_are_a_map:
  assumes "profiles_readable fromiso f" and "list_all (valid_change (valid_profile fromiso)) cs"
  shows "\<exists>g. change_store (bp_upsert fromiso) (bp_without fromiso) cs f = Inr g \<and>
    profile_map fromiso g = change_map bp_id cs (profile_map fromiso f)"
  using profiles.changes_refine [OF assms] by blast

definition nightly :: backup_profile where
  "nightly = \<lparr>bp_id = ''nuit'', bp_name = ''Nuit'', bp_include = [''world''], bp_dest = ''profiles/nuit'', bp_hours = 0,
     bp_daily_at = Some ''04:00'', bp_daily_days = 7, bp_monthly_months = 3, bp_enabled = True, bp_last_run = Some 0\<rparr>"

definition epoch_iso :: "string \<Rightarrow> datetime option" where
  "epoch_iso s = (if s = isoformat 0 then Some 0 else None)"

theorem profiles_are_a_map_witness:
  "\<exists>g. change_store (bp_upsert epoch_iso) (bp_without epoch_iso) [Put nightly, Del ''autre''] Absent = Inr g \<and>
    profile_map epoch_iso g ''nuit'' = Some nightly"
proof -
  have ok: "profiles_readable epoch_iso Absent"
    by (simp add: profiles_readable_def bp_load_def load_json_def jdefault_def jhas_def Let_def)
  have "list_all (valid_change (valid_profile epoch_iso)) [Put nightly, Del ''autre'']"
    by (simp add: valid_profile_def nightly_def epoch_iso_def)
  from profiles_are_a_map [OF ok this] show ?thesis by (force simp: nightly_def)
qed

end
