(* ===== verification/Service_Core.thy ===== *)
theory Service_Core
  imports Pending_Op_Levels Backup_Profiles
begin

text \<open>
  The core of the administration service, \<^verbatim>\<open>app/domain/services/base.py\<close>: its state, its ports, the
  audit log, the permission barrier, and the game port of \<^verbatim>\<open>app/adapters/rcon.py\<close> as far as commands
  and the reading of answers go.

  The service reaches the outside through ports. Every use of a port is an event of the
  \<open>journal\<close>, in the order in which it happens; what a port answers is a function of the journal so
  far, an arbitrary one, so that every later theorem holds whatever the outside answers and
  however its answers change. The stores that mc-admin keeps are part of the state; a write to one of
  their files may fail. Notifications never raise (\<^verbatim>\<open>CompositeNotifier\<close>).

  A port that is \<open>None\<close> in the code is a flag \<open>has_...\<close> that is false. Locks are not modelled:
  the bodies they protect are single steps here.
\<close>

subsection \<open>Events and ports\<close>

datatype worker = Minecraft | Doorman | OpLevels | Restore | SafetyBackup | ProfileBackup | Updater | AppUpdater

datatype docker_call =
    DStart | DStop "int option" | DRestart | DEngage string string | DRelease | DPrime string string
  | DApply | DRestore string | DTrigger | DProfile string string string string

datatype event =
    Sent string
  | Docker worker docker_call
  | Asked string
  | Looked worker
  | Stored string
  | Unlinked string
  | Audited audit_entry
  | Notified string string string string

record ports =
  container_name :: string
  clock_at :: "event list \<Rightarrow> datetime"
  utc_offset :: "datetime \<Rightarrow> int"
  rcon_at :: "event list \<Rightarrow> string \<Rightarrow> exn + string"
  docker_at :: "event list \<Rightarrow> worker \<Rightarrow> docker_call \<Rightarrow> exn option"
  running_at :: "event list \<Rightarrow> worker \<Rightarrow> exn + bool"
  exit_at :: "event list \<Rightarrow> worker \<Rightarrow> exn + int option"
  status_at :: "event list \<Rightarrow> exn + container_state"
  store_at :: "event list \<Rightarrow> string \<Rightarrow> exn option"
  store_late :: "event list \<Rightarrow> string \<Rightarrow> bool"
  audit_at :: "event list \<Rightarrow> exn option"
  ops_at :: "event list \<Rightarrow> exn + op_entry list"
  integrity_at :: "event list \<Rightarrow> string \<Rightarrow> exn + string list"
  version_at :: "event list \<Rightarrow> exn + string option"
  release_at :: "event list \<Rightarrow> (string \<times> datetime) option"
  self_image_at :: "event list \<Rightarrow> string"
  token_at :: "event list \<Rightarrow> string"
  fromiso :: "string \<Rightarrow> datetime option"
  show_g :: "rat \<Rightarrow> string"
  show_float :: "rat \<Rightarrow> string"
  show_json :: "json \<Rightarrow> string"
  thresholds :: "int list"
  archives_at :: "event list \<Rightarrow> exn + backup_archive list"
  resolves_at :: "event list \<Rightarrow> string \<Rightarrow> exn + bool"
  unlink_at :: "event list \<Rightarrow> string \<Rightarrow> bool"
  trigger_at :: "event list \<Rightarrow> worker \<Rightarrow> docker_call \<Rightarrow> exn + (bool \<times> string)"
  validate_at :: "event list \<Rightarrow> string \<Rightarrow> exn + archive_check"
  checks_at :: "event list \<Rightarrow> exn + (string \<times> archive_check) list"
  checking_at :: "event list \<Rightarrow> exn + string option"
  free_at :: "event list \<Rightarrow> exn + int option"
  world_dir :: string
  has_pending_ops :: bool
  has_op_apply :: bool
  has_doorman :: bool
  has_pending_maintenance :: bool
  has_recurring :: bool
  has_planned :: bool
  has_integrity :: bool
  has_restore :: bool
  has_profile_backup :: bool
  has_app_updater :: bool
  has_app_snooze :: bool
  has_pending_restore :: bool
  has_profiles :: bool
  has_checks :: bool
  has_validator :: bool

record svc =
  journal :: "event list"
  op_pending :: jfile
  op_applying :: jfile
  temp_bans :: jfile
  recurring :: jfile
  planned :: jfile
  restart_sched :: restart_schedule
  maint_sched :: maintenance_schedule
  op_levels_operation :: "(user \<times> permission \<times> string \<times> string) option"
  deferred :: "string list"
  waiting_restore :: "pending_restore option"
  restore_op :: "restore_operation option"
  update_operation :: "(string \<times> string option) option"
  app_snooze :: "(string \<times> datetime) option"
  profiles :: jfile
  backup_started :: "(string \<times> datetime) list"
  progress_max :: "(string \<times> int) list"
  backup_ids :: "(string \<times> string) list"
  active_profile :: "string option"
  backup_result :: "backup_outcome option"
  validating :: "string option"

subsection \<open>Using a port\<close>

definition log_event :: "event \<Rightarrow> (svc, unit) prog" where
  "log_event e = modM (\<lambda>s. s\<lparr>journal := journal s @ [e]\<rparr>)"

definition answer :: "event \<Rightarrow> (event list \<Rightarrow> exn + 'a) \<Rightarrow> (svc, 'a) prog" where
  "answer e f = bindM (getM journal) (\<lambda>j. thenM (log_event e)
     (case f j of Inl x \<Rightarrow> raiseM x | Inr v \<Rightarrow> retM v))"

definition now :: "ports \<Rightarrow> (svc, datetime) prog" where
  "now P = answer (Asked ''clock'') (\<lambda>j. Inr (clock_at P j))"

definition game_command :: "ports \<Rightarrow> string \<Rightarrow> (svc, string) prog" where
  "game_command P cmd = answer (Sent cmd) (\<lambda>j. rcon_at P j cmd)"

definition docker :: "ports \<Rightarrow> worker \<Rightarrow> docker_call \<Rightarrow> (svc, unit) prog" where
  "docker P w c = answer (Docker w c) (\<lambda>j. case docker_at P j w c of None \<Rightarrow> Inr () | Some e \<Rightarrow> Inl e)"

definition running :: "ports \<Rightarrow> worker \<Rightarrow> (svc, bool) prog" where
  "running P w = answer (Looked w) (\<lambda>j. running_at P j w)"

definition exit_code :: "ports \<Rightarrow> worker \<Rightarrow> (svc, int option) prog" where
  "exit_code P w = answer (Asked ''exit code'') (\<lambda>j. exit_at P j w)"

definition ask :: "string \<Rightarrow> (event list \<Rightarrow> exn + 'a) \<Rightarrow> (svc, 'a) prog" where
  "ask what f = answer (Asked what) f"

text \<open>\<open>except Exception as exc: ...; raise\<close>.\<close>

definition on_error :: "('s, 'a) prog \<Rightarrow> (exn \<Rightarrow> ('s, unit) prog) \<Rightarrow> ('s, 'a) prog" where
  "on_error m h = tryM m (\<lambda>e. thenM (h e) (raiseM e))"

text \<open>
  Writing a file: \<open>atomic_write_json\<close> replaces it as a whole. The write may fail and leave the file
  as before; or the last step, the synchronisation of the directory, fails and the error comes when
  the file is already replaced (\<open>store_late\<close>).
\<close>

definition write_file :: "ports \<Rightarrow> string \<Rightarrow> (svc \<Rightarrow> svc) \<Rightarrow> (svc, unit) prog" where
  "write_file P name f = bindM (getM journal) (\<lambda>j.
     thenM (on_error (answer (Stored name) (\<lambda>j. case store_at P j name of None \<Rightarrow> Inr () | Some e \<Rightarrow> Inl e))
              (\<lambda>_. whenM (store_late P j name) (modM f)))
       (modM f))"

text \<open>
  A mutation of a persistent store: what the strict read rejects is raised before anything is
  written. A mutation that finds nothing to change writes nothing.
\<close>

definition update_store :: "ports \<Rightarrow> string \<Rightarrow> (svc \<Rightarrow> jfile) \<Rightarrow> (jfile \<Rightarrow> svc \<Rightarrow> svc) \<Rightarrow>
    (jfile \<Rightarrow> exn + ('a \<times> jfile option)) \<Rightarrow> (svc, 'a) prog" where
  "update_store P name get put f = bindM (getM get) (\<lambda>file. case f file of
       Inl e \<Rightarrow> raiseM e
     | Inr (x, None) \<Rightarrow> retM x
     | Inr (x, Some g) \<Rightarrow> thenM (write_file P name (put g)) (retM x))"

definition always :: "(jfile \<Rightarrow> exn + jfile) \<Rightarrow> jfile \<Rightarrow> exn + (unit \<times> jfile option)" where
  "always f file = (case f file of Inl e \<Rightarrow> Inl e | Inr g \<Rightarrow> Inr ((), Some g))"

definition if_changed :: "(jfile \<Rightarrow> exn + ('a \<times> jfile)) \<Rightarrow> jfile \<Rightarrow> exn + ('a \<times> jfile option)" where
  "if_changed f file = (case f file of Inl e \<Rightarrow> Inl e | Inr (x, g) \<Rightarrow> Inr (x, if g = file then None else Some g))"

definition update_temp_bans :: "ports \<Rightarrow> (jfile \<Rightarrow> exn + jfile) \<Rightarrow> (svc, unit) prog" where
  "update_temp_bans P f = update_store P ''temp_bans'' temp_bans (\<lambda>g s. s\<lparr>temp_bans := g\<rparr>) (always f)"

definition update_op_pending :: "ports \<Rightarrow> (jfile \<Rightarrow> exn + jfile) \<Rightarrow> (svc, unit) prog" where
  "update_op_pending P f = update_store P ''op_levels'' op_pending (\<lambda>g s. s\<lparr>op_pending := g\<rparr>)
     (if_changed (\<lambda>file. case f file of Inl e \<Rightarrow> Inl e | Inr g \<Rightarrow> Inr ((), g)))"

definition update_recurring :: "ports \<Rightarrow> (jfile \<Rightarrow> exn + jfile) \<Rightarrow> (svc, unit) prog" where
  "update_recurring P f = update_store P ''recurring'' recurring (\<lambda>g s. s\<lparr>recurring := g\<rparr>) (always f)"

definition update_planned :: "ports \<Rightarrow> (jfile \<Rightarrow> exn + ('a \<times> jfile)) \<Rightarrow> (svc, 'a) prog" where
  "update_planned P f = update_store P ''planned'' planned (\<lambda>g s. s\<lparr>planned := g\<rparr>) (if_changed f)"

definition update_profiles :: "ports \<Rightarrow> (jfile \<Rightarrow> exn + ('a \<times> jfile option)) \<Rightarrow> (svc, 'a) prog" where
  "update_profiles P f = update_store P ''profiles'' profiles (\<lambda>g s. s\<lparr>profiles := g\<rparr>) f"

definition notify :: "string \<Rightarrow> string \<Rightarrow> string \<Rightarrow> string \<Rightarrow> (svc, unit) prog" where
  "notify title message level event = log_event (Notified title message level event)"

subsection \<open>Audit and permissions\<close>

definition record_audit :: "ports \<Rightarrow> user \<Rightarrow> permission \<Rightarrow> string \<Rightarrow> string \<Rightarrow> (svc, unit) prog" where
  "record_audit P u p outcome detail = bindM (now P) (\<lambda>t. bindM (getM journal) (\<lambda>j.
     case audit_at P j of
       Some e \<Rightarrow> raiseM e
     | None \<Rightarrow> log_event (Audited
         \<lparr>ae_timestamp = t, ae_username = username u, ae_role = role_name (user_role u),
          ae_action = permission_value p, ae_target = container_name P, ae_outcome = outcome, ae_detail = detail\<rparr>)))"

definition authorize :: "ports \<Rightarrow> user \<Rightarrow> permission \<Rightarrow> (svc, unit) prog" where
  "authorize P u p =
     (if can u p then retM ()
      else thenM (record_audit P u p ''denied'' [])
             (raiseM (PermissionDenied (username u) (permission_value p))))"

text \<open>The shape of most actions: one command, audited whether it succeeds or not.\<close>

definition audited_command :: "ports \<Rightarrow> user \<Rightarrow> permission \<Rightarrow> string \<Rightarrow> string \<Rightarrow> (svc, string) prog" where
  "audited_command P u p detail cmd =
     bindM (on_error (game_command P cmd) (\<lambda>_. record_audit P u p ''error'' detail))
       (\<lambda>result. thenM (record_audit P u p ''allowed'' detail) (retM result))"

text \<open>
  \<open>_refuse_if_maintenance\<close>: an action that would start the server is refused while the doorman is
  known to hold the address; a state that cannot be read does not block.
\<close>

definition refuse_if_maintenance :: "ports \<Rightarrow> user \<Rightarrow> permission \<Rightarrow> string \<Rightarrow> (svc, unit) prog" where
  "refuse_if_maintenance P u p hint =
     (if \<not> has_doorman P then retM ()
      else bindM (attemptM (running P Doorman)) (\<lambda>r. case r of
          Inr True \<Rightarrow>
            thenM (record_audit P u p ''denied'' ''bloque : serveur en maintenance'')
              (raiseM (MaintenanceUnavailable
                (''Le serveur est en maintenance : '' @ hint @ '' (le portier occupe son adresse reseau).'')))
        | _ \<Rightarrow> retM ()))"

text \<open>
  \<open>_restore_event\<close>: the fields whose value is not \<open>None\<close>, with newlines turned into spaces, quoted
  when they hold a space.
\<close>

definition event_field :: "string \<times> string \<Rightarrow> string" where
  "event_field kv = (case kv of (key, value) \<Rightarrow>
     (let text = strip (map (\<lambda>c. if c = CHR 0x0A then CHR '' '' else c) value);
          quoted = (if CHR '' '' \<in> set text
            then [CHR 0x22] @ map (\<lambda>c. if c = CHR 0x22 then CHR 0x27 else c) text @ [CHR 0x22] else text)
      in key @ ''='' @ quoted))"

definition restore_event :: "ports \<Rightarrow> user \<Rightarrow> string \<Rightarrow> string \<Rightarrow> (string \<times> string option) list \<Rightarrow> (svc, unit) prog" where
  "restore_event P u phase outcome kvs = record_audit P u BACKUP_RESTORE outcome
     (join '' '' ((''phase='' @ phase) #
        map event_field (List.map_filter (\<lambda>(k, v). map_option (Pair k) v) kvs)))"

text \<open>\<open>repr\<close> of a text, for the messages of exceptions.\<close>

definition py_repr :: "string \<Rightarrow> string" where
  "py_repr s =
     (let q = (if CHR 0x27 \<in> set s \<and> CHR 0x22 \<notin> set s then CHR 0x22 else CHR 0x27);
          hex = (\<lambda>n. if n < 10 then char_of (48 + n) else char_of (87 + n)) :: nat \<Rightarrow> char;
          esc = (\<lambda>c. if c = q \<or> c = CHR 0x5C then [CHR 0x5C, c]
                else if c = CHR 0x0A then [CHR 0x5C, CHR ''n''] else if c = CHR 0x0D then [CHR 0x5C, CHR ''r'']
                else if c = CHR 0x09 then [CHR 0x5C, CHR ''t'']
                else if code c < 32 \<or> (127 \<le> code c \<and> code c < 161) \<or> code c = 173
                then [CHR 0x5C, CHR ''x'', hex (code c div 16), hex (code c mod 16)] else [c])
      in [q] @ concat (map esc s) @ [q])"

subsection \<open>The game port\<close>

definition is_player_name :: "string \<Rightarrow> bool" where
  "is_player_name s \<longleftrightarrow>
     (let t = strip_final_newline s in 3 \<le> length t \<and> length t \<le> 16 \<and> list_all is_word_char t)"

definition after_colon :: "string \<Rightarrow> string" where
  "after_colon s = drop 1 (dropWhile (\<lambda>c. c \<noteq> CHR '':'') s)"

definition parse_name_list :: "string \<Rightarrow> string list" where
  "parse_name_list output =
     (if CHR '':'' \<notin> set output then []
      else filter (\<lambda>n. n \<noteq> []) (map strip (split_on (CHR '','') (after_colon output))))"

definition last_word :: "string \<Rightarrow> string" where
  "last_word s = rev (takeWhile (\<lambda>c. c \<noteq> CHR '' '') (rev s))"

definition strip_dots :: "string \<Rightarrow> string" where
  "strip_dots s = rev (dropWhile (\<lambda>c. c = CHR ''.'') (rev (dropWhile (\<lambda>c. c = CHR ''.'') s)))"

definition parse_difficulty :: "string \<Rightarrow> string option" where
  "parse_difficulty output =
     (let level = lower (strip_dots (strip (last_word output)))
      in if level \<in> {''peaceful'', ''easy'', ''normal'', ''hard''} then Some level else None)"

definition parse_gamerule :: "string \<Rightarrow> bool option" where
  "parse_gamerule output =
     (let value = last_word (lower (strip output))
      in if value = ''true'' then Some True else if value = ''false'' then Some False else None)"

definition is_rule_char :: "char \<Rightarrow> bool" where
  "is_rule_char c \<longleftrightarrow> (97 \<le> code c \<and> code c \<le> 122) \<or> is_dec c \<or> c = CHR ''_''"

text \<open>
  \<open>re.findall(r"/gamerule (?!minecraft:)([a-z0-9_]+)", output)\<close>: the matches from left to right. A
  match consumes its text, no match moves on by one character.
\<close>

function gamerule_names :: "string \<Rightarrow> string list" where
  "gamerule_names [] = []"
| "gamerule_names (c # cs) =
     (let rest = drop 10 (c # cs); name = takeWhile is_rule_char rest
      in if startswith (c # cs) ''/gamerule '' \<and> \<not> startswith rest ''minecraft:'' \<and> name \<noteq> []
         then name # gamerule_names (drop (length name) rest) else gamerule_names cs)"
  by pat_completeness auto
termination
  by (relation "measure length") auto

text \<open>\<open>sorted(set(names))\<close>.\<close>

definition list_gamerule_names :: "ports \<Rightarrow> (svc, string list) prog" where
  "list_gamerule_names P = bindM (game_command P ''help gamerule'') (\<lambda>out. retM (sort (remdups (gamerule_names out))))"

definition list_players :: "ports \<Rightarrow> (svc, string list) prog" where
  "list_players P = bindM (game_command P ''list'') (\<lambda>out. retM (parse_name_list out))"

definition say :: "ports \<Rightarrow> string \<Rightarrow> (svc, unit) prog" where
  "say P message = thenM (game_command P (''say '' @ message)) (retM ())"

definition save_all :: "ports \<Rightarrow> (svc, unit) prog" where
  "save_all P = thenM (game_command P ''save-all'') (retM ())"

definition kick_command :: "string \<Rightarrow> string \<Rightarrow> string" where
  "kick_command name reason = (if reason \<noteq> [] then ''kick '' @ name @ '' '' @ reason else ''kick '' @ name)"

definition ban_command :: "string \<Rightarrow> string \<Rightarrow> string" where
  "ban_command name reason = (if reason \<noteq> [] then ''ban '' @ name @ '' '' @ reason else ''ban '' @ name)"

subsection \<open>The journal only grows\<close>

definition grows :: "svc \<Rightarrow> svc \<Rightarrow> bool" where
  "grows s t \<longleftrightarrow> prefix (journal s) (journal t)"

interpretation grow: state_preorder grows
  by unfold_locales (auto simp: grows_def)

lemma grows_log [frame_rules]: "keeps grows (log_event e)"
  by (rule keepsI) (auto simp: log_event_def prog_simps grows_def)

lemma grows_mod: "(\<And>s. journal (f s) = journal s) \<Longrightarrow> keeps grows (modM f)"
  by (rule keepsI) (auto simp: prog_simps grows_def)

lemma grows_answer [frame_rules]: "keeps grows (answer e f)"
  unfolding answer_def by (intro grow.keeps_intros frame_rules) (auto split: sum.split intro: grow.keeps_intros)

lemma grows_ports [frame_rules]:
  "keeps grows (now P)" "keeps grows (game_command P c)" "keeps grows (docker P w d)" "keeps grows (running P w)"
  "keeps grows (exit_code P w)" "keeps grows (notify a b c' d')"
  unfolding now_def game_command_def docker_def running_def exit_code_def notify_def by (rule frame_rules)+

lemma grows_record [frame_rules]: "keeps grows (record_audit P u p outcome detail)"
  unfolding record_audit_def
  by (intro grow.keeps_intros frame_rules) (auto split: option.split intro: grow.keeps_intros frame_rules)

lemma grows_authorize [frame_rules]: "keeps grows (authorize P u p)"
  unfolding authorize_def by (intro grow.keeps_intros frame_rules)

subsection \<open>The permission barrier\<close>

text \<open>
  Without the permission, nothing happens but the refusal and its audit entry. (If the audit file
  cannot be written the refusal is an I/O error, and still nothing else happens.)
\<close>

definition refused :: "ports \<Rightarrow> user \<Rightarrow> permission \<Rightarrow> svc \<Rightarrow> (exn + 'a) \<times> svc \<Rightarrow> bool" where
  "refused P u p s out \<longleftrightarrow>
     (\<exists>e. fst out = Inl e \<and>
       (\<exists>es. snd out = s\<lparr>journal := journal s @ es\<rparr> \<and>
         (es = [Asked ''clock''] \<and> audit_at P (journal s @ es) = Some e \<or>
          e = PermissionDenied (username u) (permission_value p) \<and>
          (\<exists>a. es = [Asked ''clock'', Audited a] \<and> ae_username a = username u \<and>
             ae_action a = permission_value p \<and> ae_outcome a = ''denied''))))"

lemma authorize_allowed: "can u p \<Longrightarrow> authorize P u p = retM ()"
  by (simp add: authorize_def)

lemma record_audit_run:
  "record_audit P u p outcome detail s =
     (let j = journal s @ [Asked ''clock''] in
      case audit_at P j of
        Some e \<Rightarrow> (Inl e, s\<lparr>journal := j\<rparr>)
      | None \<Rightarrow> (Inr (), s\<lparr>journal := j @ [Audited
          \<lparr>ae_timestamp = clock_at P (journal s), ae_username = username u, ae_role = role_name (user_role u),
           ae_action = permission_value p, ae_target = container_name P, ae_outcome = outcome, ae_detail = detail\<rparr>]\<rparr>))"
  by (simp add: record_audit_def now_def answer_def log_event_def prog_simps Let_def split: option.split)

lemma authorize_refused:
  assumes "\<not> can u p"
  shows "refused P u p s (thenM (authorize P u p) m s)"
proof -
  have "authorize P u p s = (case record_audit P u p ''denied'' [] s of
      (Inl e, t) \<Rightarrow> (Inl e, t) | (Inr _, t) \<Rightarrow> (Inl (PermissionDenied (username u) (permission_value p)), t))"
    using assms by (simp add: authorize_def prog_simps split: prod.split sum.split)
  then show ?thesis
    by (auto simp: refused_def prog_simps record_audit_run Let_def split: option.split)
qed

text \<open>
  A service whose every request starts with the barrier of its permission. The requests of the
  components are shown to be one further down.
\<close>

locale guarded_service =
  fixes perform :: "ports \<Rightarrow> user \<Rightarrow> 'req \<Rightarrow> (svc, 'rep) prog"
    and required :: "'req \<Rightarrow> permission"
  assumes barrier: "\<exists>body. perform P u r = thenM (authorize P u (required r)) body"
begin

lemma denied: "\<not> can u (required r) \<Longrightarrow> refused P u (required r) s (perform P u r s)"
  using barrier [of P u r] authorize_refused by metis

text \<open>Whatever happens outside, no request has an effect before its permission was checked.\<close>

lemma effect_needs_right:
  assumes "snd (perform P u r s) \<noteq> s\<lparr>journal := journal (snd (perform P u r s))\<rparr> \<or>
      (\<exists>e \<in> set (drop (length (journal s)) (journal (snd (perform P u r s)))).
         case e of Asked q \<Rightarrow> q \<noteq> ''clock'' | Audited a \<Rightarrow> ae_outcome a \<noteq> ''denied'' | _ \<Rightarrow> True)"
  shows "can u (required r)"
  using assms denied [of u r P s] by (fastforce simp: refused_def)

end

end
