(* ===== verification/Moderation.thy ===== *)
theory Moderation
  imports Service_Core
begin

text \<open>
  Whitelist, operators, kicks and bans: \<^verbatim>\<open>app/domain/services/moderation.py\<close>, the part of
  \<^verbatim>\<open>actions.py\<close> that keeps operator changes out of a running application of levels, and the
  background lifting of temporary bans of \<^verbatim>\<open>app/tempban_scheduler.py\<close>.
\<close>

definition validate_player_name :: "string \<Rightarrow> (svc, unit) prog" where
  "validate_player_name name =
     (if is_player_name name then retM () else raiseM (InvalidPlayerName (''pseudo invalide : '' @ py_repr name)))"

subsection \<open>Whitelist\<close>

definition whitelist :: "ports \<Rightarrow> user \<Rightarrow> (svc, string list) prog" where
  "whitelist P u = thenM (authorize P u WHITELIST_MANAGE)
     (bindM (game_command P ''whitelist list'') (\<lambda>out. retM (parse_name_list out)))"

definition whitelist_add :: "ports \<Rightarrow> user \<Rightarrow> string \<Rightarrow> (svc, string) prog" where
  "whitelist_add P u name = thenM (authorize P u WHITELIST_MANAGE)
     (thenM (validate_player_name name)
        (audited_command P u WHITELIST_MANAGE (''add '' @ name) (''whitelist add '' @ name)))"

definition whitelist_remove :: "ports \<Rightarrow> user \<Rightarrow> string \<Rightarrow> (svc, string) prog" where
  "whitelist_remove P u name = thenM (authorize P u WHITELIST_MANAGE)
     (thenM (validate_player_name name)
        (audited_command P u WHITELIST_MANAGE (''remove '' @ name) (''whitelist remove '' @ name)))"

subsection \<open>Operators\<close>

definition ensure_op_levels_idle :: "ports \<Rightarrow> (svc, unit) prog" where
  "ensure_op_levels_idle P = bindM (getM op_levels_operation) (\<lambda>op.
     if op \<noteq> None then raiseM (OpLevelsUnavailable ''les niveaux OP sont en cours d application'')
     else if \<not> has_op_apply P then retM ()
     else bindM (tryM (running P OpLevels)
            (\<lambda>e. raiseM (OpLevelsUnavailable ''impossible de verifier l etat de l application des niveaux OP'')))
       (\<lambda>up. if up then raiseM (OpLevelsUnavailable ''les niveaux OP sont en cours d application'') else retM ()))"

definition ops :: "ports \<Rightarrow> user \<Rightarrow> (svc, op_entry list) prog" where
  "ops P u = thenM (authorize P u OP_MANAGE) (answer (Asked ''ops'') (ops_at P))"

definition list_pending_levels :: "ports \<Rightarrow> (svc, pending_op_level list) prog" where
  "list_pending_levels P =
     (if \<not> has_pending_ops P then retM []
      else bindM (getM op_pending) (\<lambda>p. bindM (getM op_applying) (\<lambda>a.
        case ol_list_pending p a of Inl e \<Rightarrow> raiseM e | Inr xs \<Rightarrow> retM xs)))"

definition pending_op_levels :: "ports \<Rightarrow> user \<Rightarrow> (svc, pending_op_level list) prog" where
  "pending_op_levels P u = thenM (authorize P u OP_MANAGE) (list_pending_levels P)"

text \<open>The level the operator file gives a name: \<open>None\<close> for no operator.\<close>

definition current_op_level :: "string \<Rightarrow> op_entry list \<Rightarrow> int option" where
  "current_op_level name es = map_option oe_level (find (\<lambda>e. lower (oe_name e) = lower name) es)"

definition effective_now :: "exn + op_entry list \<Rightarrow> string \<Rightarrow> int \<Rightarrow> bool" where
  "effective_now found name level = (case found of
       Inl e \<Rightarrow> False
     | Inr es \<Rightarrow> current_op_level name es = Some level \<or> current_op_level name es = None \<and> level = 4)"

definition remember_level :: "ports \<Rightarrow> string \<Rightarrow> int \<Rightarrow> bool \<Rightarrow> (svc, unit) prog" where
  "remember_level P name level immediate =
     (if \<not> has_pending_ops P
      then (if immediate then retM () else raiseM (OpLevelsUnavailable ''persistance des niveaux OP non configuree''))
      else if immediate then update_op_pending P (ol_remove name)
      else update_op_pending P (ol_set_level name level))"

definition op_add :: "ports \<Rightarrow> user \<Rightarrow> string \<Rightarrow> int \<Rightarrow> (svc, string) prog" where
  "op_add P u name level = thenM (authorize P u OP_MANAGE)
     (thenM (validate_player_name name)
     (if level \<notin> {1, 2, 3, 4} then raiseM (InvalidOpLevel (''niveau invalide : '' @ str_int level @ '' (doit etre 1 a 4)''))
      else thenM (on_error (ensure_op_levels_idle P)
             (\<lambda>e. record_audit P u OP_MANAGE ''error'' (''op '' @ name @ '' refuse : '' @ exn_str e)))
     (bindM (attemptM (answer (Asked ''ops'') (ops_at P))) (\<lambda>found.
      bindM (on_error (game_command P (''op '' @ name)) (\<lambda>_. record_audit P u OP_MANAGE ''error'' (''op '' @ name)))
     (\<lambda>result.
        let immediate = effective_now found name level in
        thenM (tryM (remember_level P name level immediate)
          (\<lambda>_. thenM (record_audit P u OP_MANAGE ''error''
                 (''op '' @ name @ '' reussi, mais niveau '' @ str_int level @ '' non enregistre''))
               (raiseM (OpLevelsUnavailable
                 (name @ '' est operateur, mais le niveau '' @ str_int level @ '' n a pas pu etre enregistre'')))))
       (thenM (record_audit P u OP_MANAGE ''allowed'' (''op '' @ name @ '' niveau '' @ str_int level @
           (if immediate then '' (effectif immediatement)'' else '' (op immediat, niveau au prochain redemarrage)'')))
       (thenM (notify ''Moderation''
           (if immediate then username u @ '' a promu '' @ name @ '' operateur (niveau '' @ str_int level @ '').''
            else username u @ '' a promu '' @ name @ '' operateur. Niveau '' @ str_int level @ '' prevu au prochain redemarrage.'')
           ''info'' ''moderation'')
         (retM result))))))))"

definition op_remove :: "ports \<Rightarrow> user \<Rightarrow> string \<Rightarrow> (svc, string) prog" where
  "op_remove P u name = thenM (authorize P u OP_MANAGE)
     (thenM (validate_player_name name)
     (thenM (on_error (ensure_op_levels_idle P)
             (\<lambda>e. record_audit P u OP_MANAGE ''error'' (''deop '' @ name @ '' refuse : '' @ exn_str e)))
     (bindM (on_error (game_command P (''deop '' @ name)) (\<lambda>_. record_audit P u OP_MANAGE ''error'' (''deop '' @ name)))
     (\<lambda>result.
        thenM (whenM (has_pending_ops P) (tryM (update_op_pending P (ol_remove name))
          (\<lambda>_. thenM (record_audit P u OP_MANAGE ''error''
                 (''deop '' @ name @ '' reussi, annulation du niveau en attente impossible''))
               (raiseM (OpLevelsUnavailable
                 (name @ '' n est plus operateur, mais son niveau en attente n a pas pu etre supprime''))))))
       (thenM (record_audit P u OP_MANAGE ''allowed'' (''deop '' @ name)) (retM result))))))"

subsection \<open>Kick and ban\<close>

definition sanitize_reason :: "string \<Rightarrow> string" where
  "sanitize_reason reason = take 200 (join '' '' (split_ws reason))"

definition in_parens :: "string \<Rightarrow> string" where
  "in_parens reason = (if reason \<noteq> [] then '' ('' @ reason @ '')'' else [])"

definition kick :: "ports \<Rightarrow> user \<Rightarrow> string \<Rightarrow> string \<Rightarrow> (svc, string) prog" where
  "kick P u name reason0 = thenM (authorize P u KICK)
     (thenM (validate_player_name name)
     (let reason = sanitize_reason reason0; detail = ''kick '' @ name @ in_parens reason in
      bindM (audited_command P u KICK detail (kick_command name reason))
     (\<lambda>result. thenM (notify ''Moderation'' (username u @ '' a exclu '' @ name @ in_parens reason @ ''.'') ''info'' ''moderation'')
       (retM result))))"

definition bans :: "ports \<Rightarrow> user \<Rightarrow> (event list \<Rightarrow> exn + 'b list) \<Rightarrow> (svc, 'b list) prog" where
  "bans P u list_bans = thenM (authorize P u BAN_MANAGE) (answer (Asked ''bans'') list_bans)"

definition ban :: "ports \<Rightarrow> user \<Rightarrow> string \<Rightarrow> string \<Rightarrow> (svc, string) prog" where
  "ban P u name reason0 = thenM (authorize P u BAN_MANAGE)
     (thenM (validate_player_name name)
     (let reason = sanitize_reason reason0; detail = ''ban '' @ name @ in_parens reason in
      bindM (on_error (game_command P (ban_command name reason)) (\<lambda>_. record_audit P u BAN_MANAGE ''error'' detail))
     (\<lambda>result.
        thenM (update_temp_bans P (tb_cancel name))
       (thenM (record_audit P u BAN_MANAGE ''allowed'' detail)
       (thenM (notify ''Moderation'' (username u @ '' a banni '' @ name @ in_parens reason @ ''.'') ''info'' ''moderation'')
         (retM result))))))"

definition ban_temporary :: "ports \<Rightarrow> user \<Rightarrow> string \<Rightarrow> rat \<Rightarrow> string \<Rightarrow> (svc, string) prog" where
  "ban_temporary P u name hours reason0 = thenM (authorize P u BAN_MANAGE)
     (thenM (validate_player_name name)
     (if hours \<le> 0 then raiseM (InvalidDuration (''duree invalide : '' @ show_float P hours @ ''h (doit etre > 0)''))
      else (let reason = sanitize_reason reason0;
                detail = ''ban '' @ name @ '' pendant '' @ show_g P hours @ ''h'' @ in_parens reason in
      bindM (on_error (game_command P (ban_command name reason)) (\<lambda>_. record_audit P u BAN_MANAGE ''error'' detail))
     (\<lambda>result. bindM (now P) (\<lambda>t.
        thenM (update_temp_bans P (tb_cancel name))
       (thenM (update_temp_bans P (tb_schedule name (t + seconds_delta (hours * 3600))))
       (thenM (record_audit P u BAN_MANAGE ''allowed'' detail) (retM result))))))))"

definition pending_unbans :: "ports \<Rightarrow> user \<Rightarrow> (svc, pending_unban list) prog" where
  "pending_unbans P u = thenM (authorize P u BAN_MANAGE) (getM (\<lambda>s. tb_pending (fromiso P) (temp_bans s)))"

definition pardon :: "ports \<Rightarrow> user \<Rightarrow> string \<Rightarrow> (svc, string) prog" where
  "pardon P u name = thenM (authorize P u BAN_MANAGE)
     (thenM (validate_player_name name)
     (bindM (on_error (game_command P (''pardon '' @ name)) (\<lambda>_. record_audit P u BAN_MANAGE ''error'' (''pardon '' @ name)))
     (\<lambda>result.
        thenM (update_temp_bans P (tb_cancel name))
       (thenM (record_audit P u BAN_MANAGE ''allowed'' (''pardon '' @ name))
       (thenM (notify ''Moderation'' (username u @ '' a debanni '' @ name @ ''.'') ''info'' ''moderation'')
         (retM result))))))"

subsection \<open>The background lifting of temporary bans\<close>

definition automation :: "string \<Rightarrow> permission set \<Rightarrow> user" where
  "automation name perms = \<lparr>username = name, user_role = \<lparr>role_name = ''automation'', permissions = perms, grants_all = False\<rparr>\<rparr>"

definition auto_unban_user :: user where
  "auto_unban_user = automation ''auto-unban'' {BAN_MANAGE}"

text \<open>One round of \<open>TempBanScheduler._run\<close>: each ban that is due is lifted; an error is skipped.\<close>

definition unban_round :: "ports \<Rightarrow> (svc, unit) prog" where
  "unban_round P = bindM (now P) (\<lambda>t. bindM (getM (\<lambda>s. tb_due (fromiso P) t (temp_bans s))) (\<lambda>due.
     forM due (\<lambda>entry. ignoreM (pardon P auto_unban_user (pu_player entry)))))"

end
