(* ===== verification/Actions.thy ===== *)
theory Actions
  imports Moderation
begin

text \<open>
  Start, restart, announced and daily restarts: \<^verbatim>\<open>app/domain/services/actions.py\<close>, with the end
  of a server update that its background tick observes (\<^verbatim>\<open>app/domain/services/update.py\<close>) and the
  identity of \<^verbatim>\<open>app/restart_scheduler.py\<close>.
\<close>

definition restart_at_id :: "datetime \<Rightarrow> string" where
  "restart_at_id t = ''restart::'' @ isoformat t"

subsection \<open>Operator levels at a restart\<close>

definition begin_op_levels_apply :: "ports \<Rightarrow> user \<Rightarrow> permission \<Rightarrow> string \<Rightarrow> string \<Rightarrow> (svc, unit) prog" where
  "begin_op_levels_apply P u p operation_id requested_by =
     (if \<not> has_op_apply P
      then raiseM (OpLevelsUnavailable ''niveaux OP en attente, mais leur outil d application n est pas configure'')
      else bindM (getM op_levels_operation) (\<lambda>op.
        if op \<noteq> None then raiseM (OpLevelsUnavailable ''une application des niveaux OP est deja en cours'')
        else thenM (docker P OpLevels DApply)
               (modM (\<lambda>s. s\<lparr>op_levels_operation := Some (u, p, operation_id, requested_by)\<rparr>))))"

definition op_levels_outcome :: "ports \<Rightarrow> user \<times> permission \<times> string \<times> string \<Rightarrow> int \<Rightarrow> (svc, unit) prog" where
  "op_levels_outcome P op rc = (case op of (u, p, operation_id, requested_by) \<Rightarrow>
     (let common = ''requested_by='' @ requested_by @ '' operation_id='' @ operation_id in
      if rc = 0 then
        thenM (record_audit P u p ''allowed'' (''phase=op_levels_applied '' @ common))
          (notify ''Niveaux OP appliques'' ''Minecraft est de nouveau en ligne avec les niveaux demandes.'' ''info'' ''restart'')
      else
        thenM (record_audit P u p ''error'' (''phase=op_levels_failed exit_code='' @ str_int rc @ '' '' @ common))
          (notify ''Niveaux OP non appliques'' (''L operation a echoue (code '' @ str_int rc @
             ''). Le retour a la configuration precedente a ete tente.'') ''error'' ''restart'')))"

definition tick_op_levels_operation :: "ports \<Rightarrow> (svc, unit) prog" where
  "tick_op_levels_operation P = bindM (getM op_levels_operation) (\<lambda>op. case op of
       None \<Rightarrow> retM ()
     | Some operation \<Rightarrow>
         if \<not> has_op_apply P then retM ()
         else bindM (attemptM (bindM (running P OpLevels) (\<lambda>up.
                if up then retM None else exit_code P OpLevels))) (\<lambda>r. case r of
             Inr (Some rc) \<Rightarrow>
               thenM (modM (\<lambda>s. s\<lparr>op_levels_operation := None\<rparr>)) (op_levels_outcome P operation rc)
           | _ \<Rightarrow> retM ()))"

subsection \<open>Restart and start\<close>

text \<open>
  \<open>restart\<close>: with levels waiting, the worker that applies them restarts the server; otherwise the
  container is restarted. The result says which.
\<close>

definition restart_core :: "ports \<Rightarrow> user \<Rightarrow> permission \<Rightarrow> string \<Rightarrow> string \<Rightarrow> docker_call \<Rightarrow> (svc, pending_op_level list) prog" where
  "restart_core P u p op_id requester call = bindM (list_pending_levels P) (\<lambda>levels.
     thenM (if levels \<noteq> [] then begin_op_levels_apply P u p op_id requester else docker P Minecraft call)
       (retM levels))"

definition levels_detail :: "pending_op_level list \<Rightarrow> string \<Rightarrow> string \<Rightarrow> string" where
  "levels_detail levels requester op_id =
     (if levels = [] then []
      else ''phase=op_levels_started count='' @ str_nat (length levels) @ '' requested_by='' @ requester @
        '' operation_id='' @ op_id)"

definition restart :: "ports \<Rightarrow> user \<Rightarrow> string option \<Rightarrow> string option \<Rightarrow> (svc, bool) prog" where
  "restart P u operation_id requested_by = thenM (authorize P u RESTART)
     (thenM (refuse_if_maintenance P u RESTART ''utilise Rouvrir le serveur'')
     (let requester = (case requested_by of Some r \<Rightarrow> if r = [] then username u else r | None \<Rightarrow> username u) in
      bindM (case operation_id of
          Some i \<Rightarrow> if i = [] then bindM (now P) (\<lambda>t. retM (''op-levels::'' @ isoformat t @ ''::'' @ requester)) else retM i
        | None \<Rightarrow> bindM (now P) (\<lambda>t. retM (''op-levels::'' @ isoformat t @ ''::'' @ requester))) (\<lambda>op_id.
      bindM (on_error (restart_core P u RESTART op_id requester DRestart)
          (\<lambda>e. thenM (record_audit P u RESTART ''error'' (exn_str e))
                 (notify ''Redemarrage echoue'' (exn_str e) ''error'' []))) (\<lambda>levels.
      thenM (record_audit P u RESTART ''allowed'' (levels_detail levels requester op_id))
     (thenM (notify (if levels \<noteq> [] then ''Redemarrage lance'' else ''Serveur redemarre'')
          (''Demande par '' @ requester @ ''.'' @
             (if levels \<noteq> [] then '' Les niveaux OP en attente vont etre appliques.'' else []))
          ''info'' ''restart'')
        (retM (levels \<noteq> [])))))))"

definition start_server :: "ports \<Rightarrow> user \<Rightarrow> (svc, unit) prog" where
  "start_server P u = thenM (authorize P u START)
     (thenM (refuse_if_maintenance P u START ''utilise Rouvrir le serveur'')
     (bindM (now P) (\<lambda>t.
      let op_id = ''op-levels::'' @ isoformat t @ ''::'' @ username u in
      bindM (on_error (restart_core P u START op_id (username u) DStart)
          (\<lambda>e. thenM (record_audit P u START ''error'' (exn_str e))
                 (notify ''Demarrage echoue'' (exn_str e) ''error'' []))) (\<lambda>levels.
        record_audit P u START ''allowed'' (levels_detail levels (username u) op_id)))))"

subsection \<open>Not while players are connected\<close>

definition server_confirmed_empty :: "ports \<Rightarrow> (svc, bool) prog" where
  "server_confirmed_empty P = tryM (bindM (list_players P) (\<lambda>ps. retM (ps = []))) (\<lambda>_. retM False)"

definition note_deferred_once :: "ports \<Rightarrow> user \<Rightarrow> permission \<Rightarrow> string \<Rightarrow> string \<Rightarrow> (svc, unit) prog" where
  "note_deferred_once P u p operation_id label = bindM (getM deferred) (\<lambda>ds.
     if operation_id \<in> set ds then retM ()
     else thenM (modM (\<lambda>s. s\<lparr>deferred := operation_id # deferred s\<rparr>))
         (thenM (ignoreM (say P (label @ '' reporte : il aura lieu des que le serveur sera vide.'')))
         (thenM (notify (label @ '' reporte'')
              ''Des joueurs sont connectes : l operation programmee attend que le serveur soit vide avant de s executer.''
              ''info'' ''restart'')
           (record_audit P u p ''allowed'' (''phase=deferred_players_online operation_id='' @ operation_id)))))"

definition forget_deferred :: "string \<Rightarrow> (svc, unit) prog" where
  "forget_deferred operation_id = modM (\<lambda>s. s\<lparr>deferred := removeAll operation_id (deferred s)\<rparr>)"

subsection \<open>The announced restart\<close>

definition schedule_restart :: "ports \<Rightarrow> user \<Rightarrow> rat \<Rightarrow> bool \<Rightarrow> (svc, unit) prog" where
  "schedule_restart P u minutes defer = thenM (authorize P u RESTART)
     (if minutes \<le> 0 then raiseM (InvalidDuration (''delai invalide : '' @ show_float P minutes @ ''min (doit etre > 0)''))
      else bindM (now P) (\<lambda>t.
        let at_time = t + seconds_delta (minutes * 60); delay_txt = format_seconds (trunc_rat (minutes * 60)) in
        thenM (modM (\<lambda>s. s\<lparr>restart_sched := rs_schedule (thresholds P) at_time (username u) (minutes * 60) defer (restart_sched s)\<rparr>))
       (thenM (ignoreM (say P (''Redemarrage du serveur programme dans '' @ delay_txt @ ''.'')))
         (record_audit P u RESTART ''allowed'' (''phase=restart_scheduled delay='' @ [CHR 0x22] @ delay_txt @ [CHR 0x22] @
            '' requested_by='' @ username u @ '' operation_id='' @ restart_at_id at_time)))))"

definition cancel_restart :: "(svc, bool) prog" where
  "cancel_restart = bindM (getM restart_sched) (\<lambda>r. case rs_cancel r of (had, r') \<Rightarrow>
     thenM (modM (\<lambda>s. s\<lparr>restart_sched := r'\<rparr>)) (retM had))"

definition cancel_scheduled_restart :: "ports \<Rightarrow> user \<Rightarrow> (svc, unit) prog" where
  "cancel_scheduled_restart P u = thenM (authorize P u RESTART)
     (bindM (getM (\<lambda>s. rs_state (restart_sched s))) (\<lambda>pending. bindM cancel_restart (\<lambda>had.
        case (had, pending) of
          (True, Some r) \<Rightarrow>
            thenM (forget_deferred (restart_at_id (restart_at r)))
              (record_audit P u RESTART ''allowed'' (''phase=restart_cancelled requested_by='' @ username u @
                 '' operation_id='' @ restart_at_id (restart_at r)))
        | _ \<Rightarrow> record_audit P u RESTART ''allowed'' ''rien a annuler'')))"

definition scheduled_restart_status :: "ports \<Rightarrow> user \<Rightarrow> (svc, scheduled_restart option) prog" where
  "scheduled_restart_status P u = thenM (authorize P u RESTART) (getM (\<lambda>s. rs_state (restart_sched s)))"

subsection \<open>The daily restart\<close>

definition set_recurring_restart :: "ports \<Rightarrow> user \<Rightarrow> string \<Rightarrow> int \<Rightarrow> bool \<Rightarrow> (svc, unit) prog" where
  "set_recurring_restart P u time lead defer = thenM (authorize P u RESTART)
     (if \<not> hhmm_match time then raiseM (InvalidDuration (''heure invalide : '' @ py_repr time @ '' (attendu HH:MM)''))
      else if lead \<le> 0 then raiseM (InvalidDuration (''preavis invalide : '' @ str_int lead @ ''s (doit etre > 0)''))
      else if \<not> has_recurring P then raiseM (ServerUnavailable ''redemarrage recurrent non configure cote serveur'')
      else thenM (update_recurring P (rr_set_config \<lparr>rr_time = time, rr_lead = lead, rr_defer = defer\<rparr>))
        (record_audit P u RESTART ''allowed'' (''redemarrage recurrent active : tous les jours a '' @ time @
           '' (preavis '' @ format_seconds lead @ '')'' @ (if defer then '' - attend le serveur vide'' else []))))"

definition clear_recurring_restart :: "ports \<Rightarrow> user \<Rightarrow> (svc, unit) prog" where
  "clear_recurring_restart P u = thenM (authorize P u RESTART)
     (thenM (whenM (has_recurring P) (update_recurring P rr_clear))
       (record_audit P u RESTART ''allowed'' ''redemarrage recurrent desactive''))"

definition recurring_restart_status :: "ports \<Rightarrow> user \<Rightarrow> (svc, recurring_restart option) prog" where
  "recurring_restart_status P u = thenM (authorize P u RESTART)
     (if has_recurring P then getM (\<lambda>s. rr_get (recurring s)) else retM None)"

definition tick_recurring_restart :: "ports \<Rightarrow> user \<Rightarrow> (svc, unit) prog" where
  "tick_recurring_restart P u =
     (if \<not> has_recurring P then retM ()
      else bindM (getM (\<lambda>s. rr_get (recurring s))) (\<lambda>cfg. case cfg of
        None \<Rightarrow> retM ()
      | Some c \<Rightarrow> bindM (now P) (\<lambda>t.
          let offset = utc_offset P t; today = iso_date (local_day offset t) in
          bindM (getM (\<lambda>s. rr_last_fired (recurring s))) (\<lambda>fired.
          if fired = Some today then retM ()
          else (case parse_hhmm (rr_time c) of
              None \<Rightarrow> raiseM (ValueError ''invalid time'')
            | Some hm \<Rightarrow>
                if \<not> hour_minute_ok hm then raiseM (ValueError ''hour must be in 0..23'')
                else (let target = local_at offset t (fst hm) (snd hm); remaining = total_seconds (target - t) in
                  if target \<le> t then update_recurring P (rr_mark_fired today)
                  else if of_int (rr_lead c) < remaining then retM ()
                  else thenM (bindM (getM (\<lambda>s. rs_state (restart_sched s))) (\<lambda>pending. whenM (pending = None)
                         (thenM (modM (\<lambda>s. s\<lparr>restart_sched :=
                              rs_schedule (thresholds P) target (username u) remaining (rr_defer c) (restart_sched s)\<rparr>))
                         (thenM (ignoreM (say P (''Redemarrage quotidien programme dans '' @ format_seconds (trunc_rat remaining) @ ''.'')))
                           (record_audit P u RESTART ''allowed'' (''redemarrage recurrent arme pour '' @ rr_time c))))))
                       (update_recurring P (rr_mark_fired today))))))))"

subsection \<open>The end of a server update\<close>

definition update_watch_user :: user where
  "update_watch_user = automation ''update-watch'' {UPDATE}"

definition update_done_text :: "string option \<Rightarrow> string option \<Rightarrow> string" where
  "update_done_text old new = (case new of
       Some v \<Rightarrow>
         if v = [] then ''Le serveur a ete mis a jour.''
         else (case old of
             Some w \<Rightarrow> if w \<noteq> [] \<and> v \<noteq> w then ''Le serveur est passe de la version '' @ w @ '' a '' @ v @ ''.''
               else ''Le serveur tourne en version '' @ v @ ''.''
           | None \<Rightarrow> ''Le serveur tourne en version '' @ v @ ''.'')
     | None \<Rightarrow> ''Le serveur a ete mis a jour.'')"

definition or_question :: "string option \<Rightarrow> string" where
  "or_question v = (case v of Some w \<Rightarrow> if w = [] then ''?'' else w | None \<Rightarrow> ''?'')"

definition version_or_none :: "exn + string option \<Rightarrow> string option" where
  "version_or_none r = (case r of Inr v \<Rightarrow> v | Inl e \<Rightarrow> None)"

definition scan_update_outcome :: "ports \<Rightarrow> (svc, unit) prog" where
  "scan_update_outcome P = bindM (getM update_operation) (\<lambda>op. case op of
       None \<Rightarrow> retM ()
     | Some (operation_id, old) \<Rightarrow> bindM (attemptM (running P Updater)) (\<lambda>r. case r of
         Inr False \<Rightarrow>
           thenM (modM (\<lambda>s. s\<lparr>update_operation := None\<rparr>))
          (bindM (attemptM (exit_code P Updater)) (\<lambda>c.
           let rc = (case c of Inr (Some k) \<Rightarrow> k | _ \<Rightarrow> 0) in
             if rc \<noteq> 0 then
               thenM (record_audit P update_watch_user UPDATE ''error''
                   (''phase=update_failed exit_code='' @ str_int rc @ '' operation_id='' @ operation_id))
                 (notify ''Mise a jour du serveur echouee'' (''Le conteneur de mise a jour s est arrete en erreur (code '' @
                    str_int rc @ ''). Le serveur n a peut-etre pas redemarre - verifier son etat.'') ''error'' ''update'')
             else bindM (attemptM (ask ''version'' (version_at P))) (\<lambda>v.
               thenM (record_audit P update_watch_user UPDATE ''allowed''
                   (''phase=update_done version='' @ or_question (version_or_none v) @ '' operation_id='' @ operation_id))
                 (notify ''Serveur mis a jour'' (update_done_text old (version_or_none v)) ''info'' ''update''))))
       | _ \<Rightarrow> retM ()))"

subsection \<open>The background tick\<close>

definition scheduled_restart_user :: user where
  "scheduled_restart_user = automation ''scheduled-restart'' {RESTART}"

text \<open>The worker of the operator levels is not at work and its state can be read.\<close>

definition op_levels_free :: "ports \<Rightarrow> (svc, bool) prog" where
  "op_levels_free P = bindM (getM op_levels_operation) (\<lambda>op.
     if op \<noteq> None then retM False
     else if \<not> has_op_apply P then retM True
     else tryM (bindM (running P OpLevels) (\<lambda>up. retM (\<not> up))) (\<lambda>_. retM False))"

definition fire_restart :: "ports \<Rightarrow> user \<Rightarrow> scheduled_restart \<Rightarrow> (svc, unit) prog" where
  "fire_restart P u pending =
     (let operation_id = restart_at_id (restart_at pending) in
      thenM (forget_deferred operation_id)
     (bindM (op_levels_free P) (\<lambda>free. whenM free
       (thenM (ignoreM (thenM (say P ''Redemarrage du serveur en cours...'') (save_all P)))
       (thenM cancel_restart
       (bindM (restart P u (Some operation_id) (Some (scheduled_by pending))) (\<lambda>levels.
         whenM (\<not> levels) (record_audit P u RESTART ''allowed'' (''phase=restart_done operation_id='' @ operation_id)))))))))"

definition warn_restart :: "ports \<Rightarrow> datetime \<Rightarrow> (svc, unit) prog" where
  "warn_restart P t = bindM (getM restart_sched) (\<lambda>r. case rs_take_due_warning (thresholds P) t r of (w, r') \<Rightarrow>
     thenM (modM (\<lambda>s. s\<lparr>restart_sched := r'\<rparr>))
       (case w of None \<Rightarrow> retM ()
        | Some th \<Rightarrow> ignoreM (say P (''Redemarrage du serveur programme dans '' @ format_seconds th))))"

definition tick_scheduled_restart :: "ports \<Rightarrow> user \<Rightarrow> (svc, unit) prog" where
  "tick_scheduled_restart P u = thenM (authorize P u RESTART)
     (thenM (tick_op_levels_operation P)
     (thenM (scan_update_outcome P)
     (thenM (tick_recurring_restart P u)
     (bindM (getM (\<lambda>s. rs_state (restart_sched s))) (\<lambda>state. case state of
        None \<Rightarrow> retM ()
      | Some pending \<Rightarrow> bindM (now P) (\<lambda>t.
          if restart_at pending \<le> t then
            bindM (if sr_defer pending then server_confirmed_empty P else retM True) (\<lambda>go.
              if go then fire_restart P u pending
              else note_deferred_once P u RESTART (restart_at_id (restart_at pending)) ''Redemarrage'')
          else warn_restart P t))))))"

end
