(* ===== verification/Maintenance.thy ===== *)
theory Maintenance
  imports Actions
begin

text \<open>
  Maintenance mode, \<^verbatim>\<open>app/domain/services/maintenance.py\<close>: the announced closing of the server, the
  doorman that takes its address, the reopening, and the planned maintenances; with the test for a
  restore in progress of \<^verbatim>\<open>app/domain/services/backups.py\<close> and the identity of
  \<^verbatim>\<open>app/maintenance_scheduler.py\<close>.
\<close>

subsection \<open>What the players read\<close>

definition section_sign :: string where
  "section_sign = [CHR 0xA7]"

definition default_motd_title :: string where
  "default_motd_title = section_sign @ ''e* Maintenance en cours''"

definition default_message :: string where
  "default_message = ''Le serveur est ferme pour maintenance.''"

definition build_maintenance_messages :: "string \<Rightarrow> string \<Rightarrow> string \<times> string" where
  "build_maintenance_messages message until =
     (let body = take 120 (join '' '' (split_ws message));
          horizon = take 40 (join '' '' (split_ws until));
          second = (if body \<noteq> [] \<and> horizon \<noteq> [] then body @ '' '' @ section_sign @ ''7(retour prevu : '' @ horizon @ '')''
             else if body \<noteq> [] then body
             else if horizon \<noteq> [] then section_sign @ ''7retour prevu : '' @ horizon
             else []);
          motd = (if second = [] then default_motd_title
             else default_motd_title @ newline @ (if startswith second section_sign then [] else section_sign @ ''f'') @ second);
          kick_body = (if body \<noteq> [] then body else default_message);
          refusal = (if horizon = [] then kick_body else kick_body @ newline @ newline @ ''Retour prevu : '' @ horizon)
      in (motd, refusal))"

definition unfit_message :: "string list \<Rightarrow> string" where
  "unfit_message issues =
     ''le portier de maintenance ne peut pas prendre le relais, le serveur reste ouvert - '' @ join '' ; '' issues"

subsection \<open>Guards\<close>

definition restore_in_progress :: "ports \<Rightarrow> (svc, bool) prog" where
  "restore_in_progress P = bindM (getM waiting_restore) (\<lambda>w. bindM (getM restore_op) (\<lambda>op.
     if has_pending_restore P \<and> w \<noteq> None then retM True
     else if (case op of Some r \<Rightarrow> ro_phase r \<notin> {''success'', ''failed''} | None \<Rightarrow> False) then retM True
     else if \<not> has_restore P then retM False
     else tryM (running P Restore) (\<lambda>_. retM True)))"

definition restoring :: "ports \<Rightarrow> (svc, bool) prog" where
  "restoring P = tryM (restore_in_progress P) (\<lambda>_. retM True)"

definition doorman_unfit_issues :: "ports \<Rightarrow> (svc, string list) prog" where
  "doorman_unfit_issues P =
     (if \<not> has_integrity P then retM []
      else tryM (ask ''integrity'' (\<lambda>j. integrity_at P j ''maintenance'')) (\<lambda>_. retM []))"

definition maintenance_status :: "ports \<Rightarrow> user \<Rightarrow> (svc, maintenance_status) prog" where
  "maintenance_status P u = thenM (authorize P u STATUS)
     (if \<not> has_doorman P then retM \<lparr>ms_active = False, ms_pending = None, ms_motd = [], ms_restoring = False\<rparr>
      else bindM (tryM (running P Doorman) (\<lambda>_. retM False)) (\<lambda>active.
        bindM (getM (\<lambda>s. if has_pending_maintenance P then mt_state (maint_sched s) else None)) (\<lambda>pending.
        bindM (if active then restoring P else retM False) (\<lambda>r.
          retM \<lparr>ms_active = active, ms_pending = pending,
                ms_motd = (case pending of None \<Rightarrow> [] | Some p \<Rightarrow> pm_motd p), ms_restoring = r\<rparr>))))"

subsection \<open>Closing\<close>

definition no_doorman :: exn where
  "no_doorman = MaintenanceUnavailable ''mode maintenance indisponible : aucun portier configure''"

definition maintenance_stop_timeout :: int where
  "maintenance_stop_timeout = 120"

definition engage_maintenance :: "ports \<Rightarrow> user \<Rightarrow> string \<Rightarrow> string \<Rightarrow> string \<Rightarrow> string \<Rightarrow> (svc, unit) prog" where
  "engage_maintenance P u motd refusal requested_by operation_id =
     bindM (if operation_id \<noteq> [] then retM operation_id
            else bindM (now P) (\<lambda>t. retM (''maintenance::'' @ isoformat t))) (\<lambda>op_id.
     let common = ''requested_by='' @ requested_by @ '' operation_id='' @ op_id in
     thenM (ignoreM (thenM (say P ''Fermeture du serveur pour maintenance.'') (save_all P)))
    (thenM (on_error (docker P Minecraft (DStop (Some maintenance_stop_timeout)))
        (\<lambda>e. thenM (record_audit P u MAINTENANCE ''error'' (''phase=maintenance_stop_failed '' @ common))
               (notify ''Mise en maintenance echouee'' (exn_str e) ''error'' [])))
    (thenM (on_error (docker P Doorman (DEngage motd refusal))
        (\<lambda>e. thenM (record_audit P u MAINTENANCE ''error'' (''phase=maintenance_doorman_failed '' @ common))
               (notify ''Portier de maintenance absent'' (''Le serveur est bien arrete, mais le portier n a pas pris son poste ('' @
                  exn_str e @ ''). Les joueurs ne verront aucun message. Utilisez Rouvrir le serveur pour revenir en ligne.'')
                  ''error'' ''restart'')))
    (thenM (record_audit P u MAINTENANCE ''allowed'' (''phase=maintenance_engaged '' @ common))
      (notify ''Serveur en maintenance'' (''Ferme par '' @ requested_by @ ''. Le portier repond aux joueurs a sa place.'')
         ''info'' ''restart'')))))"

definition enter_maintenance :: "ports \<Rightarrow> user \<Rightarrow> string \<Rightarrow> string \<Rightarrow> rat \<Rightarrow> bool \<Rightarrow> (svc, unit) prog" where
  "enter_maintenance P u message until grace defer = thenM (authorize P u MAINTENANCE)
     (if \<not> has_doorman P then raiseM no_doorman
      else if grace < 0 then raiseM (InvalidDuration (''delai invalide : '' @ show_float P grace @ ''min (doit etre >= 0)''))
      else bindM (restoring P) (\<lambda>r.
        if r then thenM (record_audit P u MAINTENANCE ''denied''
               (''phase=maintenance_blocked raison=restauration-en-cours requested_by='' @ username u))
             (raiseM (MaintenanceUnavailable ''une restauration est en cours : reessayer une fois terminee''))
        else bindM (running P Doorman) (\<lambda>up.
          if up then raiseM (MaintenanceUnavailable ''le serveur est deja en maintenance'')
          else bindM (doorman_unfit_issues P) (\<lambda>unfit.
            if unfit \<noteq> [] then thenM (record_audit P u MAINTENANCE ''denied''
                   (''phase=maintenance_blocked raison=portier-inapte requested_by='' @ username u))
                 (raiseM (MaintenanceUnavailable (unfit_message unfit)))
            else (case build_maintenance_messages (sanitize_reason message) (sanitize_reason until) of (motd, refusal) \<Rightarrow>
              if grace \<le> 0 then engage_maintenance P u motd refusal (username u) []
              else if \<not> has_pending_maintenance P
              then raiseM (MaintenanceUnavailable ''delai de grace indisponible : aucun suivi d annonce configure'')
              else bindM (now P) (\<lambda>t.
                let at_time = t + seconds_delta (grace * 60); delay_txt = format_seconds (trunc_rat (grace * 60)) in
                thenM (modM (\<lambda>s. s\<lparr>maint_sched :=
                    mt_schedule (thresholds P) at_time (username u) motd refusal (grace * 60) defer (maint_sched s)\<rparr>))
               (thenM (ignoreM (say P (''Fermeture du serveur pour maintenance dans '' @ delay_txt @ ''.'')))
                 (record_audit P u MAINTENANCE ''allowed'' (''phase=maintenance_scheduled delay='' @ [CHR 0x22] @ delay_txt @
                    [CHR 0x22] @ '' requested_by='' @ username u @ '' operation_id=maintenance::'' @ isoformat at_time))))))))
      )"

definition cancel_maintenance :: "(svc, bool) prog" where
  "cancel_maintenance = bindM (getM maint_sched) (\<lambda>m. case mt_cancel m of (had, m') \<Rightarrow>
     thenM (modM (\<lambda>s. s\<lparr>maint_sched := m'\<rparr>)) (retM had))"

definition cancel_pending_maintenance :: "ports \<Rightarrow> user \<Rightarrow> (svc, unit) prog" where
  "cancel_pending_maintenance P u = thenM (authorize P u MAINTENANCE)
     (bindM (getM (\<lambda>s. if has_pending_maintenance P then mt_state (maint_sched s) else None)) (\<lambda>pending.
      bindM (if has_pending_maintenance P then cancel_maintenance else retM False) (\<lambda>had.
        case (had, pending) of
          (True, Some p) \<Rightarrow>
            thenM (ignoreM (say P ''Maintenance annulee : le serveur reste ouvert.''))
              (record_audit P u MAINTENANCE ''allowed'' (''phase=maintenance_cancelled requested_by='' @ username u @
                 '' operation_id='' @ pm_operation_id p))
        | _ \<Rightarrow> record_audit P u MAINTENANCE ''allowed'' ''rien a annuler'')))"

subsection \<open>Reopening\<close>

definition exit_maintenance :: "ports \<Rightarrow> user \<Rightarrow> (svc, unit) prog" where
  "exit_maintenance P u = thenM (authorize P u MAINTENANCE)
     (if \<not> has_doorman P then raiseM no_doorman
      else bindM (restoring P) (\<lambda>r.
        if r then thenM (record_audit P u MAINTENANCE ''denied''
               (''phase=maintenance_release_blocked raison=restauration-en-cours requested_by='' @ username u))
             (raiseM (MaintenanceUnavailable
               ''le serveur est ferme pour une restauration en cours : il rouvrira de lui-meme une fois celle-ci terminee''))
        else
          thenM (whenM (has_pending_maintenance P) (thenM cancel_maintenance (retM ())))
         (thenM (on_error (docker P Doorman DRelease)
            (\<lambda>e. thenM (record_audit P u MAINTENANCE ''error'' (''phase=maintenance_release_failed requested_by='' @ username u))
                   (notify ''Reouverture impossible'' (exn_str e) ''error'' [])))
         (thenM (on_error (docker P Minecraft DStart)
            (\<lambda>e. thenM (record_audit P u MAINTENANCE ''error'' (''phase=maintenance_restart_failed requested_by='' @ username u))
                   (notify ''Reouverture echouee'' (exn_str e) ''error'' [])))
         (thenM (record_audit P u MAINTENANCE ''allowed'' (''phase=maintenance_ended requested_by='' @ username u))
           (notify ''Serveur rouvert'' (''La maintenance est terminee ('' @ username u @ ''). Le serveur redemarre.'')
              ''info'' ''restart''))))))"

subsection \<open>Planned maintenances\<close>

text \<open>\<open>datetime.strptime(text, "%Y-%m-%d").date()\<close>: the day, \<open>None\<close> for \<open>ValueError\<close>.\<close>

definition days_from_civil :: "int \<Rightarrow> int \<Rightarrow> int \<Rightarrow> int" where
  "days_from_civil y m d =
     (let y' = (if m \<le> 2 then y - 1 else y); era = y' div 400; yoe = y' mod 400;
          doy = (153 * (if m > 2 then m - 3 else m + 9) + 2) div 5 + d - 1;
          doe = yoe * 365 + yoe div 4 - yoe div 100 + doy
      in era * 146097 + doe - 719468)"

definition strptime_date :: "string \<Rightarrow> int option" where
  "strptime_date text = (case split_on (CHR ''-'') text of
       [y, m, d] \<Rightarrow>
         (let dd = (case d of [c, e] \<Rightarrow> if c = CHR '' '' then [e] else d | _ \<Rightarrow> d);
              yy = int (dec_value y); mm = int (dec_value m); dv = int (dec_value dd);
              day = days_from_civil yy mm dv
          in if length y = 4 \<and> list_all is_dec y \<and> 1 \<le> yy \<and>
                (length m = 1 \<or> length m = 2) \<and> list_all is_dec m \<and> 1 \<le> mm \<and> mm \<le> 12 \<and>
                (length dd = 1 \<or> length dd = 2) \<and> list_all is_dec dd \<and> 1 \<le> dv \<and> dv \<le> 31 \<and>
                civil_from_days day = (yy, mm, dv)
             then Some day else None)
     | _ \<Rightarrow> None)"

definition clean_days :: "int list \<Rightarrow> int list" where
  "clean_days ws = sort (remdups (filter (\<lambda>w. 0 \<le> w \<and> w \<le> 6) ws))"

definition plan_days :: "string \<Rightarrow> string \<Rightarrow> int list \<Rightarrow> int \<Rightarrow> exn + (string \<times> int list)" where
  "plan_days kind date weekdays today =
     (if kind = ''once'' then (case strptime_date date of
          None \<Rightarrow> Inl (InvalidDuration (''date invalide : '' @ py_repr date @ '' (attendu AAAA-MM-JJ)''))
        | Some d \<Rightarrow> if d < today then Inl (InvalidDuration ''date deja passee'') else Inr (iso_date d, []))
      else if clean_days weekdays = [] then Inl (InvalidDuration ''aucun jour de semaine selectionne'')
      else Inr ([], clean_days weekdays))"

definition add_scheduled_maintenance ::
  "ports \<Rightarrow> user \<Rightarrow> string \<Rightarrow> string \<Rightarrow> string \<Rightarrow> int list \<Rightarrow> int \<Rightarrow> string \<Rightarrow> string \<Rightarrow> bool \<Rightarrow> (svc, string) prog" where
  "add_scheduled_maintenance P u kind time date weekdays lead message until defer = thenM (authorize P u MAINTENANCE)
     (if \<not> has_planned P then raiseM (ServerUnavailable ''maintenances programmees non configurees cote serveur'')
      else if kind \<notin> {''once'', ''weekly''} then raiseM (InvalidDuration (''type de programmation invalide : '' @ py_repr kind))
      else if \<not> hhmm_match time then raiseM (InvalidDuration (''heure invalide : '' @ py_repr time @ '' (attendu HH:MM)''))
      else if lead \<le> 0 then raiseM (InvalidDuration (''preavis invalide : '' @ str_int lead @ ''s (doit etre > 0)''))
      else bindM (if kind = ''once'' then now P else retM 0) (\<lambda>t.
        case plan_days kind date weekdays (local_day (utc_offset P t) t) of
          Inl e \<Rightarrow> raiseM e
        | Inr (clean_date, days) \<Rightarrow>
            bindM (ask ''token'' (\<lambda>j. Inr (token_at P j))) (\<lambda>fresh.
            bindM (update_planned P (sm_add fresh
                \<lparr>sm_id = [], sm_kind = kind, sm_time = time, sm_date = clean_date, sm_weekdays = days, sm_lead = lead,
                 sm_message = sanitize_reason message, sm_until = sanitize_reason until, sm_defer = defer\<rparr>)) (\<lambda>entry_id.
            thenM (record_audit P u MAINTENANCE ''allowed'' (''maintenance programmee ajoutee (id='' @ entry_id @ '' '' @ kind @ '' '' @
                (if kind = ''once'' then clean_date else ''jours='' @ join '','' (map str_int days)) @ '' '' @ time @ '')''))
              (retM entry_id)))))"

definition remove_scheduled_maintenance :: "ports \<Rightarrow> user \<Rightarrow> string \<Rightarrow> (svc, unit) prog" where
  "remove_scheduled_maintenance P u entry_id = thenM (authorize P u MAINTENANCE)
     (bindM (if has_planned P then update_planned P (sm_remove entry_id) else retM False) (\<lambda>had.
        record_audit P u MAINTENANCE ''allowed''
          (if had then ''maintenance programmee retiree (id='' @ entry_id @ '')'' else ''rien a retirer'')))"

definition planned_list :: "ports \<Rightarrow> (svc, scheduled_maintenance list) prog" where
  "planned_list P = bindM (getM planned) (\<lambda>f. case sm_list (show_json P) f of Inl e \<Rightarrow> raiseM e | Inr es \<Rightarrow> retM es)"

definition list_scheduled_maintenance :: "ports \<Rightarrow> user \<Rightarrow> (svc, scheduled_maintenance list) prog" where
  "list_scheduled_maintenance P u = thenM (authorize P u MAINTENANCE)
     (if has_planned P then planned_list P else retM [])"

text \<open>
  \<open>_scheduled_target_today\<close>: a time that is no pair of numbers gives no deadline, one out of range
  raises.
\<close>

definition scheduled_target_today :: "int \<Rightarrow> datetime \<Rightarrow> scheduled_maintenance \<Rightarrow> exn + datetime option" where
  "scheduled_target_today offset t e = (case parse_hhmm (sm_time e) of
       None \<Rightarrow> Inr None
     | Some hm \<Rightarrow>
         if (sm_kind e = ''once'' \<and> sm_date e = iso_date (local_day offset t)) \<or>
            (sm_kind e = ''weekly'' \<and> weekday (local_day offset t) \<in> set (sm_weekdays e))
         then (if hour_minute_ok hm then Inr (Some (local_at offset t (fst hm) (snd hm))) else Inl (ValueError ''hour must be in 0..23''))
         else Inr None)"

definition mark_planned :: "ports \<Rightarrow> string \<Rightarrow> string \<Rightarrow> (svc, unit) prog" where
  "mark_planned P entry_id day = update_planned P (\<lambda>f. map_sum id (Pair ()) (sm_mark_fired entry_id day f))"

definition remove_planned :: "ports \<Rightarrow> string \<Rightarrow> (svc, unit) prog" where
  "remove_planned P entry_id = thenM (update_planned P (sm_remove entry_id)) (retM ())"

definition arm_planned :: "ports \<Rightarrow> user \<Rightarrow> scheduled_maintenance \<Rightarrow> datetime \<Rightarrow> rat \<Rightarrow> string \<Rightarrow> (svc, unit) prog" where
  "arm_planned P u e target remaining today = bindM (doorman_unfit_issues P) (\<lambda>unfit.
     if unfit \<noteq> [] then
       thenM (mark_planned P (sm_id e) today)
      (thenM (record_audit P u MAINTENANCE ''denied'' (''phase=maintenance_blocked raison=portier-inapte programmee='' @ sm_time e))
        (notify ''Maintenance programmee non engagee'' (unfit_message unfit) ''error'' ''restart''))
     else (case build_maintenance_messages (sm_message e) (sm_until e) of (motd, refusal) \<Rightarrow>
       thenM (modM (\<lambda>s. s\<lparr>maint_sched :=
           mt_schedule (thresholds P) target (username u) motd refusal remaining (sm_defer e) (maint_sched s)\<rparr>))
      (thenM (ignoreM (say P (''Fermeture programmee pour maintenance dans '' @ format_seconds (trunc_rat remaining) @ ''.'')))
      (thenM (record_audit P u MAINTENANCE ''allowed'' (''maintenance programmee armee (a '' @ sm_time e @ '')''))
        (mark_planned P (sm_id e) today)))))"

text \<open>The loop over the entries: an entry is cleaned up, skipped, or armed, which ends the loop.\<close>

fun planned_loop :: "ports \<Rightarrow> user \<Rightarrow> datetime \<Rightarrow> scheduled_maintenance list \<Rightarrow> (svc, unit) prog" where
  "planned_loop P u t [] = retM ()"
| "planned_loop P u t (e # es) =
     (let offset = utc_offset P t; today = iso_date (local_day offset t) in
      if sm_kind e = ''once'' \<and> sm_date e \<noteq> [] \<and> sm_date e < today
      then thenM (remove_planned P (sm_id e)) (planned_loop P u t es)
      else (case scheduled_target_today offset t e of
          Inl x \<Rightarrow> raiseM x
        | Inr None \<Rightarrow> planned_loop P u t es
        | Inr (Some target) \<Rightarrow> bindM (getM (\<lambda>s. sm_last_fired (sm_id e) (planned s))) (\<lambda>fired.
            if fired = Some today then planned_loop P u t es
            else if target \<le> t then
              thenM (mark_planned P (sm_id e) today)
             (thenM (whenM (sm_kind e = ''once'') (remove_planned P (sm_id e))) (planned_loop P u t es))
            else (let remaining = total_seconds (target - t) in
              if of_int (sm_lead e) < remaining then planned_loop P u t es
              else arm_planned P u e target remaining today))))"

definition tick_scheduled_maintenance :: "ports \<Rightarrow> user \<Rightarrow> (svc, unit) prog" where
  "tick_scheduled_maintenance P u =
     (if \<not> has_planned P \<or> \<not> has_pending_maintenance P \<or> \<not> has_doorman P then retM ()
      else bindM (planned_list P) (\<lambda>entries.
        if entries = [] then retM ()
        else bindM (getM (\<lambda>s. mt_state (maint_sched s))) (\<lambda>pending.
          if pending \<noteq> None then retM ()
          else bindM (tryM (running P Doorman) (\<lambda>_. retM False)) (\<lambda>up.
            if up then retM ()
            else bindM (restoring P) (\<lambda>r.
              if r then retM ()
              else bindM (now P) (\<lambda>t. planned_loop P u t entries))))))"

subsection \<open>The background tick\<close>

definition maintenance_user :: user where
  "maintenance_user = automation ''maintenance'' {MAINTENANCE}"

definition hold_for_restore :: "ports \<Rightarrow> user \<Rightarrow> pending_maintenance \<Rightarrow> (svc, unit) prog" where
  "hold_for_restore P u p =
     (let key = pm_operation_id p @ ''::restauration'' in
      bindM (getM deferred) (\<lambda>ds. whenM (key \<notin> set ds)
        (thenM (modM (\<lambda>s. s\<lparr>deferred := key # deferred s\<rparr>))
        (thenM (record_audit P u MAINTENANCE ''allowed'' (''phase=maintenance_deferred raison=restauration-en-cours operation_id='' @
             pm_operation_id p))
          (notify ''Maintenance reportee''
             ''Une restauration est en cours : la fermeture aura lieu des qu elle sera terminee.'' ''info'' ''restart'')))))"

definition close_now :: "ports \<Rightarrow> user \<Rightarrow> pending_maintenance \<Rightarrow> (svc, unit) prog" where
  "close_now P u p =
     thenM (forget_deferred (pm_operation_id p))
    (thenM (forget_deferred (pm_operation_id p @ ''::restauration''))
    (thenM cancel_maintenance
    (bindM (doorman_unfit_issues P) (\<lambda>unfit.
       if unfit \<noteq> [] then
         thenM (ignoreM (say P ''Maintenance annulee : le serveur reste ouvert.''))
        (thenM (record_audit P u MAINTENANCE ''denied'' (''phase=maintenance_blocked raison=portier-inapte requested_by='' @
             pm_requested_by p @ '' operation_id='' @ pm_operation_id p))
          (notify ''Maintenance annulee'' (unfit_message unfit) ''error'' ''restart''))
       else engage_maintenance P u (pm_motd p) (pm_kick p) (pm_requested_by p) (pm_operation_id p)))))"

definition warn_maintenance :: "ports \<Rightarrow> datetime \<Rightarrow> (svc, unit) prog" where
  "warn_maintenance P t = bindM (getM maint_sched) (\<lambda>m. case mt_take_due_warning (thresholds P) t m of (w, m') \<Rightarrow>
     thenM (modM (\<lambda>s. s\<lparr>maint_sched := m'\<rparr>))
       (case w of None \<Rightarrow> retM ()
        | Some th \<Rightarrow> ignoreM (say P (''Fermeture pour maintenance dans '' @ format_seconds th))))"

definition tick_maintenance :: "ports \<Rightarrow> user \<Rightarrow> (svc, unit) prog" where
  "tick_maintenance P u = thenM (authorize P u MAINTENANCE)
     (thenM (tick_scheduled_maintenance P u)
     (if \<not> has_pending_maintenance P then retM ()
      else bindM (getM (\<lambda>s. mt_state (maint_sched s))) (\<lambda>state. case state of
        None \<Rightarrow> retM ()
      | Some p \<Rightarrow> bindM (now P) (\<lambda>t.
          if engage_at p \<le> t then
            bindM (restoring P) (\<lambda>r.
              if r then hold_for_restore P u p
              else bindM (if pm_defer p then server_confirmed_empty P else retM True) (\<lambda>go.
                if go then close_now P u p
                else note_deferred_once P u MAINTENANCE (pm_operation_id p) ''Maintenance''))
          else warn_maintenance P t))))"

end
