(* ===== verification/Update.thy ===== *)
theory Update
  imports Maintenance
begin

text \<open>
  The update of the server and of the application, \<^verbatim>\<open>app/domain/services/update.py\<close>. What the
  checker found last (\<open>app_update_state\<close>) is the release \<open>release_at\<close> gives, if any; the image the
  application runs from is \<open>self_image_at\<close>, empty when it is not known.
\<close>

subsection \<open>Versions\<close>

fun all_some :: "'a option list \<Rightarrow> 'a list option" where
  "all_some [] = Some []"
| "all_some (None # xs) = None"
| "all_some (Some x # xs) = map_option (Cons x) (all_some xs)"

definition version_tuple :: "string \<Rightarrow> int list option" where
  "version_tuple version = all_some (map parse_int (split_on (CHR ''.'') (strip version)))"

definition is_newer_app_version :: "string \<Rightarrow> string \<Rightarrow> bool" where
  "is_newer_app_version latest current = (case (version_tuple latest, version_tuple current) of
       (Some l, Some c) \<Rightarrow> c < l
     | _ \<Rightarrow> latest \<noteq> current)"

subsection \<open>The server\<close>

definition update_status :: "ports \<Rightarrow> user \<Rightarrow> (svc, string option) prog" where
  "update_status P u = thenM (authorize P u UPDATE) (thenM (scan_update_outcome P) (ask ''version'' (version_at P)))"

definition update_blocked_reason :: "exn + string list \<Rightarrow> string option" where
  "update_blocked_reason players = (case players of
       Inl e \<Rightarrow> Some ''nombre de joueurs inconnu (RCON indisponible)''
     | Inr ps \<Rightarrow> if ps = [] then None else Some (str_nat (length ps) @ '' joueur(s) connecte(s)''))"

text \<open>
  Only \<open>ServerUnavailable\<close> is taken for a silent RCON; any other exception leaves \<open>apply_update\<close>.
\<close>

definition players_or_unavailable :: "ports \<Rightarrow> (svc, exn + string list) prog" where
  "players_or_unavailable P =
     exceptM is_server_unavailable (bindM (list_players P) (\<lambda>ps. retM (Inr ps))) (\<lambda>e. retM (Inl e))"

definition warn_and_save :: "ports \<Rightarrow> (svc, string list) prog" where
  "warn_and_save P = bindM (exceptM is_server_unavailable
       (thenM (say P ''Mise a jour du serveur imminente - coupure temporaire dans quelques instants.'') (retM True))
       (\<lambda>_. retM False)) (\<lambda>said.
     if \<not> said then retM [''say/save-all sautes (RCON indisponible)'']
     else exceptM is_server_unavailable (thenM (save_all P) (retM [''say'', ''save-all'']))
            (\<lambda>_. retM [''say'', ''say/save-all sautes (RCON indisponible)'']))"

definition apply_update :: "ports \<Rightarrow> user \<Rightarrow> bool \<Rightarrow> (svc, unit) prog" where
  "apply_update P u force = thenM (authorize P u UPDATE)
     (bindM (if has_doorman P then running P Doorman else retM False) (\<lambda>closed.
      if closed then
        thenM (record_audit P u UPDATE ''denied'' ''bloque : serveur en maintenance (le portier occupe son adresse)'')
          (raiseM (UpdateUnavailable ''Le serveur est en maintenance : le rouvrir avant de lancer la mise a jour (le portier occupe son adresse reseau).''))
      else bindM (players_or_unavailable P) (\<lambda>players.
        case (update_blocked_reason players, force) of
          (Some detail, False) \<Rightarrow>
            thenM (record_audit P u UPDATE ''denied'' (''bloque : '' @ detail @ '', confirmation requise''))
              (raiseM (UpdateBlocked (detail @ '' - cocher la confirmation pour forcer'')))
        | _ \<Rightarrow>
            bindM (warn_and_save P) (\<lambda>steps.
            bindM (attemptM (ask ''version'' (version_at P))) (\<lambda>v.
            thenM (on_error (docker P Updater DApply)
               (\<lambda>e. thenM (record_audit P u UPDATE ''error'' (join ''; '' (steps @ [exn_str e])))
                      (notify ''Mise a jour echouee'' (exn_str e) ''error'' [])))
           (bindM (now P) (\<lambda>t.
              let operation_id = ''update::'' @ isoformat t; all = join ''; '' (steps @ [''mc-updater demarre'']) in
              thenM (modM (\<lambda>s. s\<lparr>update_operation := Some (operation_id, version_or_none v)\<rparr>))
             (thenM (record_audit P u UPDATE ''allowed'' (''phase=update_started requested_by='' @ username u @
                  '' operation_id='' @ operation_id @ '' '' @ all))
               (notify ''Mise a jour du serveur lancee'' all ''info'' ''update'')))))))))"

subsection \<open>The application itself\<close>

record update_view =
  us_current :: string
  us_latest :: "string option"
  us_available :: bool
  us_checked_at :: "datetime option"
  us_can_apply :: bool
  us_reason :: string
  us_snoozed :: bool

definition known_release :: "ports \<Rightarrow> (svc, (string \<times> datetime) option) prog" where
  "known_release P = ask ''release'' (\<lambda>j. Inr (release_at P j))"

definition app_update_applicable :: "ports \<Rightarrow> (svc, bool \<times> string) prog" where
  "app_update_applicable P =
     (if \<not> has_app_updater P then retM (False, ''mise a jour en un clic non configuree sur cette installation'')
      else bindM (ask ''image'' (\<lambda>j. Inr (self_image_at P j))) (\<lambda>image.
        if image = [] then retM (False, ''mode d installation indeterminable - mise a jour manuelle'')
        else if CHR ''/'' \<notin> set image
        then retM (False, ''installation construite depuis le depot git - mise a jour via git pull + redeploiement, pas par l image'')
        else retM (True, [])))"

definition app_update_status :: "ports \<Rightarrow> user \<Rightarrow> string \<Rightarrow> (svc, update_view) prog" where
  "app_update_status P u current = thenM (authorize P u UPDATE)
     (bindM (known_release P) (\<lambda>known. case known of
        None \<Rightarrow> retM \<lparr>us_current = current, us_latest = None, us_available = False, us_checked_at = None,
                     us_can_apply = False, us_reason = [], us_snoozed = False\<rparr>
      | Some (version, checked) \<Rightarrow>
          bindM (app_update_applicable P) (\<lambda>(ok, reason).
          bindM (getM app_snooze) (\<lambda>snooze.
          bindM (case snooze of
              Some (v, until) \<Rightarrow> if has_app_snooze P \<and> v = version then bindM (now P) (\<lambda>t. retM (t < until)) else retM False
            | None \<Rightarrow> retM False) (\<lambda>snoozed.
            retM \<lparr>us_current = current, us_latest = Some version, us_available = is_newer_app_version version current,
                  us_checked_at = Some checked, us_can_apply = ok, us_reason = reason, us_snoozed = snoozed\<rparr>)))))"

definition snooze_app_update :: "ports \<Rightarrow> user \<Rightarrow> rat \<Rightarrow> (svc, unit) prog" where
  "snooze_app_update P u hours = thenM (authorize P u UPDATE)
     (bindM (known_release P) (\<lambda>known. case known of
        None \<Rightarrow> raiseM (UpdateBlocked ''aucune mise a jour connue - rien a repousser'')
      | Some (version, _) \<Rightarrow>
          if \<not> has_app_snooze P then raiseM (UpdateUnavailable ''report du rappel non configure cote serveur'')
          else bindM (now P) (\<lambda>t. let until = t + seconds_delta (hours * 3600) in
            thenM (write_file P ''app_snooze'' (\<lambda>s. s\<lparr>app_snooze := Some (version, until)\<rparr>))
             (record_audit P u UPDATE ''allowed'' (''phase=app_update_snoozed version='' @ version @ '' until='' @ isoformat until)))))"

text \<open>What keeps the application from being updated now: the reason and the message.\<close>

definition app_update_busy :: "ports \<Rightarrow> (svc, (string \<times> string) option) prog" where
  "app_update_busy P = bindM (restore_in_progress P) (\<lambda>r.
     if r then retM (Some (''restauration-en-cours'', ''une restauration est en cours - reessayer une fois terminee''))
     else bindM (if has_doorman P then tryM (running P Doorman) (\<lambda>_. retM True) else retM False) (\<lambda>closed.
       if closed then retM (Some (''maintenance-en-cours'', ''le serveur est en maintenance - le rouvrir avant de mettre a jour l application''))
       else if \<not> has_profile_backup P then retM None
       else tryM (bindM (running P ProfileBackup) (\<lambda>up. retM (if up
              then Some (''sauvegarde-en-cours'', ''une sauvegarde est en cours - reessayer une fois terminee'') else None)))
            (\<lambda>_. retM (Some (''etat-sauvegarde-illisible'', ''l etat des sauvegardes est illisible - reessayer dans un instant'')))))"

fun is_update_unavailable :: "exn \<Rightarrow> bool" where
  "is_update_unavailable (UpdateUnavailable m) = True"
| "is_update_unavailable _ = False"

definition apply_app_update :: "ports \<Rightarrow> user \<Rightarrow> (svc, unit) prog" where
  "apply_app_update P u = thenM (authorize P u UPDATE)
     (bindM (known_release P) (\<lambda>known. case known of
        None \<Rightarrow>
          thenM (record_audit P u UPDATE ''denied'' ''phase=app_update_blocked raison=aucune-version-connue'')
            (raiseM (UpdateBlocked ''aucune mise a jour connue - la verification n a pas encore eu lieu''))
      | Some (version, _) \<Rightarrow> bindM (app_update_applicable P) (\<lambda>(ok, reason).
          if \<not> ok then
            thenM (record_audit P u UPDATE ''denied'' (''phase=app_update_blocked raison='' @ py_repr reason)) (raiseM (UpdateBlocked reason))
          else bindM (app_update_busy P) (\<lambda>busy. case busy of
            Some (why, message) \<Rightarrow>
              thenM (record_audit P u UPDATE ''denied'' (''phase=app_update_blocked raison='' @ why)) (raiseM (UpdateBlocked message))
          | None \<Rightarrow>
              thenM (exceptM is_update_unavailable (docker P AppUpdater DStart)
                (\<lambda>e. thenM (record_audit P u UPDATE ''error'' (''phase=app_update_failed version='' @ version @ '' '' @ exn_str e))
                    (thenM (notify ''Mise a jour de mc-admin echouee'' (exn_str e) ''error'' []) (raiseM e))))
             (thenM (record_audit P u UPDATE ''allowed'' (''phase=app_update_applied version='' @ version))
               (notify ''Mise a jour de mc-admin lancee'' (''vers la version '' @ version @ '' - l application redemarre'')
                  ''info'' ''app_update''))))))"

end
