(* ===== verification/Game_Settings.thy ===== *)
theory Game_Settings
  imports Service_Core
begin

text \<open>
  Game settings, the console and the stop button: \<^verbatim>\<open>app/domain/services/game.py\<close>.
\<close>

definition get_difficulty :: "ports \<Rightarrow> (svc, string option) prog" where
  "get_difficulty P = bindM (game_command P ''difficulty'') (\<lambda>out. retM (parse_difficulty out))"

definition get_gamerule :: "ports \<Rightarrow> string \<Rightarrow> (svc, bool option) prog" where
  "get_gamerule P name = bindM (game_command P (''gamerule '' @ name)) (\<lambda>out. retM (parse_gamerule out))"

definition game_settings :: "ports \<Rightarrow> user \<Rightarrow> (svc, game_settings) prog" where
  "game_settings P u = thenM (authorize P u GAME_SETTINGS)
     (bindM (get_difficulty P) (\<lambda>d. bindM (get_gamerule P ''keep_inventory'') (\<lambda>k.
      bindM (get_gamerule P ''mob_griefing'') (\<lambda>m. bindM (get_gamerule P ''advance_time'') (\<lambda>t.
        retM \<lparr>gs_difficulty = d, gs_keep_inventory = k, gs_mob_griefing = m, gs_daylight_cycle = t\<rparr>)))))"

definition game_mutation :: "ports \<Rightarrow> user \<Rightarrow> string \<Rightarrow> string \<Rightarrow> (svc, string) prog" where
  "game_mutation P u detail cmd = audited_command P u GAME_SETTINGS detail cmd"

definition set_difficulty :: "ports \<Rightarrow> user \<Rightarrow> string \<Rightarrow> (svc, string) prog" where
  "set_difficulty P u level = thenM (authorize P u GAME_SETTINGS)
     (if level \<notin> {''peaceful'', ''easy'', ''normal'', ''hard''}
      then raiseM (InvalidGameValue (''difficulte inconnue : '' @ py_repr level))
      else game_mutation P u (''difficulte -> '' @ level) (''difficulty '' @ level))"

text \<open>A value of a form or of the API: a boolean, an integer or a text.\<close>

datatype rule_value = VBool bool | VInt int | VText string

fun rule_text :: "rule_value \<Rightarrow> string" where
  "rule_text (VBool b) = (if b then ''true'' else ''false'')"
| "rule_text (VInt i) = str_int i"
| "rule_text (VText s) = s"

definition normalise_rule_value :: "rule_value \<Rightarrow> exn + rule_value" where
  "normalise_rule_value v = (case v of
       VText s \<Rightarrow>
         (let raw = lower (strip s)
          in if raw = ''true'' then Inr (VBool True) else if raw = ''false'' then Inr (VBool False)
             else (case parse_int raw of
                 None \<Rightarrow> Inl (InvalidGameValue (''valeur invalide : '' @ py_repr s @ '' (booleen ou entier)''))
               | Some i \<Rightarrow> Inr (VInt i)))
     | _ \<Rightarrow> Inr v)"

definition in_rule_bounds :: "rule_value \<Rightarrow> bool" where
  "in_rule_bounds v = (case v of VInt i \<Rightarrow> \<bar>i\<bar> \<le> 1000000 | _ \<Rightarrow> True)"

definition set_gamerule :: "ports \<Rightarrow> user \<Rightarrow> string \<Rightarrow> rule_value \<Rightarrow> (svc, string) prog" where
  "set_gamerule P u name value = thenM (authorize P u GAME_SETTINGS)
     (case normalise_rule_value value of
        Inl e \<Rightarrow> raiseM e
      | Inr v \<Rightarrow>
          if \<not> in_rule_bounds v then raiseM (InvalidGameValue (''valeur hors bornes : '' @ rule_text v))
          else bindM (list_gamerule_names P) (\<lambda>names.
            if name \<notin> set names
            then raiseM (InvalidGameValue (''gamerule inconnue de ce serveur : '' @ py_repr name))
            else game_mutation P u (''gamerule '' @ name @ '' -> '' @ rule_text v)
                   (''gamerule '' @ name @ '' '' @ rule_text v)))"

text \<open>\<open>get_gamerules\<close>: the raw value of each rule, over one connection.\<close>

definition get_gamerules :: "ports \<Rightarrow> string list \<Rightarrow> (svc, (string \<times> string) list) prog" where
  "get_gamerules P names = mapM (\<lambda>name. bindM (game_command P (''gamerule '' @ name))
     (\<lambda>out. retM (name, last_word (strip out)))) names"

definition full_game_settings :: "ports \<Rightarrow> user \<Rightarrow> (svc, string option \<times> (string \<times> string) list) prog" where
  "full_game_settings P u = thenM (authorize P u GAME_SETTINGS)
     (bindM (list_gamerule_names P) (\<lambda>names. bindM (get_difficulty P) (\<lambda>d.
        bindM (get_gamerules P names) (\<lambda>rules. retM (d, rules)))))"

definition set_weather :: "ports \<Rightarrow> user \<Rightarrow> string \<Rightarrow> (svc, string) prog" where
  "set_weather P u kind = thenM (authorize P u GAME_SETTINGS)
     (if kind \<notin> {''clear'', ''rain'', ''thunder''} then raiseM (InvalidGameValue (''meteo inconnue : '' @ py_repr kind))
      else game_mutation P u (''meteo -> '' @ kind) (''weather '' @ kind))"

definition set_time :: "ports \<Rightarrow> user \<Rightarrow> string \<Rightarrow> (svc, string) prog" where
  "set_time P u moment = thenM (authorize P u GAME_SETTINGS)
     (if moment \<notin> {''day'', ''noon'', ''night'', ''midnight''}
      then raiseM (InvalidGameValue (''moment inconnu : '' @ py_repr moment))
      else game_mutation P u (''heure -> '' @ moment) (''time set '' @ moment))"

definition can_access_console :: "ports \<Rightarrow> user \<Rightarrow> (svc, unit) prog" where
  "can_access_console P u = authorize P u RCON_RAW"

definition run_rcon :: "ports \<Rightarrow> user \<Rightarrow> string \<Rightarrow> (svc, string) prog" where
  "run_rcon P u cmd = thenM (authorize P u RCON_RAW) (audited_command P u RCON_RAW cmd cmd)"

definition stop_server :: "ports \<Rightarrow> user \<Rightarrow> (svc, unit) prog" where
  "stop_server P u = thenM (authorize P u STOP)
     (thenM (on_error (docker P Minecraft (DStop None))
        (\<lambda>e. thenM (record_audit P u STOP ''error'' (exn_str e)) (notify ''Arret echoue'' (exn_str e) ''error'' [])))
       (record_audit P u STOP ''allowed'' []))"

end
