(* ===== verification/Backup_Retention.thy ===== *)
theory Backup_Retention
  imports Json_Stores "HOL-Library.Multiset"
begin

text \<open>
  The retention policy of \<open>backup_retention_plan\<close> in \<^verbatim>\<open>app/domain/services/backups.py\<close>, as a function
  of the instant, the policy and the archives: everything of the last days is kept, then the most
  recent archive of each month for some months, and the rest may be deleted. Ages are exact
  rationals where the code divides floats.
\<close>

subsection \<open>The plan\<close>

text \<open>\<open>sorted(archives, key=..., reverse=True)\<close>: stable, the most recent first.\<close>

definition newest_first :: "backup_archive list \<Rightarrow> backup_archive list" where
  "newest_first xs = rev (sort_key ba_created_at (rev xs))"

definition month_key :: "backup_archive \<Rightarrow> int \<times> int" where
  "month_key a = (case civil_from_days (ba_created_at a div us_per_day) of (y, m, _) \<Rightarrow> (y, m))"

definition age_days :: "datetime \<Rightarrow> backup_archive \<Rightarrow> rat" where
  "age_days t a = total_seconds (t - ba_created_at a) / 86400"

type_synonym retention_item = "backup_archive \<times> string"

fun retain :: "datetime \<Rightarrow> int \<Rightarrow> int \<Rightarrow> int \<Rightarrow> string \<Rightarrow> (int \<times> int) list \<Rightarrow> backup_archive list \<Rightarrow> retention_item list \<times> retention_item list" where
  "retain t daily months limit folder kept [] = ([], [])"
| "retain t daily months limit folder kept (a # rest) =
     (if \<not> startswith (ba_filename a) folder then retain t daily months limit folder kept rest
      else if age_days t a \<le> of_int daily then
        (case retain t daily months limit folder (month_key a # kept) rest of (keep, del) \<Rightarrow>
           ((a, ''journalier (< '' @ str_int daily @ '' jours)'') # keep, del))
      else if age_days t a \<le> of_int limit then
        (if month_key a \<notin> set kept then
           (case retain t daily months limit folder (month_key a # kept) rest of (keep, del) \<Rightarrow>
              ((a, ''mensuel conserve ('' @ str_int months @ '' mois)'') # keep, del))
         else (case retain t daily months limit folder kept rest of (keep, del) \<Rightarrow> (keep, (a, ''doublon mensuel'') # del)))
      else (case retain t daily months limit folder kept rest of (keep, del) \<Rightarrow> (keep, (a, ''> '' @ str_int months @ '' mois'') # del)))"

definition slash_ended :: "string \<Rightarrow> string" where
  "slash_ended folder = (if endswith folder ''/'' then folder else folder @ ''/'')"

definition retention_plan :: "datetime \<Rightarrow> int \<Rightarrow> int \<Rightarrow> string \<Rightarrow> backup_archive list \<Rightarrow> retention_item list \<times> retention_item list" where
  "retention_plan t daily_days monthly_months folder archives =
     (let daily = max 1 daily_days; months = max 0 monthly_months in
      retain t daily months (max daily (months * 31)) (slash_ended folder) [] (newest_first archives))"

subsection \<open>What the plan keeps\<close>

lemma newest_first_mset [simp]: "mset (newest_first xs) = mset xs"
  by (simp add: newest_first_def)

lemma newest_first_sorted: "sorted_wrt (\<lambda>a b. ba_created_at b \<le> ba_created_at a) (newest_first xs)"
proof -
  have "sorted (map ba_created_at (sort_key ba_created_at (rev xs)))" by simp
  then show ?thesis by (simp add: newest_first_def sorted_wrt_rev sorted_map)
qed

lemma retain_parts:
  "retain t daily months limit folder kept xs = (keep, del) \<Longrightarrow>
   mset (map fst keep) + mset (map fst del) = mset (filter (\<lambda>a. startswith (ba_filename a) folder) xs)"
  by (induction t daily months limit folder kept xs arbitrary: keep del rule: retain.induct)
    (fastforce split: if_splits prod.splits)+

lemma retain_recent:
  "retain t daily months limit folder kept xs = (keep, del) \<Longrightarrow> a \<in> set (map fst del) \<Longrightarrow> of_int daily < age_days t a"
  by (induction t daily months limit folder kept xs arbitrary: keep del rule: retain.induct)
    (fastforce split: if_splits prod.splits)+

text \<open>A month already kept on entry belongs to a newer archive.\<close>

lemma retain_months:
  assumes "retain t daily months limit folder kept xs = (keep, del)" "sorted_wrt (\<lambda>a b. ba_created_at b \<le> ba_created_at a) xs"
    and "a \<in> set (map fst del)" "age_days t a \<le> of_int limit"
  shows "month_key a \<in> set kept \<or> (\<exists>b \<in> set (map fst keep). month_key b = month_key a \<and> ba_created_at a \<le> ba_created_at b)"
  using assms
proof (induction t daily months limit folder kept xs arbitrary: keep del rule: retain.induct)
  case (2 t daily months limit folder kept x rest)
  show ?case
  proof (cases "startswith (ba_filename x) folder")
    case False
    with 2 show ?thesis by simp
  next
    case pre: True
    have later: "ba_created_at a \<le> ba_created_at x" if "retain t daily months limit folder k rest = (keep', del')" "a \<in> set (map fst del')" for k keep' del'
    proof -
      have "set (map fst del') \<subseteq> set rest"
        using arg_cong [OF retain_parts [OF that(1)], of set_mset] by auto
      with that(2) 2(7) show ?thesis by auto
    qed
    consider "age_days t x \<le> of_int daily" | "\<not> age_days t x \<le> of_int daily" "age_days t x \<le> of_int limit" "month_key x \<notin> set kept"
      | "\<not> age_days t x \<le> of_int daily" "age_days t x \<le> of_int limit \<longrightarrow> month_key x \<in> set kept" by blast
    then show ?thesis
    proof cases
      case 1
      obtain keep' where r: "retain t daily months limit folder (month_key x # kept) rest = (keep', del)" and k: "set (map fst keep) = insert x (set (map fst keep'))"
        using 2(6) pre 1 by (auto split: prod.splits)
      from 2(2) [OF _ 1 r] pre 2(7-9) later [OF r] k show ?thesis by auto
    next
      case c: 2
      obtain keep' where r: "retain t daily months limit folder (month_key x # kept) rest = (keep', del)" and k: "set (map fst keep) = insert x (set (map fst keep'))"
        using 2(6) pre c by (auto split: prod.splits)
      from 2(3) [OF _ c r] pre 2(7-9) later [OF r] k show ?thesis by auto
    next
      case c: 3
      then obtain del' where r: "retain t daily months limit folder kept rest = (keep, del')" and d: "set (map fst del) = insert x (set (map fst del'))"
        using 2(6) pre by (auto split: prod.splits if_splits)
      have "month_key a \<in> set kept \<or> (\<exists>b \<in> set (map fst keep). month_key b = month_key a \<and> ba_created_at a \<le> ba_created_at b)" if "a \<in> set (map fst del')"
        using 2(4,5) [of keep del'] that r c pre 2(7,9) by (cases "age_days t x \<le> of_int limit") auto
      moreover have "month_key x \<in> set kept" if "a = x" using c 2(9) that by simp
      ultimately show ?thesis using 2(8) d by auto
    qed
  qed
qed simp

text \<open>
  C31. The plan splits the archives of the folder, and only those, into what is kept and what may be
  deleted. Nothing younger than the number of days (at least one) is deleted. Within the
  months of the policy, a deleted archive has a kept one of the same month that is as recent or
  more recent: no month loses its last archive.
\<close>

theorem retention_is_safe:
  "case retention_plan t days months folder archives of (keep, del) \<Rightarrow>
     mset (map fst keep) + mset (map fst del) = mset (filter (\<lambda>a. startswith (ba_filename a) (slash_ended folder)) archives) \<and>
     list_all (\<lambda>a. of_int (max 1 days) < age_days t a) (map fst del) \<and>
     list_all (\<lambda>a. of_int (max (max 1 days) (max 0 months * 31)) < age_days t a \<or>
       list_ex (\<lambda>b. month_key b = month_key a \<and> ba_created_at a \<le> ba_created_at b) (map fst keep)) (map fst del)"
proof -
  let ?daily = "max 1 days" and ?months = "max 0 months"
  obtain keep del where p: "retention_plan t days months folder archives = (keep, del)" by fastforce
  then have r: "retain t ?daily ?months (max ?daily (?months * 31)) (slash_ended folder) [] (newest_first archives) = (keep, del)"
    by (simp add: retention_plan_def Let_def)
  have "mset (map fst keep) + mset (map fst del) = mset (filter (\<lambda>a. startswith (ba_filename a) (slash_ended folder)) archives)"
    using retain_parts [OF r] by (simp add: mset_filter)
  moreover have "list_all (\<lambda>a. of_int ?daily < age_days t a) (map fst del)"
    unfolding list_all_iff using retain_recent [OF r] by blast
  moreover have "list_all (\<lambda>a. of_int (max ?daily (?months * 31)) < age_days t a \<or>
      list_ex (\<lambda>b. month_key b = month_key a \<and> ba_created_at a \<le> ba_created_at b) (map fst keep)) (map fst del)"
    unfolding list_all_iff list_ex_iff
  proof
    fix a assume a: "a \<in> set (map fst del)"
    show "of_int (max ?daily (?months * 31)) < age_days t a \<or>
        (\<exists>b\<in>set (map fst keep). month_key b = month_key a \<and> ba_created_at a \<le> ba_created_at b)"
      using retain_months [OF r newest_first_sorted a] by (cases "age_days t a \<le> of_int (max ?daily (?months * 31))") auto
  qed
  ultimately show ?thesis unfolding p prod.case by blast
qed

end
