(* ===== verification/Backups.thy ===== *)
theory Backups
  imports Maintenance Backup_Retention
begin

text \<open>
  Backups, from \<^verbatim>\<open>app/domain/services/backups.py\<close>: profiles, their runs and the outcome of a run,
  the retention, and the archives of \<^verbatim>\<open>app/adapters/backup_archives.py\<close>. The restore is in
  \<^verbatim>\<open>Restores\<close>.

  The folder of the archives is written by the backup containers, so what it holds is a port. The
  lock that keeps backups and restores apart is not modelled: what it protects is one step.
\<close>

subsection \<open>The archives\<close>

definition list_archives :: "ports \<Rightarrow> (svc, backup_archive list) prog" where
  "list_archives P = ask ''archives'' (archives_at P)"

text \<open>
  \<open>archive_path\<close>: the checks of the name, then the file system, which must find a file inside the
  folder. \<open>Path(filename).parts\<close> has no empty part and no single dot.
\<close>

definition archive_name_ok :: "string \<Rightarrow> bool" where
  "archive_name_ok filename \<longleftrightarrow> filename \<noteq> [] \<and> \<not> startswith filename ''/'' \<and> endswith filename ''.tar.gz'' \<and>
     ''..'' \<notin> set (split_on (CHR ''/'') filename)"

definition archive_path :: "ports \<Rightarrow> string \<Rightarrow> (svc, bool) prog" where
  "archive_path P filename =
     (if \<not> archive_name_ok filename then retM False
      else ask (''path '' @ filename) (\<lambda>j. resolves_at P j filename))"

definition deletable :: "string \<Rightarrow> bool" where
  "deletable filename \<longleftrightarrow> startswith filename ''scheduled/'' \<or> startswith filename ''profiles/''"

definition delete_archive :: "ports \<Rightarrow> string \<Rightarrow> (svc, bool) prog" where
  "delete_archive P filename =
     (if \<not> deletable filename then retM False
      else bindM (archive_path P filename) (\<lambda>found.
        if \<not> found then retM False
        else answer (Unlinked filename) (\<lambda>j. Inr (unlink_at P j filename))))"

subsection \<open>Profiles\<close>

definition profile_list :: "ports \<Rightarrow> (svc, backup_profile list) prog" where
  "profile_list P = getM (\<lambda>s. list_profiles (fromiso P) (profiles s))"

definition get_profile :: "ports \<Rightarrow> string \<Rightarrow> (svc, backup_profile option) prog" where
  "get_profile P i = getM (\<lambda>s. if has_profiles P then bp_get (fromiso P) i (profiles s) else None)"

definition upsert_profile :: "ports \<Rightarrow> backup_profile \<Rightarrow> (svc, unit) prog" where
  "upsert_profile P p = update_profiles P (always (bp_upsert (fromiso P) p))"

definition delete_profile :: "ports \<Rightarrow> string \<Rightarrow> (svc, bool) prog" where
  "delete_profile P i = update_profiles P (bp_delete (fromiso P) i)"

definition mark_run :: "ports \<Rightarrow> string \<Rightarrow> datetime \<Rightarrow> (svc, unit) prog" where
  "mark_run P i t = update_profiles P (always (bp_mark_run (fromiso P) i t))"

definition profile_categories :: "string list" where
  "profile_categories = [''world'', ''mods'', ''mods_jars'', ''config'', ''admin'', ''all'']"

definition backup_profiles_list :: "ports \<Rightarrow> user \<Rightarrow> (svc, backup_profile list) prog" where
  "backup_profiles_list P u = thenM (authorize P u BACKUP_TRIGGER)
     (if \<not> has_profiles P then retM [] else profile_list P)"

text \<open>
  \<open>str.isdigit\<close> holds of the superscripts 1, 2 and 3 too, which \<open>int\<close> refuses: such a time raises
  \<open>ValueError\<close> and not the error of an invalid value.
\<close>

definition validate_profile_schedule :: "rat \<Rightarrow> string option \<Rightarrow> exn + (rat \<times> string option)" where
  "validate_profile_schedule hours daily_at = (case daily_at of
       Some (c # cs) \<Rightarrow>
         (let text = strip (c # cs); parts = split_on (CHR '':'') text; bad = InvalidGameValue (''heure invalide : '' @ text) in
          if length parts \<noteq> 2 \<or> \<not> list_all isdigit parts then Inl bad
          else (case parse_hhmm text of
              None \<Rightarrow> Inl (ValueError ''int'')
            | Some hm \<Rightarrow> if hour_minute_ok hm then Inr (0, Some text) else Inl bad))
     | _ \<Rightarrow> if hours \<in> {0, 6, 12, 24, 48} then Inr (hours, None) else Inl (InvalidGameValue ''intervalle invalide''))"

definition create_backup_profile :: "ports \<Rightarrow> user \<Rightarrow> string \<Rightarrow> string list \<Rightarrow> rat \<Rightarrow> string option \<Rightarrow> int \<Rightarrow> int \<Rightarrow> (svc, backup_profile) prog" where
  "create_backup_profile P u name include hours daily_at days months = thenM (authorize P u BACKUP_MANAGE)
     (if \<not> has_profiles P then raiseM (BackupUnavailable ''profils de sauvegarde non configures'')
      else let name = take 40 (strip name); include = filter (\<lambda>c. c \<in> set profile_categories) include in
        if name = [] then raiseM (InvalidGameValue ''nom de profil vide'')
        else if include = [] then raiseM (InvalidGameValue ''aucune categorie valide selectionnee'')
        else (case validate_profile_schedule hours daily_at of
            Inl e \<Rightarrow> raiseM e
          | Inr (hours, daily_at) \<Rightarrow> bindM (profile_list P) (\<lambda>ps.
              let base = slugify name; slug = free_slug (map bp_id ps) base base 2;
                  profile = \<lparr>bp_id = slug, bp_name = name, bp_include = include, bp_dest = ''profiles/'' @ slug,
                    bp_hours = hours, bp_daily_at = daily_at, bp_daily_days = max 0 days, bp_monthly_months = max 0 months,
                    bp_enabled = True, bp_last_run = None\<rparr>
              in thenM (upsert_profile P profile)
                (thenM (record_audit P u BACKUP_MANAGE ''allowed'' (''phase=profile_created profile='' @ slug @ '' name='' @
                     [CHR 0x22] @ name @ [CHR 0x22] @ '' include='' @ join '','' include))
                  (retM profile)))))"

definition no_profile :: "string \<Rightarrow> exn" where
  "no_profile i = BackupArchiveNotFound (''profil inconnu : '' @ i)"

definition update_backup_profile :: "ports \<Rightarrow> user \<Rightarrow> string \<Rightarrow> string \<Rightarrow> string list \<Rightarrow> rat \<Rightarrow> string option \<Rightarrow> int \<Rightarrow> int \<Rightarrow> (svc, backup_profile) prog" where
  "update_backup_profile P u i name include hours daily_at days months = thenM (authorize P u BACKUP_MANAGE)
     (bindM (get_profile P i) (\<lambda>current. case current of
        None \<Rightarrow> raiseM (no_profile i)
      | Some p \<Rightarrow>
          (let name = (let n = take 40 (strip name) in if n = [] then bp_name p else n);
               include = (let c = filter (\<lambda>c. c \<in> set profile_categories) include in if c = [] then bp_include p else c) in
           case validate_profile_schedule hours daily_at of
             Inl e \<Rightarrow> raiseM e
           | Inr (hours, daily_at) \<Rightarrow>
               (let profile = p\<lparr>bp_name := name, bp_include := include, bp_hours := hours, bp_daily_at := daily_at,
                    bp_daily_days := max 0 days, bp_monthly_months := max 0 months\<rparr>
                in thenM (upsert_profile P profile)
                  (thenM (record_audit P u BACKUP_MANAGE ''allowed'' (''phase=profile_updated profile='' @ bp_id p @ '' name='' @
                       [CHR 0x22] @ name @ [CHR 0x22]))
                    (retM profile))))))"

definition toggle_backup_profile :: "ports \<Rightarrow> user \<Rightarrow> string \<Rightarrow> bool \<Rightarrow> (svc, unit) prog" where
  "toggle_backup_profile P u i enabled = thenM (authorize P u BACKUP_MANAGE)
     (bindM (get_profile P i) (\<lambda>current. case current of
        None \<Rightarrow> raiseM (no_profile i)
      | Some p \<Rightarrow> thenM (upsert_profile P (p\<lparr>bp_enabled := enabled\<rparr>))
          (record_audit P u BACKUP_MANAGE ''allowed'' (''phase=profile_'' @ (if enabled then ''resumed'' else ''suspended'') @
             '' profile='' @ bp_id p))))"

definition delete_backup_profile :: "ports \<Rightarrow> user \<Rightarrow> string \<Rightarrow> (svc, unit) prog" where
  "delete_backup_profile P u i = thenM (authorize P u BACKUP_MANAGE)
     (bindM (tryM (if has_profile_backup P then running P ProfileBackup else retM False) (\<lambda>_. retM False)) (\<lambda>up.
      bindM (getM active_profile) (\<lambda>active.
        if up \<and> (active = None \<or> active = Some i)
        then raiseM (BackupUnavailable ''la sauvegarde de cette configuration est en cours : reessayer ensuite'')
        else bindM (if has_profiles P then delete_profile P i else retM False) (\<lambda>was.
          if \<not> was then raiseM (no_profile i)
          else record_audit P u BACKUP_MANAGE ''allowed'' (''phase=profile_deleted profile='' @ i)))))"

subsection \<open>Running a profile\<close>

fun is_backup_unavailable :: "exn \<Rightarrow> bool" where
  "is_backup_unavailable (BackupUnavailable m) = True"
| "is_backup_unavailable e = False"

definition trigger_worker :: "ports \<Rightarrow> worker \<Rightarrow> docker_call \<Rightarrow> (svc, bool \<times> string) prog" where
  "trigger_worker P w c = answer (Docker w c) (\<lambda>j. trigger_at P j w c)"

definition refuse_during_restore :: "ports \<Rightarrow> (svc, unit) prog" where
  "refuse_during_restore P = bindM (restore_in_progress P) (\<lambda>r.
     if r then raiseM (BackupUnavailable ''sauvegarde indisponible pendant une restauration'')
     else exceptM (\<lambda>e. \<not> is_backup_unavailable e)
       (bindM (running P SafetyBackup) (\<lambda>up.
          if up then raiseM (BackupUnavailable ''sauvegarde indisponible pendant la sauvegarde de securite'') else retM ()))
       (\<lambda>e. raiseM (BackupUnavailable (''etat de la sauvegarde de securite illisible : '' @ exn_str e))))"

definition note_started :: "ports \<Rightarrow> backup_profile \<Rightarrow> bool \<Rightarrow> (svc, unit) prog" where
  "note_started P p started = bindM (getM backup_started) (\<lambda>d.
     whenM (started \<or> map_of d (bp_id p) = None) (bindM (now P) (\<lambda>t.
       modM (\<lambda>s. s\<lparr>active_profile := Some (bp_id p), backup_started := AList.update (bp_id p) t (backup_started s),
         progress_max := AList.delete (bp_id p) (progress_max s), backup_result := None,
         backup_ids := AList.update (bp_id p) (''backup::'' @ bp_id p @ ''::'' @ isoformat t) (backup_ids s)\<rparr>))))"

definition id_of :: "string \<Rightarrow> (string \<times> string) list \<Rightarrow> string" where
  "id_of k d = (case map_of d k of Some x \<Rightarrow> x | None \<Rightarrow> [])"

definition trigger_profile_locked :: "ports \<Rightarrow> user \<Rightarrow> string \<Rightarrow> (svc, bool \<times> string) prog" where
  "trigger_profile_locked P u i = thenM (refuse_during_restore P)
     (bindM (get_profile P i) (\<lambda>profile. case profile of
        None \<Rightarrow> raiseM (BackupUnavailable (''profil inconnu ou non configure : '' @ i))
      | Some p \<Rightarrow>
          if \<not> has_profile_backup P then raiseM (BackupUnavailable (''profil inconnu ou non configure : '' @ i))
          else bindM (if has_integrity P then ask ''integrity'' (\<lambda>j. integrity_at P j ''backup'') else retM []) (\<lambda>issues.
            if issues \<noteq> [] then raiseM (BackupUnavailable (join ''; '' issues))
            else case includes_for (bp_include p) (world_dir P) of (inc, exc) \<Rightarrow>
              bindM (on_error (trigger_worker P ProfileBackup (DProfile (bp_dest p) (''mc-'' @ bp_id p) inc exc))
                (\<lambda>e. thenM (record_audit P u BACKUP_TRIGGER ''error'' (exn_str e))
                       (notify ''Sauvegarde echouee'' (exn_str e) ''error'' []))) (\<lambda>result.
              thenM (note_started P p (fst result))
             (bindM (getM backup_ids) (\<lambda>ids.
              thenM (record_audit P u BACKUP_TRIGGER ''allowed'' (''phase=backup_started kind='' @ bp_id p @ '' profile='' @
                  [CHR 0x22] @ bp_name p @ [CHR 0x22] @ '' requested_by='' @ username u @ '' operation_id='' @ id_of (bp_id p) ids))
                (retM result)))))))"

definition trigger_profile_backup :: "ports \<Rightarrow> user \<Rightarrow> string \<Rightarrow> (svc, bool \<times> string) prog" where
  "trigger_profile_backup P u i = thenM (authorize P u BACKUP_TRIGGER) (trigger_profile_locked P u i)"

text \<open>\<open>_profile_due\<close>; the first sight of a profile with an interval starts its counter.\<close>

definition profile_due :: "ports \<Rightarrow> datetime \<Rightarrow> backup_profile \<Rightarrow> (svc, bool) prog" where
  "profile_due P t p = (case bp_daily_at p of
       Some (c # cs) \<Rightarrow>
         (if (case bp_last_run p of Some r \<Rightarrow> local_day (utc_offset P r) r = local_day (utc_offset P t) t | None \<Rightarrow> False)
          then retM False
          else (case parse_hhmm (c # cs) of
              None \<Rightarrow> raiseM (ValueError ''daily_at'')
            | Some (h, m) \<Rightarrow>
                if hour_minute_ok (h, m) then retM (local_at (utc_offset P t) t h m \<le> t) else raiseM (ValueError ''daily_at'')))
     | _ \<Rightarrow>
         if bp_hours p \<le> 0 then retM False
         else (case bp_last_run p of
             None \<Rightarrow> thenM (mark_run P (bp_id p) t) (retM False)
           | Some r \<Rightarrow> retM (bp_hours p * 3600 \<le> total_seconds (t - r))))"

definition run_if_due :: "ports \<Rightarrow> user \<Rightarrow> datetime \<Rightarrow> backup_profile \<Rightarrow> (svc, unit) prog" where
  "run_if_due P u t p =
     (if \<not> bp_enabled p then retM ()
      else bindM (profile_due P t p) (\<lambda>due.
        if \<not> due then retM ()
        else thenM (mark_run P (bp_id p) t) (ignoreM (trigger_profile_locked P u (bp_id p)))))"

definition tick_backup_profiles :: "ports \<Rightarrow> user \<Rightarrow> (svc, unit) prog" where
  "tick_backup_profiles P u = thenM (authorize P u BACKUP_TRIGGER)
     (if \<not> has_profiles P \<or> \<not> has_profile_backup P then retM ()
      else bindM (restore_in_progress P) (\<lambda>r.
        if r then retM ()
        else bindM (tryM (running P SafetyBackup) (\<lambda>_. retM True)) (\<lambda>up.
          if up then retM ()
          else bindM (now P) (\<lambda>t. bindM (profile_list P) (\<lambda>ps. forM ps (run_if_due P u t))))))"

subsection \<open>Retention\<close>

definition backup_retention_plan :: "ports \<Rightarrow> user \<Rightarrow> int \<Rightarrow> int \<Rightarrow> string \<Rightarrow> (svc, retention_item list \<times> retention_item list) prog" where
  "backup_retention_plan P u days months folder = thenM (authorize P u BACKUP_RETENTION)
     (bindM (now P) (\<lambda>t. bindM (list_archives P) (\<lambda>archives. retM (retention_plan t days months folder archives))))"

text \<open>Which of the archives of a plan were deleted.\<close>

definition delete_all :: "ports \<Rightarrow> retention_item list \<Rightarrow> (svc, (backup_archive \<times> bool) list) prog" where
  "delete_all P items = mapM (\<lambda>item. bindM (delete_archive P (ba_filename (fst item))) (\<lambda>ok. retM (fst item, ok))) items"

definition apply_backup_retention :: "ports \<Rightarrow> user \<Rightarrow> int \<Rightarrow> int \<Rightarrow> string \<Rightarrow> (svc, int) prog" where
  "apply_backup_retention P u days months folder = bindM (backup_retention_plan P u days months folder) (\<lambda>plan.
     bindM (delete_all P (snd plan)) (\<lambda>results.
       let gone = map fst (filter snd results); failed = map (ba_filename \<circ> fst) (filter (\<lambda>r. \<not> snd r) results);
           deleted = int (length gone); freed = sum_list (map ba_size_bytes gone);
           detail = ''retention appliquee ('' @ str_int days @ '' j / '' @ str_int months @ '' mois) : '' @ str_int deleted @
             '' supprimee(s), '' @ str_int (freed div 1048576) @ '' Mio liberes'' @
             (if failed = [] then [] else '' - echecs : '' @ join '', '' failed)
       in thenM (record_audit P u BACKUP_RETENTION (if failed = [] then ''allowed'' else ''error'') detail) (retM deleted)))"

definition backup_watch_user :: user where
  "backup_watch_user = automation ''backup-watch'' {BACKUP_TRIGGER, BACKUP_RETENTION}"

definition auto_retention :: "ports \<Rightarrow> string \<Rightarrow> string \<Rightarrow> (svc, unit) prog" where
  "auto_retention P kind operation_id = bindM (get_profile P kind) (\<lambda>profile. case profile of
       None \<Rightarrow> retM ()
     | Some p \<Rightarrow>
         if bp_daily_days p \<le> 0 \<or> \<not> (startswith (bp_dest p) ''profiles/'' \<or> bp_dest p = ''scheduled'') then retM ()
         else ignoreM (bindM (backup_retention_plan P backup_watch_user (bp_daily_days p) (bp_monthly_months p) (bp_dest p @ ''/'')) (\<lambda>plan.
           bindM (delete_all P (snd plan)) (\<lambda>results.
             let deleted = length (filter snd results) in
             whenM (deleted \<noteq> 0) (record_audit P backup_watch_user BACKUP_TRIGGER ''allowed''
               (''phase=retention_applied kind='' @ kind @ '' deleted='' @ str_int (int deleted) @ '' operation_id='' @ operation_id))))))"

subsection \<open>The outcome of a run\<close>

text \<open>\<open>max(archives, key=...)\<close>: the first of the most recent.\<close>

definition newest_archive :: "backup_archive list \<Rightarrow> backup_archive option" where
  "newest_archive xs = (case xs of [] \<Rightarrow> None
     | x # xs \<Rightarrow> Some (foldl (\<lambda>m a. if ba_created_at m < ba_created_at a then a else m) x xs))"

definition forget_run :: "string \<Rightarrow> (svc, unit) prog" where
  "forget_run kind = modM (\<lambda>s. s\<lparr>backup_started := AList.delete kind (backup_started s), progress_max := AList.delete kind (progress_max s)\<rparr>)"

definition forget_id :: "string \<Rightarrow> (svc, unit) prog" where
  "forget_id kind = modM (\<lambda>s. s\<lparr>backup_ids := AList.delete kind (backup_ids s)\<rparr>)"

definition finalize_backup :: "ports \<Rightarrow> string \<Rightarrow> string \<Rightarrow> string \<Rightarrow> (svc, unit) prog" where
  "finalize_backup P kind folder label = bindM (getM (\<lambda>s. map_of (backup_started s) kind)) (\<lambda>started. case started of
       None \<Rightarrow> retM ()
     | Some started_at \<Rightarrow> thenM (forget_run kind)
         (bindM (list_archives P) (\<lambda>archives.
            let newest = newest_archive (filter (\<lambda>a. startswith (ba_filename a) folder \<and> started_at \<le> ba_created_at a) archives) in
            bindM (getM (\<lambda>s. id_of kind (backup_ids s))) (\<lambda>operation_id. thenM (forget_id kind)
           (bindM (now P) (\<lambda>t.
            thenM (modM (\<lambda>s. s\<lparr>backup_result := Some \<lparr>bo_kind = kind, bo_ok = newest \<noteq> None, bo_finished_at = t,
                bo_archive = map_option ba_filename newest, bo_label = label\<rparr>\<rparr>))
              (case newest of
                 Some a \<Rightarrow>
                   thenM (record_audit P backup_watch_user BACKUP_TRIGGER ''allowed'' (''phase=backup_done kind='' @ kind @
                     '' archive='' @ ba_filename a @ '' size_mio='' @ str_int (ba_size_bytes a div 1048576) @ '' operation_id='' @ operation_id))
                  (thenM (notify ''Sauvegarde terminee'' (''<< '' @ (if label = [] then kind else label) @ '' >> - '' @
                     str_int (ba_size_bytes a div 1048576) @ '' Mio.'') ''info'' ''backup'')
                    (auto_retention P kind operation_id))
               | None \<Rightarrow>
                   thenM (record_audit P backup_watch_user BACKUP_TRIGGER ''error''
                     (''phase=backup_failed kind='' @ kind @ '' operation_id='' @ operation_id))
                     (notify ''Sauvegarde echouee'' (''La sauvegarde '' @ kind @ '' n a produit aucune archive.'') ''error'' []))))))))"

definition scan_one :: "ports \<Rightarrow> string \<times> string \<times> worker \<times> string \<Rightarrow> (svc, unit) prog" where
  "scan_one P w = (case w of (kind, folder, worker, label) \<Rightarrow>
     bindM (getM (\<lambda>s. map_of (backup_started s) kind)) (\<lambda>started.
       if started = None then retM ()
       else bindM (tryM (running P worker) (\<lambda>_. retM True)) (\<lambda>up.
         if up then retM ()
         else if kind = ''safety'' then thenM (forget_run kind) (forget_id kind)
         else finalize_backup P kind folder label)))"

definition watched_runs :: "ports \<Rightarrow> (svc, (string \<times> string \<times> worker \<times> string) list) prog" where
  "watched_runs P = bindM (if has_profiles P \<and> has_profile_backup P then profile_list P else retM []) (\<lambda>ps.
     retM ((''safety'', ''restore-safety/'', SafetyBackup, []) #
       map (\<lambda>p. (bp_id p, bp_dest p @ ''/'', ProfileBackup, bp_name p)) ps))"

definition scan_backup_outcomes :: "ports \<Rightarrow> (svc, unit) prog" where
  "scan_backup_outcomes P = bindM (watched_runs P) (\<lambda>ws. forM ws (scan_one P))"

subsection \<open>Progress\<close>

definition estimate :: "string \<Rightarrow> backup_archive option \<Rightarrow> int \<Rightarrow> (svc, int option) prog" where
  "estimate kind current base_size = (case current of
       None \<Rightarrow> retM None
     | Some a \<Rightarrow>
         if base_size \<le> 0 then retM None
         else bindM (getM (\<lambda>s. map_of (progress_max s) kind)) (\<lambda>top.
           let percent = max 1 (min 95 (trunc_rat (of_int (ba_size_bytes a) / of_int base_size * 100)));
               best = max percent (case top of Some m \<Rightarrow> m | None \<Rightarrow> 0)
           in thenM (modM (\<lambda>s. s\<lparr>progress_max := AList.update kind best (progress_max s)\<rparr>)) (retM (Some best))))"

definition backup_progress_for :: "ports \<Rightarrow> string \<Rightarrow> string \<Rightarrow> worker \<Rightarrow> (svc, backup_progress option) prog" where
  "backup_progress_for P kind folder w = bindM (tryM (running P w) (\<lambda>_. retM False)) (\<lambda>up.
     if \<not> up then retM None
     else bindM (getM (\<lambda>s. map_of (backup_started s) kind)) (\<lambda>started. bindM (list_archives P) (\<lambda>all.
       let archives = newest_first (filter (\<lambda>a. startswith (ba_filename a) folder) all);
           current = (case started of None \<Rightarrow> None | Some t \<Rightarrow> List.find (\<lambda>a. t \<le> ba_created_at a) archives);
           base = (case started of None \<Rightarrow> List.find (\<lambda>_. True) archives | Some t \<Rightarrow> List.find (\<lambda>a. ba_created_at a < t) archives)
       in bindM (case base of None \<Rightarrow> retM None | Some b \<Rightarrow> estimate kind current (ba_size_bytes b)) (\<lambda>percent.
         retM (Some \<lparr>bpg_kind = kind, bpg_running = True, bpg_percent = percent, bpg_archive = current, bpg_label = []\<rparr>)))))"

fun running_profile :: "ports \<Rightarrow> backup_profile list \<Rightarrow> (svc, backup_progress option) prog" where
  "running_profile P [] = retM None"
| "running_profile P (p # ps) = bindM (getM (\<lambda>s. map_of (backup_started s) (bp_id p))) (\<lambda>started.
     if started = None then running_profile P ps
     else bindM (backup_progress_for P (bp_id p) (bp_dest p @ ''/'') ProfileBackup) (\<lambda>r. case r of
         None \<Rightarrow> running_profile P ps
       | Some g \<Rightarrow> retM (Some (g\<lparr>bpg_label := bp_name p\<rparr>))))"

definition backup_progress :: "ports \<Rightarrow> user \<Rightarrow> (svc, backup_progress option) prog" where
  "backup_progress P u = thenM (authorize P u BACKUP_TRIGGER)
     (bindM (if has_profiles P \<and> has_profile_backup P then bindM (profile_list P) (running_profile P) else retM None) (\<lambda>r.
      bindM (if r = None then backup_progress_for P ''safety'' ''restore-safety/'' SafetyBackup else retM r) (\<lambda>r.
        thenM (scan_backup_outcomes P) (retM r))))"

subsection \<open>Reading\<close>

definition list_backups :: "ports \<Rightarrow> user \<Rightarrow> (svc, backup_archive list) prog" where
  "list_backups P u = thenM (authorize P u BACKUP_TRIGGER) (list_archives P)"

definition last_backup_outcome :: "ports \<Rightarrow> user \<Rightarrow> (svc, backup_outcome option) prog" where
  "last_backup_outcome P u = thenM (authorize P u BACKUP_TRIGGER) (getM backup_result)"

definition archive_checks :: "ports \<Rightarrow> user \<Rightarrow> (svc, (string \<times> archive_check) list) prog" where
  "archive_checks P u = thenM (authorize P u BACKUP_TRIGGER) (if has_checks P then ask ''checks'' (checks_at P) else retM [])"

definition archive_checking :: "ports \<Rightarrow> user \<Rightarrow> (svc, string option) prog" where
  "archive_checking P u = thenM (authorize P u BACKUP_TRIGGER) (if has_checks P then ask ''checking'' (checking_at P) else retM None)"

definition backup_free_bytes :: "ports \<Rightarrow> user \<Rightarrow> (svc, int option) prog" where
  "backup_free_bytes P u = thenM (authorize P u BACKUP_TRIGGER) (ask ''free'' (free_at P))"

definition backup_download_path :: "ports \<Rightarrow> user \<Rightarrow> string \<Rightarrow> (svc, string) prog" where
  "backup_download_path P u filename = thenM (authorize P u BACKUP_DOWNLOAD)
     (bindM (archive_path P filename) (\<lambda>found.
        if found then retM filename else raiseM (BackupArchiveNotFound (''archive introuvable : '' @ filename))))"

end
