(* ===== verification/Restores.thy ===== *)
theory Restores
  imports Backups
begin

text \<open>
  The restore as the service runs it, from \<^verbatim>\<open>app/domain/services/backups.py\<close>: the checks before it,
  the safety backup of the current world it waits for, the start of the restore container and
  what is observed of its end. The transaction inside that container is in \<^verbatim>\<open>Restore_Worker\<close>.
\<close>

definition restore_wait_max :: int where "restore_wait_max = 15 * 60 * us_per_second"
definition restore_execution_max :: int where "restore_execution_max = 30 * 60 * us_per_second"
definition restore_health_max :: int where "restore_health_max = 5 * 60 * us_per_second"

definition restore_doorman_consigne :: "string \<times> string" where
  "restore_doorman_consigne =
     (section_sign @ ''eRestauration en cours'' @ [CHR 0x0A] @ section_sign @ ''fLe serveur revient dans quelques minutes.'',
      ''Une sauvegarde est en cours de restauration. Reviens dans quelques minutes.'')"

definition notify_restore :: "string \<Rightarrow> string \<Rightarrow> string \<Rightarrow> (svc, unit) prog" where
  "notify_restore title message level = notify title message level ''restore''"

subsection \<open>Checks\<close>

definition port_running :: "ports \<Rightarrow> worker \<Rightarrow> string \<Rightarrow> (svc, bool) prog" where
  "port_running P w label = tryM (running P w)
     (\<lambda>e. raiseM (RestoreUnavailable (''etat '' @ label @ '' illisible : '' @ exn_str e)))"

definition or_default :: "string \<Rightarrow> string \<Rightarrow> string" where
  "or_default text d = (if text = [] then d else text)"

text \<open>The verdict on an archive against the archive as it is now.\<close>

definition verdict_issues :: "string \<Rightarrow> backup_archive \<Rightarrow> archive_check option \<Rightarrow> string option \<Rightarrow> string list" where
  "verdict_issues filename a check checking = (case check of
       None \<Rightarrow>
         (if checking = Some filename then [''verification complete de l archive en cours'']
          else [''archive pas encore verifiee ; attendre le badge << verifiee >>''])
     | Some c \<Rightarrow>
         if ac_size_bytes c \<noteq> ba_size_bytes a \<or> ac_archive_created_at c \<noteq> Some (ba_created_at a) then
           (if checking = Some filename then [''archive modifiee ; nouvelle verification en cours'']
            else [''archive modifiee depuis son dernier controle ; nouvelle verification requise''])
         else if \<not> ac_ok c then [''archive illisible ou dangereuse : '' @ or_default (strip (ac_detail c)) ''erreur de lecture'']
         else (case ac_restorable c of
             None \<Rightarrow> [''ancien verdict incomplet ; nouvelle verification requise'']
           | Some False \<Rightarrow> [''archive non restaurable : '' @ or_default (strip (ac_detail c)) ''monde Minecraft complet absent'']
           | Some True \<Rightarrow> []))"

definition find_archive :: "string \<Rightarrow> backup_archive list \<Rightarrow> backup_archive option" where
  "find_archive filename archives = List.find (\<lambda>a. ba_filename a = filename) archives"

definition restore_archive_issues :: "ports \<Rightarrow> string \<Rightarrow> (svc, string list) prog" where
  "restore_archive_issues P filename =
     bindM (attemptM (bindM (list_archives P) (\<lambda>archives. bindM (archive_path P filename) (\<lambda>found.
        retM (find_archive filename archives, found))))) (\<lambda>r. case r of
       Inl e \<Rightarrow> retM [''acces aux sauvegardes impossible : '' @ exn_str e]
     | Inr (None, _) \<Rightarrow> retM [''archive introuvable : '' @ filename]
     | Inr (Some a, False) \<Rightarrow> retM [''archive introuvable : '' @ filename]
     | Inr (Some a, True) \<Rightarrow>
         if \<not> has_checks P then retM [''verification d integrite des archives non configuree'']
         else bindM (attemptM (bindM (ask ''checks'' (checks_at P)) (\<lambda>checks. bindM (ask ''checking'' (checking_at P)) (\<lambda>checking.
             retM (map_of checks filename, checking))))) (\<lambda>v. case v of
           Inl e \<Rightarrow> retM [''verdict d integrite illisible : '' @ exn_str e]
         | Inr (check, checking) \<Rightarrow> retM (verdict_issues filename a check checking)))"

definition issue_if :: "bool \<Rightarrow> string \<Rightarrow> string list" where
  "issue_if b text = (if b then [text] else [])"

definition under_way :: "restore_operation option \<Rightarrow> bool" where
  "under_way op = (case op of Some r \<Rightarrow> ro_phase r \<notin> {''success'', ''failed''} | None \<Rightarrow> False)"

definition doorman_issues :: "ports \<Rightarrow> (svc, string list) prog" where
  "doorman_issues P = (if \<not> has_doorman P then retM []
     else tryM (bindM (running P Doorman) (\<lambda>up. retM (issue_if up ''le serveur est en maintenance : le rouvrir avant de restaurer'')))
       (\<lambda>_. retM [''etat du mode maintenance illisible'']))"

definition restore_preflight_issues :: "ports \<Rightarrow> string \<Rightarrow> (svc, string list) prog" where
  "restore_preflight_issues P filename =
     bindM (getM restore_op) (\<lambda>op. bindM (getM waiting_restore) (\<lambda>waiting.
     bindM (if has_restore P then port_running P Restore ''restauration'' else retM False) (\<lambda>restore_up.
     bindM (doorman_issues P) (\<lambda>doorman.
     bindM (getM (\<lambda>s. has_pending_maintenance P \<and> mt_state (maint_sched s) \<noteq> None)) (\<lambda>closing.
     bindM (restore_archive_issues P filename) (\<lambda>archive.
     bindM (port_running P SafetyBackup ''sauvegarde de securite'') (\<lambda>safety_up.
     bindM (if has_profile_backup P then port_running P ProfileBackup ''sauvegarde de profil'' else retM False) (\<lambda>profile_up.
     bindM (if has_integrity P then ask ''integrity'' (\<lambda>j. integrity_at P j ''restore'') else retM []) (\<lambda>worker.
       retM (issue_if (under_way op) ''une restauration est deja en cours'' @
         (if \<not> has_pending_restore P then [''coordinateur de restauration non configure'']
          else issue_if (waiting \<noteq> None) ''une restauration attend deja sa sauvegarde de securite'') @
         (if \<not> has_restore P then [''conteneur de restauration non configure'']
          else issue_if restore_up ''le conteneur de restauration est deja en cours'') @
         issue_if (\<not> has_validator P) ''validation immediate des archives non configuree'' @
         doorman @
         issue_if closing ''une fermeture pour maintenance est annoncee : l annuler ou attendre qu elle soit terminee'' @
         archive @
         issue_if safety_up ''sauvegarde de securite deja en cours'' @
         issue_if profile_up ''sauvegarde de profil deja en cours'' @
         worker))))))))))"

definition restore_preflight :: "ports \<Rightarrow> user \<Rightarrow> string \<Rightarrow> (svc, string list) prog" where
  "restore_preflight P u filename = thenM (authorize P u BACKUP_RESTORE) (restore_preflight_issues P filename)"

subsection \<open>Asking for a restore\<close>

definition new_operation_id :: "ports \<Rightarrow> string \<Rightarrow> (svc, string) prog" where
  "new_operation_id P filename = bindM (now P) (\<lambda>t. retM (isoformat t @ ''::'' @ filename))"

definition is_safety :: "string \<Rightarrow> bool" where
  "is_safety filename \<longleftrightarrow> startswith filename ''restore-safety/''"

definition start_safety_backup :: "ports \<Rightarrow> user \<Rightarrow> string \<Rightarrow> string \<Rightarrow> (svc, unit) prog" where
  "start_safety_backup P u filename operation_id =
     tryM (bindM (trigger_worker P SafetyBackup DTrigger) (\<lambda>result.
        if \<not> fst result then raiseM (BackupUnavailable (or_default (snd result) ''le conteneur n a pas demarre''))
        else bindM (now P) (\<lambda>t.
          thenM (modM (\<lambda>s. s\<lparr>backup_started := AList.update ''safety'' t (backup_started s),
              progress_max := AList.delete ''safety'' (progress_max s)\<rparr>))
            (restore_event P u ''security_backup_started'' ''allowed''
              [(''archive'', Some filename), (''operation_id'', Some operation_id), (''detail'', Some (snd result))]))))
      (\<lambda>e. thenM (restore_event P u ''security_backup_failed'' ''error''
             [(''archive'', Some filename), (''operation_id'', Some operation_id), (''error'', Some (exn_str e))])
          (thenM (notify_restore ''Restauration annulee'' (filename @
             '' : la sauvegarde de securite n a pas pu demarrer. Le monde n a pas ete modifie.'') ''error'')
            (raiseM (RestoreUnavailable (''sauvegarde de securite impossible : '' @ exn_str e @ ''; restauration annulee'')))))"

definition restore_backup :: "ports \<Rightarrow> user \<Rightarrow> string \<Rightarrow> (svc, string) prog" where
  "restore_backup P u filename = thenM (authorize P u BACKUP_RESTORE)
     (thenM (modM (\<lambda>s. if under_way (restore_op s) then s else s\<lparr>restore_op := None\<rparr>))
     (bindM (archive_path P filename) (\<lambda>found.
        if \<not> found then
          thenM (restore_event P u ''restore_rejected'' ''error'' [(''archive'', Some filename), (''reason'', Some ''archive_not_found'')])
            (raiseM (BackupArchiveNotFound (''archive introuvable : '' @ filename)))
        else bindM (restore_preflight_issues P filename) (\<lambda>issues.
          if issues \<noteq> [] then
            thenM (restore_event P u ''restore_rejected'' ''error'' [(''archive'', Some filename),
                (''reason'', Some ''preflight_failed''), (''detail'', Some (join ''; '' issues))])
              (raiseM (RestoreUnavailable (''preflight echoue : '' @ join ''; '' issues)))
          else bindM (new_operation_id P filename) (\<lambda>operation_id.
            thenM (restore_event P u ''restore_requested'' ''allowed'' [(''archive'', Some filename),
                (''requested_by'', Some (username u)), (''operation_id'', Some operation_id)])
           (bindM (list_archives P) (\<lambda>archives.
            thenM (start_safety_backup P u filename operation_id)
           (bindM (now P) (\<lambda>t.
            let deadline = t + restore_wait_max in
            thenM (modM (\<lambda>s. s\<lparr>waiting_restore := Some \<lparr>pr_filename = filename, pr_requested_by = username u,
                pr_deadline = deadline, pr_operation_id = operation_id,
                pr_safety_before = filter is_safety (map ba_filename archives)\<rparr>\<rparr>))
           (thenM (restore_event P u ''restore_pending'' ''allowed'' [(''archive'', Some filename),
                (''requested_by'', Some (username u)), (''operation_id'', Some operation_id), (''deadline'', Some (isoformat deadline))])
           (thenM (notify_restore ''Restauration programmee'' (filename @ '' - demarrera des la fin de la sauvegarde de securite.'') ''info'')
             (retM ''pending''))))))))))))"

definition pending_restore_status :: "ports \<Rightarrow> user \<Rightarrow> (svc, pending_restore option) prog" where
  "pending_restore_status P u = thenM (authorize P u BACKUP_RESTORE)
     (getM (\<lambda>s. if has_pending_restore P then waiting_restore s else None))"

definition dismiss_activity_result :: "ports \<Rightarrow> user \<Rightarrow> (svc, bool) prog" where
  "dismiss_activity_result P u = thenM (authorize P u BACKUP_TRIGGER)
     (bindM (getM backup_result) (\<lambda>r. thenM (modM (\<lambda>s. s\<lparr>backup_result := None\<rparr>))
     (bindM (getM restore_op) (\<lambda>op.
        if can u BACKUP_RESTORE \<and> op \<noteq> None \<and> \<not> under_way op
        then thenM (modM (\<lambda>s. s\<lparr>restore_op := None\<rparr>)) (retM True)
        else retM (r \<noteq> None)))))"

definition restore_operation_id :: "restore_operation \<Rightarrow> string" where
  "restore_operation_id op = (if ro_operation_id op \<noteq> [] then ro_operation_id op
     else isoformat (ro_started_at op) @ ''::'' @ ro_filename op)"

definition operation_progress :: "restore_operation option \<Rightarrow> restore_progress" where
  "operation_progress op = (case op of
       None \<Rightarrow> \<lparr>rpg_pending = None, rpg_phase = ''idle'', rpg_running = False, rpg_percent = None, rpg_archive = None,
          rpg_operation_id = None, rpg_filename = None, rpg_message = [], rpg_level = ''info''\<rparr>
     | Some r \<Rightarrow> \<lparr>rpg_pending = None, rpg_phase = ro_phase r, rpg_running = False,
          rpg_percent = (if ro_phase r \<in> {''success'', ''failed'', ''waiting_minecraft''} then Some 100 else None), rpg_archive = None,
          rpg_operation_id = Some (restore_operation_id r), rpg_filename = Some (ro_filename r), rpg_message = ro_message r,
          rpg_level = (if ro_phase r = ''success'' then ''success'' else if ro_phase r = ''failed'' then ''error'' else ''info'')\<rparr>)"

definition pending_progress :: "pending_restore \<Rightarrow> string \<Rightarrow> bool \<Rightarrow> int option \<Rightarrow> backup_archive option \<Rightarrow> string \<Rightarrow> restore_progress" where
  "pending_progress p phase run percent archive message =
     \<lparr>rpg_pending = Some p, rpg_phase = phase, rpg_running = run, rpg_percent = percent, rpg_archive = archive,
      rpg_operation_id = Some (pr_operation_id p), rpg_filename = Some (pr_filename p), rpg_message = message, rpg_level = ''info''\<rparr>"

definition restore_progress :: "ports \<Rightarrow> user \<Rightarrow> (svc, restore_progress) prog" where
  "restore_progress P u = thenM (authorize P u BACKUP_RESTORE)
     (bindM (getM (\<lambda>s. if has_pending_restore P then waiting_restore s else None)) (\<lambda>pending. case pending of
        None \<Rightarrow> bindM (getM restore_op) (\<lambda>op. retM (operation_progress op))
      | Some p \<Rightarrow> bindM (list_archives P) (\<lambda>archives.
          let requested_at = pr_deadline p - restore_wait_max; mine = filter (\<lambda>a. is_safety (ba_filename a)) archives;
              later = newest_first (filter (\<lambda>a. requested_at \<le> ba_created_at a) mine);
              earlier = newest_first (filter (\<lambda>a. ba_created_at a < requested_at) mine);
              security = List.find (\<lambda>_. True) later;
              base_size = (case earlier of b # _ \<Rightarrow> ba_size_bytes b | [] \<Rightarrow> 0) in
          bindM (tryM (running P SafetyBackup) (\<lambda>_. retM False)) (\<lambda>up. bindM (getM validating) (\<lambda>v. case v of
            Some name \<Rightarrow> retM (pending_progress p ''backup_validating'' False None
              (case find_archive name later of Some a \<Rightarrow> Some a | None \<Rightarrow> security)
              ''Etape 1/3 - verification complete de la sauvegarde de securite.'')
          | None \<Rightarrow>
              if up then bindM (estimate ''safety'' security base_size) (\<lambda>percent.
                retM (pending_progress p ''backup_running'' True percent security ''Etape 1/3 - sauvegarde de securite du monde actuel.''))
              else retM (pending_progress p ''restore_pending'' False (Some 100) security
                ''Etape 1/3 terminee - lancement de la restauration...''))))))"

subsection \<open>The restore container\<close>

definition finish_restore_operation :: "ports \<Rightarrow> string \<Rightarrow> string \<Rightarrow> (svc, string option) prog" where
  "finish_restore_operation P phase message = bindM (getM restore_op) (\<lambda>op. case op of
       None \<Rightarrow> retM (Some phase)
     | Some r \<Rightarrow> bindM (now P) (\<lambda>t.
         thenM (modM (\<lambda>s. s\<lparr>restore_op := Some (r\<lparr>ro_phase := phase, ro_message := message, ro_completed_at := Some t\<rparr>)\<rparr>))
           (retM (Some phase))))"

definition start_restore_after_backup :: "ports \<Rightarrow> user \<Rightarrow> pending_restore \<Rightarrow> (svc, unit) prog" where
  "start_restore_after_backup P u p =
     thenM (whenM (has_doorman P) (ignoreM (case restore_doorman_consigne of (motd, refusal) \<Rightarrow> docker P Doorman (DPrime motd refusal))))
    (thenM (docker P Restore (DRestore (pr_filename p)))
    (bindM (now P) (\<lambda>t.
     bindM (if pr_operation_id p \<noteq> [] then retM (pr_operation_id p) else new_operation_id P (pr_filename p)) (\<lambda>operation_id.
       thenM (modM (\<lambda>s. s\<lparr>restore_op := Some \<lparr>ro_filename = pr_filename p, ro_requested_by = pr_requested_by p,
           ro_phase = ''restore_running'', ro_started_at = t, ro_deadline = t + restore_execution_max,
           ro_message = ''Etape 2/3 - remplacement du monde par l archive.'', ro_completed_at = None,
           ro_operation_id = operation_id\<rparr>\<rparr>))
         (restore_event P u ''restore_started'' ''allowed'' [(''archive'', Some (pr_filename p)),
           (''requested_by'', Some (pr_requested_by p)), (''operation_id'', Some operation_id)])))))"

definition failed_event :: "ports \<Rightarrow> user \<Rightarrow> restore_operation \<Rightarrow> (string \<times> string option) list \<Rightarrow> (svc, unit) prog" where
  "failed_event P u op extra = restore_event P u ''restore_failed'' ''error''
     ([(''archive'', Some (ro_filename op)), (''operation_id'', Some (restore_operation_id op))] @ extra)"

definition restore_overdue :: "ports \<Rightarrow> user \<Rightarrow> restore_operation \<Rightarrow> (svc, string option) prog" where
  "restore_overdue P u op =
     (if ro_phase op = ''restore_running'' then
        thenM (restore_event P u ''restore_failed'' ''error'' [(''archive'', Some (ro_filename op)),
            (''requested_by'', Some (ro_requested_by op)), (''operation_id'', Some (restore_operation_id op)),
            (''reason'', Some ''execution_timeout'')])
          (finish_restore_operation P ''failed'' ''Le conteneur de restauration n a pas termine dans les temps.'')
      else
        thenM (restore_event P u ''minecraft_unhealthy_timeout'' ''error'' [(''archive'', Some (ro_filename op)),
            (''requested_by'', Some (ro_requested_by op)), (''operation_id'', Some (restore_operation_id op))])
       (thenM (failed_event P u op [(''reason'', Some ''health_timeout'')])
          (finish_restore_operation P ''failed''
            ''Le monde a ete restaure, mais le serveur n est pas revenu en ligne dans les temps.'')))"

definition exit_text :: "int option \<Rightarrow> string" where
  "exit_text c = (case c of Some i \<Rightarrow> ''code de sortie '' @ str_int i | None \<Rightarrow> ''code de sortie inconnu'')"

definition watch_minecraft :: "ports \<Rightarrow> user \<Rightarrow> restore_operation \<Rightarrow> (svc, string option) prog" where
  "watch_minecraft P u op = bindM (attemptM (ask ''status'' (status_at P))) (\<lambda>r. case r of
       Inl e \<Rightarrow> retM None
     | Inr state \<Rightarrow>
         if \<not> cs_running state \<or> (case cs_health state of Some h \<Rightarrow> h \<noteq> ''healthy'' | None \<Rightarrow> False) then retM None
         else bindM (attemptM (list_players P)) (\<lambda>players. case players of
             Inl e \<Rightarrow> retM None
           | Inr _ \<Rightarrow>
               thenM (restore_event P u ''minecraft_healthy'' ''allowed'' [(''archive'', Some (ro_filename op)),
                   (''operation_id'', Some (restore_operation_id op)),
                   (''health'', Some (case cs_health state of Some h \<Rightarrow> or_default h ''rcon_ok'' | None \<Rightarrow> ''rcon_ok''))])
              (thenM (restore_event P u ''restore_completed'' ''allowed'' [(''archive'', Some (ro_filename op)),
                   (''requested_by'', Some (ro_requested_by op)), (''operation_id'', Some (restore_operation_id op))])
                (finish_restore_operation P ''success'' ''Le monde a ete restaure, le serveur est de nouveau en ligne.''))))"

definition watch_container :: "ports \<Rightarrow> user \<Rightarrow> datetime \<Rightarrow> restore_operation \<Rightarrow> (svc, string option) prog" where
  "watch_container P u t op =
     bindM (attemptM (if has_restore P then running P Restore else retM False)) (\<lambda>r. case r of
       Inl e \<Rightarrow> thenM (failed_event P u op [(''error'', Some (exn_str e))])
          (finish_restore_operation P ''failed'' ''Etat de mc-restore illisible.'')
     | Inr True \<Rightarrow> retM None
     | Inr False \<Rightarrow> bindM (attemptM (if has_restore P then exit_code P Restore else retM None)) (\<lambda>x. case x of
           Inl e \<Rightarrow> thenM (failed_event P u op [(''error'', Some (exn_str e))])
             (thenM (notify_restore ''Restauration echouee'' (exn_str e) ''error'')
               (finish_restore_operation P ''failed'' ''Le resultat du conteneur de restauration est illisible.''))
         | Inr c \<Rightarrow>
             if c \<noteq> Some 0 then
               (let message = ''Le conteneur de restauration a echoue ('' @ exit_text c @ '').'' in
                thenM (failed_event P u op [(''reason'', Some ''container_exit''), (''detail'', Some (exit_text c))])
               (thenM (notify_restore ''Restauration echouee'' message ''error'') (finish_restore_operation P ''failed'' message)))
             else
               thenM (restore_event P u ''restore_done'' ''allowed'' [(''archive'', Some (ro_filename op)), (''operation_id'', Some (restore_operation_id op))])
              (thenM (restore_event P u ''minecraft_restarting'' ''allowed'' [(''archive'', Some (ro_filename op)), (''operation_id'', Some (restore_operation_id op))])
              (let op' = op\<lparr>ro_phase := ''waiting_minecraft'', ro_deadline := t + restore_health_max,
                   ro_message := ''Etape 3/3 - redemarrage du serveur.'', ro_completed_at := None\<rparr>
               in thenM (modM (\<lambda>s. s\<lparr>restore_op := Some op'\<rparr>)) (watch_minecraft P u op')))))"

definition tick_restore_operation :: "ports \<Rightarrow> user \<Rightarrow> (svc, string option) prog" where
  "tick_restore_operation P u = bindM (getM restore_op) (\<lambda>state. case state of
       None \<Rightarrow> retM None
     | Some op \<Rightarrow> bindM (now P) (\<lambda>t.
         if ro_phase op \<in> {''success'', ''failed''} then retM (Some (ro_phase op))
         else if ro_deadline op \<le> t then restore_overdue P u op
         else if ro_phase op = ''restore_running'' then watch_container P u t op
         else if ro_phase op = ''waiting_minecraft'' then watch_minecraft P u op
         else retM None))"

subsection \<open>Waiting for the safety backup\<close>

definition remember_failure :: "ports \<Rightarrow> pending_restore \<Rightarrow> string \<Rightarrow> (svc, unit) prog" where
  "remember_failure P p message = bindM (now P) (\<lambda>t.
     modM (\<lambda>s. s\<lparr>restore_op := Some \<lparr>ro_filename = pr_filename p, ro_requested_by = pr_requested_by p, ro_phase = ''failed'',
       ro_started_at = pr_deadline p - restore_wait_max, ro_deadline = t, ro_message = message, ro_completed_at = Some t,
       ro_operation_id = pr_operation_id p\<rparr>\<rparr>))"

definition clear_waiting :: "(svc, unit) prog" where
  "clear_waiting = modM (\<lambda>s. s\<lparr>waiting_restore := None\<rparr>)"

text \<open>Every way of giving up: the restore is forgotten, the event audited, the failure shown.\<close>

definition abandon :: "ports \<Rightarrow> user \<Rightarrow> pending_restore \<Rightarrow> string \<Rightarrow> (string \<times> string option) list \<Rightarrow> string \<Rightarrow> string \<Rightarrow> (svc, string option) prog" where
  "abandon P u p phase extra title message = thenM clear_waiting
     (thenM (restore_event P u phase ''error'' ([(''archive'', Some (pr_filename p)), (''requested_by'', Some (pr_requested_by p)),
         (''operation_id'', Some (pr_operation_id p))] @ extra))
     (thenM (remember_failure P p message)
     (thenM (notify_restore title message ''error'') (retM (Some ''abandoned'')))))"

definition new_safety_archive :: "ports \<Rightarrow> pending_restore \<Rightarrow> (svc, backup_archive option) prog" where
  "new_safety_archive P p = bindM (list_archives P) (\<lambda>archives.
     retM (newest_archive (filter (\<lambda>a. is_safety (ba_filename a) \<and> ba_filename a \<notin> set (pr_safety_before p)) archives)))"

definition validate_archive :: "ports \<Rightarrow> string \<Rightarrow> (svc, archive_check) prog" where
  "validate_archive P filename = ask (''validate '' @ filename) (\<lambda>j. validate_at P j filename)"

definition safety_verdict :: "archive_check \<Rightarrow> backup_archive option \<Rightarrow> exn + backup_archive" where
  "safety_verdict c current = (case current of
       None \<Rightarrow> Inl (RestoreUnavailable ''la sauvegarde de securite a disparu pendant sa verification'')
     | Some a \<Rightarrow>
         if ac_filename c \<noteq> ba_filename a \<or> ac_size_bytes c \<noteq> ba_size_bytes a \<or> ac_archive_created_at c \<noteq> Some (ba_created_at a)
         then Inl (RestoreUnavailable ''la sauvegarde de securite a change pendant sa verification'')
         else if \<not> ac_ok c then Inl (RestoreUnavailable (''sauvegarde de securite illisible : '' @ or_default (strip (ac_detail c)) ''erreur de lecture''))
         else if ac_restorable c \<noteq> Some True
         then Inl (RestoreUnavailable (''sauvegarde de securite non restaurable : '' @ or_default (strip (ac_detail c)) ''monde Minecraft complet absent''))
         else Inr a)"

definition validate_new_safety_archive :: "ports \<Rightarrow> pending_restore \<Rightarrow> (svc, backup_archive) prog" where
  "validate_new_safety_archive P p = bindM (new_safety_archive P p) (\<lambda>found. case found of
       None \<Rightarrow> raiseM (RestoreUnavailable ''le conteneur s est termine sans produire de nouvelle archive de securite'')
     | Some a \<Rightarrow>
         if \<not> has_validator P then raiseM (RestoreUnavailable ''validation immediate des archives non configuree'')
         else thenM (modM (\<lambda>s. s\<lparr>validating := Some (ba_filename a)\<rparr>))
           (bindM (finallyM (validate_archive P (ba_filename a)) (modM (\<lambda>s. s\<lparr>validating := None\<rparr>))) (\<lambda>check.
            bindM (list_archives P) (\<lambda>archives. case safety_verdict check (find_archive (ba_filename a) archives) of
               Inl e \<Rightarrow> raiseM e
             | Inr current \<Rightarrow> retM current))))"

definition launch_restore :: "ports \<Rightarrow> user \<Rightarrow> pending_restore \<Rightarrow> backup_archive \<Rightarrow> (svc, string option) prog" where
  "launch_restore P u p safety =
     thenM (on_error
        (thenM (restore_event P u ''security_backup_done'' ''allowed'' [(''archive'', Some (pr_filename p)),
            (''security_archive'', Some (ba_filename safety)), (''requested_by'', Some (pr_requested_by p)),
            (''operation_id'', Some (pr_operation_id p))])
        (thenM (start_restore_after_backup P u p) clear_waiting))
        (\<lambda>e. thenM clear_waiting
          (thenM (restore_event P u ''restore_failed'' ''error'' [(''archive'', Some (pr_filename p)),
              (''operation_id'', Some (pr_operation_id p)), (''error'', Some (exn_str e))])
            (notify_restore ''Restauration echouee'' (exn_str e) ''error''))))
      (thenM (notify_restore ''Restauration lancee'' (pr_filename p @ '' - le serveur va redemarrer.'') ''info'')
        (retM (Some ''restored'')))"

definition untouched_world :: string where
  "untouched_world = '' Le monde n a pas ete modifie.''"

definition safety_backup_over :: "ports \<Rightarrow> user \<Rightarrow> pending_restore \<Rightarrow> (svc, string option) prog" where
  "safety_backup_over P u p = bindM (attemptM (validate_new_safety_archive P p)) (\<lambda>v. case v of
       Inl e \<Rightarrow> abandon P u p ''security_backup_failed'' [(''reason'', Some ''archive_validation''), (''detail'', Some (exn_str e))]
         ''Restauration annulee'' (pr_filename p @ '' : '' @ exn_str e @ ''. La restauration est annulee et le monde n a pas ete modifie.'')
     | Inr safety \<Rightarrow> bindM (restore_archive_issues P (pr_filename p)) (\<lambda>issues.
         if issues \<noteq> [] then abandon P u p ''restore_failed''
           [(''reason'', Some ''target_revalidation''), (''detail'', Some (join ''; '' issues))]
           ''Restauration annulee'' (pr_filename p @ '' n est plus utilisable : '' @ join ''; '' issues @
             ''. La restauration est annulee et le monde n a pas ete modifie.'')
         else launch_restore P u p safety))"

definition tick_waiting :: "ports \<Rightarrow> user \<Rightarrow> pending_restore \<Rightarrow> (svc, string option) prog" where
  "tick_waiting P u p = bindM (now P) (\<lambda>t.
     if pr_deadline p \<le> t then abandon P u p ''security_backup_timeout'' [] ''Restauration abandonnee''
       (pr_filename p @ '' : la sauvegarde de securite n a pas termine dans les temps.'' @ untouched_world)
     else bindM (tryM (running P SafetyBackup) (\<lambda>_. retM True)) (\<lambda>up.
       if up then retM None
       else bindM (attemptM (exit_code P SafetyBackup)) (\<lambda>x. case x of
           Inl e \<Rightarrow> retM None
         | Inr c \<Rightarrow>
             if c \<noteq> Some 0 then abandon P u p ''security_backup_failed'' [(''reason'', Some ''container_exit''), (''detail'', Some (exit_text c))]
               ''Restauration annulee'' (pr_filename p @ '' : la sauvegarde de securite a echoue ('' @ exit_text c @ '').'' @ untouched_world)
             else safety_backup_over P u p)))"

definition tick_pending_restore :: "ports \<Rightarrow> user \<Rightarrow> (svc, string option) prog" where
  "tick_pending_restore P u = thenM (authorize P u BACKUP_RESTORE)
     (thenM (scan_backup_outcomes P)
     (bindM (getM (\<lambda>s. if has_pending_restore P then waiting_restore s else None)) (\<lambda>pending. case pending of
        None \<Rightarrow> tick_restore_operation P u
      | Some p \<Rightarrow> tick_waiting P u p)))"

end
