(* ===== verification/Service.thy ===== *)
theory Service
  imports Update Game_Settings Restores
begin

text \<open>
  The service as its callers see it (the facade \<open>AdminService\<close> of
  \<^verbatim>\<open>app/domain/services/__init__.py\<close>): one constructor per request, the permission it needs, and
  what it runs. The components' requests form a guarded service.
\<close>

text \<open>The results the callers show are of many types; here only that there is one matters.\<close>

definition done_with :: "('s, 'a) prog \<Rightarrow> ('s, unit) prog" where
  "done_with m = thenM m (retM ())"

text \<open>The requests for backups and restores.\<close>

datatype (plugins only: code size) backup_request =
    Backup_profiles_list | Create_backup_profile string "string list" rat "string option" int int | Update_backup_profile string string "string list" rat "string option" int int
  | Toggle_backup_profile string bool | Delete_backup_profile string | Trigger_profile_backup string
  | Tick_backup_profiles | List_backups | Backup_progress
  | Last_backup_outcome | Archive_checks | Archive_checking
  | Backup_free_bytes | Backup_download_path string | Backup_retention_plan int int string
  | Apply_backup_retention int int string | Restore_preflight string | Restore_backup string
  | Pending_restore_status | Dismiss_activity_result | Restore_progress
  | Tick_pending_restore

primrec required_backup :: "backup_request \<Rightarrow> permission" where
  "required_backup Backup_profiles_list = BACKUP_TRIGGER"
| "required_backup (Create_backup_profile x1 x2 x3 x4 x5 x6) = BACKUP_MANAGE"
| "required_backup (Update_backup_profile x1 x2 x3 x4 x5 x6 x7) = BACKUP_MANAGE"
| "required_backup (Toggle_backup_profile x1 x2) = BACKUP_MANAGE"
| "required_backup (Delete_backup_profile x1) = BACKUP_MANAGE"
| "required_backup (Trigger_profile_backup x1) = BACKUP_TRIGGER"
| "required_backup Tick_backup_profiles = BACKUP_TRIGGER"
| "required_backup List_backups = BACKUP_TRIGGER"
| "required_backup Backup_progress = BACKUP_TRIGGER"
| "required_backup Last_backup_outcome = BACKUP_TRIGGER"
| "required_backup Archive_checks = BACKUP_TRIGGER"
| "required_backup Archive_checking = BACKUP_TRIGGER"
| "required_backup Backup_free_bytes = BACKUP_TRIGGER"
| "required_backup (Backup_download_path x1) = BACKUP_DOWNLOAD"
| "required_backup (Backup_retention_plan x1 x2 x3) = BACKUP_RETENTION"
| "required_backup (Apply_backup_retention x1 x2 x3) = BACKUP_RETENTION"
| "required_backup (Restore_preflight x1) = BACKUP_RESTORE"
| "required_backup (Restore_backup x1) = BACKUP_RESTORE"
| "required_backup Pending_restore_status = BACKUP_RESTORE"
| "required_backup Dismiss_activity_result = BACKUP_TRIGGER"
| "required_backup Restore_progress = BACKUP_RESTORE"
| "required_backup Tick_pending_restore = BACKUP_RESTORE"

primrec perform_backup :: "ports \<Rightarrow> user \<Rightarrow> backup_request \<Rightarrow> (svc, unit) prog" where
  "perform_backup P u Backup_profiles_list = done_with (backup_profiles_list P u)"
| "perform_backup P u (Create_backup_profile x1 x2 x3 x4 x5 x6) = done_with (create_backup_profile P u x1 x2 x3 x4 x5 x6)"
| "perform_backup P u (Update_backup_profile x1 x2 x3 x4 x5 x6 x7) = done_with (update_backup_profile P u x1 x2 x3 x4 x5 x6 x7)"
| "perform_backup P u (Toggle_backup_profile x1 x2) = done_with (toggle_backup_profile P u x1 x2)"
| "perform_backup P u (Delete_backup_profile x1) = done_with (delete_backup_profile P u x1)"
| "perform_backup P u (Trigger_profile_backup x1) = done_with (trigger_profile_backup P u x1)"
| "perform_backup P u Tick_backup_profiles = done_with (tick_backup_profiles P u)"
| "perform_backup P u List_backups = done_with (list_backups P u)"
| "perform_backup P u Backup_progress = done_with (backup_progress P u)"
| "perform_backup P u Last_backup_outcome = done_with (last_backup_outcome P u)"
| "perform_backup P u Archive_checks = done_with (archive_checks P u)"
| "perform_backup P u Archive_checking = done_with (archive_checking P u)"
| "perform_backup P u Backup_free_bytes = done_with (backup_free_bytes P u)"
| "perform_backup P u (Backup_download_path x1) = done_with (backup_download_path P u x1)"
| "perform_backup P u (Backup_retention_plan x1 x2 x3) = done_with (backup_retention_plan P u x1 x2 x3)"
| "perform_backup P u (Apply_backup_retention x1 x2 x3) = done_with (apply_backup_retention P u x1 x2 x3)"
| "perform_backup P u (Restore_preflight x1) = done_with (restore_preflight P u x1)"
| "perform_backup P u (Restore_backup x1) = done_with (restore_backup P u x1)"
| "perform_backup P u Pending_restore_status = done_with (pending_restore_status P u)"
| "perform_backup P u Dismiss_activity_result = done_with (dismiss_activity_result P u)"
| "perform_backup P u Restore_progress = done_with (restore_progress P u)"
| "perform_backup P u Tick_pending_restore = done_with (tick_pending_restore P u)"

text \<open>All requests.\<close>

datatype (plugins only: code size) request =
    Whitelist | Whitelist_add string | Whitelist_remove string
  | Ops | Pending_op_levels | Op_add string int | Op_remove string
  | Kick string string | Ban string string | Ban_temporary string rat string | Pending_unbans | Pardon string
  | Game_settings | Set_difficulty string | Set_gamerule string rule_value | Full_game_settings
  | Set_weather string | Set_time string | Can_access_console | Run_rcon string | Stop_server
  | Restart "string option" "string option" | Start_server
  | Schedule_restart rat bool | Cancel_scheduled_restart | Scheduled_restart_status
  | Set_recurring_restart string int bool | Clear_recurring_restart | Recurring_restart_status
  | Tick_scheduled_restart
  | Maintenance_status | Enter_maintenance string string rat bool | Cancel_pending_maintenance | Exit_maintenance
  | Tick_maintenance
  | Add_scheduled_maintenance string string string "int list" int string string bool
  | Remove_scheduled_maintenance string | List_scheduled_maintenance
  | Update_status | Apply_update bool | App_update_status string | Snooze_app_update rat | Apply_app_update | Backup_request backup_request

primrec required :: "request \<Rightarrow> permission" where
  "required Whitelist = WHITELIST_MANAGE"
| "required (Whitelist_add n) = WHITELIST_MANAGE"
| "required (Whitelist_remove n) = WHITELIST_MANAGE"
| "required Ops = OP_MANAGE"
| "required Pending_op_levels = OP_MANAGE"
| "required (Op_add n l) = OP_MANAGE"
| "required (Op_remove n) = OP_MANAGE"
| "required (Kick n r) = KICK"
| "required (Ban n r) = BAN_MANAGE"
| "required (Ban_temporary n h r) = BAN_MANAGE"
| "required Pending_unbans = BAN_MANAGE"
| "required (Pardon n) = BAN_MANAGE"
| "required Game_settings = GAME_SETTINGS"
| "required (Set_difficulty l) = GAME_SETTINGS"
| "required (Set_gamerule n v) = GAME_SETTINGS"
| "required Full_game_settings = GAME_SETTINGS"
| "required (Set_weather k) = GAME_SETTINGS"
| "required (Set_time m) = GAME_SETTINGS"
| "required Can_access_console = RCON_RAW"
| "required (Run_rcon c) = RCON_RAW"
| "required Stop_server = STOP"
| "required (Restart i r) = RESTART"
| "required Start_server = START"
| "required (Schedule_restart m d) = RESTART"
| "required Cancel_scheduled_restart = RESTART"
| "required Scheduled_restart_status = RESTART"
| "required (Set_recurring_restart t l d) = RESTART"
| "required Clear_recurring_restart = RESTART"
| "required Recurring_restart_status = RESTART"
| "required Tick_scheduled_restart = RESTART"
| "required Maintenance_status = STATUS"
| "required (Enter_maintenance m t g d) = MAINTENANCE"
| "required Cancel_pending_maintenance = MAINTENANCE"
| "required Exit_maintenance = MAINTENANCE"
| "required Tick_maintenance = MAINTENANCE"
| "required (Add_scheduled_maintenance k t d w l m x f) = MAINTENANCE"
| "required (Remove_scheduled_maintenance i) = MAINTENANCE"
| "required List_scheduled_maintenance = MAINTENANCE"
| "required Update_status = UPDATE"
| "required (Apply_update f) = UPDATE"
| "required (App_update_status c) = UPDATE"
| "required (Snooze_app_update h) = UPDATE"
| "required Apply_app_update = UPDATE"
| "required (Backup_request b) = required_backup b"

primrec perform :: "ports \<Rightarrow> user \<Rightarrow> request \<Rightarrow> (svc, unit) prog" where
  "perform P u Whitelist = done_with (whitelist P u)"
| "perform P u (Whitelist_add n) = done_with (whitelist_add P u n)"
| "perform P u (Whitelist_remove n) = done_with (whitelist_remove P u n)"
| "perform P u Ops = done_with (ops P u)"
| "perform P u Pending_op_levels = done_with (pending_op_levels P u)"
| "perform P u (Op_add n l) = done_with (op_add P u n l)"
| "perform P u (Op_remove n) = done_with (op_remove P u n)"
| "perform P u (Kick n r) = done_with (kick P u n r)"
| "perform P u (Ban n r) = done_with (ban P u n r)"
| "perform P u (Ban_temporary n h r) = done_with (ban_temporary P u n h r)"
| "perform P u Pending_unbans = done_with (pending_unbans P u)"
| "perform P u (Pardon n) = done_with (pardon P u n)"
| "perform P u Game_settings = done_with (game_settings P u)"
| "perform P u (Set_difficulty l) = done_with (set_difficulty P u l)"
| "perform P u (Set_gamerule n v) = done_with (set_gamerule P u n v)"
| "perform P u Full_game_settings = done_with (full_game_settings P u)"
| "perform P u (Set_weather k) = done_with (set_weather P u k)"
| "perform P u (Set_time m) = done_with (set_time P u m)"
| "perform P u Can_access_console = done_with (can_access_console P u)"
| "perform P u (Run_rcon c) = done_with (run_rcon P u c)"
| "perform P u Stop_server = done_with (stop_server P u)"
| "perform P u (Restart i r) = done_with (restart P u i r)"
| "perform P u Start_server = done_with (start_server P u)"
| "perform P u (Schedule_restart m d) = done_with (schedule_restart P u m d)"
| "perform P u Cancel_scheduled_restart = done_with (cancel_scheduled_restart P u)"
| "perform P u Scheduled_restart_status = done_with (scheduled_restart_status P u)"
| "perform P u (Set_recurring_restart t l d) = done_with (set_recurring_restart P u t l d)"
| "perform P u Clear_recurring_restart = done_with (clear_recurring_restart P u)"
| "perform P u Recurring_restart_status = done_with (recurring_restart_status P u)"
| "perform P u Tick_scheduled_restart = done_with (tick_scheduled_restart P u)"
| "perform P u Maintenance_status = done_with (maintenance_status P u)"
| "perform P u (Enter_maintenance m t g d) = done_with (enter_maintenance P u m t g d)"
| "perform P u Cancel_pending_maintenance = done_with (cancel_pending_maintenance P u)"
| "perform P u Exit_maintenance = done_with (exit_maintenance P u)"
| "perform P u Tick_maintenance = done_with (tick_maintenance P u)"
| "perform P u (Add_scheduled_maintenance k t d w l m x f) = done_with (add_scheduled_maintenance P u k t d w l m x f)"
| "perform P u (Remove_scheduled_maintenance i) = done_with (remove_scheduled_maintenance P u i)"
| "perform P u List_scheduled_maintenance = done_with (list_scheduled_maintenance P u)"
| "perform P u Update_status = done_with (update_status P u)"
| "perform P u (Apply_update f) = done_with (apply_update P u f)"
| "perform P u (App_update_status c) = done_with (app_update_status P u c)"
| "perform P u (Snooze_app_update h) = done_with (snooze_app_update P u h)"
| "perform P u Apply_app_update = done_with (apply_app_update P u)"
| "perform P u (Backup_request b) = perform_backup P u b"

lemmas moderation_defs = whitelist_def whitelist_add_def whitelist_remove_def ops_def pending_op_levels_def op_add_def
  op_remove_def kick_def ban_def ban_temporary_def pending_unbans_def pardon_def
lemmas game_defs = game_settings_def set_difficulty_def set_gamerule_def full_game_settings_def set_weather_def
  set_time_def can_access_console_def run_rcon_def stop_server_def
lemmas action_defs = restart_def start_server_def schedule_restart_def cancel_scheduled_restart_def
  scheduled_restart_status_def set_recurring_restart_def clear_recurring_restart_def recurring_restart_status_def
  tick_scheduled_restart_def
lemmas maintenance_defs = maintenance_status_def enter_maintenance_def cancel_pending_maintenance_def exit_maintenance_def
  tick_maintenance_def add_scheduled_maintenance_def remove_scheduled_maintenance_def list_scheduled_maintenance_def
lemmas update_defs = update_status_def apply_update_def app_update_status_def snooze_app_update_def apply_app_update_def
lemmas backup_defs = backup_profiles_list_def create_backup_profile_def update_backup_profile_def toggle_backup_profile_def
  delete_backup_profile_def trigger_profile_backup_def tick_backup_profiles_def list_backups_def backup_progress_def
  last_backup_outcome_def archive_checks_def archive_checking_def backup_free_bytes_def backup_download_path_def
  apply_backup_retention_def backup_retention_plan_def
lemmas restore_defs = restore_preflight_def restore_backup_def pending_restore_status_def dismiss_activity_result_def
  restore_progress_def tick_pending_restore_def
lemmas service_defs = moderation_defs game_defs action_defs maintenance_defs update_defs

subsection \<open>The barrier of every request\<close>

lemma thenM_assoc: "thenM (thenM a b) c = thenM a (thenM b c)"
  by (rule ext) (simp add: prog_simps split: prod.split sum.split)

lemma then_bindM: "bindM (thenM a b) f = thenM a (bindM b f)"
  by (rule ext) (simp add: prog_simps split: prod.split sum.split)

lemma backup_barrier: "\<exists>body. perform_backup P u b = thenM (authorize P u (required_backup b)) body"
  by (cases b; hypsubst; unfold perform_backup.simps required_backup.simps done_with_def backup_defs restore_defs thenM_assoc then_bindM;
      rule exI; rule refl)

lemma perform_barrier: "\<exists>body. perform P u r = thenM (authorize P u (required r)) body"
  by (cases r; hypsubst; unfold perform.simps required.simps;
      (rule backup_barrier | (unfold done_with_def service_defs thenM_assoc, rule exI, rule refl)))

interpretation admin: guarded_service perform required
  by unfold_locales (rule perform_barrier)

subsection \<open>A concrete service\<close>

text \<open>
  The inputs at which the properties of the service are applied: ports that answer what their
  arguments say, a service that has just been built, and a user with some permissions.
\<close>

definition calm_ports :: "(event list \<Rightarrow> string \<Rightarrow> exn + string) \<Rightarrow> (worker \<Rightarrow> bool) \<Rightarrow> datetime \<Rightarrow> ports" where
  "calm_ports rcon up t =
     \<lparr>container_name = ''mc'', clock_at = (\<lambda>_. t), utc_offset = (\<lambda>_. 0), rcon_at = rcon,
      docker_at = (\<lambda>_ _ _. None), running_at = (\<lambda>_ w. Inr (up w)), exit_at = (\<lambda>_ _. Inr (Some 0)),
      status_at = (\<lambda>_. Inl (ServerUnavailable [])), store_at = (\<lambda>_ _. None), store_late = (\<lambda>_ _. False), audit_at = (\<lambda>_. None),
      ops_at = (\<lambda>_. Inr []), integrity_at = (\<lambda>_ _. Inr []), version_at = (\<lambda>_. Inr None), release_at = (\<lambda>_. None),
      self_image_at = (\<lambda>_. []), token_at = (\<lambda>_. ''abcd''), fromiso = (\<lambda>_. None), show_g = (\<lambda>_. ''1''),
      show_float = (\<lambda>_. ''1.0''), show_json = (\<lambda>_. []), thresholds = default_thresholds,
      archives_at = (\<lambda>_. Inr []), resolves_at = (\<lambda>_ _. Inr True), unlink_at = (\<lambda>_ _. True),
      trigger_at = (\<lambda>_ _ _. Inr (True, [])), validate_at = (\<lambda>_ _. Inl (ServerUnavailable [])), checks_at = (\<lambda>_. Inr []),
      checking_at = (\<lambda>_. Inr None), free_at = (\<lambda>_. Inr None), world_dir = ''world'',
      has_pending_ops = True, has_op_apply = True, has_doorman = True, has_pending_maintenance = True,
      has_recurring = True, has_planned = True, has_integrity = True, has_restore = True, has_profile_backup = True,
      has_app_updater = True, has_app_snooze = True, has_pending_restore = True,
      has_profiles = True, has_checks = True, has_validator = True\<rparr>"

definition new_svc :: svc where
  "new_svc = \<lparr>journal = [], op_pending = Absent, op_applying = Absent, temp_bans = Absent, recurring = Absent,
     planned = Absent, restart_sched = new_restart_schedule, maint_sched = new_maintenance_schedule,
     op_levels_operation = None, deferred = [], waiting_restore = None, restore_op = None, update_operation = None,
     app_snooze = None, profiles = Absent, backup_started = [], progress_max = [], backup_ids = [], active_profile = None,
     backup_result = None, validating = None\<rparr>"

definition user_with :: "permission list \<Rightarrow> user" where
  "user_with ps = \<lparr>username = ''ann'', user_role = \<lparr>role_name = ''r'', permissions = set ps, grants_all = False\<rparr>\<rparr>"

subsection \<open>Properties\<close>

text \<open>
  C14. Without its permission a request has no effect: the state of every store is the same, no
  port was used but the clock, and the only new entry of the journal is the refusal, audited
  under the user's name. If the audit file cannot be written the request ends with that error,
  and again nothing else happened.
\<close>

theorem no_permission_no_effect:
  assumes "\<not> can u (required r)"
  shows "refused P u (required r) s (perform P u r s)"
  using assms by (rule admin.denied)

theorem no_permission_no_effect_witness:
  "refused (calm_ports (\<lambda>_ _. Inr []) (\<lambda>_. False) 0) (user_with [STATUS]) STOP new_svc
     (perform (calm_ports (\<lambda>_ _. Inr []) (\<lambda>_. False) 0) (user_with [STATUS]) Stop_server new_svc)"
  using no_permission_no_effect [of "user_with [STATUS]" Stop_server "calm_ports (\<lambda>_ _. Inr []) (\<lambda>_. False) 0" new_svc]
  by (simp add: can_def allows_def user_with_def)

end
