(* ===== verification/Service_Commands.thy ===== *)
theory Service_Commands
  imports Service
begin

text \<open>
  What a request can send to the game. The events of a run are followed through the code by a
  preorder: a run extends the journal by events of a given kind only.
\<close>

subsection \<open>Runs that add events of one kind\<close>

named_theorems adds "rules for runs that add events of one kind"

definition appends :: "(event \<Rightarrow> bool) \<Rightarrow> svc \<Rightarrow> svc \<Rightarrow> bool" where
  "appends ok s t \<longleftrightarrow> (\<exists>es. journal t = journal s @ es \<and> list_all ok es)"

interpretation app: state_preorder "appends ok" for ok
  by unfold_locales (auto simp: appends_def)

lemma app_log: "ok e \<Longrightarrow> keeps (appends ok) (log_event e)"
  by (rule keepsI) (auto simp: log_event_def prog_simps appends_def)

lemma app_mod [adds]: "(\<And>s. journal (f s) = journal s) \<Longrightarrow> keeps (appends ok) (modM f)"
  by (rule keepsI) (auto simp: prog_simps appends_def)

lemma app_on_error [adds]: "keeps (appends ok) m \<Longrightarrow> (\<And>e. keeps (appends ok) (h e)) \<Longrightarrow> keeps (appends ok) (on_error m h)"
  unfolding on_error_def by (intro app.keeps_intros)

lemma app_answer: "ok e \<Longrightarrow> keeps (appends ok) (answer e f)"
  unfolding answer_def by (intro app.keeps_intros keeps_cases app_log)

text \<open>
  The kinds of calls to Docker that the properties below tell apart: those after which the
  Minecraft server starts (the container, or the worker that applies the operator levels and ends
  with a start), the update of the server, which recreates it, the stop of the server, the
  doorman taking its address, and the start of the restore container.
\<close>

datatype docker_kind = Starting | Updating | Stopping | Engaging | Restoring | Other_call

fun kind_of :: "worker \<Rightarrow> docker_call \<Rightarrow> docker_kind" where
  "kind_of Minecraft DStart = Starting"
| "kind_of Minecraft DRestart = Starting"
| "kind_of OpLevels DApply = Starting"
| "kind_of Updater DApply = Updating"
| "kind_of Minecraft (DStop t) = Stopping"
| "kind_of Doorman (DEngage m k) = Engaging"
| "kind_of Restore (DRestore f) = Restoring"
| "kind_of w c = Other_call"

text \<open>
  \<open>only q K\<close>: commands to the game satisfy \<open>q\<close>, calls to Docker are of a kind in \<open>K\<close> or of no
  interest, and a file is deleted only where the code may delete. Other events are free.
\<close>

definition only :: "(string \<Rightarrow> bool) \<Rightarrow> docker_kind set \<Rightarrow> event \<Rightarrow> bool" where
  "only q K e = (case e of Sent c \<Rightarrow> q c | Docker w c \<Rightarrow> kind_of w c \<in> insert Other_call K
     | Unlinked f \<Rightarrow> deletable f \<and> archive_name_ok f | _ \<Rightarrow> True)"

lemma only_simps [simp]:
  "only q K (Sent c) = q c" "only q K (Docker w d) = (kind_of w d \<in> insert Other_call K)" "only q K (Asked a)"
  "only q K (Looked w)" "only q K (Stored n)" "only q K (Unlinked f) = (deletable f \<and> archive_name_ok f)" "only q K (Audited x)" "only q K (Notified t m l k)"
  by (simp_all add: only_def)

lemma app_game [adds]: "q c \<Longrightarrow> keeps (appends (only q K)) (game_command P c)"
  unfolding game_command_def by (rule app_answer) simp

lemma app_docker [adds]: "kind_of w d \<in> insert Other_call K \<Longrightarrow> keeps (appends (only q K)) (docker P w d)"
  unfolding docker_def by (rule app_answer) simp

lemma app_ports [adds]:
  "keeps (appends (only q K)) (now P)" "keeps (appends (only q K)) (running P w)"
  "keeps (appends (only q K)) (exit_code P w)" "keeps (appends (only q K)) (ask a f)" "keeps (appends (only q K)) (notify t m l k)"
  unfolding now_def running_def exit_code_def ask_def notify_def by (auto intro: app_answer app_log)

lemma app_answer_other [adds]: "keeps (appends (only q K)) (answer (Asked a) f)" "keeps (appends (only q K)) (answer (Stored n) f)"
  by (auto intro: app_answer)

lemma app_audit [adds]: "keeps (appends (only q K)) (record_audit P u p outcome detail)"
  unfolding record_audit_def by (intro app.keeps_intros keeps_cases adds app_log) simp

lemma app_authorize [adds]: "keeps (appends (only q K)) (authorize P u p)"
  unfolding authorize_def by (intro app.keeps_intros adds)

lemma app_write [adds]: "(\<And>s. journal (f s) = journal s) \<Longrightarrow> keeps (appends (only q K)) (write_file P name f)"
  unfolding write_file_def by (intro app.keeps_intros keeps_cases adds)

lemma app_store: "(\<And>g s. journal (put g s) = journal s) \<Longrightarrow> keeps (appends (only q K)) (update_store P name get put f)"
  unfolding update_store_def by (intro app.keeps_intros keeps_cases adds)

lemma app_stores [adds]:
  "keeps (appends (only q K)) (update_temp_bans P f)" "keeps (appends (only q K)) (update_op_pending P f)"
  "keeps (appends (only q K)) (update_recurring P f)" "keeps (appends (only q K)) (update_planned P g)"
  "keeps (appends (only q K)) (update_profiles P h)"
  unfolding update_temp_bans_def update_op_pending_def update_recurring_def update_planned_def update_profiles_def by (auto intro: app_store)

lemma app_say [adds]: "q (''say '' @ m) \<Longrightarrow> keeps (appends (only q K)) (say P m)"
  and app_save_all [adds]: "q ''save-all'' \<Longrightarrow> keeps (appends (only q K)) (save_all P)"
  and app_players [adds]: "q ''list'' \<Longrightarrow> keeps (appends (only q K)) (list_players P)"
  unfolding say_def save_all_def list_players_def by (intro app.keeps_intros adds; assumption)+

lemma app_refuse [adds]: "keeps (appends (only q K)) (refuse_if_maintenance P u p hint)"
  unfolding refuse_if_maintenance_def by (intro app.keeps_intros keeps_cases adds)

lemma app_audited_command [adds]: "q c \<Longrightarrow> keeps (appends (only q K)) (audited_command P u p detail c)"
  unfolding audited_command_def by (intro app.keeps_intros adds)

subsection \<open>Texts without line breaks\<close>

definition one_line :: "string \<Rightarrow> bool" where
  "one_line s \<longleftrightarrow> CHR 0x0A \<notin> set s \<and> CHR 0x0D \<notin> set s"

lemma one_line_append [simp]: "one_line (a @ b) \<longleftrightarrow> one_line a \<and> one_line b"
  and one_line_Cons [simp]: "one_line (c # s) \<longleftrightarrow> c \<noteq> CHR 0x0A \<and> c \<noteq> CHR 0x0D \<and> one_line s"
  and one_line_Nil [simp]: "one_line []"
  by (auto simp: one_line_def)

lemma one_line_take: "one_line s \<Longrightarrow> one_line (take n s)"
  by (auto simp: one_line_def dest: in_set_takeD)

lemma one_line_split_ws: "w \<in> set (split_ws s) \<Longrightarrow> one_line w"
proof -
  have "is_space (CHR 0x0A)" "is_space (CHR 0x0D)" by (simp_all add: is_space_def)
  moreover assume "w \<in> set (split_ws s)"
  ultimately show ?thesis using split_ws_clean [of w s] by (auto simp: one_line_def list_all_iff)
qed

lemma one_line_join: "(\<And>w. w \<in> set ws \<Longrightarrow> one_line w) \<Longrightarrow> one_line sep \<Longrightarrow> one_line (join sep ws)"
  by (induction sep ws rule: join.induct) auto

lemma one_line_reason [simp]: "one_line (sanitize_reason r)"
  unfolding sanitize_reason_def by (intro one_line_take one_line_join) (auto dest: one_line_split_ws)

lemma one_line_digits [simp]: "one_line (digits_of n)"
proof (induction n rule: digits_of.induct)
  case (1 n)
  have "char_of (48 + k) \<noteq> CHR 0x0A \<and> char_of (48 + k) \<noteq> CHR 0x0D" if "k < 10" for k :: nat
  proof -
    have "code (char_of (48 + k) :: char) = 48 + k" using that by simp
    then have "code (char_of (48 + k) :: char) \<noteq> 10" "code (char_of (48 + k) :: char) \<noteq> 13" by linarith+
    then show ?thesis by fastforce
  qed
  with 1 show ?case by (subst digits_of.simps) simp
qed

lemma one_line_int [simp]: "one_line (str_int i)"
  by (simp add: str_int_def)

lemma one_line_seconds [simp]: "one_line (format_seconds n)"
  by (simp add: format_seconds_def)

lemma one_line_rule: "normalise_rule_value v = Inr w \<Longrightarrow> one_line (rule_text w)"
  by (auto simp: normalise_rule_value_def Let_def split: rule_value.splits if_splits option.splits)

lemma one_line_rule_name: "n \<in> set (gamerule_names out) \<Longrightarrow> one_line n"
proof (induction out rule: gamerule_names.induct)
  case (2 c cs)
  let ?name = "takeWhile is_rule_char (drop 10 (c # cs))"
  have "one_line ?name" by (auto simp: one_line_def is_rule_char_def is_dec_def dest!: set_takeWhileD)
  with 2 show ?case by (auto simp: Let_def split: if_splits)
qed simp

subsection \<open>The operations\<close>

lemma app_helpers [adds]:
  "keeps (appends (only q K)) (validate_player_name n)" "keeps (appends (only q K)) (ensure_op_levels_idle P)"
  "keeps (appends (only q K)) (list_pending_levels P)" "keeps (appends (only q K)) (remember_level P n l imm)"
  "Starting \<in> K \<Longrightarrow> keeps (appends (only q K)) (begin_op_levels_apply P u p i w)" "keeps (appends (only q K)) (op_levels_outcome P op rc)"
  "keeps (appends (only q K)) (scan_update_outcome P)" "keeps (appends (only q K)) cancel_restart"
  "keeps (appends (only q K)) (forget_deferred i)" "keeps (appends (only q K)) (op_levels_free P)"
  unfolding validate_player_name_def ensure_op_levels_idle_def list_pending_levels_def remember_level_def
    begin_op_levels_apply_def op_levels_outcome_def scan_update_outcome_def cancel_restart_def forget_deferred_def
    op_levels_free_def
  by (intro app.keeps_intros keeps_cases adds; simp)+

lemma app_tick_op_levels [adds]: "keeps (appends (only q K)) (tick_op_levels_operation P)"
  unfolding tick_op_levels_operation_def by (intro app.keeps_intros keeps_cases adds; simp)

lemma app_restart [adds]: "Starting \<in> K \<Longrightarrow> kind_of Minecraft c = Starting \<Longrightarrow> keeps (appends (only q K)) (restart_core P u p i w c)" "Starting \<in> K \<Longrightarrow> keeps (appends (only q K)) (restart P u x y)"
  unfolding restart_core_def restart_def by (intro app.keeps_intros keeps_cases adds; simp)+

lemma one_line_name: "is_player_name n \<Longrightarrow> last n \<noteq> CHR 0x0A \<Longrightarrow> one_line n"
  by (auto simp: is_player_name_def strip_final_newline_def Let_def one_line_def list_all_iff is_word_char_def is_dec_def
      split: if_splits)

lemma then_validate:
  "thenM (validate_player_name n) m =
     (if is_player_name n then m else raiseM (InvalidPlayerName (''pseudo invalide : '' @ py_repr n)))"
  by (rule ext) (simp add: validate_player_name_def prog_simps)

text \<open>The names a request gives do not end in a line break.\<close>

fun names_ok :: "request \<Rightarrow> bool" where
  "names_ok (Whitelist_add n) = (last n \<noteq> CHR 0x0A)"
| "names_ok (Whitelist_remove n) = (last n \<noteq> CHR 0x0A)"
| "names_ok (Op_add n l) = (last n \<noteq> CHR 0x0A)"
| "names_ok (Op_remove n) = (last n \<noteq> CHR 0x0A)"
| "names_ok (Kick n r) = (last n \<noteq> CHR 0x0A)"
| "names_ok (Ban n r) = (last n \<noteq> CHR 0x0A)"
| "names_ok (Ban_temporary n h r) = (last n \<noteq> CHR 0x0A)"
| "names_ok (Pardon n) = (last n \<noteq> CHR 0x0A)"
| "names_ok (Run_rcon c) = False"
| "names_ok r = True"

lemma keeps_done: "keeps (appends ok) m \<Longrightarrow> keeps (appends ok) (done_with m)"
  unfolding done_with_def by (intro app.keeps_intros)

lemma clean_moderation:
  assumes "q = (\<lambda>_. True) \<or> q = one_line \<and> last n \<noteq> CHR 0x0A"
  shows "keeps (appends (only q K)) (whitelist_add P u n)" "keeps (appends (only q K)) (whitelist_remove P u n)"
    "keeps (appends (only q K)) (op_add P u n l)" "keeps (appends (only q K)) (op_remove P u n)"
    "keeps (appends (only q K)) (kick P u n r)" "keeps (appends (only q K)) (ban P u n r)"
    "keeps (appends (only q K)) (ban_temporary P u n h r)" "keeps (appends (only q K)) (pardon P u n)"
proof -
  have q: "q x \<Longrightarrow> q y \<Longrightarrow> q (x @ y)" "c \<noteq> CHR 0x0A \<Longrightarrow> c \<noteq> CHR 0x0D \<Longrightarrow> q x \<Longrightarrow> q (c # x)" "q []"
    "is_player_name n \<Longrightarrow> q n" "q (sanitize_reason reason)" for x y c reason
    using assms by (auto dest: one_line_name)
  show "keeps (appends (only q K)) (whitelist_add P u n)" "keeps (appends (only q K)) (whitelist_remove P u n)"
    "keeps (appends (only q K)) (op_add P u n l)" "keeps (appends (only q K)) (op_remove P u n)"
    "keeps (appends (only q K)) (kick P u n r)" "keeps (appends (only q K)) (ban P u n r)"
    "keeps (appends (only q K)) (ban_temporary P u n h r)" "keeps (appends (only q K)) (pardon P u n)"
    unfolding whitelist_add_def whitelist_remove_def op_add_def op_remove_def kick_def ban_def ban_temporary_def pardon_def
      then_validate kick_command_def ban_command_def
    by (intro app.keeps_intros keeps_cases adds; simp add: q)+
qed

lemma clean_reads:
  "keeps (appends (only one_line K)) (whitelist P u)" "keeps (appends (only one_line K)) (ops P u)"
  "keeps (appends (only one_line K)) (pending_op_levels P u)" "keeps (appends (only one_line K)) (pending_unbans P u)"
  "keeps (appends (only one_line K)) (game_settings P u)"
  unfolding whitelist_def ops_def pending_op_levels_def pending_unbans_def game_settings_def get_difficulty_def get_gamerule_def
  by (intro app.keeps_intros keeps_cases adds; simp)+

lemma clean_settings:
  "keeps (appends (only one_line K)) (set_difficulty P u l)" "keeps (appends (only one_line K)) (set_weather P u k)"
  "keeps (appends (only one_line K)) (set_time P u t)" "Stopping \<in> K \<Longrightarrow> keeps (appends (only one_line K)) (stop_server P u)"
  "keeps (appends (only one_line K)) (can_access_console P u)"
  unfolding set_difficulty_def set_weather_def set_time_def game_mutation_def stop_server_def can_access_console_def
  by (intro app.keeps_intros keeps_cases adds; auto)+

lemma clean_rules:
  "keeps (appends (only one_line K)) (set_gamerule P u n v)" "keeps (appends (only one_line K)) (full_game_settings P u)"
  unfolding set_gamerule_def full_game_settings_def list_gamerule_names_def bindM_assoc bindM_retM game_mutation_def
    get_difficulty_def get_gamerules_def
  by (intro app.keeps_intros keeps_cases adds; auto dest: one_line_rule one_line_rule_name)+

lemma clean_restarts [adds]:
  "Starting \<in> K \<Longrightarrow> keeps (appends (only one_line K)) (start_server P u)" "keeps (appends (only one_line K)) (schedule_restart P u m d)"
  "keeps (appends (only one_line K)) (cancel_scheduled_restart P u)" "keeps (appends (only one_line K)) (scheduled_restart_status P u)"
  "keeps (appends (only one_line K)) (set_recurring_restart P u t l d)" "keeps (appends (only one_line K)) (clear_recurring_restart P u)"
  "keeps (appends (only one_line K)) (recurring_restart_status P u)" "keeps (appends (only one_line K)) (tick_recurring_restart P u)"
  "keeps (appends (only one_line K)) (server_confirmed_empty P)"
  unfolding start_server_def schedule_restart_def cancel_scheduled_restart_def scheduled_restart_status_def
    set_recurring_restart_def clear_recurring_restart_def recurring_restart_status_def tick_recurring_restart_def
    server_confirmed_empty_def
  by (intro app.keeps_intros keeps_cases adds; simp)+

lemma clean_deferred [adds]: "one_line label \<Longrightarrow> keeps (appends (only one_line K)) (note_deferred_once P u p i label)"
  unfolding note_deferred_once_def by (intro app.keeps_intros keeps_cases adds; simp)

lemma clean_fire [adds]: "Starting \<in> K \<Longrightarrow> keeps (appends (only one_line K)) (fire_restart P u r)" "keeps (appends (only one_line K)) (warn_restart P t)"
  unfolding fire_restart_def warn_restart_def by (intro app.keeps_intros keeps_cases adds; simp)+

lemma clean_tick_restart: "Starting \<in> K \<Longrightarrow> keeps (appends (only one_line K)) (tick_scheduled_restart P u)"
  unfolding tick_scheduled_restart_def by (intro app.keeps_intros keeps_cases adds; simp)

lemma app_guards [adds]:
  "keeps (appends (only q K)) (restore_in_progress P)" "keeps (appends (only q K)) (doorman_unfit_issues P)"
  "keeps (appends (only q K)) cancel_maintenance" "keeps (appends (only q K)) (planned_list P)"
  "keeps (appends (only q K)) (mark_planned P i day)" "keeps (appends (only q K)) (remove_planned P i)"
  "keeps (appends (only q K)) (hold_for_restore P u p)"
  unfolding restore_in_progress_def doorman_unfit_issues_def cancel_maintenance_def planned_list_def mark_planned_def
    remove_planned_def hold_for_restore_def
  by (intro app.keeps_intros keeps_cases adds; simp)+

lemma app_restoring [adds]: "keeps (appends (only q K)) (restoring P)"
  unfolding restoring_def by (intro app.keeps_intros adds)

lemma clean_engage [adds]: "{Stopping, Engaging} \<subseteq> K \<Longrightarrow> keeps (appends (only one_line K)) (engage_maintenance P u motd text who i)"
  unfolding engage_maintenance_def by (intro app.keeps_intros keeps_cases adds; simp)

lemma clean_arm [adds]: "keeps (appends (only one_line K)) (arm_planned P u e target remaining today)"
  unfolding arm_planned_def by (intro app.keeps_intros keeps_cases adds; simp)

lemma clean_loop [adds]: "keeps (appends (only one_line K)) (planned_loop P u t es)"
  by (induction P u t es rule: planned_loop.induct)
    (simp_all only: planned_loop.simps, (intro app.keeps_intros keeps_cases adds; simp)+)

lemma clean_tick_planned [adds]: "keeps (appends (only one_line K)) (tick_scheduled_maintenance P u)"
  unfolding tick_scheduled_maintenance_def by (intro app.keeps_intros keeps_cases adds)

lemma clean_close [adds]: "{Stopping, Engaging} \<subseteq> K \<Longrightarrow> keeps (appends (only one_line K)) (close_now P u p)" "keeps (appends (only one_line K)) (warn_maintenance P t)"
  unfolding close_now_def warn_maintenance_def by (intro app.keeps_intros keeps_cases adds; simp)+

lemma clean_maintenance:
  "keeps (appends (only one_line K)) (maintenance_status P u)" "{Stopping, Engaging} \<subseteq> K \<Longrightarrow> keeps (appends (only one_line K)) (enter_maintenance P u m x g d)"
  "keeps (appends (only one_line K)) (cancel_pending_maintenance P u)" "Starting \<in> K \<Longrightarrow> keeps (appends (only one_line K)) (exit_maintenance P u)"
  "{Stopping, Engaging} \<subseteq> K \<Longrightarrow> keeps (appends (only one_line K)) (tick_maintenance P u)"
  "keeps (appends (only one_line K)) (add_scheduled_maintenance P u k t dt w l m x d)"
  "keeps (appends (only one_line K)) (remove_scheduled_maintenance P u i)"
  "keeps (appends (only one_line K)) (list_scheduled_maintenance P u)"
  unfolding maintenance_status_def enter_maintenance_def cancel_pending_maintenance_def exit_maintenance_def
    tick_maintenance_def add_scheduled_maintenance_def remove_scheduled_maintenance_def list_scheduled_maintenance_def
  by (intro app.keeps_intros keeps_cases adds; simp)+

lemma app_update_parts [adds]:
  "keeps (appends (only q K)) (known_release P)" "keeps (appends (only q K)) (app_update_applicable P)"
  "keeps (appends (only q K)) (app_update_busy P)"
  unfolding known_release_def app_update_applicable_def app_update_busy_def by (intro app.keeps_intros keeps_cases adds)+

lemma clean_update:
  "keeps (appends (only one_line K)) (update_status P u)" "Updating \<in> K \<Longrightarrow> keeps (appends (only one_line K)) (apply_update P u f)"
  "keeps (appends (only one_line K)) (app_update_status P u c)" "keeps (appends (only one_line K)) (snooze_app_update P u h)"
  "keeps (appends (only one_line K)) (apply_app_update P u)"
  unfolding update_status_def apply_update_def app_update_status_def snooze_app_update_def apply_app_update_def
    players_or_unavailable_def warn_and_save_def
  by (intro app.keeps_intros keeps_cases adds; simp)+

subsubsection \<open>Backups and restores\<close>

lemma app_archives [adds]:
  "keeps (appends (only q K)) (list_archives P)" "keeps (appends (only q K)) (archive_path P f)"
  unfolding list_archives_def archive_path_def by (intro app.keeps_intros adds)+

lemma app_delete [adds]: "keeps (appends (only q K)) (delete_archive P f)"
proof (cases "deletable f \<and> archive_name_ok f")
  case True
  then show ?thesis unfolding delete_archive_def by (intro app.keeps_intros adds app_answer) simp
next
  case False
  then have "delete_archive P f = retM False" by (rule_tac ext) (auto simp: delete_archive_def archive_path_def prog_simps)
  then show ?thesis by (simp add: app.keeps_ret)
qed

lemma app_profiles [adds]:
  "keeps (appends (only q K)) (profile_list P)" "keeps (appends (only q K)) (get_profile P i)"
  "keeps (appends (only q K)) (upsert_profile P p)" "keeps (appends (only q K)) (delete_profile P i)"
  "keeps (appends (only q K)) (mark_run P i t)"
  unfolding profile_list_def get_profile_def upsert_profile_def delete_profile_def mark_run_def
  by (intro app.keeps_intros adds)+

lemma app_trigger [adds]: "kind_of w c \<in> insert Other_call K \<Longrightarrow> keeps (appends (only q K)) (trigger_worker P w c)"
  unfolding trigger_worker_def by (rule app_answer) simp

lemma app_started [adds]: "keeps (appends (only q K)) (refuse_during_restore P)" "keeps (appends (only q K)) (note_started P p b)"
  unfolding refuse_during_restore_def note_started_def by (intro app.keeps_intros adds; simp)+

lemma app_run_profile [adds]: "keeps (appends (only q K)) (trigger_profile_locked P u i)" "keeps (appends (only q K)) (profile_due P t p)"
  unfolding trigger_profile_locked_def profile_due_def by (intro app.keeps_intros keeps_cases adds; simp)+

lemma app_retention [adds]:
  "keeps (appends (only q K)) (backup_retention_plan P u d m f)" "keeps (appends (only q K)) (delete_all P items)"
  unfolding backup_retention_plan_def delete_all_def by (intro app.keeps_intros keeps_cases adds)+

lemma app_outcome [adds]: "keeps (appends (only q K)) (auto_retention P k i)" "keeps (appends (only q K)) (forget_run k)"
  "keeps (appends (only q K)) (forget_id k)"
  unfolding auto_retention_def forget_run_def forget_id_def by (intro app.keeps_intros keeps_cases adds; simp)+

lemma app_finalize [adds]: "keeps (appends (only q K)) (finalize_backup P k f l)"
  unfolding finalize_backup_def by (intro app.keeps_intros keeps_cases adds; simp)

lemma app_scan [adds]: "keeps (appends (only q K)) (scan_backup_outcomes P)"
  unfolding scan_backup_outcomes_def watched_runs_def scan_one_def by (intro app.keeps_intros keeps_cases adds)

lemma app_estimate [adds]: "keeps (appends (only q K)) (estimate k a n)"
  unfolding estimate_def by (intro app.keeps_intros keeps_cases adds; simp)

lemma app_progress [adds]: "keeps (appends (only q K)) (backup_progress_for P k f w)"
  unfolding backup_progress_for_def by (intro app.keeps_intros keeps_cases adds)

lemma app_running_profile [adds]: "keeps (appends (only q K)) (running_profile P ps)"
  by (induction ps) (simp_all only: running_profile.simps, (intro app.keeps_intros keeps_cases adds; simp)+)

lemma app_run_due [adds]: "keeps (appends (only q K)) (run_if_due P u t p)"
  unfolding run_if_due_def by (intro app.keeps_intros keeps_cases adds)

lemma clean_backups:
  "keeps (appends (only q K)) (backup_profiles_list P u)" "keeps (appends (only q K)) (create_backup_profile P u n inc h d x y)"
  "keeps (appends (only q K)) (update_backup_profile P u i n inc h d x y)" "keeps (appends (only q K)) (toggle_backup_profile P u i b)"
  "keeps (appends (only q K)) (delete_backup_profile P u i)" "keeps (appends (only q K)) (trigger_profile_backup P u i)"
  "keeps (appends (only q K)) (tick_backup_profiles P u)" "keeps (appends (only q K)) (list_backups P u)"
  "keeps (appends (only q K)) (backup_progress P u)" "keeps (appends (only q K)) (last_backup_outcome P u)"
  "keeps (appends (only q K)) (archive_checks P u)" "keeps (appends (only q K)) (archive_checking P u)"
  "keeps (appends (only q K)) (backup_free_bytes P u)" "keeps (appends (only q K)) (backup_download_path P u f)"
  "keeps (appends (only q K)) (apply_backup_retention P u x y f)"
  unfolding backup_profiles_list_def create_backup_profile_def update_backup_profile_def toggle_backup_profile_def
    delete_backup_profile_def trigger_profile_backup_def tick_backup_profiles_def list_backups_def backup_progress_def
    last_backup_outcome_def archive_checks_def archive_checking_def backup_free_bytes_def backup_download_path_def
    apply_backup_retention_def
  by (intro app.keeps_intros keeps_cases adds)+

lemma app_restore_parts [adds]:
  "keeps (appends (only q K)) (port_running P w l)" "keeps (appends (only q K)) (restore_archive_issues P f)"
  "keeps (appends (only q K)) (doorman_issues P)" "keeps (appends (only q K)) (restore_event P u ph o' kvs)"
  "keeps (appends (only q K)) (notify_restore a b c)" "keeps (appends (only q K)) (new_operation_id P f)"
  "keeps (appends (only q K)) clear_waiting" "keeps (appends (only q K)) (remember_failure P p m)"
  "keeps (appends (only q K)) (finish_restore_operation P ph m)" "keeps (appends (only q K)) (validate_archive P f)"
  unfolding port_running_def restore_archive_issues_def doorman_issues_def restore_event_def notify_restore_def new_operation_id_def
    clear_waiting_def remember_failure_def finish_restore_operation_def validate_archive_def
  by (intro app.keeps_intros keeps_cases adds; simp)+

lemma app_preflight [adds]: "keeps (appends (only q K)) (restore_preflight_issues P f)"
  unfolding restore_preflight_issues_def by (intro app.keeps_intros keeps_cases adds)

lemma app_asking [adds]:
  "keeps (appends (only q K)) (start_safety_backup P u f i)" "keeps (appends (only q K)) (abandon P u p ph x t m)"
  "keeps (appends (only q K)) (new_safety_archive P p)" "keeps (appends (only q K)) (failed_event P u op x)"
  unfolding start_safety_backup_def abandon_def new_safety_archive_def failed_event_def
  by (intro app.keeps_intros keeps_cases adds; simp)+

lemma app_watch [adds]:
  "keeps (appends (only q K)) (validate_new_safety_archive P p)" "keeps (appends (only q K)) (restore_overdue P u op)"
  "q ''list'' \<Longrightarrow> keeps (appends (only q K)) (watch_minecraft P u op)"
  unfolding validate_new_safety_archive_def restore_overdue_def watch_minecraft_def
  by (intro app.keeps_intros keeps_cases adds; simp)+

lemma app_watch_container [adds]: "q ''list'' \<Longrightarrow> keeps (appends (only q K)) (watch_container P u t op)"
  unfolding watch_container_def by (intro app.keeps_intros keeps_cases adds; simp)

lemma app_launch [adds]: "Restoring \<in> K \<Longrightarrow> keeps (appends (only q K)) (launch_restore P u p a)"
  unfolding launch_restore_def start_restore_after_backup_def by (intro app.keeps_intros keeps_cases adds; simp)

lemma app_tick_restore [adds]:
  "q ''list'' \<Longrightarrow> keeps (appends (only q K)) (tick_restore_operation P u)"
  "Restoring \<in> K \<Longrightarrow> keeps (appends (only q K)) (tick_waiting P u p)"
  unfolding tick_restore_operation_def tick_waiting_def safety_backup_over_def by (intro app.keeps_intros keeps_cases adds; simp)+

lemma clean_restores:
  "keeps (appends (only q K)) (restore_preflight P u f)" "keeps (appends (only q K)) (restore_backup P u f)"
  "keeps (appends (only q K)) (pending_restore_status P u)" "keeps (appends (only q K)) (dismiss_activity_result P u)"
  "keeps (appends (only q K)) (restore_progress P u)"
  "q ''list'' \<Longrightarrow> Restoring \<in> K \<Longrightarrow> keeps (appends (only q K)) (tick_pending_restore P u)"
  unfolding restore_preflight_def restore_backup_def pending_restore_status_def dismiss_activity_result_def restore_progress_def
    tick_pending_restore_def
  by (intro app.keeps_intros keeps_cases adds; simp)+

lemma clean_backup_request: "Restoring \<in> K \<Longrightarrow> keeps (appends (only one_line K)) (perform_backup P u b)"
  by (cases b) (simp_all add: keeps_done clean_backups clean_restores app_retention)

lemma clean_perform: "names_ok r \<Longrightarrow> keeps (appends (only one_line UNIV)) (perform P u r)"
  by (cases r) (simp_all add: keeps_done clean_moderation clean_reads clean_settings clean_rules clean_restarts app_restart
      clean_tick_restart clean_maintenance clean_update clean_backup_request)

subsection \<open>Properties\<close>

text \<open>
  C19. Only the console sends free text. Every command any other request sends to the game is one
  line: player names are checked, reasons and messages lose their line breaks, values are
  numbers or booleans and rule names are names the server listed, whatever the server and Docker
  answer. The names given must not end in a line break, which the check of names lets through.
\<close>

theorem commands_are_one_line:
  assumes "names_ok r"
  shows "\<exists>es. journal (snd (perform P u r s)) = journal s @ es \<and> (\<forall>c. Sent c \<in> set es \<longrightarrow> one_line c)"
proof -
  from keeps_snd [OF clean_perform [OF assms]] obtain es where
    "journal (snd (perform P u r s)) = journal s @ es" "list_all (only one_line UNIV) es"
    unfolding appends_def by blast
  moreover have "one_line c" if "Sent c \<in> set es" for c
    using calculation(2) that by (metis list_all_iff only_simps(1))
  ultimately show ?thesis by blast
qed

definition kick_bob :: "(exn + unit) \<times> svc" where
  "kick_bob = perform (calm_ports (\<lambda>_ _. Inr []) (\<lambda>_. False) 0) (user_with [KICK])
     (Kick ''Bob'' (''bye'' @ [CHR 0x0A] @ ''op Bob'')) new_svc"

theorem commands_are_one_line_witness:
  "list_all one_line (List.map_filter (\<lambda>e. case e of Sent c \<Rightarrow> Some c | _ \<Rightarrow> None) (journal (snd kick_bob))) \<and>
   Sent ''kick Bob bye op Bob'' \<in> set (journal (snd kick_bob))"
proof -
  have ok: "names_ok (Kick ''Bob'' (''bye'' @ [CHR 0x0A] @ ''op Bob''))" by simp
  from commands_are_one_line [OF ok, of "calm_ports (\<lambda>_ _. Inr []) (\<lambda>_. False) 0" "user_with [KICK]" new_svc]
  have "\<forall>c. Sent c \<in> set (journal (snd kick_bob)) \<longrightarrow> one_line c"
    by (auto simp: kick_bob_def new_svc_def)
  moreover have "Sent ''kick Bob bye op Bob'' \<in> set (journal (snd kick_bob))" by code_simp
  ultimately show ?thesis
    by (auto simp: list_all_iff List.map_filter_def split: event.splits)
qed

end
