(* ===== verification/Service_State.thy ===== *)
theory Service_State
  imports Service
begin

text \<open>
  What the requests do to the stores: the timers of temporary bans, the levels of operators, the
  daily restart. Most steps of a request only add to the journal; the rest of the state is theirs
  to change in a few places.
\<close>

subsection \<open>Steps that only add to the journal\<close>

named_theorems silent "rules for programs that only add to the journal"

definition same_stores :: "svc \<Rightarrow> svc \<Rightarrow> bool" where
  "same_stores s t \<longleftrightarrow> (\<exists>j. t = s\<lparr>journal := j\<rparr>)"

lemma same_stores_fields:
  assumes "same_stores s t"
  shows "temp_bans t = temp_bans s" "op_pending t = op_pending s" "op_applying t = op_applying s"
    "recurring t = recurring s" "planned t = planned s" "restart_sched t = restart_sched s"
    "maint_sched t = maint_sched s" "waiting_restore t = waiting_restore s" "restore_op t = restore_op s"
    "op_levels_operation t = op_levels_operation s" "deferred t = deferred s" "update_operation t = update_operation s"
  using assms by (auto simp: same_stores_def)

interpretation still: state_preorder same_stores
proof unfold_locales
  fix s :: svc
  have "s = s\<lparr>journal := journal s\<rparr>" by simp
  then show "same_stores s s" unfolding same_stores_def by blast
qed (auto simp: same_stores_def)

lemma still_log [silent]: "keeps same_stores (log_event e)"
  by (rule keepsI) (auto simp: log_event_def prog_simps same_stores_def)

lemma still_answer [silent]: "keeps same_stores (answer e f)"
  unfolding answer_def by (intro still.keeps_intros keeps_cases silent)

lemma still_on_error [silent]:
  "keeps same_stores m \<Longrightarrow> (\<And>e. keeps same_stores (h e)) \<Longrightarrow> keeps same_stores (on_error m h)"
  unfolding on_error_def by (intro still.keeps_intros)

lemma still_ports [silent]:
  "keeps same_stores (now P)" "keeps same_stores (game_command P c)" "keeps same_stores (docker P w d)"
  "keeps same_stores (running P w)" "keeps same_stores (exit_code P w)" "keeps same_stores (ask q f)"
  "keeps same_stores (notify a b i k)"
  unfolding now_def game_command_def docker_def running_def exit_code_def ask_def notify_def by (rule silent)+

lemma still_record [silent]: "keeps same_stores (record_audit P u p outcome detail)"
  unfolding record_audit_def by (intro still.keeps_intros keeps_cases silent)

lemma still_authorize [silent]: "keeps same_stores (authorize P u p)"
  unfolding authorize_def by (intro still.keeps_intros silent)

lemma still_game [silent]:
  "keeps same_stores (say P m)" "keeps same_stores (save_all P)" "keeps same_stores (list_players P)"
  "keeps same_stores (validate_player_name n)" "keeps same_stores (ensure_op_levels_idle P)"
  "keeps same_stores (list_pending_levels P)" "keeps same_stores (refuse_if_maintenance P u p hint)"
  "keeps same_stores (server_confirmed_empty P)"
  unfolding say_def save_all_def list_players_def validate_player_name_def ensure_op_levels_idle_def list_pending_levels_def
    refuse_if_maintenance_def server_confirmed_empty_def
  by (intro still.keeps_intros keeps_cases silent)+

lemma wp_still: "keeps same_stores m \<Longrightarrow> (\<And>x t. same_stores s t \<Longrightarrow> Q x t) \<Longrightarrow> (\<And>e t. same_stores s t \<Longrightarrow> E e t) \<Longrightarrow> wp m Q E s"
  by (rule wpI) (auto dest: keepsD)

subsection \<open>Requests that leave the bans and the levels alone\<close>

text \<open>
  The progress of a backup is an estimate from the sizes of archives: it stays below the end that
  only the end of the container shows.
\<close>

definition percent_ok :: "int \<Rightarrow> bool" where
  "percent_ok n \<longleftrightarrow> 1 \<le> n \<and> n \<le> 95"

definition progress_ok :: "svc \<Rightarrow> bool" where
  "progress_ok s = list_all (percent_ok \<circ> snd) (progress_max s)"

lemma list_all_delete [simp]: "list_all Q d \<Longrightarrow> list_all Q (AList.delete k d)"
  by (simp add: AList.delete_eq list_all_iff)

lemma list_all_update: "list_all (Q \<circ> snd) d \<Longrightarrow> Q v \<Longrightarrow> list_all (Q \<circ> snd) (AList.update k v d)"
  by (induction d) auto

lemma list_all_map_of: "list_all (Q \<circ> snd) d \<Longrightarrow> map_of d k = Some v \<Longrightarrow> Q v"
  by (auto simp: list_all_iff dest!: map_of_SomeD)

named_theorems unmoved "rules for programs that change neither the temporary bans nor the pending levels"

definition same_ledger :: "svc \<Rightarrow> svc \<Rightarrow> bool" where
  "same_ledger s t \<longleftrightarrow> temp_bans t = temp_bans s \<and> op_pending t = op_pending s \<and> (progress_ok s \<longrightarrow> progress_ok t)"

interpretation led: state_preorder same_ledger
  by unfold_locales (auto simp: same_ledger_def)

lemma led_still: "keeps same_stores m \<Longrightarrow> keeps same_ledger m"
  by (rule keepsI) (auto simp: same_ledger_def progress_ok_def same_stores_def dest!: keepsD)

lemmas led_silent [unmoved] = silent [THEN led_still]

lemma led_mod [unmoved]: "(\<And>s. same_ledger s (f s)) \<Longrightarrow> keeps same_ledger (modM f)"
  by (rule keepsI) (auto simp: prog_simps)

lemma led_on_error [unmoved]:
  "keeps same_ledger m \<Longrightarrow> (\<And>e. keeps same_ledger (h e)) \<Longrightarrow> keeps same_ledger (on_error m h)"
  unfolding on_error_def by (intro led.keeps_intros)

lemma led_write [unmoved]: "(\<And>s. same_ledger s (f s)) \<Longrightarrow> keeps same_ledger (write_file P name f)"
  unfolding write_file_def by (intro led.keeps_intros keeps_cases unmoved)

lemma led_stores [unmoved]: "keeps same_ledger (update_recurring P f)" "keeps same_ledger (update_planned P g)"
  unfolding update_recurring_def update_planned_def update_store_def
  by (intro led.keeps_intros keeps_cases unmoved; simp add: same_ledger_def progress_ok_def)+

lemma led_command [unmoved]: "keeps same_ledger (audited_command P u p detail c)"
  unfolding audited_command_def by (intro led.keeps_intros keeps_cases unmoved)

lemma led_settings:
  "keeps same_ledger (whitelist P u)" "keeps same_ledger (whitelist_add P u n)" "keeps same_ledger (whitelist_remove P u n)"
  "keeps same_ledger (ops P u)" "keeps same_ledger (pending_op_levels P u)" "keeps same_ledger (kick P u n r)"
  "keeps same_ledger (pending_unbans P u)" "keeps same_ledger (game_settings P u)" "keeps same_ledger (set_difficulty P u l)"
  "keeps same_ledger (set_gamerule P u n v)" "keeps same_ledger (full_game_settings P u)" "keeps same_ledger (set_weather P u l)"
  "keeps same_ledger (set_time P u l)" "keeps same_ledger (can_access_console P u)" "keeps same_ledger (run_rcon P u n)"
  "keeps same_ledger (stop_server P u)"
  unfolding moderation_defs game_defs get_difficulty_def get_gamerule_def game_mutation_def list_gamerule_names_def get_gamerules_def
  by (intro led.keeps_intros keeps_cases unmoved)+

lemma led_parts [unmoved]:
  "keeps same_ledger (restart_core P u p i w c)" "keeps same_ledger cancel_restart" "keeps same_ledger (forget_deferred i)"
  "keeps same_ledger (note_deferred_once P u p i l)" "keeps same_ledger (tick_op_levels_operation P)"
  "keeps same_ledger (scan_update_outcome P)" "keeps same_ledger (tick_recurring_restart P u)" "keeps same_ledger (warn_restart P time)"
  "keeps same_ledger (op_levels_free P)"
  unfolding restart_core_def begin_op_levels_apply_def cancel_restart_def forget_deferred_def note_deferred_once_def
    tick_op_levels_operation_def op_levels_outcome_def scan_update_outcome_def tick_recurring_restart_def warn_restart_def op_levels_free_def
  by (intro led.keeps_intros keeps_cases unmoved; simp add: same_ledger_def progress_ok_def)+

lemma led_restart [unmoved]: "keeps same_ledger (restart P u i w)"
  unfolding restart_def by (intro led.keeps_intros keeps_cases unmoved)

lemma led_actions:
  "keeps same_ledger (start_server P u)" "keeps same_ledger (schedule_restart P u m d)"
  "keeps same_ledger (cancel_scheduled_restart P u)" "keeps same_ledger (scheduled_restart_status P u)"
  "keeps same_ledger (set_recurring_restart P u n l d)" "keeps same_ledger (clear_recurring_restart P u)"
  "keeps same_ledger (recurring_restart_status P u)" "keeps same_ledger (tick_scheduled_restart P u)"
  unfolding start_server_def schedule_restart_def cancel_scheduled_restart_def scheduled_restart_status_def
    set_recurring_restart_def clear_recurring_restart_def recurring_restart_status_def tick_scheduled_restart_def fire_restart_def
  by (intro led.keeps_intros keeps_cases unmoved; simp add: same_ledger_def progress_ok_def)+

lemma led_maintenance_parts [unmoved]:
  "keeps same_ledger (restore_in_progress P)" "keeps same_ledger (doorman_unfit_issues P)" "keeps same_ledger cancel_maintenance"
  "keeps same_ledger (planned_list P)" "keeps same_ledger (mark_planned P i day)" "keeps same_ledger (remove_planned P i)"
  "keeps same_ledger (hold_for_restore P u p)" "keeps same_ledger (engage_maintenance P u motd refusal who i)"
  "keeps same_ledger (arm_planned P u e target remaining today)" "keeps same_ledger (warn_maintenance P time)"
  unfolding restore_in_progress_def doorman_unfit_issues_def cancel_maintenance_def planned_list_def mark_planned_def
    remove_planned_def hold_for_restore_def engage_maintenance_def arm_planned_def warn_maintenance_def
  by (intro led.keeps_intros keeps_cases unmoved; simp add: same_ledger_def progress_ok_def)+

lemma led_restoring [unmoved]: "keeps same_ledger (restoring P)"
  unfolding restoring_def by (intro led.keeps_intros unmoved)

lemma led_loop [unmoved]: "keeps same_ledger (planned_loop P u time es)"
  by (induction P u time es rule: planned_loop.induct)
    (simp_all only: planned_loop.simps, (intro led.keeps_intros keeps_cases unmoved; simp)+)

lemma led_maintenance:
  "keeps same_ledger (maintenance_status P u)" "keeps same_ledger (enter_maintenance P u n m g d)"
  "keeps same_ledger (cancel_pending_maintenance P u)" "keeps same_ledger (exit_maintenance P u)"
  "keeps same_ledger (tick_maintenance P u)" "keeps same_ledger (add_scheduled_maintenance P u k n m w l x y d)"
  "keeps same_ledger (remove_scheduled_maintenance P u n)" "keeps same_ledger (list_scheduled_maintenance P u)"
  unfolding maintenance_defs tick_scheduled_maintenance_def close_now_def
  by (intro led.keeps_intros keeps_cases unmoved; simp add: same_ledger_def progress_ok_def)+

lemma led_update:
  "keeps same_ledger (update_status P u)" "keeps same_ledger (apply_update P u f)" "keeps same_ledger (app_update_status P u n)"
  "keeps same_ledger (snooze_app_update P u h)" "keeps same_ledger (apply_app_update P u)"
  unfolding update_defs players_or_unavailable_def warn_and_save_def known_release_def app_update_applicable_def app_update_busy_def
  by (intro led.keeps_intros keeps_cases unmoved; simp add: same_ledger_def progress_ok_def)+

lemma led_backup_parts [unmoved]:
  "keeps same_ledger (list_archives P)" "keeps same_ledger (archive_path P f)" "keeps same_ledger (delete_archive P f)"
  "keeps same_ledger (profile_list P)" "keeps same_ledger (get_profile P i)" "keeps same_ledger (upsert_profile P p)"
  "keeps same_ledger (delete_profile P i)" "keeps same_ledger (mark_run P i t)" "keeps same_ledger (trigger_worker P w c)"
  unfolding list_archives_def archive_path_def delete_archive_def profile_list_def get_profile_def upsert_profile_def
    delete_profile_def mark_run_def trigger_worker_def update_profiles_def update_store_def
  by (intro led.keeps_intros keeps_cases unmoved; simp add: same_ledger_def progress_ok_def)+

lemma led_runs [unmoved]:
  "keeps same_ledger (refuse_during_restore P)" "keeps same_ledger (note_started P p b)" "keeps same_ledger (profile_due P t p)"
  "keeps same_ledger (backup_retention_plan P u d m f)" "keeps same_ledger (delete_all P items)"
  "keeps same_ledger (forget_run k)" "keeps same_ledger (forget_id k)"
  unfolding refuse_during_restore_def note_started_def profile_due_def backup_retention_plan_def delete_all_def
    forget_run_def forget_id_def
  by (intro led.keeps_intros keeps_cases unmoved; simp add: same_ledger_def progress_ok_def)+

lemma estimate_best:
  assumes "estimate k a n s = (Inr v, t)" and "progress_ok s"
  shows "progress_ok t" and "v = Some p \<Longrightarrow> percent_ok p"
    and "v = Some p \<Longrightarrow> map_of (progress_max s) k = Some m \<Longrightarrow> m \<le> p"
  using assms list_all_map_of [of percent_ok "progress_max s" k]
  by (auto simp: estimate_def prog_simps Let_def progress_ok_def percent_ok_def max_def min_def
      intro!: list_all_update split: option.splits if_splits)

lemma led_estimate [unmoved]: "keeps same_ledger (estimate k a n)"
proof (rule keepsI)
  fix s r t assume run: "estimate k a n s = (r, t)"
  then obtain v where "r = Inr v" and "temp_bans t = temp_bans s" "op_pending t = op_pending s"
    by (auto simp: estimate_def prog_simps Let_def split: option.splits if_splits)
  with run show "same_ledger s t" using estimate_best(1) by (auto simp: same_ledger_def)
qed

lemma led_trigger [unmoved]: "keeps same_ledger (trigger_profile_locked P u i)"
  unfolding trigger_profile_locked_def by (intro led.keeps_intros keeps_cases unmoved)

lemma led_outcome [unmoved]: "keeps same_ledger (scan_backup_outcomes P)" "keeps same_ledger (backup_progress_for P k f w)"
  unfolding scan_backup_outcomes_def watched_runs_def scan_one_def finalize_backup_def auto_retention_def backup_progress_for_def
  by (intro led.keeps_intros keeps_cases unmoved; simp add: same_ledger_def progress_ok_def)+

lemma led_running_profile [unmoved]: "keeps same_ledger (running_profile P ps)"
  by (induction ps) (simp_all only: running_profile.simps, (intro led.keeps_intros keeps_cases unmoved; simp)+)

lemma led_backups:
  "keeps same_ledger (backup_profiles_list P u)" "keeps same_ledger (create_backup_profile P u n inc h d x y)"
  "keeps same_ledger (update_backup_profile P u i n inc h d x y)" "keeps same_ledger (toggle_backup_profile P u i b)"
  "keeps same_ledger (delete_backup_profile P u i)" "keeps same_ledger (trigger_profile_backup P u i)"
  "keeps same_ledger (tick_backup_profiles P u)" "keeps same_ledger (list_backups P u)"
  "keeps same_ledger (backup_progress P u)" "keeps same_ledger (last_backup_outcome P u)"
  "keeps same_ledger (archive_checks P u)" "keeps same_ledger (archive_checking P u)"
  "keeps same_ledger (backup_free_bytes P u)" "keeps same_ledger (backup_download_path P u f)"
  "keeps same_ledger (apply_backup_retention P u x y f)"
  unfolding backup_profiles_list_def create_backup_profile_def update_backup_profile_def toggle_backup_profile_def
    delete_backup_profile_def trigger_profile_backup_def tick_backup_profiles_def list_backups_def backup_progress_def
    last_backup_outcome_def archive_checks_def archive_checking_def backup_free_bytes_def backup_download_path_def
    apply_backup_retention_def run_if_due_def
  by (intro led.keeps_intros keeps_cases unmoved)+

lemma led_restore_parts [unmoved]:
  "keeps same_ledger (port_running P w l)" "keeps same_ledger (restore_archive_issues P f)" "keeps same_ledger (doorman_issues P)"
  "keeps same_ledger (restore_event P u ph o' kvs)" "keeps same_ledger (notify_restore a b c)"
  "keeps same_ledger (new_operation_id P f)" "keeps same_ledger clear_waiting" "keeps same_ledger (remember_failure P p m)"
  "keeps same_ledger (finish_restore_operation P ph m)" "keeps same_ledger (validate_archive P f)"
  unfolding port_running_def restore_archive_issues_def doorman_issues_def restore_event_def notify_restore_def new_operation_id_def
    clear_waiting_def remember_failure_def finish_restore_operation_def validate_archive_def
  by (intro led.keeps_intros keeps_cases unmoved; simp add: same_ledger_def progress_ok_def)+

lemma led_restore_steps [unmoved]:
  "keeps same_ledger (restore_preflight_issues P f)" "keeps same_ledger (start_safety_backup P u f i)"
  "keeps same_ledger (abandon P u p ph x t m)" "keeps same_ledger (validate_new_safety_archive P p)"
  "keeps same_ledger (launch_restore P u p a)" "keeps same_ledger (restore_overdue P u op)" "keeps same_ledger (watch_minecraft P u op)"
  unfolding restore_preflight_issues_def start_safety_backup_def abandon_def validate_new_safety_archive_def new_safety_archive_def
    launch_restore_def start_restore_after_backup_def restore_overdue_def watch_minecraft_def failed_event_def
  by (intro led.keeps_intros keeps_cases unmoved; simp add: same_ledger_def progress_ok_def)+

lemma led_ticks [unmoved]: "keeps same_ledger (tick_restore_operation P u)" "keeps same_ledger (tick_waiting P u p)"
  unfolding tick_restore_operation_def watch_container_def failed_event_def tick_waiting_def safety_backup_over_def
  by (intro led.keeps_intros keeps_cases unmoved; simp add: same_ledger_def progress_ok_def)+

lemma led_restores:
  "keeps same_ledger (restore_preflight P u f)" "keeps same_ledger (restore_backup P u f)"
  "keeps same_ledger (pending_restore_status P u)" "keeps same_ledger (dismiss_activity_result P u)"
  "keeps same_ledger (restore_progress P u)" "keeps same_ledger (tick_pending_restore P u)"
  unfolding restore_defs by (intro led.keeps_intros keeps_cases unmoved; simp add: same_ledger_def progress_ok_def)+

lemma led_backup_request: "keeps same_ledger (perform_backup P u b)"
  by (cases b; simp only: perform_backup.simps done_with_def; intro led.keeps_intros led_backups led_restores led_runs)

lemmas led_requests = led_settings led_restart led_actions led_maintenance led_update

subsection \<open>The ledger\<close>

text \<open>
  What the two stores promise, without files and JSON: the instants at which a player's ban is to
  be lifted, and the level wanted for an operator at the next restart, names taken in any case.
\<close>

record ledger =
  timers :: "string \<Rightarrow> datetime list"
  wanted :: "string \<Rightarrow> int option"

definition ledger_of :: "ports \<Rightarrow> svc \<Rightarrow> ledger" where
  "ledger_of P s =
     \<lparr>timers = (\<lambda>n. map pu_unban_at (filter (\<lambda>p. pu_player p = n) (tb_pending (fromiso P) (temp_bans s)))),
      wanted = (\<lambda>n. requested_level n (op_pending s))\<rparr>"

text \<open>
  The instant a temporary ban ends and whether a level counts at once, both by what the ports
  answer at the moment the request asks them.
\<close>

definition ban_end :: "ports \<Rightarrow> event list \<Rightarrow> string \<Rightarrow> rat \<Rightarrow> string \<Rightarrow> datetime" where
  "ban_end P j n hours reason =
     clock_at P (j @ [Sent (ban_command n (sanitize_reason reason))]) + seconds_delta (hours * 3600)"

definition effective :: "ports \<Rightarrow> event list \<Rightarrow> string \<Rightarrow> int \<Rightarrow> bool" where
  "effective P j n level = effective_now (ops_at P (j @ (if has_op_apply P then [Looked OpLevels] else []))) n level"

definition want :: "string \<Rightarrow> int option \<Rightarrow> ledger \<Rightarrow> ledger" where
  "want n v l = l\<lparr>wanted := (\<lambda>m. if lower m = lower n then v else wanted l m)\<rparr>"

fun ledger_step :: "ports \<Rightarrow> event list \<Rightarrow> request \<Rightarrow> ledger \<Rightarrow> ledger" where
  "ledger_step P j (Ban n r) l = l\<lparr>timers := (timers l)(n := [])\<rparr>"
| "ledger_step P j (Pardon n) l = l\<lparr>timers := (timers l)(n := [])\<rparr>"
| "ledger_step P j (Ban_temporary n h r) l = l\<lparr>timers := (timers l)(n := [ban_end P j n h r])\<rparr>"
| "ledger_step P j (Op_add n v) l = want n (if effective P j n v then None else Some v) l"
| "ledger_step P j (Op_remove n) l = want n None l"
| "ledger_step P j r l = l"

lemma ledger_same: "same_ledger s t \<Longrightarrow> ledger_of P t = ledger_of P s"
  by (simp add: same_ledger_def ledger_of_def)

text \<open>What a step that returns has done.\<close>

lemma authorize_returns: "authorize P u p s = (Inr v, t) \<longleftrightarrow> can u p \<and> t = s"
  by (auto simp: authorize_def prog_simps record_audit_run Let_def split: option.split)

lemma validate_returns: "validate_player_name n s = (Inr v, t) \<longleftrightarrow> is_player_name n \<and> t = s"
  by (auto simp: validate_player_name_def prog_simps)

lemma on_error_returns: "on_error m h s = (Inr v, t) \<longleftrightarrow> m s = (Inr v, t)"
  by (auto simp: on_error_def prog_simps split: prod.split sum.split)

lemma bind_returns: "bindM m k s = (Inr v, t) \<longleftrightarrow> (\<exists>x t'. m s = (Inr x, t') \<and> k x t' = (Inr v, t))"
  by (auto simp: prog_simps split: prod.split sum.split)

lemma then_returns: "thenM m k s = (Inr v, t) \<longleftrightarrow> (\<exists>x t'. m s = (Inr x, t') \<and> k t' = (Inr v, t))"
  by (auto simp: prog_simps split: prod.split sum.split)

lemma answer_returns: "answer e f s = (Inr v, t) \<longleftrightarrow> f (journal s) = Inr v \<and> t = s\<lparr>journal := journal s @ [e]\<rparr>"
  by (auto simp: answer_def log_event_def prog_simps split: sum.split)

lemma write_returns: "write_file P name f s = (Inr v, t) \<longleftrightarrow>
    store_at P (journal s) name = None \<and> t = f (s\<lparr>journal := journal s @ [Stored name]\<rparr>)"
  by (auto simp: write_file_def on_error_def answer_def log_event_def prog_simps split: option.splits if_splits)

lemma store_bans_returns:
  "update_temp_bans P f s = (Inr v, t) \<longleftrightarrow>
     (\<exists>g. f (temp_bans s) = Inr g \<and> store_at P (journal s) ''temp_bans'' = None \<and>
        t = s\<lparr>journal := journal s @ [Stored ''temp_bans''], temp_bans := g\<rparr>)"
  by (auto simp: update_temp_bans_def update_store_def always_def then_returns write_returns bindM_run getM_run retM_run raiseM_run
      split: sum.splits option.splits)

lemma audit_returns: "record_audit P u p outcome detail s = (Inr v, t) \<Longrightarrow> same_stores s t"
  by (auto dest: keepsD [OF still_record])


lemma notify_returns: "notify a b i k s = (Inr v, t) \<Longrightarrow> same_stores s t"
  by (auto dest: keepsD [OF still_ports(7)])

lemmas returns = authorize_returns validate_returns on_error_returns bind_returns then_returns answer_returns store_bans_returns

lemma ban_timers:
  assumes "ban P u n r s = (Inr v, t) \<or> pardon P u n s = (Inr v, t)"
  shows "\<exists>g. tb_cancel n (temp_bans s) = Inr g \<and> temp_bans t = g \<and> op_pending t = op_pending s"
proof -
  have "\<exists>g a. tb_cancel n (temp_bans s) = Inr g \<and> same_stores (s\<lparr>journal := a, temp_bans := g\<rparr>) t"
    using assms
    by (auto simp: ban_def pardon_def Let_def returns game_command_def retM_run dest!: audit_returns notify_returns)
      (blast intro: still.transR)+
  then show ?thesis by (auto simp: same_stores_def)
qed

lemma temporary_timers:
  assumes "ban_temporary P u n h r s = (Inr v, t)"
  shows "\<exists>g k. tb_cancel n (temp_bans s) = Inr g \<and> tb_schedule n (ban_end P (journal s) n h r) g = Inr k \<and>
     temp_bans t = k \<and> op_pending t = op_pending s"
  using assms
  by (auto simp: ban_temporary_def Let_def returns game_command_def now_def retM_run raiseM_run ban_end_def same_stores_def
      split: if_splits dest!: audit_returns)

lemma op_pending_returns:
  assumes "update_op_pending P f s = (Inr v, t)"
  shows "\<exists>g. f (op_pending s) = Inr g \<and> op_pending t = g \<and> temp_bans t = temp_bans s"
  using assms
  by (auto simp: update_op_pending_def update_store_def if_changed_def then_returns write_returns bindM_run getM_run retM_run raiseM_run
      split: sum.splits option.splits if_splits)

lemma keeps_ledger_returns: "keeps same_ledger m \<Longrightarrow> m s = (Inr v, t) \<Longrightarrow> temp_bans t = temp_bans s \<and> op_pending t = op_pending s"
  by (auto simp: same_ledger_def dest: keepsD)

lemma try_raise_returns: "tryM m (\<lambda>e. thenM (k e) (raiseM (x e))) s = (Inr v, t) \<longleftrightarrow> m s = (Inr v, t)"
  by (auto simp: prog_simps split: prod.split sum.split)

lemma idle_returns:
  "ensure_op_levels_idle P s = (Inr v, t) \<Longrightarrow>
   t = s\<lparr>journal := journal s @ (if has_op_apply P then [Looked OpLevels] else [])\<rparr>"
  by (auto simp: ensure_op_levels_idle_def running_def answer_def log_event_def prog_simps split: if_splits sum.splits)

lemma op_add_levels:
  assumes "op_add P u n level s = (Inr v, t)" and "has_pending_ops P"
  shows "\<exists>g. (if effective P (journal s) n level then ol_remove n else ol_set_level n level) (op_pending s) = Inr g \<and>
     op_pending t = g \<and> temp_bans t = temp_bans s"
proof -
  from assms(1) obtain s1 s2 s3 s4 s5 found x where
    "ensure_op_levels_idle P s = (Inr (), s1)" "attemptM (answer (Asked ''ops'') (ops_at P)) s1 = (Inr found, s2)"
    "game_command P (''op '' @ n) s2 = (Inr x, s3)" "remember_level P n level (effective_now found n level) s3 = (Inr (), s4)"
    "same_stores s4 s5" "same_stores s5 t"
    by (auto simp: op_add_def Let_def returns try_raise_returns raiseM_run retM_run simp del: answer_returns split: if_splits
        dest!: audit_returns notify_returns)
  note run = this
  from run(5,6) have t: "same_stores s4 t" by (rule still.transR)
  have "effective_now found n level = effective P (journal s) n level"
    using run(2) idle_returns [OF run(1)]
    by (auto simp: effective_def effective_now_def answer_def log_event_def prog_simps split: sum.splits if_splits)
  moreover have "op_pending s3 = op_pending s \<and> temp_bans s3 = temp_bans s"
    using idle_returns [OF run(1)] run(2,3)
    by (auto simp: game_command_def answer_def log_event_def prog_simps split: sum.splits if_splits)
  moreover have "\<exists>g. (if effective_now found n level then ol_remove n else ol_set_level n level) (op_pending s3) = Inr g \<and>
      op_pending s4 = g \<and> temp_bans s4 = temp_bans s3"
    using run(4) assms(2) by (auto simp: remember_level_def split: if_splits dest!: op_pending_returns)
  ultimately show ?thesis using same_stores_fields [OF t] by simp
qed

lemma op_remove_levels:
  assumes "op_remove P u n s = (Inr v, t)" and "has_pending_ops P"
  shows "\<exists>g. ol_remove n (op_pending s) = Inr g \<and> op_pending t = g \<and> temp_bans t = temp_bans s"
proof -
  from assms obtain s1 s2 s3 x where
    "ensure_op_levels_idle P s = (Inr (), s1)" "game_command P (''deop '' @ n) s1 = (Inr x, s2)"
    "update_op_pending P (ol_remove n) s2 = (Inr (), s3)" and t: "same_stores s3 t"
    by (auto simp: op_remove_def returns try_raise_returns whenM_run retM_run dest!: audit_returns)
  then show ?thesis using same_stores_fields [OF t]
    by (auto simp: game_command_def answer_returns dest!: idle_returns op_pending_returns)
qed

lemma other_player: "m \<noteq> n \<Longrightarrow> filter (\<lambda>p. pu_player p = m \<and> pu_player p \<noteq> n) ps = filter (\<lambda>p. pu_player p = m) ps"
  by (rule filter_cong) auto

lemma ledger_ban:
  assumes "tb_cancel n (temp_bans s) = Inr g" "temp_bans t = g" "op_pending t = op_pending s"
  shows "ledger_of P t = (ledger_of P s)\<lparr>timers := (timers (ledger_of P s))(n := [])\<rparr>"
  using tb_pending_cancel [OF assms(1), of "fromiso P"] assms(2,3)
  by (auto simp: ledger_of_def other_player conj_commute intro!: ext)

lemma ledger_temporary:
  assumes "tb_cancel n (temp_bans s) = Inr g" "tb_schedule n time g = Inr k" "temp_bans t = k"
    "op_pending t = op_pending s" "fromiso P (isoformat time) = Some time"
  shows "ledger_of P t = (ledger_of P s)\<lparr>timers := (timers (ledger_of P s))(n := [time])\<rparr>"
  using tb_pending_cancel [OF assms(1), of "fromiso P"] tb_pending_schedule [of n time g k "fromiso P", OF assms(2,5)] assms(3,4)
  by (auto simp: ledger_of_def other_player conj_commute intro!: ext)

lemma ledger_level:
  assumes "(if eff then ol_remove n else ol_set_level n level) (op_pending s) = Inr g" "op_pending t = g"
    "temp_bans t = temp_bans s" "level_file_ok (op_pending s)"
  shows "ledger_of P t = want n (if eff then None else Some level) (ledger_of P s)"
  using assms remove_lookup [OF assms(4)] set_level_lookup [OF assms(4)]
  by (auto simp: ledger_of_def want_def intro!: ext split: if_splits)

lemma done_returns: "done_with m s = (Inr v, t) \<longleftrightarrow> (\<exists>x. m s = (Inr x, t))"
  by (auto simp: done_with_def then_returns retM_run)

lemma ledger_done: "done_with m s = (Inr v, t) \<Longrightarrow> keeps same_ledger m \<Longrightarrow> ledger_of P t = ledger_of P s"
  by (auto simp: done_returns intro: ledger_same dest: keepsD)


subsection \<open>Properties\<close>

text \<open>
  C23. The stores of the moderation refine the ledger. Every request that returns changes the
  timers of temporary bans and the wanted operator levels exactly as its step on the ledger says:
  a ban or a pardon removes the player's timer, a temporary ban leaves exactly one, at the time of
  the ban plus its duration, a new operator has the level recorded unless it is effective at
  once, and no other request changes anything. The levels file is a JSON object without duplicate
  keys, and the time written for a ban can be read back.
\<close>

theorem requests_refine_ledger:
  assumes "perform P u r s = (Inr (), t)" and "has_pending_ops P" and "level_file_ok (op_pending s)"
    and "\<And>n h x. r = Ban_temporary n h x \<Longrightarrow>
      fromiso P (isoformat (ban_end P (journal s) n h x)) = Some (ban_end P (journal s) n h x)"
  shows "ledger_of P t = ledger_step P (journal s) r (ledger_of P s)"
proof -
  show ?thesis
  proof (cases r)
    case (Op_add n level)
    with assms(1) obtain v where "op_add P u n level s = (Inr v, t)" by (auto simp: done_returns)
    from op_add_levels [OF this assms(2)] assms(3) Op_add show ?thesis by (auto dest!: ledger_level)
  next
    case (Op_remove n)
    with assms(1) obtain v where "op_remove P u n s = (Inr v, t)" by (auto simp: done_returns)
    from op_remove_levels [OF this assms(2)] assms(3) Op_remove show ?thesis
      using ledger_level [of True n 0 s] by auto
  next
    case (Ban n x)
    with assms(1) obtain v where "ban P u n x s = (Inr v, t)" by (auto simp: done_returns)
    with ban_timers [of P u n x s v t] Ban show ?thesis by (auto intro: ledger_ban)
  next
    case (Pardon n)
    with assms(1) obtain v where "pardon P u n s = (Inr v, t)" by (auto simp: done_returns)
    with ban_timers [of P u n _ s v t] Pardon show ?thesis by (auto intro: ledger_ban)
  next
    case (Ban_temporary n h x)
    with assms(1) obtain v where "ban_temporary P u n h x s = (Inr v, t)" by (auto simp: done_returns)
    from temporary_timers [OF this] assms(4) [OF Ban_temporary] Ban_temporary show ?thesis by (auto intro: ledger_temporary)
  next
    case (Backup_request b)
    with assms(1) have "same_ledger s t" by (auto dest: keepsD [OF led_backup_request])
    with Backup_request show ?thesis by (simp add: ledger_same)
  qed (insert assms(1); simp; erule ledger_done; rule led_requests)+
qed

definition ban_ports :: ports where
  "ban_ports = (calm_ports (\<lambda>_ _. Inr []) (\<lambda>_. False) 0)\<lparr>fromiso := (\<lambda>_. Some (seconds_delta 3600))\<rparr>"

theorem requests_refine_ledger_witness:
  "(let t = snd (perform ban_ports (user_with [BAN_MANAGE]) (Ban_temporary ''Bob'' 1 []) new_svc) in
    ledger_of ban_ports t = ledger_step ban_ports [] (Ban_temporary ''Bob'' 1 []) (ledger_of ban_ports new_svc) \<and>
    timers (ledger_of ban_ports t) ''Bob'' = [seconds_delta 3600])"
proof -
  let ?r = "Ban_temporary ''Bob'' 1 []"
  obtain t where t: "perform ban_ports (user_with [BAN_MANAGE]) ?r new_svc = (Inr (), t)"
  proof -
    have "isl (fst (perform ban_ports (user_with [BAN_MANAGE]) ?r new_svc)) = False" by code_simp
    then show ?thesis using that by (cases "perform ban_ports (user_with [BAN_MANAGE]) ?r new_svc"; cases "fst (perform ban_ports (user_with [BAN_MANAGE]) ?r new_svc)") auto
  qed
  have "ledger_of ban_ports t = ledger_step ban_ports (journal new_svc) ?r (ledger_of ban_ports new_svc)"
  proof (rule requests_refine_ledger [OF t])
    show "has_pending_ops ban_ports" "level_file_ok (op_pending new_svc)" by code_simp+
    show "fromiso ban_ports (isoformat (ban_end ban_ports (journal new_svc) n h x)) =
        Some (ban_end ban_ports (journal new_svc) n h x)" if "?r = Ban_temporary n h x" for n h x
      using that by (auto simp: ban_ports_def ban_end_def calm_ports_def)
  qed
  with t show ?thesis by (simp add: new_svc_def ban_end_def ban_ports_def calm_ports_def)
qed





end
