(* ===== verification/Service_Order.thy ===== *)
theory Service_Order
  imports Service_Commands Service_State
begin

text \<open>
  What happens before what. A run is judged by the events it adds: an event of a dangerous kind
  must come after an event that made it safe, in the same run. The rules follow the structure of
  the programs, so that a property of every request is a few lines.
\<close>

subsection \<open>Only after\<close>

fun ordered :: "(event \<Rightarrow> bool) \<Rightarrow> (event list \<Rightarrow> event \<Rightarrow> bool) \<Rightarrow> event list \<Rightarrow> bool \<Rightarrow> event list \<Rightarrow> bool" where
  "ordered bad good j safe [] = True"
| "ordered bad good j safe (e # es) = ((bad e \<longrightarrow> safe) \<and> ordered bad good (j @ [e]) (safe \<or> good j e) es)"

fun met :: "(event list \<Rightarrow> event \<Rightarrow> bool) \<Rightarrow> event list \<Rightarrow> event list \<Rightarrow> bool" where
  "met good j [] = False"
| "met good j (e # es) = (good j e \<or> met good (j @ [e]) es)"

text \<open>
  \<open>after bad good s t\<close>: the run from \<open>s\<close> to \<open>t\<close> has no \<open>bad\<close> event that a \<open>good\<close> one, judged by
  the journal at its time, does not precede.
\<close>

definition after :: "(event \<Rightarrow> bool) \<Rightarrow> (event list \<Rightarrow> event \<Rightarrow> bool) \<Rightarrow> svc \<Rightarrow> svc \<Rightarrow> bool" where
  "after bad good s t \<longleftrightarrow>
     prefix (journal s) (journal t) \<and>
     ordered bad good (journal s) False (drop (length (journal s)) (journal t))"

lemma ordered_mono: "ordered bad good j a es \<Longrightarrow> a \<longrightarrow> b \<Longrightarrow> ordered bad good j b es"
proof (induction es arbitrary: j a b)
  case (Cons e es)
  from Cons.prems(2) have "a \<or> good j e \<longrightarrow> b \<or> good j e" by blast
  with Cons.prems(1) have "ordered bad good (j @ [e]) (b \<or> good j e) es" by (auto intro: Cons.IH)
  with Cons.prems show ?case by auto
qed simp

lemma ordered_safe: "ordered bad good j True es"
  by (induction es arbitrary: j) auto

lemma ordered_free: "list_all (\<lambda>e. \<not> bad e) es \<Longrightarrow> ordered bad good j a es"
  by (induction es arbitrary: j a) auto

lemma ordered_append:
  "ordered bad good j a (xs @ ys) \<longleftrightarrow> ordered bad good j a xs \<and> ordered bad good (j @ xs) (a \<or> met good j xs) ys"
  by (induction xs arbitrary: j a) auto

lemma met_append: "met good j (xs @ ys) \<longleftrightarrow> met good j xs \<or> met good (j @ xs) ys"
  by (induction xs arbitrary: j) auto

lemma after_iff:
  "after bad good s t \<longleftrightarrow> (\<exists>es. journal t = journal s @ es \<and> ordered bad good (journal s) False es)"
  by (auto simp: after_def prefix_def)

interpretation ord: state_preorder "after bad good" for bad good
  by unfold_locales (auto simp: after_iff ordered_append intro: ordered_mono)

subsection \<open>Programs that make the rest safe\<close>

definition meets :: "(event list \<Rightarrow> event \<Rightarrow> bool) \<Rightarrow> ('a \<Rightarrow> bool) \<Rightarrow> (svc, 'a) prog \<Rightarrow> bool" where
  "meets good Q m \<longleftrightarrow> (\<forall>s v t. m s = (Inr v, t) \<longrightarrow> Q v \<longrightarrow>
     (\<exists>es. journal t = journal s @ es \<and> met good (journal s) es))"

lemma meets_answer:
  assumes "\<And>j v. f j = Inr v \<Longrightarrow> Q v \<Longrightarrow> good j e"
  shows "meets good Q (answer e f)"
  using assms by (auto simp: meets_def answer_def log_event_def prog_simps split: sum.splits)

lemma after_free: "keeps (appends (\<lambda>e. \<not> bad e)) m \<Longrightarrow> keeps (after bad good) m"
proof (rule keepsI)
  fix s r t assume "keeps (appends (\<lambda>e. \<not> bad e)) m" "m s = (r, t)"
  then obtain es where "journal t = journal s @ es" "list_all (\<lambda>e. \<not> bad e) es"
    unfolding appends_def by (blast dest: keepsD)
  then show "after bad good s t" unfolding after_iff using ordered_free [of bad es] by blast
qed

lemma after_only:
  assumes "keeps (appends (only q K)) m" and "\<And>e. only q K e \<Longrightarrow> \<not> bad e"
  shows "keeps (after bad good) m"
proof (rule after_free, rule keepsI)
  fix s r t assume "m s = (r, t)"
  with assms(1) obtain es where "journal t = journal s @ es" "list_all (only q K) es"
    unfolding appends_def by (blast dest: keepsD)
  with assms(2) show "appends (\<lambda>e. \<not> bad e) s t" by (auto simp: appends_def list_all_iff)
qed

lemma after_bind:
  assumes "keeps (after bad good) m" and "meets good Q m"
    and "\<And>v. Q v \<Longrightarrow> keeps (appends ok) (f v)" and "\<And>v. \<not> Q v \<Longrightarrow> keeps (after bad good) (f v)"
  shows "keeps (after bad good) (bindM m f)"
proof (rule keepsI)
  fix s r t assume run: "bindM m f s = (r, t)"
  show "after bad good s t"
  proof (cases "m s")
    case (Pair x s')
    with assms(1) have m: "after bad good s s'" by (blast dest: keepsD)
    show ?thesis
    proof (cases x)
      case (Inl e)
      with run Pair m show ?thesis by (simp add: prog_simps)
    next
      case (Inr v)
      with run Pair have f: "f v s' = (r, t)" by (simp add: prog_simps)
      show ?thesis
      proof (cases "Q v")
        case True
        with assms(3) f have "appends ok s' t" by (blast dest: keepsD)
        then obtain fs where fs: "journal t = journal s' @ fs" by (auto simp: appends_def)
        from Pair Inr assms(2) True obtain es where es: "journal s' = journal s @ es" "met good (journal s) es"
          unfolding meets_def by blast
        with m fs show ?thesis by (auto simp: after_iff ordered_append ordered_safe)
      next
        case False
        with assms(4) f have "after bad good s' t" by (blast dest: keepsD)
        with m show ?thesis by (rule ord.transR)
      qed
    qed
  qed
qed

lemma after_then:
  assumes "keeps (after bad good) m" and "meets good (\<lambda>_. True) m" and "keeps (appends ok) n"
  shows "keeps (after bad good) (thenM m n)"
  using after_bind [OF assms(1,2), of ok "\<lambda>_. n"] assms(3) by (simp add: thenM_def)

text \<open>An audited action that fails raises again, so what follows it can rely on it.\<close>

lemma meets_on_error: "meets good Q m \<Longrightarrow> meets good Q (on_error m h)"
  by (auto simp: meets_def on_error_def prog_simps split: prod.splits sum.splits if_splits)

lemma meets_docker: "(\<And>j. docker_at P j w c = None \<Longrightarrow> good j (Docker w c)) \<Longrightarrow> meets good Q (docker P w c)"
  unfolding docker_def by (rule meets_answer) (auto split: option.splits)

lemma after_on_error:
  "keeps (after bad good) m \<Longrightarrow> (\<And>e. keeps (after bad good) (h e)) \<Longrightarrow> keeps (after bad good) (on_error m h)"
  unfolding on_error_def by (intro ord.keeps_intros)

lemma after_docker:
  assumes "\<And>j. docker_at P j w c = None \<Longrightarrow> good j (Docker w c)" and "\<not> bad (Docker w c)"
    and "\<And>e. keeps (after bad good) (h e)" and "keeps (appends ok) n"
  shows "keeps (after bad good) (thenM (on_error (docker P w c) h) n)"
proof (rule after_then [OF _ _ assms(4)])
  have "keeps (after bad good) (docker P w c)"
    unfolding docker_def by (intro after_free app_answer assms(2))
  then show "keeps (after bad good) (on_error (docker P w c) h)" by (rule after_on_error) (rule assms(3))
  show "meets good (\<lambda>_. True) (on_error (docker P w c) h)" by (intro meets_on_error meets_docker assms(1))
qed

subsection \<open>The address of the server\<close>

text \<open>
  The doorman answers the players at the server's own address: the server must not be started
  while it is there. It is known to be away when Docker does not say it runs, or when it has just
  been released.
\<close>

fun starts_server :: "ports \<Rightarrow> event \<Rightarrow> bool" where
  "starts_server P (Docker w c) = (has_doorman P \<and> kind_of w c \<in> {Starting, Updating})"
| "starts_server P e = False"

fun address_free :: "ports \<Rightarrow> event list \<Rightarrow> event \<Rightarrow> bool" where
  "address_free P j (Looked Doorman) = (running_at P j Doorman \<noteq> Inr True)"
| "address_free P j (Docker Doorman DRelease) = (docker_at P j Doorman DRelease = None)"
| "address_free P j e = False"

lemma free_of_starts:
  "keeps (appends (only q {Stopping, Engaging, Restoring})) m \<Longrightarrow> keeps (after (starts_server P) (address_free P)) m"
  by (rule after_only) (auto simp: only_def elim!: starts_server.elims)





lemmas address_parts = ord.keeps_intros keeps_cases free_of_starts adds







lemma done_after: "keeps (after bad good) m \<Longrightarrow> keeps (after bad good) (done_with m)"
  unfolding done_with_def by (intro ord.keeps_intros)

lemma console_calls: "keeps (appends (only (\<lambda>_. True) K)) (run_rcon P u c)"
  unfolding run_rcon_def by (intro app.keeps_intros keeps_cases adds; simp)

lemmas moderation_calls = clean_moderation [OF disjI1, OF refl]

lemmas harmless = console_calls moderation_calls clean_reads clean_settings clean_rules clean_restarts clean_maintenance
  clean_update clean_backup_request


subsection \<open>The doorman comes after the server has stopped\<close>

fun engages :: "event \<Rightarrow> bool" where
  "engages (Docker w c) = (kind_of w c = Engaging)"
| "engages e = False"

fun server_stopped :: "ports \<Rightarrow> event list \<Rightarrow> event \<Rightarrow> bool" where
  "server_stopped P j (Docker Minecraft (DStop t)) = (docker_at P j Minecraft (DStop t) = None)"
| "server_stopped P j e = False"

lemma free_of_engaging: "keeps (appends (only q {Starting, Updating, Stopping, Restoring})) m \<Longrightarrow> keeps (after engages good) m"
  by (rule after_only) (auto simp: only_def elim!: engages.elims)

lemma engage_order: "keeps (after engages (server_stopped P)) (engage_maintenance P u motd refusal who i)"
proof -
  let ?stop = "DStop (Some maintenance_stop_timeout)"
  show ?thesis
    unfolding engage_maintenance_def
    by (rule ord.keeps_bind, (rule free_of_engaging [of one_line], intro app.keeps_intros adds; simp))
      (intro keeps_let ord.keeps_then after_docker [of P Minecraft ?stop _ _ _ "only one_line UNIV"];
       (rule free_of_engaging [of one_line])?; simp?; intro app.keeps_intros adds; simp)
qed

lemma engage_parts:
  "keeps (after engages (server_stopped P)) (close_now P u p)"
  "keeps (after engages (server_stopped P)) (enter_maintenance P u m x g d)"
  unfolding close_now_def enter_maintenance_def
  by (intro ord.keeps_intros keeps_cases engage_order; rule free_of_engaging [of one_line]; intro app.keeps_intros adds; simp)+

lemma engage_tick: "keeps (after engages (server_stopped P)) (tick_maintenance P u)"
  unfolding tick_maintenance_def
  by (intro ord.keeps_intros keeps_cases engage_parts; rule free_of_engaging [of one_line]; intro app.keeps_intros adds; simp)

lemma engage_perform: "keeps (after engages (server_stopped P)) (perform P u r)"
  by (cases r; simp only: perform.simps; (rule done_after)?; (rule engage_parts engage_tick)?)
    (rule free_of_engaging, (rule harmless app_restart clean_tick_restart; simp; fail))+

subsection \<open>Nobody is thrown out\<close>

text \<open>The server has answered that nobody is connected.\<close>

fun found_empty :: "ports \<Rightarrow> event list \<Rightarrow> event \<Rightarrow> bool" where
  "found_empty P j (Sent c) = (c = ''list'' \<and> (case rcon_at P j c of Inr out \<Rightarrow> parse_name_list out = [] | Inl e \<Rightarrow> False))"
| "found_empty P j e = False"

fun is_call :: "docker_kind set \<Rightarrow> event \<Rightarrow> bool" where
  "is_call K (Docker w c) = (kind_of w c \<in> K)"
| "is_call K e = False"

lemma free_of_call: "keeps (appends (only q (- K))) m \<Longrightarrow> Other_call \<notin> K \<Longrightarrow> keeps (after (is_call K) good) m"
  by (erule after_only) (auto simp: only_def elim!: is_call.elims)

lemma meets_players: "meets (found_empty P) (\<lambda>ps. ps = []) (list_players P)"
  by (auto simp: meets_def list_players_def game_command_def answer_def log_event_def prog_simps split: sum.splits)

lemma meets_map: "meets good (\<lambda>x. Q (g x)) m \<Longrightarrow> meets good Q (bindM m (\<lambda>x. retM (g x)))"
  by (auto simp: meets_def prog_simps split: prod.splits sum.splits)

lemma meets_try: "meets good Q m \<Longrightarrow> \<not> Q v \<Longrightarrow> meets good Q (tryM m (\<lambda>_. retM v))"
  by (auto simp: meets_def prog_simps split: prod.splits sum.splits if_splits)

lemma meets_empty: "meets (found_empty P) (\<lambda>go. go) (server_confirmed_empty P)"
  unfolding server_confirmed_empty_def by (intro meets_try meets_map meets_players) simp

lemma after_empty:
  assumes "Other_call \<notin> K" "keeps (appends ok) n" "keeps (after (is_call K) (found_empty P)) k"
  shows "keeps (after (is_call K) (found_empty P)) (bindM (server_confirmed_empty P) (\<lambda>go. if go then n else k))"
proof (rule after_bind [OF _ meets_empty, where ok = ok])
  show "keeps (after (is_call K) (found_empty P)) (server_confirmed_empty P)"
    by (rule free_of_call [of one_line]) (rule clean_restarts assms(1))+
qed (use assms in auto)

lemma free_of_starting: "keeps (appends (only q {Stopping, Engaging, Restoring})) m \<Longrightarrow> keeps (after (is_call {Starting, Updating}) good) m"
  by (erule after_only) (auto simp: only_def elim!: is_call.elims)

subsubsection \<open>Restarts\<close>

text \<open>A pending restart is not replaced by the daily one: it stays as it is.\<close>

definition holds_pending :: "scheduled_restart \<Rightarrow> svc \<Rightarrow> bool" where
  "holds_pending r s \<longleftrightarrow> rs_state (restart_sched s) = Some r"

lemma hold_still: "keeps same_stores m \<Longrightarrow> keeps (inv_rel (holds_pending r)) m"
  by (rule keepsI) (auto simp: inv_rel_def holds_pending_def same_stores_def dest!: keepsD)

lemma hold_mod: "(\<And>s. restart_sched (f s) = restart_sched s) \<Longrightarrow> keeps (inv_rel (holds_pending r)) (modM f)"
  by (rule keepsI) (auto simp: inv_rel_def prog_simps holds_pending_def)

lemma hold_write: "(\<And>s. restart_sched (f s) = restart_sched s) \<Longrightarrow> keeps (inv_rel (holds_pending r)) (write_file P n f)"
  unfolding write_file_def on_error_def by (intro inv.keeps_intros hold_mod; (rule hold_still, rule silent)?; simp)

lemma hold_store: "(\<And>g s. restart_sched (put g s) = restart_sched s) \<Longrightarrow> keeps (inv_rel (holds_pending r)) (update_store P n get put f)"
  unfolding update_store_def by (intro inv.keeps_intros keeps_cases hold_write)

lemma hold_ticks:
  "keeps (inv_rel (holds_pending r)) (tick_op_levels_operation P)"
  "keeps (inv_rel (holds_pending r)) (scan_update_outcome P)"
  unfolding tick_op_levels_operation_def scan_update_outcome_def op_levels_outcome_def
  by (intro inv.keeps_intros keeps_cases hold_mod; (rule hold_still, rule silent)?; simp)+

lemma hold_guard:
  "keeps (inv_rel (holds_pending r)) (bindM (getM (\<lambda>s. rs_state (restart_sched s))) (\<lambda>pending. whenM (pending = None) m))"
  by (rule keepsI) (auto simp: inv_rel_def prog_simps holds_pending_def)

lemma hold_recurring: "keeps (inv_rel (holds_pending r)) (tick_recurring_restart P u)"
  unfolding tick_recurring_restart_def update_recurring_def
  by (intro hold_guard hold_store inv.keeps_intros keeps_cases; (rule hold_still, rule silent)?; simp)

lemma then_holding:
  assumes "keeps (after bad good) m" "keeps (inv_rel I) m" "\<And>t. I t \<Longrightarrow> after bad good t (snd (n t))" "I s"
  shows "after bad good s (snd (thenM m n s))"
proof (cases "m s")
  case (Pair x t)
  with assms(1,2,4) have "after bad good s t" "I t" by (auto simp: inv_rel_def dest: keepsD)
  with Pair assms(3) show ?thesis by (auto simp: prog_simps split: sum.split intro: ord.transR)
qed

lemma deferred_fire:
  assumes "sr_defer r"
  shows "keeps (after (is_call {Starting, Updating}) (found_empty P))
    (bindM (if sr_defer r then server_confirmed_empty P else retM True) (\<lambda>go.
       if go then fire_restart P u r else note_deferred_once P u RESTART i ''Redemarrage''))"
  unfolding if_P [OF assms]
proof (rule after_empty [where ok = "only one_line UNIV"])
  show "keeps (after (is_call {Starting, Updating}) (found_empty P)) (note_deferred_once P u RESTART i ''Redemarrage'')"
    by (rule free_of_starting [of one_line], rule clean_deferred) simp
qed (auto intro: clean_fire)

lemma get_run: "bindM (getM f) k s = k (f s) s"
  by (simp add: prog_simps)

lemma deferred_tick:
  assumes "holds_pending r s" "sr_defer r"
  shows "after (is_call {Starting, Updating}) (found_empty P) s (snd (tick_scheduled_restart P u s))"
proof -
  let ?after = "after (is_call {Starting, Updating}) (found_empty P)"
  let ?due = "\<lambda>pending. bindM (now P) (\<lambda>time. if restart_at pending \<le> time then
      bindM (if sr_defer pending then server_confirmed_empty P else retM True) (\<lambda>go.
        if go then fire_restart P u pending
        else note_deferred_once P u RESTART (restart_at_id (restart_at pending)) ''Redemarrage'')
      else warn_restart P time)"
  have due: "keeps ?after (?due r)"
    by (rule ord.keeps_bind, (rule free_of_starting [of one_line], rule adds), rule ord.keeps_if,
        rule deferred_fire [OF assms(2)], (rule free_of_starting [of one_line], rule adds))
  have "?after t (snd (bindM (getM (\<lambda>s. rs_state (restart_sched s))) (case_option (retM ()) ?due) t))"
    if "holds_pending r t" for t
    using keeps_snd [OF due, of t] that unfolding get_run holds_pending_def by simp
  note last = this
  show ?thesis
    unfolding tick_scheduled_restart_def
    by (intro then_holding [where I = "holds_pending r"] assms(1) last hold_ticks hold_recurring;
        (assumption | (rule free_of_starting [of one_line], rule adds) | (rule hold_still, rule silent)))
qed

subsubsection \<open>Maintenance\<close>

lemma free_of_closing: "keeps (appends (only q {Starting, Updating, Restoring})) m \<Longrightarrow> keeps (after (is_call {Stopping, Engaging}) good) m"
  by (erule after_only) (auto simp: only_def elim!: is_call.elims)

lemma deferred_close:
  assumes "pm_defer p"
  shows "keeps (after (is_call {Stopping, Engaging}) (found_empty P))
    (bindM (if pm_defer p then server_confirmed_empty P else retM True) (\<lambda>go.
       if go then close_now P u p else note_deferred_once P u MAINTENANCE i ''Maintenance''))"
  unfolding if_P [OF assms]
proof (rule after_empty [where ok = "only one_line UNIV"])
  show "keeps (after (is_call {Stopping, Engaging}) (found_empty P)) (note_deferred_once P u MAINTENANCE i ''Maintenance'')"
    by (rule free_of_closing [of one_line], rule clean_deferred) simp
qed (auto intro: clean_close)

definition holds_closing :: "pending_maintenance \<Rightarrow> svc \<Rightarrow> bool" where
  "holds_closing p s \<longleftrightarrow> mt_state (maint_sched s) = Some p"

lemma closing_still: "keeps same_stores m \<Longrightarrow> keeps (inv_rel (holds_closing p)) m"
  by (rule keepsI) (auto simp: inv_rel_def holds_closing_def same_stores_def dest!: keepsD)

lemma closing_guard:
  "keeps (inv_rel (holds_closing p)) (bindM (getM (\<lambda>s. mt_state (maint_sched s))) (\<lambda>pending. if pending \<noteq> None then retM () else m))"
  by (rule keepsI) (auto simp: inv_rel_def prog_simps holds_closing_def)

lemma closing_planned: "keeps (inv_rel (holds_closing p)) (tick_scheduled_maintenance P u)"
  unfolding tick_scheduled_maintenance_def planned_list_def
  by (intro closing_guard inv.keeps_intros keeps_cases)

lemma deferred_tick_maintenance:
  assumes "holds_closing p s" "pm_defer p"
  shows "after (is_call {Stopping, Engaging}) (found_empty P) s (snd (tick_maintenance P u s))"
proof -
  let ?after = "after (is_call {Stopping, Engaging}) (found_empty P)"
  let ?due = "\<lambda>p. bindM (now P) (\<lambda>t. if engage_at p \<le> t then
      bindM (restoring P) (\<lambda>r. if r then hold_for_restore P u p
        else bindM (if pm_defer p then server_confirmed_empty P else retM True) (\<lambda>go.
          if go then close_now P u p else note_deferred_once P u MAINTENANCE (pm_operation_id p) ''Maintenance''))
      else warn_maintenance P t)"
  have due: "keeps ?after (?due p)"
    by (rule ord.keeps_bind, (rule free_of_closing [of one_line], rule adds), rule ord.keeps_if, rule ord.keeps_bind,
        (rule free_of_closing [of one_line], rule adds), rule ord.keeps_if, (rule free_of_closing [of one_line], rule adds),
        rule deferred_close [OF assms(2)], (rule free_of_closing [of one_line], rule adds))
  have "?after t (snd ((if \<not> has_pending_maintenance P then retM ()
      else bindM (getM (\<lambda>s. mt_state (maint_sched s))) (case_option (retM ()) ?due)) t))"
    if "holds_closing p t" for t
    using keeps_snd [OF due, of t] that by (simp add: get_run holds_closing_def retM_run ord.reflR)
  note last = this
  show ?thesis
    unfolding tick_maintenance_def
    by (intro then_holding [where I = "holds_closing p"] assms(1) last closing_planned;
        (assumption | (rule free_of_closing [of one_line], rule adds) | (rule closing_still, rule silent)))
qed

subsubsection \<open>Updates\<close>

lemma meets_except_inl: "meets good Q m \<Longrightarrow> (\<And>e. \<not> Q (Inl e)) \<Longrightarrow> meets good Q (exceptM p m (\<lambda>e. retM (Inl e)))"
  by (auto simp: meets_def prog_simps split: prod.splits sum.splits if_splits)

lemma meets_unblocked: "meets (found_empty P) (\<lambda>ps. update_blocked_reason ps = None) (players_or_unavailable P)"
  unfolding players_or_unavailable_def
  by (intro meets_except_inl meets_map) (auto simp: update_blocked_reason_def meets_players)

lemma update_gate: "keeps (after (is_call {Updating}) (found_empty P)) (apply_update P u False)"
proof -
  have free: "keeps (appends (only one_line {})) m \<Longrightarrow> keeps (after (is_call {Updating}) (found_empty P)) m" for m :: "(svc, 'a) prog"
    by (erule after_only) (auto simp: only_def elim!: is_call.elims)
  have ask: "keeps (after (is_call {Updating}) (found_empty P)) (players_or_unavailable P)"
    unfolding players_or_unavailable_def by (rule free) (intro app.keeps_intros adds; simp)
  have gate: "keeps (after (is_call {Updating}) (found_empty P)) (bindM (players_or_unavailable P) (\<lambda>players.
      case (update_blocked_reason players, False) of (Some detail, False) \<Rightarrow> no detail | _ \<Rightarrow> go))"
    if "keeps (appends (only one_line UNIV)) go" "\<And>detail. keeps (appends (only one_line {})) (no detail)"
    for go and no :: "string \<Rightarrow> (svc, unit) prog"
    using that by (intro after_bind [OF ask meets_unblocked, where ok = "only one_line UNIV"])
      (auto split: option.split intro!: free)
  show ?thesis
    unfolding apply_update_def warn_and_save_def
    by (intro ord.keeps_then ord.keeps_bind [where f = "\<lambda>closed. if closed then x else y" for x y] ord.keeps_if gate;
        (rule free)?; intro app.keeps_intros keeps_cases adds; simp)
qed

subsection \<open>Properties\<close>


text \<open>
  C21. The doorman takes the server's address only after a stop of the server that succeeded in
  the same run, for every request and every answer of Docker.
\<close>

theorem doorman_engages_after_stop: "after engages (server_stopped P) s (snd (perform P u r s))"
  by (rule keeps_snd [OF engage_perform])

text \<open>
  C22. A restart that was asked to wait for an empty server waits: the background tick restarts the
  server only after the list of players came back and was empty. An error of RCON does not count as
  empty, and a daily restart that becomes due does not replace the waiting one.
\<close>

theorem deferred_restart_waits:
  assumes "rs_state (restart_sched s) = Some r" and "sr_defer r"
  shows "after (is_call {Starting, Updating}) (found_empty P) s (snd (tick_scheduled_restart P u s))"
  using assms by (intro deferred_tick) (simp_all add: holds_pending_def)

definition empty_server :: ports where
  "empty_server = calm_ports (\<lambda>_ c. Inr (if c = ''list'' then ''There are 0 of a max of 20 players online: '' else [])) (\<lambda>_. False) 0"

definition restart_due :: svc where
  "restart_due = new_svc\<lparr>restart_sched := rs_schedule default_thresholds 0 ''ann'' 0 True new_restart_schedule\<rparr>"

theorem deferred_restart_waits_witness:
  "after (is_call {Starting, Updating}) (found_empty empty_server) restart_due
     (snd (tick_scheduled_restart empty_server scheduled_restart_user restart_due)) \<and>
   list_ex (is_call {Starting}) (journal (snd (tick_scheduled_restart empty_server scheduled_restart_user restart_due)))"
proof
  have "rs_state (restart_sched restart_due) = Some \<lparr>restart_at = 0, scheduled_by = ''ann'', sr_defer = True\<rparr>" by code_simp
  from deferred_restart_waits [OF this] show "after (is_call {Starting, Updating}) (found_empty empty_server) restart_due
     (snd (tick_scheduled_restart empty_server scheduled_restart_user restart_due))" by simp
  show "list_ex (is_call {Starting}) (journal (snd (tick_scheduled_restart empty_server scheduled_restart_user restart_due)))"
    by code_simp
qed

text \<open>
  A maintenance that was asked to wait for an empty server neither stops the server nor calls
  the doorman before the list of players came back empty.
\<close>

theorem deferred_closing_waits:
  assumes "mt_state (maint_sched s) = Some p" and "pm_defer p"
  shows "after (is_call {Stopping, Engaging}) (found_empty P) s (snd (tick_maintenance P u s))"
  using assms by (intro deferred_tick_maintenance) (simp_all add: holds_closing_def)

definition closing_due :: svc where
  "closing_due = new_svc\<lparr>maint_sched := mt_schedule default_thresholds 0 ''ann'' ''m'' ''k'' 0 True new_maintenance_schedule\<rparr>"

theorem deferred_closing_waits_witness:
  "after (is_call {Stopping, Engaging}) (found_empty empty_server) closing_due
     (snd (tick_maintenance empty_server maintenance_user closing_due)) \<and>
   list_ex (is_call {Engaging}) (journal (snd (tick_maintenance empty_server maintenance_user closing_due)))"
proof
  have "mt_state (maint_sched closing_due) = Some (the (mt_state (maint_sched closing_due)))"
    "pm_defer (the (mt_state (maint_sched closing_due)))" by code_simp+
  from deferred_closing_waits [OF this] show "after (is_call {Stopping, Engaging}) (found_empty empty_server) closing_due
     (snd (tick_maintenance empty_server maintenance_user closing_due))" .
  show "list_ex (is_call {Engaging}) (journal (snd (tick_maintenance empty_server maintenance_user closing_due)))"
    by code_simp
qed

text \<open>
  Without the confirmation, the update of the server is launched only after the list of
  players came back empty in the same run.
\<close>

theorem update_needs_empty_server: "after (is_call {Updating}) (found_empty P) s (snd (perform P u (Apply_update False) s))"
  using keeps_snd [OF done_after [OF update_gate]] by simp

end
