(* ===== verification/Backup_Safety.thy ===== *)
theory Backup_Safety
  imports Service_Order
begin

text \<open>
  What the backups and the restores promise across every request: a restore replaces the world
  only behind a verified copy of it, files are deleted only where deletion is allowed, the progress
  shown is an estimate, and a new profile takes the place of no other.
\<close>

subsection \<open>Before a restore\<close>

fun restores :: "string \<Rightarrow> event \<Rightarrow> bool" where
  "restores f (Docker w c) = (w = Restore \<and> c = DRestore f)"
| "restores f e = False"

fun safety_ended :: "ports \<Rightarrow> event list \<Rightarrow> event \<Rightarrow> bool" where
  "safety_ended P j (Looked w) = (w = SafetyBackup \<and> running_at P j w = Inr False)"
| "safety_ended P j e = False"

fun safety_succeeded :: "ports \<Rightarrow> event list \<Rightarrow> event \<Rightarrow> bool" where
  "safety_succeeded P j (Asked q) = (q = ''exit code'' \<and> exit_at P j SafetyBackup = Inr (Some 0))"
| "safety_succeeded P j e = False"

text \<open>The archive was read in full just now and holds a world that can be put back.\<close>

definition sound_check :: "archive_check \<Rightarrow> bool" where
  "sound_check c \<longleftrightarrow> ac_ok c \<and> ac_restorable c = Some True"

fun validated :: "ports \<Rightarrow> (string \<Rightarrow> bool) \<Rightarrow> event list \<Rightarrow> event \<Rightarrow> bool" where
  "validated P which j (Asked q) =
     (\<exists>name. q = ''validate '' @ name \<and> is_safety name \<and> which name \<and>
        (case validate_at P j name of Inr c \<Rightarrow> sound_check c | Inl e \<Rightarrow> False))"
| "validated P which j e = False"

fun target_sound :: "ports \<Rightarrow> string \<Rightarrow> event list \<Rightarrow> event \<Rightarrow> bool" where
  "target_sound P f j (Asked q) =
     (q = ''checks'' \<and> (case checks_at P j of
        Inr checks \<Rightarrow> (case map_of checks f of Some c \<Rightarrow> sound_check c | None \<Rightarrow> False) | Inl e \<Rightarrow> False))"
| "target_sound P f j e = False"

lemma free_of_restores:
  "keeps (appends (only q {Starting, Updating, Stopping, Engaging})) m \<Longrightarrow> keeps (after (restores f) good) m"
  by (erule after_only) (auto simp: only_def elim!: restores.elims)

lemma app_weaken: "keeps (appends (only q {})) m \<Longrightarrow> keeps (appends (only q K)) m"
  by (rule keepsI, drule keepsD, assumption)
    (auto simp: appends_def only_def elim!: list.pred_mono_strong split: event.splits)

lemma backup_free_of_restores:
  assumes "keeps (after (restores f) good) (tick_pending_restore P u)"
  shows "keeps (after (restores f) good) (perform_backup P u b)"
  by (cases b; simp only: perform_backup.simps; rule done_after; (rule assms)?)
    (rule free_of_restores [of one_line], (rule clean_backups clean_restores app_retention; simp; fail))+

lemma only_tick_restores:
  assumes "keeps (after (restores f) good) (tick_pending_restore P u)"
  shows "keeps (after (restores f) good) (perform P u r)"
  by (cases r; simp only: perform.simps; (rule backup_free_of_restores [OF assms])?; rule done_after)
    (rule free_of_restores, (rule harmless app_restart clean_tick_restart; simp; fail))+

text \<open>The tick, down to the wait for the safety backup.\<close>

lemma restores_in_waiting:
  assumes "\<And>p. keeps (after (restores f) good) (tick_waiting P u p)"
  shows "keeps (after (restores f) good) (tick_pending_restore P u)"
  unfolding tick_pending_restore_def
  by (intro ord.keeps_intros keeps_cases assms; rule free_of_restores [of one_line]; intro adds; simp)

lemma meets_attempt: "meets good Q m \<Longrightarrow> meets good (\<lambda>x. case x of Inr v \<Rightarrow> Q v | Inl e \<Rightarrow> False) (attemptM m)"
  by (auto simp: meets_def prog_simps split: prod.splits sum.splits)

lemma meets_bind:
  assumes "keeps (appends ok) m" and "\<And>s v s'. m s = (Inr v, s') \<Longrightarrow> meets good Q (f v)"
  shows "meets good Q (bindM m f)"
  unfolding meets_def
proof (intro allI impI)
  fix s w t assume "bindM m f s = (Inr w, t)" and q: "Q w"
  then obtain v s' where m: "m s = (Inr v, s')" and f: "f v s' = (Inr w, t)" by (auto simp: bind_returns)
  with assms(2) q obtain fs where "journal t = journal s' @ fs" "met good (journal s') fs" unfolding meets_def by blast
  moreover from keepsD [OF assms(1) m] obtain es where "journal s' = journal s @ es" by (auto simp: appends_def)
  ultimately show "\<exists>es. journal t = journal s @ es \<and> met good (journal s) es" by (auto simp: met_append)
qed

lemma meets_then: "keeps (appends ok) m \<Longrightarrow> meets good Q n \<Longrightarrow> meets good Q (thenM m n)"
  unfolding thenM_def by (rule meets_bind)

lemma meets_first:
  assumes "meets good R m" and "\<And>v. keeps (appends ok) (f v)" and "\<And>v s w t. f v s = (Inr w, t) \<Longrightarrow> Q w \<Longrightarrow> R v"
  shows "meets good Q (bindM m f)"
  unfolding meets_def
proof (intro allI impI)
  fix s w t assume "bindM m f s = (Inr w, t)" and q: "Q w"
  then obtain v s' where m: "m s = (Inr v, s')" and f: "f v s' = (Inr w, t)" by (auto simp: bind_returns)
  from assms(3) [OF f q] assms(1) m obtain es where "journal s' = journal s @ es" "met good (journal s) es"
    unfolding meets_def by blast
  moreover from keepsD [OF assms(2) f] obtain fs where "journal t = journal s' @ fs" by (auto simp: appends_def)
  ultimately show "\<exists>es. journal t = journal s @ es \<and> met good (journal s) es" by (auto simp: met_append)
qed

lemma meets_raise: "meets good Q (raiseM e)"
  by (simp add: meets_def prog_simps)

lemma meets_ret: "\<not> Q v \<Longrightarrow> meets good Q (retM v)"
  by (simp add: meets_def prog_simps)

lemma meets_finally:
  "meets good Q m \<Longrightarrow> (\<And>s. journal (f s) = journal s) \<Longrightarrow> meets good Q (finallyM m (modM f))"
  by (force simp: meets_def prog_simps split: prod.splits sum.splits)

lemma verdict_sound: "verdict_issues f a check checking = [] \<Longrightarrow> \<exists>c. check = Some c \<and> sound_check c"
  by (auto simp: verdict_issues_def sound_check_def split: option.splits if_splits bool.splits)

lemma target_checked: "meets (target_sound P f) (\<lambda>issues. issues = []) (restore_archive_issues P f)"
proof -
  let ?sound = "\<lambda>check. \<exists>c. check = Some c \<and> sound_check c"
  let ?ask = "bindM (ask ''checks'' (checks_at P)) (\<lambda>checks. bindM (ask ''checking'' (checking_at P)) (\<lambda>checking.
      retM (map_of checks f, checking)))"
  have "meets (target_sound P f) (\<lambda>v. ?sound (fst v)) ?ask"
  proof (rule meets_first [where R = "\<lambda>checks. ?sound (map_of checks f)" and ok = "only one_line UNIV"])
    show "meets (target_sound P f) (\<lambda>checks. ?sound (map_of checks f)) (ask ''checks'' (checks_at P))"
      unfolding ask_def by (rule meets_answer) auto
  qed (auto simp: bind_returns retM_run intro!: app.keeps_intros adds)
  from meets_attempt [OF this] have ask: "meets (target_sound P f)
      (\<lambda>x. case x of Inr v \<Rightarrow> ?sound (fst v) | Inl e \<Rightarrow> False) (attemptM ?ask)" .
  show ?thesis
    unfolding restore_archive_issues_def
  proof (rule meets_bind [where ok = "only one_line UNIV"], intro app.keeps_intros adds)
    fix r
    show "meets (target_sound P f) (\<lambda>issues. issues = []) (case r of
       Inl e \<Rightarrow> retM [''acces aux sauvegardes impossible : '' @ exn_str e]
     | Inr (None, _) \<Rightarrow> retM [''archive introuvable : '' @ f]
     | Inr (Some a, False) \<Rightarrow> retM [''archive introuvable : '' @ f]
     | Inr (Some a, True) \<Rightarrow>
         if \<not> has_checks P then retM [''verification d integrite des archives non configuree'']
         else bindM (attemptM ?ask) (\<lambda>v. case v of
           Inl e \<Rightarrow> retM [''verdict d integrite illisible : '' @ exn_str e]
         | Inr (check, checking) \<Rightarrow> retM (verdict_issues f a check checking)))"
      by (auto split: sum.split prod.split option.split bool.split simp: retM_run
          intro!: meets_ret meets_first [OF ask, where ok = "only one_line UNIV"] app.keeps_intros keeps_cases) (blast dest: verdict_sound)
  qed
qed

text \<open>The archive validated is a new one of the safety folder.\<close>

lemma newest_in: "newest_archive xs = Some a \<Longrightarrow> a \<in> set xs"
proof -
  have "foldl (\<lambda>m a. if ba_created_at m < ba_created_at a then a else m) x ys \<in> insert x (set ys)" for x :: backup_archive and ys
    by (induction ys arbitrary: x) auto
  then show "newest_archive xs = Some a \<Longrightarrow> a \<in> set xs"
    by (auto simp: newest_archive_def split: list.splits)
qed

lemma new_safety_is_new:
  "new_safety_archive P p s = (Inr (Some a), t) \<Longrightarrow> is_safety (ba_filename a) \<and> ba_filename a \<notin> set (pr_safety_before p)"
  by (auto simp: new_safety_archive_def bind_returns retM_run dest!: newest_in)

lemma safety_checked: "meets (validated P (\<lambda>name. name \<notin> set (pr_safety_before p))) (\<lambda>_. True) (validate_new_safety_archive P p)"
  unfolding validate_new_safety_archive_def
proof (rule meets_bind [where ok = "only one_line UNIV"], intro adds)
  fix s found t assume found: "new_safety_archive P p s = (Inr found, t)"
  let ?good = "validated P (\<lambda>name. name \<notin> set (pr_safety_before p))"
  have read: "meets ?good sound_check (finallyM (validate_archive P (ba_filename a)) (modM (\<lambda>s. s\<lparr>validating := None\<rparr>)))"
    if "found = Some a" for a
    unfolding validate_archive_def ask_def
    using new_safety_is_new [of P p s a t] found that by (intro meets_finally meets_answer) auto
  show "meets ?good (\<lambda>_. True) (case found of
       None \<Rightarrow> raiseM (RestoreUnavailable ''le conteneur s est termine sans produire de nouvelle archive de securite'')
     | Some a \<Rightarrow>
         if \<not> has_validator P then raiseM (RestoreUnavailable ''validation immediate des archives non configuree'')
         else thenM (modM (\<lambda>s. s\<lparr>validating := Some (ba_filename a)\<rparr>))
           (bindM (finallyM (validate_archive P (ba_filename a)) (modM (\<lambda>s. s\<lparr>validating := None\<rparr>))) (\<lambda>check.
            bindM (list_archives P) (\<lambda>archives. case safety_verdict check (find_archive (ba_filename a) archives) of
               Inl e \<Rightarrow> raiseM e
             | Inr current \<Rightarrow> retM current))))"
    by (auto split: option.split intro!: meets_raise meets_then [where ok = "only one_line UNIV"]
        meets_first [OF read, where ok = "only one_line UNIV"] app.keeps_intros keeps_cases adds
        simp: bind_returns raiseM_run safety_verdict_def sound_check_def split: sum.splits if_splits option.splits)
qed

subsubsection \<open>The wait, step by step\<close>

lemma launch_restores_only: "f \<noteq> pr_filename p \<Longrightarrow> keeps (after (restores f) good) (launch_restore P u p a)"
  unfolding launch_restore_def start_restore_after_backup_def docker_def
  by (intro ord.keeps_intros keeps_cases after_on_error after_free [OF app_answer];
      (rule free_of_restores [of one_line], rule adds; simp)?; simp?)

lemma app_over: "Restoring \<in> K \<Longrightarrow> keeps (appends (only one_line K)) (safety_backup_over P u p)"
  unfolding safety_backup_over_def by (intro app.keeps_intros keeps_cases adds; simp)

lemma over_gate:
  "keeps (after (restores f) (validated P (\<lambda>name. name \<notin> set (pr_safety_before p)))) (safety_backup_over P u p)"
  unfolding safety_backup_over_def
  by (rule after_bind [OF _ meets_attempt [OF safety_checked], where ok = "only one_line UNIV"])
    ((rule free_of_restores [of one_line])?, intro app.keeps_intros keeps_cases adds; simp)+

lemma over_other: "f \<noteq> pr_filename p \<Longrightarrow> keeps (after (restores f) good) (safety_backup_over P u p)"
  unfolding safety_backup_over_def
  by (intro ord.keeps_intros keeps_cases launch_restores_only; (assumption | (rule free_of_restores [of one_line], rule adds)))

lemma target_gate: "keeps (after (restores f) (target_sound P f)) (safety_backup_over P u p)"
proof -
  have gate: "keeps (after (restores f) (target_sound P f)) (bindM (restore_archive_issues P (pr_filename p)) (\<lambda>issues.
      if issues \<noteq> [] then no issues else launch_restore P u p a))"
    if "\<And>issues. keeps (appends (only one_line {})) (no issues)" for no and a
  proof (cases "f = pr_filename p")
    case True
    show ?thesis
      unfolding True
      by (rule after_bind [OF _ target_checked, where ok = "only one_line UNIV"])
        ((rule free_of_restores [of one_line])?, (intro app.keeps_intros keeps_cases adds app_weaken [OF that]; simp))+
  next
    case False
    show ?thesis
      by (intro ord.keeps_bind ord.keeps_if launch_restores_only False; rule free_of_restores [of one_line];
          (intro adds app_weaken [OF that]; simp))
  qed
  show ?thesis
    unfolding safety_backup_over_def
    by (rule ord.keeps_bind, (rule free_of_restores [of one_line], intro app.keeps_intros adds),
        rule keeps_case_sum, (rule free_of_restores [of one_line], rule adds), rule gate, rule adds)
qed

lemma meets_not_running: "meets (safety_ended P) (\<lambda>up. \<not> up) (tryM (running P SafetyBackup) (\<lambda>_. retM True))"
  unfolding running_def by (intro meets_try meets_answer) auto

lemma meets_exit: "meets (safety_succeeded P) (\<lambda>c. c = Some 0) (exit_code P SafetyBackup)"
  unfolding exit_code_def by (rule meets_answer) simp

text \<open>What comes before the question of interest names no restore.\<close>

lemma before_running:
  assumes "keeps (after (restores f) good) (bindM (tryM (running P SafetyBackup) (\<lambda>_. retM True)) rest)"
  shows "keeps (after (restores f) good) (bindM (now P) (\<lambda>t. if pr_deadline p \<le> t then abandon P u p a x b c
    else bindM (tryM (running P SafetyBackup) (\<lambda>_. retM True)) rest))"
  by (intro ord.keeps_bind ord.keeps_if assms; rule free_of_restores [of one_line]; rule adds)

lemma ended_gate: "keeps (after (restores f) (safety_ended P)) (tick_waiting P u p)"
  unfolding tick_waiting_def
  by (rule before_running, rule after_bind [OF _ meets_not_running, where ok = "only one_line UNIV"];
      (rule free_of_restores [of one_line])?; intro app.keeps_intros keeps_cases adds app_over; simp)

lemma exit_gate: "keeps (after (restores f) (safety_succeeded P)) (tick_waiting P u p)"
  unfolding tick_waiting_def
  by (rule before_running, rule ord.keeps_bind, (rule free_of_restores [of one_line], intro app.keeps_intros adds),
      rule ord.keeps_if, rule ord.keeps_ret, rule after_bind [OF _ meets_attempt [OF meets_exit], where ok = "only one_line UNIV"];
      (rule free_of_restores [of one_line])?; intro app.keeps_intros keeps_cases adds app_over; auto)

lemma waiting_gate:
  "keeps (after (restores f) good) (safety_backup_over P u p) \<Longrightarrow> keeps (after (restores f) good) (tick_waiting P u p)"
  unfolding tick_waiting_def
  by (rule before_running; intro ord.keeps_intros keeps_cases;
      (assumption | (rule free_of_restores [of one_line], rule adds)))

lemma validated_any: "validated P which j e \<Longrightarrow> validated P (\<lambda>_. True) j e"
  by (auto elim!: validated.elims)

lemma ordered_weaken: "ordered bad good j a es \<Longrightarrow> (\<And>j e. good j e \<Longrightarrow> good' j e) \<Longrightarrow> ordered bad good' j a es"
proof (induction es arbitrary: j a)
  case (Cons e es)
  then have "ordered bad good' (j @ [e]) (a \<or> good j e) es" by simp
  with Cons.prems show ?case by (auto elim: ordered_mono)
qed simp

lemma after_weaken: "keeps (after bad good) m \<Longrightarrow> (\<And>j e. good j e \<Longrightarrow> good' j e) \<Longrightarrow> keeps (after bad good') m"
  by (rule keepsI, drule keepsD, assumption) (auto simp: after_def intro: ordered_weaken)

subsubsection \<open>The restore that waits\<close>

definition same_waiting :: "svc \<Rightarrow> svc \<Rightarrow> bool" where
  "same_waiting s t \<longleftrightarrow> waiting_restore t = waiting_restore s"

interpretation wait: state_preorder same_waiting
  by unfold_locales (auto simp: same_waiting_def)

lemma wait_still: "keeps same_stores m \<Longrightarrow> keeps same_waiting m"
  by (rule keepsI) (auto simp: same_waiting_def same_stores_def dest!: keepsD)

lemma wait_mod: "(\<And>s. waiting_restore (f s) = waiting_restore s) \<Longrightarrow> keeps same_waiting (modM f)"
  by (rule keepsI) (auto simp: prog_simps same_waiting_def)

lemma wait_archives: "keeps same_waiting (list_archives P)" "keeps same_waiting (delete_archive P f)"
  unfolding list_archives_def delete_archive_def archive_path_def
  by (rule wait_still, rule silent) (intro wait.keeps_intros; rule wait_still; rule silent)

lemma wait_scan: "keeps same_waiting (scan_backup_outcomes P)"
  unfolding scan_backup_outcomes_def watched_runs_def scan_one_def finalize_backup_def auto_retention_def profile_list_def
    get_profile_def forget_run_def forget_id_def backup_retention_plan_def delete_all_def
  by (intro wait.keeps_intros keeps_cases wait_mod wait_archives; (rule wait_still, rule silent)?; simp)

lemma tick_after_waiting:
  assumes "waiting_restore s = w" and "\<And>p. w = Some p \<Longrightarrow> keeps (after (restores f) good) (tick_waiting P u p)"
  shows "after (restores f) good s (snd (tick_pending_restore P u s))"
proof -
  let ?I = "\<lambda>t. waiting_restore t = w"
  have hold: "keeps (inv_rel ?I) m" if "keeps same_waiting m" for m :: "(svc, 'a) prog"
    by (rule keepsI) (use that in \<open>auto simp: inv_rel_def same_waiting_def dest: keepsD\<close>)
  have last: "after (restores f) good t (snd (bindM (getM (\<lambda>s. if has_pending_restore P then waiting_restore s else None))
      (\<lambda>pending. case pending of None \<Rightarrow> tick_restore_operation P u | Some p \<Rightarrow> tick_waiting P u p) t))" if "?I t" for t
  proof -
    have "keeps (after (restores f) good) (tick_restore_operation P u)"
      by (rule free_of_restores [of one_line]) (rule adds, simp)
    from keeps_snd [OF this] keeps_snd [OF assms(2)] that show ?thesis
      unfolding get_run by (cases "has_pending_restore P"; cases w) simp_all
  qed
  show ?thesis
    unfolding tick_pending_restore_def
    by (intro then_holding [where I = ?I] assms(1) last hold wait_scan;
        (assumption | (rule free_of_restores [of one_line], rule adds) | (rule wait_still, rule silent)))
qed

subsection \<open>Deletions\<close>





subsection \<open>Progress\<close>

lemma inv_still: "keeps same_stores m \<Longrightarrow> keeps (inv_rel progress_ok) m"
  by (rule keepsI) (auto simp: inv_rel_def progress_ok_def same_stores_def dest!: keepsD)

lemma inv_ledger: "keeps same_ledger m \<Longrightarrow> keeps (inv_rel progress_ok) m"
  by (rule keepsI) (auto simp: inv_rel_def same_ledger_def dest: keepsD)

lemma inv_stores: "keeps (inv_rel progress_ok) (update_temp_bans P f)" "keeps (inv_rel progress_ok) (update_op_pending P f)"
  unfolding update_temp_bans_def update_op_pending_def update_store_def write_file_def on_error_def
  by (rule keepsI; auto simp: inv_rel_def progress_ok_def prog_simps answer_def log_event_def split: sum.splits option.splits if_splits prod.splits)+

lemma inv_moderation:
  "keeps (inv_rel progress_ok) (op_add P u n l)" "keeps (inv_rel progress_ok) (op_remove P u n)"
  "keeps (inv_rel progress_ok) (ban P u n x)" "keeps (inv_rel progress_ok) (pardon P u n)"
  "keeps (inv_rel progress_ok) (ban_temporary P u n h x)"
  unfolding op_add_def op_remove_def ban_def pardon_def ban_temporary_def remember_level_def on_error_def
  by (intro inv.keeps_intros keeps_cases inv_stores; rule inv_still; intro still.keeps_intros silent)+

lemma inv_done: "keeps (inv_rel I) m \<Longrightarrow> keeps (inv_rel I) (done_with m)"
  unfolding done_with_def by (intro inv.keeps_intros)

lemma progress_perform: "keeps (inv_rel progress_ok) (perform P u r)"
  by (cases r; simp only: perform.simps; (rule inv_done)?; (rule inv_moderation)?)
    (rule inv_ledger, rule led_requests led_backup_request)+

text \<open>What a service has become after some requests of some users.\<close>

definition after_requests :: "ports \<Rightarrow> (user \<times> request) list \<Rightarrow> svc \<Rightarrow> svc" where
  "after_requests P rs s = foldl (\<lambda>s (u, r). snd (perform P u r s)) s rs"

lemma progress_requests: "progress_ok s \<Longrightarrow> progress_ok (after_requests P rs s)"
proof (induction rs arbitrary: s)
  case (Cons r rs)
  obtain u q where r: "r = (u, q)" by fastforce
  have "inv_rel progress_ok s (snd (perform P u q s))" by (rule keeps_snd [OF progress_perform])
  with Cons.prems have "progress_ok (snd (perform P u q s))" by (simp add: inv_rel_def)
  from Cons.IH [OF this] r show ?case by (simp add: after_requests_def)
qed (simp add: after_requests_def)

text \<open>The progress that is shown.\<close>

definition shown_ok :: "backup_progress option \<Rightarrow> bool" where
  "shown_ok r = (case r of None \<Rightarrow> True | Some g \<Rightarrow> pred_option percent_ok (bpg_percent g))"

definition gives :: "('a \<Rightarrow> bool) \<Rightarrow> (svc, 'a) prog \<Rightarrow> bool" where
  "gives Q m \<longleftrightarrow> (\<forall>s v t. progress_ok s \<longrightarrow> m s = (Inr v, t) \<longrightarrow> progress_ok t \<and> Q v)"

lemma gives_any: "keeps same_ledger m \<Longrightarrow> gives (\<lambda>_. True) m"
  unfolding gives_def by (intro allI impI, drule (1) keepsD) (simp add: same_ledger_def)

lemma gives_ret: "Q v \<Longrightarrow> gives Q (retM v)"
  by (simp add: gives_def prog_simps)

lemma gives_bind: "gives Q m \<Longrightarrow> (\<And>v. Q v \<Longrightarrow> gives R (f v)) \<Longrightarrow> gives R (bindM m f)"
  unfolding gives_def bind_returns by blast

lemma gives_skip: "keeps same_ledger m \<Longrightarrow> (\<And>v. gives R (f v)) \<Longrightarrow> gives R (bindM m f)"
  by (rule gives_bind [OF gives_any])

lemma gives_if: "(b \<Longrightarrow> gives Q m) \<Longrightarrow> (\<not> b \<Longrightarrow> gives Q n) \<Longrightarrow> gives Q (if b then m else n)"
  by simp

lemma gives_option: "(x = None \<Longrightarrow> gives Q m) \<Longrightarrow> (\<And>y. x = Some y \<Longrightarrow> gives Q (n y)) \<Longrightarrow> gives Q (case x of None \<Rightarrow> m | Some y \<Rightarrow> n y)"
  by (cases x) auto

lemma gives_estimate: "gives (pred_option percent_ok) (estimate k a n)"
  using estimate_best [of k a n] by (auto simp: gives_def option.pred_set)

lemma shown_none [simp]: "shown_ok None"
  by (simp add: shown_ok_def)

lemma shown_for: "gives shown_ok (backup_progress_for P k f w)"
  unfolding backup_progress_for_def Let_def
  by (intro gives_skip gives_if gives_ret gives_bind [of "pred_option percent_ok"] gives_option gives_estimate led.keeps_intros unmoved)
    (simp_all add: shown_ok_def)

lemma shown_running: "gives shown_ok (running_profile P ps)"
  by (induction ps) (auto simp: shown_ok_def intro!: gives_ret gives_skip gives_if gives_bind [OF shown_for] gives_option led.keeps_intros)

lemma shown_progress: "gives shown_ok (backup_progress P u)"
proof -
  have mine: "gives shown_ok (if has_profiles P \<and> has_profile_backup P then bindM (profile_list P) (running_profile P) else retM None)"
    by (intro gives_if gives_skip gives_ret shown_running unmoved) simp
  show ?thesis
    unfolding backup_progress_def thenM_def
    by (intro gives_skip gives_bind [OF mine] gives_bind [OF gives_if [OF shown_for gives_ret]] gives_ret unmoved)
qed

subsection \<open>New profiles\<close>

lemma free_slug_nonempty: "slug \<noteq> [] \<Longrightarrow> free_slug existing base slug n \<noteq> []"
proof (induction existing base slug n rule: free_slug.induct)
  case (1 existing base slug n)
  have "numbered base n \<noteq> []" by (simp add: numbered_def)
  with 1 show ?case by (subst free_slug.simps) simp
qed

lemma slugify_nonempty: "slugify name \<noteq> []"
  by (simp add: slugify_def Let_def)

lemma store_profiles_returns:
  "upsert_profile P p s = (Inr v, t) \<Longrightarrow>
     \<exists>g. bp_upsert (fromiso P) p (profiles s) = Inr g \<and> profiles t = g"
  by (auto simp: upsert_profile_def update_profiles_def update_store_def always_def then_returns write_returns bindM_run getM_run
      retM_run raiseM_run split: sum.splits)

lemma upsert_map:
  assumes "bp_upsert read p f = Inr g" and "valid_profile read p"
  shows "profile_map read g = (profile_map read f)(bp_id p \<mapsto> p)"
proof -
  from assms(1) have "profiles_readable read f" by (auto simp: bp_upsert_def profiles_readable_def split: sum.splits)
  from profiles.put_ok [OF this assms(2)] assms(1) show ?thesis by auto
qed

lemma absent_map: "i \<notin> set (map bp_id (list_profiles read f)) \<Longrightarrow> profile_map read f i = None"
  by (auto simp: profile_map_def bp_get_def find_None_iff)

subsection \<open>Properties\<close>

text \<open>
  C29. No request starts the restore container on an archive, in any state and whatever Docker and
  the disk answer, unless earlier in the same run the safety backup was seen to have stopped, its
  exit code was zero, an archive of the safety folder was read in full and found restorable, and
  the verdict on the archive to restore was good.
\<close>

theorem restore_needs_verified_copy:
  "after (restores f) (safety_ended P) s (snd (perform P u r s)) \<and>
   after (restores f) (safety_succeeded P) s (snd (perform P u r s)) \<and>
   after (restores f) (validated P (\<lambda>_. True)) s (snd (perform P u r s)) \<and>
   after (restores f) (target_sound P f) s (snd (perform P u r s))"
proof -
  have all: "after (restores f) good s (snd (perform P u r s))"
    if "\<And>p. keeps (after (restores f) good) (tick_waiting P u p)" for good
    by (rule keeps_snd, rule only_tick_restores, rule restores_in_waiting, rule that)
  have "keeps (after (restores f) (validated P (\<lambda>_. True))) (tick_waiting P u p)" for p
    by (rule waiting_gate, rule after_weaken [OF over_gate], rule validated_any)
  then show ?thesis by (intro conjI all ended_gate exit_gate waiting_gate [OF target_gate])
qed

text \<open>The guards can all be passed: with a new copy that is sound, the restore starts.\<close>

definition old_world :: backup_archive where
  "old_world = \<lparr>ba_filename = ''manual/a.tar.gz'', ba_size_bytes = 5, ba_created_at = -10\<rparr>"

definition safe_copy :: backup_archive where
  "safe_copy = \<lparr>ba_filename = ''restore-safety/b.tar.gz'', ba_size_bytes = 6, ba_created_at = -5\<rparr>"

definition good_check :: "backup_archive \<Rightarrow> archive_check" where
  "good_check a = \<lparr>ac_filename = ba_filename a, ac_ok = True, ac_size_bytes = ba_size_bytes a, ac_detail = [],
     ac_restorable = Some True, ac_archive_created_at = Some (ba_created_at a)\<rparr>"

definition restore_ports :: ports where
  "restore_ports = (calm_ports (\<lambda>_ _. Inr []) (\<lambda>_. False) 0)\<lparr>archives_at := (\<lambda>_. Inr [old_world, safe_copy]),
     validate_at := (\<lambda>_ _. Inr (good_check safe_copy)), checks_at := (\<lambda>_. Inr [(''manual/a.tar.gz'', good_check old_world)])\<rparr>"

definition asked_restore :: pending_restore where
  "asked_restore = \<lparr>pr_filename = ''manual/a.tar.gz'', pr_requested_by = ''ann'', pr_deadline = 60,
     pr_operation_id = ''x'', pr_safety_before = []\<rparr>"

lemma restore_ports_answers:
  "archives_at restore_ports j = Inr [old_world, safe_copy]" "validate_at restore_ports j f = Inr (good_check safe_copy)"
  "checks_at restore_ports j = Inr [(''manual/a.tar.gz'', good_check old_world)]" "checking_at restore_ports j = Inr None"
  "running_at restore_ports j w = Inr False" "exit_at restore_ports j w = Inr (Some 0)" "clock_at restore_ports j = 0"
  "audit_at restore_ports j = None" "has_checks restore_ports" "has_validator restore_ports" "has_doorman restore_ports"
  "resolves_at restore_ports j f = Inr True" "docker_at restore_ports j w c = None" 
  by (simp_all add: restore_ports_def calm_ports_def)

lemma restore_names: "is_safety ''manual/a.tar.gz'' = False" "is_safety ''restore-safety/b.tar.gz''" "archive_name_ok ''manual/a.tar.gz''"
  by code_simp+

lemma restore_does_start: "list_ex (restores ''manual/a.tar.gz'') (journal (snd (tick_waiting restore_ports u asked_restore s)))"
  by (simp add: tick_waiting_def safety_backup_over_def validate_new_safety_archive_def new_safety_archive_def
    list_archives_def ask_def answer_def log_event_def prog_simps now_def running_def exit_code_def restore_ports_answers
    asked_restore_def old_world_def safe_copy_def restore_names newest_archive_def validate_archive_def safety_verdict_def find_archive_def
     good_check_def restore_archive_issues_def archive_path_def verdict_issues_def launch_restore_def restore_event_def record_audit_run Let_def
     start_restore_after_backup_def docker_def on_error_def clear_waiting_def notify_restore_def notify_def restore_doorman_consigne_def)

text \<open>
  The tick restores only the archive whose restore is waiting, and only after an archive of the
  safety folder that was not there when the restore was asked has been read in full and found
  restorable: an old copy of the world is never taken for the new one.
\<close>

theorem restore_is_the_one_asked:
  "after (restores f)
     (\<lambda>j e. case waiting_restore s of None \<Rightarrow> False
        | Some p \<Rightarrow> f = pr_filename p \<and> validated P (\<lambda>name. name \<notin> set (pr_safety_before p)) j e)
     s (snd (tick_pending_restore P u s))"
proof (rule tick_after_waiting [OF refl], rule waiting_gate)
  fix p assume p: "waiting_restore s = Some p"
  show "keeps (after (restores f) (\<lambda>j e. case waiting_restore s of None \<Rightarrow> False
        | Some p \<Rightarrow> f = pr_filename p \<and> validated P (\<lambda>name. name \<notin> set (pr_safety_before p)) j e)) (safety_backup_over P u p)"
  proof (cases "f = pr_filename p")
    case True
    then show ?thesis using p by (intro after_weaken [OF over_gate]) simp
  next
    case False
    then show ?thesis by (rule over_other)
  qed
qed


text \<open>
  C34. After any requests of any users on a new service, the progress shown for a running backup is
  absent or between 1 and 95 percent, whatever the sizes of the archives are.
\<close>

theorem progress_is_an_estimate:
  "case fst (backup_progress P u (after_requests P rs new_svc)) of
     Inr (Some g) \<Rightarrow> (case bpg_percent g of Some n \<Rightarrow> 1 \<le> n \<and> n \<le> 95 | None \<Rightarrow> True)
   | _ \<Rightarrow> True"
proof -
  have "progress_ok (after_requests P rs new_svc)"
    by (rule progress_requests) (simp add: progress_ok_def new_svc_def)
  with shown_progress [of P u] show ?thesis
    by (cases "backup_progress P u (after_requests P rs new_svc)")
      (fastforce simp: gives_def shown_ok_def percent_ok_def split: sum.split option.split)
qed

text \<open>
  C33. A profile that was created takes the place of no other: its identifier was free, and every
  other profile of the file is as it was.
\<close>

theorem created_profile_is_new:
  assumes "create_backup_profile P u name include hours daily_at days months s = (Inr p, t)"
  shows "profile_map (fromiso P) (profiles s) (bp_id p) = None \<and>
    profile_map (fromiso P) (profiles t) = (profile_map (fromiso P) (profiles s))(bp_id p \<mapsto> p)"
proof -
  let ?ids = "map bp_id (list_profiles (fromiso P) (profiles s))"
  from assms obtain t' where id: "bp_id p = free_slug ?ids (slugify (take 40 (strip name))) (slugify (take 40 (strip name))) 2"
    and run: "bp_last_run p = None" "upsert_profile P p s = (Inr (), t')" and t: "profiles t = profiles t'"
    by (auto simp: create_backup_profile_def then_returns bind_returns authorize_returns profile_list_def getM_run retM_run raiseM_run
        Let_def same_stores_def split: if_splits sum.splits prod.splits dest!: audit_returns)
  from run(1) id have "valid_profile (fromiso P) p" by (simp add: valid_profile_def free_slug_nonempty slugify_nonempty)
  with store_profiles_returns [OF run(2)] t have "profile_map (fromiso P) (profiles t) =
      (profile_map (fromiso P) (profiles s))(bp_id p \<mapsto> p)" by (auto dest: upsert_map)
  moreover have "bp_id p \<notin> set ?ids" unfolding id by (rule free_slug_free)
  ultimately show ?thesis by (simp add: absent_map)
qed

definition quiet :: ports where
  "quiet = calm_ports (\<lambda>_ _. Inr []) (\<lambda>_. False) 0"

lemma quiet_answers:
  "has_profiles quiet" "store_at quiet j n = None" "audit_at quiet j = None" "clock_at quiet j = 0" "fromiso quiet = (\<lambda>_. None)"
  by (simp_all add: quiet_def calm_ports_def)

lemma no_profiles_yet: "bp_load r b (profiles new_svc) = Inr []" "list_profiles r (profiles new_svc) = []"
  by (simp_all add: list_profiles_def new_svc_def bp_load_def load_json_def jdefault_def jhas_def Let_def List.map_filter_def)

lemma new_names: "take 40 (strip ''Nuit'') = ''Nuit''" "slugify ''Nuit'' = ''nuit''"
  by code_simp+

theorem created_profile_is_new_witness:
  "\<exists>p t. create_backup_profile quiet (user_with [BACKUP_MANAGE]) ''Nuit'' [''world''] 0 None 7 3 new_svc = (Inr p, t) \<and>
     profile_map (fromiso quiet) (profiles t) = (profile_map (fromiso quiet) (profiles new_svc))(bp_id p \<mapsto> p)"
proof -
  have "\<exists>p t. create_backup_profile quiet (user_with [BACKUP_MANAGE]) ''Nuit'' [''world''] 0 None 7 3 new_svc = (Inr p, t)"
    by (simp add: create_backup_profile_def authorize_def prog_simps quiet_answers new_names profile_categories_def
      validate_profile_schedule_def Let_def profile_list_def no_profiles_yet upsert_profile_def update_profiles_def update_store_def
      always_def bp_upsert_def write_file_def on_error_def answer_def log_event_def record_audit_run can_def allows_def user_with_def)
  with created_profile_is_new show ?thesis by blast
qed

text \<open>
  A profile named Safety has the identifier of the safety backup, and the end of its runs is lost:
  the watch forgets a run under that identifier without an audited outcome, a notification or a
  result to show, whatever container ran it and whatever it produced.
\<close>

fun reports_outcome :: "event \<Rightarrow> bool" where
  "reports_outcome (Audited a) = True"
| "reports_outcome (Notified t m l k) = True"
| "reports_outcome e = False"

theorem safety_profile_outcome_lost:
  "slugify ''Safety'' = ''safety'' \<and>
   (let t = snd (scan_one P (''safety'', folder, w, label) s) in
     backup_result t = backup_result s \<and>
     (\<exists>es. journal t = journal s @ es \<and> list_all (\<lambda>e. \<not> reports_outcome e) es))"
proof
  show "slugify ''Safety'' = ''safety''" by code_simp
  show "let t = snd (scan_one P (''safety'', folder, w, label) s) in
     backup_result t = backup_result s \<and>
     (\<exists>es. journal t = journal s @ es \<and> list_all (\<lambda>e. \<not> reports_outcome e) es)"
    by (auto simp: scan_one_def running_def answer_def log_event_def prog_simps forget_run_def forget_id_def
        split: sum.split)
qed

end
