(* ===== verification/Op_Levels_Worker.thy ===== *)
theory Op_Levels_Worker
  imports Docker_Control Pending_Op_Levels
begin

text \<open>
  The one-shot worker that applies operator levels, \<^verbatim>\<open>app/op_levels_worker.py\<close>, with the worker's
  side of the queue of \<^verbatim>\<open>app/adapters/pending_op_levels.py\<close>.

  The state adds the files of the transaction to Docker and the fault plan of \<^verbatim>\<open>Docker_Control\<close>: the two
  files of the queue, \<open>ops.json\<close>, its copy and the marker. A file that is replaced atomically is
  replaced in one step between two accesses, either of which may fail: an error after the
  replacement (the synchronisation of the directory) leaves the new file. Left-over temporary
  files have random names and are not part of the state. The controller is that of
  \<^verbatim>\<open>restore_worker.DockerContainerController\<close>.
\<close>

subsection \<open>State\<close>

text \<open>
  The bytes of a file: the JSON document they decode to, if they do, and their number; \<open>of_plain\<close>
  says that the path is a regular file and no symbolic link. \<open>access\<close> is the mode, the user and the
  group, what a replaced file takes over from the old one.
\<close>

type_synonym access = "int \<times> int \<times> int"

type_synonym raw_bytes = "json option \<times> int"

record ops_file =
  of_plain :: bool
  of_raw :: raw_bytes
  of_meta :: access

record ol_disk = disk +
  pend_file :: jfile
  appl_file :: jfile
  ops_json :: "ops_file option"
  ops_rollback :: "ops_file option"
  ops_marker :: jfile
  data_root_ok :: bool
  may_be_stopped :: bool
  rollback_ready :: bool

definition on_docker :: "(disk, 'a) prog \<Rightarrow> (ol_disk, 'a) prog" where
  "on_docker m = zoomM disk.truncate (\<lambda>d s. disk.extend d (disk.more s)) m"

definition atomic_put :: "(ol_disk \<Rightarrow> ol_disk) \<Rightarrow> (ol_disk, unit) prog" where
  "atomic_put f = thenM tick (thenM (modM f) tick)"

subsection \<open>The worker's side of the queue\<close>

definition or_raise :: "exn + 'a \<Rightarrow> ('s, 'a) prog" where
  "or_raise r = (case r of Inl e \<Rightarrow> raiseM e | Inr x \<Rightarrow> retM x)"

definition read_applying :: "(ol_disk, levels) prog" where
  "read_applying = thenM tick (bindM (getM appl_file) (\<lambda>f. or_raise (decode_levels f)))"

definition read_pending :: "(ol_disk, levels) prog" where
  "read_pending = thenM tick (bindM (getM pend_file) (\<lambda>f. or_raise (decode_levels f)))"

definition put_applying :: "levels \<Rightarrow> (ol_disk, unit) prog" where
  "put_applying d = atomic_put (\<lambda>s. s\<lparr>appl_file := Doc (levels_payload d)\<rparr>)"

definition put_pending :: "levels \<Rightarrow> (ol_disk, unit) prog" where
  "put_pending d = atomic_put (\<lambda>s. s\<lparr>pend_file := Doc (levels_payload d)\<rparr>)"

definition claim :: "(ol_disk, pending_op_level list) prog" where
  "claim = bindM read_applying (\<lambda>applying. bindM read_pending (\<lambda>pending.
     let merged = update_all pending applying in
     thenM (put_applying merged) (thenM (put_pending []) (retM (by_name_order merged)))))"

text \<open>\<open>setdefault\<close> keeps what is there.\<close>

definition set_defaults :: "pending_op_level list \<Rightarrow> levels \<Rightarrow> levels" where
  "set_defaults items d = fold (\<lambda>i d.
     if map_of d (lower (po_name i)) = None then AList.update (lower (po_name i)) (op_request (po_name i) (po_level i)) d else d) items d"

definition complete_claim :: "pending_op_level list \<Rightarrow> (ol_disk, unit) prog" where
  "complete_claim unresolved = bindM read_pending (\<lambda>pending.
     thenM (put_pending (set_defaults unresolved pending)) (put_applying []))"

definition put_items :: "pending_op_level list \<Rightarrow> levels \<Rightarrow> levels" where
  "put_items items d = fold (\<lambda>i. AList.update (lower (po_name i)) (op_request (po_name i) (po_level i))) items d"

definition restore_claim :: "pending_op_level list \<Rightarrow> (ol_disk, unit) prog" where
  "restore_claim claimed = bindM read_applying (\<lambda>applying. bindM read_pending (\<lambda>pending.
     thenM (put_pending (update_all pending (put_items claimed applying))) (put_applying [])))"

subsection \<open>The operators' file\<close>

definition max_ops_bytes :: int where
  "max_ops_bytes = 1024 * 1024"

definition read_ops :: "(ol_disk, json list \<times> raw_bytes \<times> access) prog" where
  "read_ops = bindM (exceptM (\<lambda>e. \<not> is_op_levels_worker_error e)
       (thenM tick (bindM (getM ops_json) (\<lambda>f. case f of
            None \<Rightarrow> raiseM (OSError ''ENOENT'')
          | Some file \<Rightarrow>
              if \<not> of_plain file then raiseM (OpLevelsWorkerError ''ops.json n est pas un fichier regulier'')
              else if max_ops_bytes < snd (of_raw file) then raiseM (OpLevelsWorkerError ''ops.json est anormalement volumineux'')
              else thenM tick (case fst (of_raw file) of
                  None \<Rightarrow> raiseM (ValueError ''JSON'')
                | Some payload \<Rightarrow> retM (payload, of_raw file, of_meta file)))))
       (\<lambda>_. raiseM (OpLevelsWorkerError ''ops.json est illisible'')))
     (\<lambda>(payload, raw, m).
        if \<not> is_arr payload then raiseM (OpLevelsWorkerError ''ops.json n est pas une liste'')
        else if \<not> list_all is_obj (arr_items payload) then raiseM (OpLevelsWorkerError ''ops.json contient une entree invalide'')
        else retM (arr_items payload, raw, m))"

text \<open>\<open>json.dumps\<close> of the entries; \<open>dump_size\<close> is the length of its text.\<close>

definition encode_ops :: "(json \<Rightarrow> int) \<Rightarrow> json list \<Rightarrow> raw_bytes" where
  "encode_ops dump_size entries = (Some (JArr entries), dump_size (JArr entries))"

definition index_by_name :: "pending_op_level list \<Rightarrow> levels" where
  "index_by_name items = fold (\<lambda>i. AList.update (lower (po_name i)) i) items []"

text \<open>\<open>entry.get("level") != item.level\<close> compares numbers, not types.\<close>

fun same_number :: "json \<Rightarrow> int \<Rightarrow> bool" where
  "same_number (JInt i) n = (i = n)"
| "same_number (JBool b) n = ((if b then 1 else 0) = n)"
| "same_number (JFloat r) n = (r = of_int n)"
| "same_number _ n = False"

definition entry_request :: "levels \<Rightarrow> json \<Rightarrow> pending_op_level option" where
  "entry_request by_name e = (case jget e ''name'' of JStr n \<Rightarrow> map_of by_name (lower n) | _ \<Rightarrow> None)"

definition set_entry :: "levels \<Rightarrow> json \<Rightarrow> json" where
  "set_entry by_name e = (case entry_request by_name e of
       Some i \<Rightarrow> if same_number (jget e ''level'') (po_level i) then e else jset ''level'' (JInt (po_level i)) e
     | None \<Rightarrow> e)"

definition entry_changes :: "levels \<Rightarrow> json \<Rightarrow> bool" where
  "entry_changes by_name e = (case entry_request by_name e of
       Some i \<Rightarrow> \<not> same_number (jget e ''level'') (po_level i)
     | None \<Rightarrow> False)"

definition matched_names :: "levels \<Rightarrow> json list \<Rightarrow> string list" where
  "matched_names by_name es = List.map_filter (\<lambda>e. map_option (\<lambda>i. lower (str_of (jget e ''name''))) (entry_request by_name e)) es"

text \<open>The entries with their new levels, how many changed, and the requests that match no entry.\<close>

definition apply_requested_levels :: "json list \<Rightarrow> pending_op_level list \<Rightarrow> json list \<times> nat \<times> pending_op_level list" where
  "apply_requested_levels entries requested =
     (let by_name = index_by_name requested in
      (map (set_entry by_name) entries,
       length (filter (entry_changes by_name) entries),
       map snd (filter (\<lambda>(k, i). k \<notin> set (matched_names by_name entries)) by_name)))"

subsection \<open>The marker\<close>

definition level_list :: "pending_op_level list \<Rightarrow> json" where
  "level_list items = JArr (map level_item items)"

definition marker_payload :: "string \<Rightarrow> pending_op_level list \<Rightarrow> pending_op_level list \<Rightarrow> json" where
  "marker_payload phase requested unresolved = JObj
     [(''version'', JInt 1), (''phase'', JStr phase), (''requested'', level_list requested), (''unresolved'', level_list unresolved)]"

definition ol_write_state :: "string \<Rightarrow> pending_op_level list \<Rightarrow> pending_op_level list \<Rightarrow> (ol_disk, unit) prog" where
  "ol_write_state phase requested unresolved =
     atomic_put (\<lambda>s. s\<lparr>ops_marker := Doc (marker_payload phase requested unresolved)\<rparr>)"

definition valid_state_item :: "json \<Rightarrow> bool" where
  "valid_state_item item \<longleftrightarrow> is_obj item \<and> is_str (jget item ''name'') \<and> str_of (jget item ''name'') \<noteq> [] \<and>
     is_proper_int (jget item ''level'') \<and> 1 \<le> int_of (jget item ''level'') \<and> int_of (jget item ''level'') \<le> 4"

definition decode_state_levels :: "json \<Rightarrow> string \<Rightarrow> pending_op_level list option" where
  "decode_state_levels payload key =
     (let raw = (if jhas payload key then jget payload key else JArr []) in
      if is_arr raw \<and> list_all valid_state_item (arr_items raw)
      then Some (map (\<lambda>i. op_request (str_of (jget i ''name'')) (int_of (jget i ''level''))) (arr_items raw))
      else None)"

text \<open>\<open>_read_state\<close>: every failure is an \<open>OpLevelsWorkerError\<close>.\<close>

definition ol_read_state :: "(ol_disk, string \<times> pending_op_level list \<times> pending_op_level list) prog" where
  "ol_read_state = bindM (exceptM (\<lambda>_. True)
       (thenM tick (bindM (getM ops_marker) (\<lambda>f. case f of
            Doc payload \<Rightarrow> retM payload
          | _ \<Rightarrow> raiseM (OSError ''marker''))))
       (\<lambda>_. raiseM (OpLevelsWorkerError ''marqueur de transaction OP illisible'')))
     (\<lambda>payload.
        if \<not> is_obj payload \<or> \<not> equals_one (jget payload ''version'') \<or> \<not> is_str (jget payload ''phase'')
        then raiseM (OpLevelsWorkerError ''marqueur de transaction OP invalide'')
        else (case (decode_state_levels payload ''requested'', decode_state_levels payload ''unresolved'') of
            (Some r, Some u) \<Rightarrow> retM (str_of (jget payload ''phase''), r, u)
          | _ \<Rightarrow> raiseM (OpLevelsWorkerError ''marqueur de transaction OP invalide'')))"

definition ol_cleanup :: "(ol_disk, unit) prog" where
  "ol_cleanup = thenM tick (thenM (modM (\<lambda>s. s\<lparr>ops_rollback := None\<rparr>))
     (thenM tick (thenM (modM (\<lambda>s. s\<lparr>ops_marker := Absent\<rparr>)) tick)))"

definition restore_rollback :: "(ol_disk, unit) prog" where
  "restore_rollback = thenM tick (bindM (getM ops_rollback) (\<lambda>r. case r of
       None \<Rightarrow> raiseM (OSError ''ENOENT'')
     | Some file \<Rightarrow> thenM tick (atomic_put (\<lambda>s. s\<lparr>ops_json := Some (file\<lparr>of_plain := True\<rparr>)\<rparr>))))"

subsection \<open>The transaction\<close>

text \<open>The second half of \<open>_recover_interrupted\<close>: the transaction did not commit.\<close>

definition cancel_interrupted :: "docker_config \<Rightarrow> pending_op_level list \<Rightarrow> (ol_disk, unit) prog" where
  "cancel_interrupted mc requested = thenM (tryM
     (thenM (bindM (getM ops_rollback) (\<lambda>r. whenM (r \<noteq> None) (thenM (on_docker (mc_stop mc)) restore_rollback)))
     (thenM (on_docker (mc_start mc))
     (thenM (restore_claim requested) ol_cleanup)))
     (\<lambda>_. raiseM (OpLevelsWorkerError ''transaction OP interrompue et recuperation impossible'')))
   (raiseM (OpLevelsWorkerError ''transaction OP interrompue annulee ; niveaux remis en attente''))"

definition recover_interrupted :: "docker_config \<Rightarrow> (ol_disk, unit) prog" where
  "recover_interrupted mc = bindM (getM ops_rollback) (\<lambda>rb. bindM (getM ops_marker) (\<lambda>mk.
     if rb = None \<and> mk = Absent then retM ()
     else bindM (exceptM is_op_levels_worker_error
            (if mk \<noteq> Absent then ol_read_state else retM (''unknown'', [], []))
            (\<lambda>_. retM (''unknown'', [], [])))
       (\<lambda>(phase, requested, unresolved).
          if phase = ''committed'' then thenM (complete_claim unresolved) ol_cleanup
          else cancel_interrupted mc requested)))"

definition ol_commit :: "docker_config \<Rightarrow> pending_op_level list \<Rightarrow> pending_op_level list \<Rightarrow> (ol_disk, unit) prog" where
  "ol_commit mc requested unresolved =
     thenM (ol_write_state ''applied'' requested [])
    (thenM (on_docker (mc_start mc))
    (thenM (modM (\<lambda>s. s\<lparr>may_be_stopped := False\<rparr>))
    (thenM (ol_write_state ''committed'' requested unresolved) (complete_claim unresolved))))"

definition ol_install :: "docker_config \<Rightarrow> (json \<Rightarrow> int) \<Rightarrow> pending_op_level list \<Rightarrow> json list \<Rightarrow> raw_bytes \<Rightarrow> access \<Rightarrow>
    (ol_disk, nat \<times> pending_op_level list) prog" where
  "ol_install mc dump_size requested entries original m =
     thenM (atomic_put (\<lambda>s. s\<lparr>ops_rollback := Some \<lparr>of_plain = True, of_raw = original, of_meta = m\<rparr>\<rparr>))
    (thenM (modM (\<lambda>s. s\<lparr>rollback_ready := True\<rparr>))
    (thenM (ol_write_state ''rollback_ready'' requested [])
    (case apply_requested_levels entries requested of (entries', changed, unresolved) \<Rightarrow>
     thenM (whenM (changed \<noteq> 0) (atomic_put (\<lambda>s. s\<lparr>ops_json :=
         Some \<lparr>of_plain = True, of_raw = encode_ops dump_size entries', of_meta = m\<rparr>\<rparr>)))
    (thenM (ol_commit mc requested unresolved) (retM (changed, unresolved))))))"

definition ol_transaction :: "docker_config \<Rightarrow> (json \<Rightarrow> int) \<Rightarrow> pending_op_level list \<Rightarrow> (ol_disk, nat \<times> pending_op_level list) prog" where
  "ol_transaction mc dump_size requested =
     thenM (ol_write_state ''claimed'' requested [])
    (thenM (modM (\<lambda>s. s\<lparr>may_be_stopped := True\<rparr>))
    (thenM (on_docker (mc_stop mc))
    (thenM (ol_write_state ''stopped'' requested [])
    (bindM read_ops (\<lambda>(entries, original, m). ol_install mc dump_size requested entries original m)))))"

text \<open>The handler of a failed transaction.\<close>

definition ol_failed :: "docker_config \<Rightarrow> pending_op_level list \<Rightarrow> exn \<Rightarrow> (ol_disk, 'a) prog" where
  "ol_failed mc requested e = bindM (getM rollback_ready) (\<lambda>ready.
     if ready then
       thenM (tryM
         (thenM (on_docker (mc_stop mc))
         (thenM restore_rollback
         (thenM (on_docker (mc_start mc))
         (thenM (modM (\<lambda>s. s\<lparr>may_be_stopped := False\<rparr>))
         (thenM (restore_claim requested) ol_cleanup)))))
         (\<lambda>_. raiseM (OpLevelsWorkerError ''application et rollback des niveaux OP en echec'')))
       (raiseM (OpLevelsWorkerError (''niveaux OP annules, original restaure : '' @ exn_str e)))
     else
       thenM (bindM (getM may_be_stopped) (\<lambda>st. whenM st (tryM
           (thenM (on_docker (mc_start mc)) (modM (\<lambda>s. s\<lparr>may_be_stopped := False\<rparr>)))
           (\<lambda>_. raiseM (OpLevelsWorkerError ''echec avant ecriture et redemarrage Minecraft impossible'')))))
      (thenM (restore_claim requested)
      (thenM ol_cleanup
        (raiseM (OpLevelsWorkerError (''niveaux OP annules avant ecriture : '' @ exn_str e))))))"

definition apply_pending_levels :: "docker_config \<Rightarrow> (json \<Rightarrow> int) \<Rightarrow> (ol_disk, nat \<times> nat) prog" where
  "apply_pending_levels mc dump_size = bindM (getM data_root_ok) (\<lambda>ok.
     if \<not> ok then raiseM (OpLevelsWorkerError ''dossier de donnees Minecraft invalide'')
     else thenM (recover_interrupted mc)
      (bindM claim (\<lambda>requested.
       thenM (modM (\<lambda>s. s\<lparr>may_be_stopped := False, rollback_ready := False\<rparr>))
      (bindM (tryM (ol_transaction mc dump_size requested) (ol_failed mc requested)) (\<lambda>(changed, unresolved).
         thenM (ignoreM ol_cleanup) (retM (changed, length unresolved)))))))"

end
