(* ===== verification/Op_Levels_Safety.thy ===== *)
theory Op_Levels_Safety
  imports Op_Levels_Worker
begin

text \<open>
  The worker of the operator levels, step by step: what each access does to the files of the
  transaction, on success, on an error and at a crash, and from there what a run of the worker and
  the recovery of an interrupted one leave behind.
\<close>

subsection \<open>Docker leaves the files alone\<close>

lemma extend_files [simp]:
  "pend_file (disk.extend d (disk.more s)) = pend_file s" "appl_file (disk.extend d (disk.more s)) = appl_file s"
  "ops_json (disk.extend d (disk.more s)) = ops_json s" "ops_rollback (disk.extend d (disk.more s)) = ops_rollback s"
  "ops_marker (disk.extend d (disk.more s)) = ops_marker s" "data_root_ok (disk.extend d (disk.more s)) = data_root_ok s"
  "may_be_stopped (disk.extend d (disk.more s)) = may_be_stopped s" "rollback_ready (disk.extend d (disk.more s)) = rollback_ready s"
  "mc_up (disk.extend d m) = mc_up d" "io_plan (disk.extend d m) = io_plan d" "disk.truncate (disk.extend d m) = d"
  by (cases s; cases d; simp add: disk.defs)+

text \<open>\<open>able\<close>: nothing fails and Docker answers, the case in which the worker gets through.\<close>

definition able :: "docker_config \<Rightarrow> ol_disk \<Rightarrow> bool" where
  "able mc s \<longleftrightarrow> mc_able mc (disk.truncate s)"

definition crash_only :: "ol_disk \<Rightarrow> bool" where
  "crash_only s \<longleftrightarrow> (\<forall>n. io_plan s n \<noteq> Fail)"

text \<open>
  An access raises only when something fails, and only the death of the process where the plan
  has no errors; it never raises the worker's own error. \<open>F\<close> selects the case in which nothing fails.
\<close>

definition may_raise :: "exn \<Rightarrow> ol_disk \<Rightarrow> bool" where
  "may_raise e s \<longleftrightarrow> e = Killed \<or> \<not> crash_only s \<and> \<not> is_op_levels_worker_error e"

definition stepfree :: "(ol_disk \<Rightarrow> bool) \<Rightarrow> bool" where
  "stepfree P \<longleftrightarrow> (\<forall>s d. P s \<longrightarrow> env_le (disk.truncate s) d \<longrightarrow> mc_up d = mc_up s \<longrightarrow> P (disk.extend d (disk.more s)))"

definition dockfree :: "(ol_disk \<Rightarrow> bool) \<Rightarrow> bool" where
  "dockfree P \<longleftrightarrow> (\<forall>s d. P s \<longrightarrow> env_le (disk.truncate s) d \<longrightarrow> P (disk.extend d (disk.more s)))"

lemma next_step: "(s :: ol_disk)\<lparr>io_step := n\<rparr> = disk.extend ((disk.truncate s)\<lparr>io_step := n\<rparr>) (disk.more s)"
  by (cases s) (simp add: disk.defs)

lemma stepfreeD: "stepfree P \<Longrightarrow> P s \<Longrightarrow> P (s\<lparr>io_step := Suc (io_step s)\<rparr>)"
proof -
  let ?d = "(disk.truncate s)\<lparr>io_step := Suc (io_step s)\<rparr>"
  assume "stepfree P" "P s"
  moreover have "env_le (disk.truncate s) ?d" "mc_up ?d = mc_up s" by (cases s; simp add: env_le_def disk.defs)+
  ultimately have "P (disk.extend ?d (disk.more s))" unfolding stepfree_def by blast
  then show ?thesis by (simp only: next_step)
qed

lemma dockfree_stepfree: "dockfree P \<Longrightarrow> stepfree P"
  by (simp add: dockfree_def stepfree_def)

lemma able_stepfree: "dockfree (able mc)"
  by (auto simp: dockfree_def able_def intro: mc_able_env)

lemma free_conj:
  "dockfree P \<Longrightarrow> dockfree Q \<Longrightarrow> dockfree (\<lambda>s. P s \<and> Q s)" "stepfree P \<Longrightarrow> stepfree Q \<Longrightarrow> stepfree (\<lambda>s. P s \<and> Q s)"
  by (auto simp: dockfree_def stepfree_def)

lemma tick_triple:
  assumes "stepfree P" and "\<And>s. F \<Longrightarrow> P s \<Longrightarrow> able mc s" and "\<And>e s. \<not> F \<Longrightarrow> P s \<Longrightarrow> may_raise e s \<Longrightarrow> E e s"
  shows "triple P tick (\<lambda>_. P) E"
proof (rule tripleI)
  fix s assume s: "P s"
  note t = stepfreeD [OF assms(1) s]
  show "wp tick (\<lambda>_. P) E s"
  proof (cases F)
    case True
    then have "no_faults (disk.truncate s)" using assms(2) [OF True s] by (simp add: able_def mc_able_def)
    then have "no_faults s" by (cases s) (simp add: no_faults_def disk.defs)
    then show ?thesis using t by (simp add: wp_def tick_no_faults)
  next
    case False
    from assms(3) [OF this t, of Killed] assms(3) [OF this t, of "OSError ''I/O''"] t show ?thesis
      by (auto simp: wp_def tick_def Let_def may_raise_def crash_only_def split: fault.split)
  qed
qed

lemma put_triple:
  assumes "stepfree P" "stepfree Q" "\<And>s. P s \<Longrightarrow> Q (f s)" "\<And>s. F \<Longrightarrow> P s \<Longrightarrow> able mc s" "\<And>s. F \<Longrightarrow> Q s \<Longrightarrow> able mc s"
    "\<And>e s. \<not> F \<Longrightarrow> P s \<Longrightarrow> may_raise e s \<Longrightarrow> E e s" "\<And>e s. \<not> F \<Longrightarrow> Q s \<Longrightarrow> may_raise e s \<Longrightarrow> E e s"
  shows "triple P (atomic_put f) (\<lambda>_. Q) E"
  unfolding atomic_put_def
proof (rule triple_then)
  show "triple P tick (\<lambda>_. P) E" by (rule tick_triple [OF assms(1,4,6)])
  show "triple P (thenM (modM f) tick) (\<lambda>_. Q) E"
    by (rule triple_then [OF triple_mod tick_triple [OF assms(2,5,7)]]) (rule assms(3))
qed

lemma stop_triple:
  assumes "dockfree P" "\<And>s. F \<Longrightarrow> P s \<Longrightarrow> able mc s" "\<And>e s. \<not> F \<Longrightarrow> P s \<Longrightarrow> E e s"
  shows "triple P (on_docker (mc_stop mc)) (\<lambda>_ s. P s \<and> \<not> mc_up s) E"
proof (rule tripleI)
  fix s assume s: "P s"
  have "wp (mc_stop mc) (\<lambda>_ t. ctl_rel (disk.truncate s) t \<and> \<not> mc_up t) (\<lambda>_ t. \<not> F \<and> ctl_rel (disk.truncate s) t) (disk.truncate s)"
    using assms(2) [OF _ s] by (intro plain.stop_spec) (simp add: able_def)
  then show "wp (on_docker (mc_stop mc)) (\<lambda>_ s. P s \<and> \<not> mc_up s) E s"
    unfolding on_docker_def wp_zoom
    by (rule wp_mono) (use assms(1,3) s in \<open>auto simp: dockfree_def ctl_rel_def\<close>)
qed

lemma start_triple:
  assumes "dockfree P" "\<And>s. F \<Longrightarrow> P s \<Longrightarrow> able mc s" "\<And>e s. \<not> F \<Longrightarrow> P s \<Longrightarrow> E e s"
  shows "triple P (on_docker (mc_start mc)) (\<lambda>_ s. P s \<and> mc_up s) E"
proof (rule tripleI)
  fix s assume s: "P s"
  have "wp (mc_start mc) (\<lambda>_ t. ctl_rel (disk.truncate s) t \<and> mc_up t) (\<lambda>_ t. \<not> F \<and> ctl_rel (disk.truncate s) t) (disk.truncate s)"
    using assms(2) [OF _ s] by (intro plain.start_spec) (simp add: able_def)
  then show "wp (on_docker (mc_start mc)) (\<lambda>_ s. P s \<and> mc_up s) E s"
    unfolding on_docker_def wp_zoom
    by (rule wp_mono) (use assms(1,3) s in \<open>auto simp: dockfree_def ctl_rel_def\<close>)
qed

subsection \<open>The queue\<close>

text \<open>The two files of the queue as maps from lower-case names to requests.\<close>

definition queue :: "(string \<rightharpoonup> pending_op_level) \<Rightarrow> (string \<rightharpoonup> pending_op_level) \<Rightarrow> ol_disk \<Rightarrow> bool" where
  "queue p a s \<longleftrightarrow> (\<exists>dp da. decode_levels (pend_file s) = Inr dp \<and> decode_levels (appl_file s) = Inr da \<and>
     levels_ok dp \<and> levels_ok da \<and> map_of dp = p \<and> map_of da = a)"

lemma queue_free [simp]: "dockfree (queue p a)"
  by (simp add: dockfree_def queue_def)

lemma or_raise_triple: "(\<And>s x. P s \<Longrightarrow> r = Inr x \<Longrightarrow> Q x s) \<Longrightarrow> (\<And>s e. P s \<Longrightarrow> r = Inl e \<Longrightarrow> E e s) \<Longrightarrow> triple P (or_raise r) Q E"
  by (auto simp: or_raise_def triple_def wp_rules split: sum.split)

lemma queue_put:
  "queue p a s \<Longrightarrow> levels_ok d \<Longrightarrow> queue (map_of d) a (s\<lparr>pend_file := Doc (levels_payload d)\<rparr>)"
  "queue p a s \<Longrightarrow> levels_ok d \<Longrightarrow> queue p (map_of d) (s\<lparr>appl_file := Doc (levels_payload d)\<rparr>)"
  using decode_Doc_payload [of d] by (auto simp: queue_def)

lemma queue_skip [simp]:
  "queue p a (s\<lparr>ops_json := x\<rparr>) = queue p a s" "queue p a (s\<lparr>ops_rollback := x\<rparr>) = queue p a s"
  "queue p a (s\<lparr>ops_marker := m\<rparr>) = queue p a s" "queue p a (s\<lparr>may_be_stopped := b\<rparr>) = queue p a s"
  "queue p a (s\<lparr>rollback_ready := b\<rparr>) = queue p a s"
  by (simp_all add: queue_def)

lemma levels_ok_Nil [simp]: "levels_ok []"
  by (simp add: levels_ok_def)

subsubsection \<open>Requests as a list\<close>

text \<open>The list the worker takes from the queue, in the order of names, against the map it came from.\<close>

definition itemises :: "pending_op_level list \<Rightarrow> (string \<rightharpoonup> pending_op_level) \<Rightarrow> bool" where
  "itemises items W \<longleftrightarrow> distinct (map (\<lambda>i. lower (po_name i)) items) \<and>
     W = map_of (map (\<lambda>i. (lower (po_name i), i)) items) \<and>
     list_all (\<lambda>i. 1 \<le> po_level i \<and> po_level i \<le> 4 \<and> \<not> po_applying i) items"

lemma op_request_id: "\<not> po_applying i \<Longrightarrow> op_request (po_name i) (po_level i) = i"
  by (cases i) (simp add: op_request_def)

lemma lists_by_name:
  assumes "levels_ok d"
  shows "itemises (by_name_order d) (map_of d)"
proof -
  let ?k = "\<lambda>i. lower (po_name i)"
  have keys: "map ?k (map snd d) = keys d"
    using assms by (induction d) (auto simp: levels_ok_def)
  have "map_of (map (\<lambda>i. (?k i, i)) (map snd d)) = map_of d"
    using assms by (induction d) (auto simp: levels_ok_def)
  moreover have "distinct (map ?k (map snd d))" using assms by (simp only: keys) (simp add: levels_ok_def)
  moreover have "mset (by_name_order d) = mset (map snd d)" by (simp add: by_name_order_def)
  moreover from this have "distinct (map ?k (by_name_order d))"
    using calculation(2) by (metis mset_map mset_eq_imp_distinct_iff)
  moreover have "map_of (map (\<lambda>i. (?k i, i)) (by_name_order d)) = map_of (map (\<lambda>i. (?k i, i)) (map snd d))"
    using calculation(2,4) mset_eq_setD [OF calculation(3)] by (subst map_of_inject_set) (auto simp: comp_def)
  moreover have "set (by_name_order d) = snd ` set d" by (simp add: by_name_order_def)
  ultimately show ?thesis using assms by (auto simp: itemises_def levels_ok_def list_all_iff)
qed

definition keyed :: "pending_op_level list \<Rightarrow> levels" where
  "keyed items = map (\<lambda>i. (lower (po_name i), i)) items"

lemma lists_keyed: "itemises items W \<Longrightarrow> levels_ok (keyed items) \<and> map_of (keyed items) = W"
  by (auto simp: itemises_def keyed_def levels_ok_def list_all_iff comp_def)

lemma levels_ok_distinct: "levels_ok d \<Longrightarrow> distinct (keys d)"
  by (simp add: levels_ok_def)

lemma update_all_map: "distinct (keys new) \<Longrightarrow> map_of (update_all new d) = map_of d ++ map_of new"
  by (rule ext) (simp add: map_of_update_all map_add_def)

lemma put_items_keyed: "list_all (\<lambda>i. \<not> po_applying i) items \<Longrightarrow> put_items items d = update_all (keyed items) d"
  by (induction items arbitrary: d) (auto simp: put_items_def update_all_def keyed_def op_request_id)

lemma put_items_map:
  assumes "itemises items W" "levels_ok d"
  shows "map_of (put_items items d) = map_of d ++ W \<and> levels_ok (put_items items d)"
proof -
  have "put_items items d = update_all (keyed items) d"
    using assms(1) by (intro put_items_keyed) (auto simp: itemises_def list_all_iff)
  with lists_keyed [OF assms(1)] assms(2) show ?thesis
    by (simp add: update_all_map levels_ok_distinct levels_ok_update_all)
qed

lemma set_defaults_Cons:
  "set_defaults (i # items) d = set_defaults items
     (if map_of d (lower (po_name i)) = None then AList.update (lower (po_name i)) (op_request (po_name i) (po_level i)) d else d)"
  by (simp add: set_defaults_def)

lemma set_defaults_map:
  "itemises items W \<Longrightarrow> levels_ok d \<Longrightarrow> map_of (set_defaults items d) = W ++ map_of d \<and> levels_ok (set_defaults items d)"
proof (induction items arbitrary: d W)
  case Nil
  then show ?case by (simp add: set_defaults_def itemises_def)
next
  case (Cons i items)
  let ?k = "lower (po_name i)"
  let ?d = "if map_of d ?k = None then AList.update ?k i d else d"
  let ?W = "map_of (keyed items)"
  have i: "op_request (po_name i) (po_level i) = i" "1 \<le> po_level i" "po_level i \<le> 4" "\<not> po_applying i"
    and W: "W = ?W(?k \<mapsto> i)" and new: "?W ?k = None" and rest: "itemises items ?W"
    using Cons.prems(1) by (auto simp: itemises_def keyed_def op_request_id map_of_eq_None_iff)
  have ok: "levels_ok ?d" using Cons.prems(2) i by (simp add: levels_ok_put)
  have "?W ++ map_of ?d = W ++ map_of d"
    by (rule ext) (auto simp: W map_add_def new split: option.split)
  with Cons.IH [OF rest ok] show ?case unfolding set_defaults_Cons i(1) by simp
qed

lemma index_by_name_keyed: "index_by_name items = update_all (keyed items) []"
  unfolding index_by_name_def update_all_def keyed_def by (simp add: fold_map comp_def)

lemma index_by_name_ok: "itemises items W \<Longrightarrow> levels_ok (index_by_name items) \<and> map_of (index_by_name items) = W"
  using lists_keyed [of items W] levels_ok_update_all [of "keyed items" "[]"]
  by (simp add: index_by_name_keyed update_all_map levels_ok_distinct)

lemma lists_snd: "levels_ok d \<Longrightarrow> itemises (map snd d) (map_of d)"
proof -
  assume d: "levels_ok d"
  then have k: "keyed (map snd d) = d" by (induction d) (auto simp: levels_ok_def keyed_def)
  have "map fst (keyed (map snd d)) = map (\<lambda>i. lower (po_name i)) (map snd d)" by (simp add: keyed_def comp_def)
  then have "distinct (map (\<lambda>i. lower (po_name i)) (map snd d))" using levels_ok_distinct [OF d] k by metis
  with d k show ?thesis by (auto simp: itemises_def keyed_def levels_ok_def list_all_iff)
qed

lemma map_of_filter_not: "map_of (filter (\<lambda>(k, i). k \<notin> S) d) = map_of d |` (- S)"
  by (induction d) (auto simp: restrict_map_def fun_eq_iff)

lemma unresolved_lists:
  assumes "itemises items W"
  shows "itemises (map snd (filter (\<lambda>(k, i). k \<notin> S) (index_by_name items))) (W |` (- S))"
proof -
  let ?d = "index_by_name items"
  from index_by_name_ok [OF assms] have d: "levels_ok ?d" "map_of ?d = W" by auto
  have "levels_ok (filter (\<lambda>(k, i). k \<notin> S) ?d)"
    using d(1) by (auto simp: levels_ok_def list_all_iff distinct_map_filter)
  moreover have "map_of (filter (\<lambda>(k, i). k \<notin> S) ?d) = W |` (- S)"
    by (simp add: map_of_filter_not d(2))
  ultimately show ?thesis using lists_snd [of "filter (\<lambda>(k, i). k \<notin> S) ?d"] by simp
qed

subsubsection \<open>The operations on the queue\<close>

text \<open>What the operations do not touch.\<close>

definition offqueue :: "(ol_disk \<Rightarrow> bool) \<Rightarrow> bool" where
  "offqueue G \<longleftrightarrow> stepfree G \<and> (\<forall>s f. G (s\<lparr>pend_file := f\<rparr>) = G s \<and> G (s\<lparr>appl_file := f\<rparr>) = G s)"

lemma queue_with: "offqueue G \<Longrightarrow> stepfree (\<lambda>s. queue p a s \<and> G s)"
  by (rule free_conj(2), rule dockfree_stepfree, rule queue_free) (simp add: offqueue_def)

lemma read_triples:
  assumes "offqueue G" "\<And>s. F \<Longrightarrow> G s \<Longrightarrow> able mc s" "\<And>e s. \<not> F \<Longrightarrow> queue p a s \<Longrightarrow> G s \<Longrightarrow> may_raise e s \<Longrightarrow> E e s"
  shows "triple (\<lambda>s. queue p a s \<and> G s) read_pending (\<lambda>d s. levels_ok d \<and> map_of d = p \<and> queue p a s \<and> G s) E"
    "triple (\<lambda>s. queue p a s \<and> G s) read_applying (\<lambda>d s. levels_ok d \<and> map_of d = a \<and> queue p a s \<and> G s) E"
proof -
  have t: "triple (\<lambda>s. queue p a s \<and> G s) tick (\<lambda>_ s. queue p a s \<and> G s) E"
    using assms by (intro tick_triple [where F = F and mc = mc] queue_with) auto
  show "triple (\<lambda>s. queue p a s \<and> G s) read_pending (\<lambda>d s. levels_ok d \<and> map_of d = p \<and> queue p a s \<and> G s) E"
    unfolding read_pending_def
    by (rule triple_then [OF t]) (auto simp: triple_def wp_rules or_raise_def queue_def)
  show "triple (\<lambda>s. queue p a s \<and> G s) read_applying (\<lambda>d s. levels_ok d \<and> map_of d = a \<and> queue p a s \<and> G s) E"
    unfolding read_applying_def
    by (rule triple_then [OF t]) (auto simp: triple_def wp_rules or_raise_def queue_def)
qed

lemma put_triples:
  assumes "offqueue G" "levels_ok d" "\<And>s. F \<Longrightarrow> G s \<Longrightarrow> able mc s"
    "\<And>e s. \<not> F \<Longrightarrow> queue p a s \<Longrightarrow> G s \<Longrightarrow> may_raise e s \<Longrightarrow> E e s"
  shows "(\<And>e s. \<not> F \<Longrightarrow> queue (map_of d) a s \<Longrightarrow> G s \<Longrightarrow> may_raise e s \<Longrightarrow> E e s) \<Longrightarrow>
      triple (\<lambda>s. queue p a s \<and> G s) (put_pending d) (\<lambda>_ s. queue (map_of d) a s \<and> G s) E"
    "(\<And>e s. \<not> F \<Longrightarrow> queue p (map_of d) s \<Longrightarrow> G s \<Longrightarrow> may_raise e s \<Longrightarrow> E e s) \<Longrightarrow>
      triple (\<lambda>s. queue p a s \<and> G s) (put_applying d) (\<lambda>_ s. queue p (map_of d) s \<and> G s) E"
  unfolding put_pending_def put_applying_def
  using assms
  by (intro put_triple [where F = F and mc = mc] queue_with; auto simp: offqueue_def intro: queue_put)+

lemma map_add_again [simp]: "(a ++ p) ++ p = a ++ p"
  by (auto simp: map_add_def fun_eq_iff split: option.split)

text \<open>What follows a read may use what was read.\<close>

lemma with_read:
  assumes "offqueue G" "\<And>s. F \<Longrightarrow> G s \<Longrightarrow> able mc s" "\<And>e s. \<not> F \<Longrightarrow> queue p a s \<Longrightarrow> G s \<Longrightarrow> may_raise e s \<Longrightarrow> E e s"
  shows "(\<And>d. levels_ok d \<Longrightarrow> map_of d = p \<Longrightarrow> triple (\<lambda>s. queue p a s \<and> G s) (f d) Q E) \<Longrightarrow>
      triple (\<lambda>s. queue p a s \<and> G s) (bindM read_pending f) Q E"
    "(\<And>d. levels_ok d \<Longrightarrow> map_of d = a \<Longrightarrow> triple (\<lambda>s. queue p a s \<and> G s) (f d) Q E) \<Longrightarrow>
      triple (\<lambda>s. queue p a s \<and> G s) (bindM read_applying f) Q E"
  subgoal by (rule triple_bind [OF read_triples(1) [OF assms]]) (auto simp: triple_def)
  subgoal by (rule triple_bind [OF read_triples(2) [OF assms]]) (auto simp: triple_def)
  done

lemma claim_triple:
  assumes "offqueue G" "\<And>s. F \<Longrightarrow> G s \<Longrightarrow> able mc s"
    "\<And>e s p' a'. \<not> F \<Longrightarrow> queue p' a' s \<Longrightarrow> a' ++ p' = a ++ p \<Longrightarrow> G s \<Longrightarrow> may_raise e s \<Longrightarrow> E e s"
  shows "triple (\<lambda>s. queue p a s \<and> G s) claim (\<lambda>R s. itemises R (a ++ p) \<and> queue Map.empty (a ++ p) s \<and> G s) E"
  unfolding claim_def Let_def
proof (intro with_read [where F = F and mc = mc] assms(1))
  fix da dp assume "levels_ok da" "map_of da = a" "levels_ok dp" "map_of dp = p"
  then have m: "levels_ok (update_all dp da)" "map_of (update_all dp da) = a ++ p"
    by (simp_all add: levels_ok_update_all update_all_map levels_ok_distinct)
  let ?Q = "\<lambda>R s. itemises R (a ++ p) \<and> queue Map.empty (a ++ p) s \<and> G s"
  have "triple (\<lambda>s. queue p a s \<and> G s) (put_applying (update_all dp da)) (\<lambda>_ s. queue p (map_of (update_all dp da)) s \<and> G s) E"
    using m assms by (intro put_triples(2) [where F = F and mc = mc]) auto
  moreover have "triple (\<lambda>s. queue p (map_of (update_all dp da)) s \<and> G s) (put_pending [])
      (\<lambda>_ s. queue (map_of []) (map_of (update_all dp da)) s \<and> G s) E"
    using m assms by (intro put_triples(1) [where F = F and mc = mc]) auto
  moreover have "triple (\<lambda>s. queue (map_of []) (map_of (update_all dp da)) s \<and> G s) (retM (by_name_order (update_all dp da))) ?Q E"
    using m lists_by_name [OF m(1)] by (intro triple_ret) auto
  ultimately show "triple (\<lambda>s. queue p a s \<and> G s)
      (thenM (put_applying (update_all dp da)) (thenM (put_pending []) (retM (by_name_order (update_all dp da))))) ?Q E"
    by (intro triple_then)
qed (use assms in auto)

lemma complete_triple:
  assumes "offqueue G" "\<And>s. F \<Longrightarrow> G s \<Longrightarrow> able mc s" "itemises U um" "p = Map.empty \<or> p = um"
    "\<And>e s p' a'. \<not> F \<Longrightarrow> queue p' a' s \<Longrightarrow> p' = p \<and> a' = a \<or> p' = um \<and> (a' = a \<or> a' = Map.empty) \<Longrightarrow>
       G s \<Longrightarrow> may_raise e s \<Longrightarrow> E e s"
  shows "triple (\<lambda>s. queue p a s \<and> G s) (complete_claim U) (\<lambda>_ s. queue um Map.empty s \<and> G s) E"
  unfolding complete_claim_def
proof (intro with_read(1) [where F = F and mc = mc] assms(1))
  fix d assume "levels_ok d" "map_of d = p"
  with set_defaults_map [OF assms(3), of d] assms(4) have m: "levels_ok (set_defaults U d)" "map_of (set_defaults U d) = um"
    by (auto simp: map_add_def fun_eq_iff split: option.split)
  have "triple (\<lambda>s. queue p a s \<and> G s) (put_pending (set_defaults U d)) (\<lambda>_ s. queue (map_of (set_defaults U d)) a s \<and> G s) E"
    using m assms by (intro put_triples(1) [where F = F and mc = mc]) auto
  moreover have "triple (\<lambda>s. queue (map_of (set_defaults U d)) a s \<and> G s) (put_applying [])
      (\<lambda>_ s. queue (map_of (set_defaults U d)) (map_of []) s \<and> G s) E"
    using m assms by (intro put_triples(2) [where F = F and mc = mc]) auto
  ultimately show "triple (\<lambda>s. queue p a s \<and> G s) (thenM (put_pending (set_defaults U d)) (put_applying []))
      (\<lambda>_ s. queue um Map.empty s \<and> G s) E"
    using m by (intro triple_then) auto
qed (use assms in auto)

lemma map_add_sub: "p \<subseteq>\<^sub>m W \<Longrightarrow> a \<subseteq>\<^sub>m W \<Longrightarrow> (a ++ W) ++ p = W"
proof (rule ext)
  fix k assume "p \<subseteq>\<^sub>m W" "a \<subseteq>\<^sub>m W"
  then show "((a ++ W) ++ p) k = W k"
    by (cases "p k"; cases "a k"; cases "W k") (auto simp: map_add_def map_le_def dom_def)
qed

lemma restore_triple:
  assumes "offqueue G" "\<And>s. F \<Longrightarrow> G s \<Longrightarrow> able mc s" "itemises R V" "(a ++ V) ++ p = W"
    "\<And>e s p' a'. \<not> F \<Longrightarrow> queue p' a' s \<Longrightarrow> p' = p \<and> a' = a \<or> p' = W \<and> (a' = a \<or> a' = Map.empty) \<Longrightarrow> G s \<Longrightarrow> may_raise e s \<Longrightarrow> E e s"
  shows "triple (\<lambda>s. queue p a s \<and> G s) (restore_claim R) (\<lambda>_ s. queue W Map.empty s \<and> G s) E"
  unfolding restore_claim_def
proof (intro with_read [where F = F and mc = mc] assms(1))
  fix da dp assume d: "levels_ok da" "map_of da = a" "levels_ok dp" "map_of dp = p"
  let ?d = "update_all dp (put_items R da)"
  from put_items_map [OF assms(3) d(1)] assms(4) d have m: "levels_ok ?d" "map_of ?d = W"
    by (simp_all add: levels_ok_update_all update_all_map levels_ok_distinct)
  have "triple (\<lambda>s. queue p a s \<and> G s) (put_pending ?d) (\<lambda>_ s. queue (map_of ?d) a s \<and> G s) E"
    using m assms by (intro put_triples(1) [where F = F and mc = mc]) auto
  moreover have "triple (\<lambda>s. queue (map_of ?d) a s \<and> G s) (put_applying []) (\<lambda>_ s. queue (map_of ?d) (map_of []) s \<and> G s) E"
    using m assms by (intro put_triples(2) [where F = F and mc = mc]) auto
  ultimately show "triple (\<lambda>s. queue p a s \<and> G s) (thenM (put_pending ?d) (put_applying []))
      (\<lambda>_ s. queue W Map.empty s \<and> G s) E"
    using m by (intro triple_then) auto
qed (use assms in auto)

subsection \<open>The levels that were asked for\<close>

definition wanted_by :: "(string \<rightharpoonup> pending_op_level) \<Rightarrow> json \<Rightarrow> pending_op_level option" where
  "wanted_by W e = (case jget e ''name'' of JStr n \<Rightarrow> W (lower n) | _ \<Rightarrow> None)"

definition entry_applied :: "(string \<rightharpoonup> pending_op_level) \<Rightarrow> json \<Rightarrow> json \<Rightarrow> bool" where
  "entry_applied W e e' = (case wanted_by W e of
       None \<Rightarrow> e' = e
     | Some i \<Rightarrow> same_number (jget e' ''level'') (po_level i) \<and> (\<forall>k. k \<noteq> ''level'' \<longrightarrow> jget e' k = jget e k))"

definition operators :: "json list \<Rightarrow> string set" where
  "operators es = set (List.map_filter (\<lambda>e. case jget e ''name'' of JStr n \<Rightarrow> Some (lower n) | _ \<Rightarrow> None) es)"

text \<open>
  \<open>applied W O' N um\<close>: \<open>N\<close> is the operators' file \<open>O'\<close> with the levels of \<open>W\<close>, and \<open>um\<close> is what is left
  of \<open>W\<close>, the requests for players who are no operators.
\<close>

definition applied :: "(string \<rightharpoonup> pending_op_level) \<Rightarrow> ops_file option \<Rightarrow> ops_file option \<Rightarrow>
    (string \<rightharpoonup> pending_op_level) \<Rightarrow> bool" where
  "applied W old new um \<longleftrightarrow> (\<exists>f g es es'. old = Some f \<and> new = Some g \<and> of_plain g \<and> of_meta g = of_meta f \<and>
     fst (of_raw f) = Some (JArr es) \<and> fst (of_raw g) = Some (JArr es') \<and> list_all2 (entry_applied W) es es' \<and>
     um = W |` (- operators es))"

lemma entry_request_index: "itemises R W \<Longrightarrow> entry_request (index_by_name R) e = wanted_by W e"
  using index_by_name_ok [of R W] by (auto simp: entry_request_def wanted_by_def split: json.split)

lemma set_entry_applied: "itemises R W \<Longrightarrow> is_obj e \<Longrightarrow> entry_applied W e (set_entry (index_by_name R) e)"
  by (auto simp: entry_applied_def set_entry_def entry_request_index split: option.split)

lemma unchanged_entries: "\<not> entry_changes d e \<Longrightarrow> set_entry d e = e"
  by (auto simp: entry_changes_def set_entry_def split: option.splits)

lemma matched_operators:
  assumes "itemises R W"
  shows "W |` (- set (matched_names (index_by_name R) es)) = W |` (- operators es)"
proof -
  have "k \<in> set (matched_names (index_by_name R) es) \<longleftrightarrow> k \<in> operators es" if "W k \<noteq> None" for k
    using that
    by (auto simp: matched_names_def operators_def entry_request_index [OF assms] wanted_by_def List.map_filter_def
        split: json.splits option.splits if_splits intro!: image_eqI)
  note same = this
  show ?thesis
  proof (rule ext)
    fix k show "(W |` (- set (matched_names (index_by_name R) es))) k = (W |` (- operators es)) k"
      using same [of k] by (cases "W k = None") (auto simp: restrict_map_def)
  qed
qed

lemma apply_requested_spec:
  assumes "itemises R W" "list_all is_obj es" "apply_requested_levels es R = (es', changed, U)"
  shows "list_all2 (entry_applied W) es es' \<and> itemises U (W |` (- operators es)) \<and> (changed = 0 \<longrightarrow> es' = es)"
proof -
  have eqs: "es' = map (set_entry (index_by_name R)) es" "changed = length (filter (entry_changes (index_by_name R)) es)"
    "U = map snd (filter (\<lambda>(k, i). k \<notin> set (matched_names (index_by_name R) es)) (index_by_name R))"
    using assms(3) by (simp_all add: apply_requested_levels_def Let_def)
  have "list_all2 (entry_applied W) es es'"
    unfolding eqs using assms(1,2) by (auto simp: list_all2_map2 list_all_iff intro!: list.rel_refl_strong set_entry_applied)
  moreover have "itemises U (W |` (- operators es))"
    using unresolved_lists [OF assms(1)] unfolding eqs matched_operators [OF assms(1), symmetric] .
  moreover have "es' = es" if "changed = 0"
    using that unfolding eqs by (intro map_idI unchanged_entries) (auto simp: filter_empty_conv)
  ultimately show ?thesis by blast
qed

subsection \<open>The phases of a run\<close>

text \<open>
  \<open>marked R\<close>: the marker, if any, lists the requests and does not say that they are applied.
  \<open>saved old\<close>: the operators' file is as before, or its copy is complete.
\<close>

definition marked :: "pending_op_level list \<Rightarrow> ol_disk \<Rightarrow> bool" where
  "marked R s \<longleftrightarrow> ops_marker s = Absent \<or> (\<exists>ph. ph \<noteq> ''committed'' \<and> ops_marker s = Doc (marker_payload ph R []))"

definition plain :: "ops_file option \<Rightarrow> bool" where
  "plain f \<longleftrightarrow> (\<exists>g. f = Some g \<and> of_plain g)"

definition saved :: "ops_file option \<Rightarrow> ol_disk \<Rightarrow> bool" where
  "saved old s \<longleftrightarrow> ops_rollback s = None \<and> ops_json s = old \<or> ops_rollback s = old \<and> plain old"

definition pre_commit :: "pending_op_level list \<Rightarrow> ops_file option \<Rightarrow> (string \<rightharpoonup> pending_op_level) \<Rightarrow> ol_disk \<Rightarrow> bool" where
  "pre_commit R old W s \<longleftrightarrow> marked R s \<and> saved old s \<and> (\<exists>p a. queue p a s \<and> a \<subseteq>\<^sub>m W \<and> a ++ p = W)"

definition settled :: "ops_file option \<Rightarrow> (string \<rightharpoonup> pending_op_level) \<Rightarrow> (string \<rightharpoonup> pending_op_level) \<Rightarrow> ol_disk \<Rightarrow> bool" where
  "settled new p a s \<longleftrightarrow> ops_json s = new \<and> queue p a s"

definition committed :: "pending_op_level list \<Rightarrow> ops_file option \<Rightarrow> (string \<rightharpoonup> pending_op_level) \<Rightarrow> ol_disk \<Rightarrow> bool" where
  "committed R old W s \<longleftrightarrow> mc_up s \<and> (\<exists>U um new p a. itemises U um \<and> applied W old new um \<and> settled new p a s \<and>
     ops_marker s = Doc (marker_payload ''committed'' R U) \<and> (ops_rollback s = None \<or> ops_rollback s = old \<and> plain old) \<and>
     (p = Map.empty \<and> a = W \<or> p = um \<and> (a = W \<or> a = Map.empty)))"

lemma phases_free [simp]: "dockfree (marked R)" "dockfree (saved old)" "dockfree (pre_commit R old W)" "dockfree (settled new p a)"
  "stepfree (committed R old W)"
  by (simp_all add: dockfree_def stepfree_def marked_def saved_def pre_commit_def settled_def committed_def queue_def)

text \<open>Where a failed run leaves off: before the commit, with or without a copy; or after it.\<close>

definition failed_at :: "pending_op_level list \<Rightarrow> ops_file option \<Rightarrow> (string \<rightharpoonup> pending_op_level) \<Rightarrow> exn \<Rightarrow> ol_disk \<Rightarrow> bool" where
  "failed_at R old W e s \<longleftrightarrow>
     pre_commit R old W s \<and> (if rollback_ready s then ops_rollback s = old \<and> plain old else ops_json s = old) \<or>
     may_raise e s \<and> committed R old W s \<and> rollback_ready s \<and> ops_rollback s = old \<and> plain old"

subsection \<open>The transaction\<close>

text \<open>A point of the transaction: the copy, the operators' file and the flag; the batch is claimed.\<close>

definition at_phase :: "bool \<Rightarrow> docker_config \<Rightarrow> pending_op_level list \<Rightarrow> (string \<rightharpoonup> pending_op_level) \<Rightarrow>
    ops_file option \<Rightarrow> ops_file option \<Rightarrow> bool \<Rightarrow> ol_disk \<Rightarrow> bool" where
  "at_phase F mc R W rb ops ready s \<longleftrightarrow> (F \<longrightarrow> able mc s) \<and> queue Map.empty W s \<and> marked R s \<and>
     ops_rollback s = rb \<and> ops_json s = ops \<and> rollback_ready s = ready"

lemma able_skip [simp]:
  "able mc (s\<lparr>ops_json := x\<rparr>) = able mc s" "able mc (s\<lparr>ops_rollback := x\<rparr>) = able mc s" "able mc (s\<lparr>ops_marker := m\<rparr>) = able mc s"
  "able mc (s\<lparr>may_be_stopped := b\<rparr>) = able mc s" "able mc (s\<lparr>rollback_ready := b\<rparr>) = able mc s"
  "able mc (s\<lparr>pend_file := f\<rparr>) = able mc s" "able mc (s\<lparr>appl_file := f\<rparr>) = able mc s"
  by (simp_all add: able_def disk.defs)

lemma able_later: "able mc s \<Longrightarrow> env_le (disk.truncate s) d \<Longrightarrow> able mc (disk.extend d (disk.more s))"
  using able_stepfree [of mc] by (simp add: dockfree_def)

lemma at_phase_free [simp]: "dockfree (at_phase F mc R W rb ops ready)"
  by (auto simp: dockfree_def at_phase_def marked_def queue_def intro: able_later)

lemma at_phase_failed:
  assumes "at_phase F mc R W rb ops ready s" and "rb = None \<and> ops = old \<and> \<not> ready \<or> rb = old \<and> plain old \<and> (ready \<or> ops = old)"
  shows "failed_at R old W e s"
  using assms by (auto simp: at_phase_def failed_at_def pre_commit_def saved_def) (metis map_add_empty map_le_refl)+

definition fails :: "bool \<Rightarrow> pending_op_level list \<Rightarrow> ops_file option \<Rightarrow> (string \<rightharpoonup> pending_op_level) \<Rightarrow> exn \<Rightarrow> ol_disk \<Rightarrow> bool" where
  "fails F R old W e s \<longleftrightarrow> \<not> F \<and> failed_at R old W e s"

lemma write_phase:
  assumes "ph \<noteq> ''committed''" "rb = None \<and> ops = old \<and> \<not> ready \<or> rb = old \<and> plain old \<and> (ready \<or> ops = old)"
  shows "triple (at_phase F mc R W rb ops ready) (ol_write_state ph R []) (\<lambda>_. at_phase F mc R W rb ops ready) (fails F R old W)"
  unfolding ol_write_state_def using assms
  by (intro put_triple [where F = F and mc = mc] dockfree_stepfree at_phase_free)
    (auto simp: fails_def intro: at_phase_failed, auto simp: at_phase_def marked_def)

lemma docker_phase:
  assumes "rb = None \<and> ops = old \<and> \<not> ready \<or> rb = old \<and> plain old \<and> (ready \<or> ops = old)"
  shows "triple (at_phase F mc R W rb ops ready) (on_docker (mc_stop mc)) (\<lambda>_. at_phase F mc R W rb ops ready) (fails F R old W)"
    "triple (at_phase F mc R W rb ops ready) (on_docker (mc_start mc)) (\<lambda>_ s. at_phase F mc R W rb ops ready s \<and> mc_up s) (fails F R old W)"
proof -
  have "triple (at_phase F mc R W rb ops ready) (on_docker (mc_stop mc)) (\<lambda>_ s. at_phase F mc R W rb ops ready s \<and> \<not> mc_up s) (fails F R old W)"
    using assms by (intro stop_triple [where F = F] at_phase_free) (auto simp: fails_def intro: at_phase_failed, auto simp: at_phase_def)
  then show "triple (at_phase F mc R W rb ops ready) (on_docker (mc_stop mc)) (\<lambda>_. at_phase F mc R W rb ops ready) (fails F R old W)"
    by (rule triple_conseq) auto
  show "triple (at_phase F mc R W rb ops ready) (on_docker (mc_start mc)) (\<lambda>_ s. at_phase F mc R W rb ops ready s \<and> mc_up s) (fails F R old W)"
    using assms by (intro start_triple [where F = F] at_phase_free) (auto simp: fails_def intro: at_phase_failed, auto simp: at_phase_def)
qed

text \<open>The operators' file the worker accepts.\<close>

definition good_ops :: "ops_file option \<Rightarrow> json list \<Rightarrow> bool" where
  "good_ops old es \<longleftrightarrow> (\<exists>f. old = Some f \<and> of_plain f \<and> snd (of_raw f) \<le> max_ops_bytes \<and>
     fst (of_raw f) = Some (JArr es) \<and> list_all is_obj es)"

lemma wp_tick_phase:
  assumes "stepfree P" "\<And>s. F \<Longrightarrow> P s \<Longrightarrow> able mc s" "P s" "\<And>t. P t \<Longrightarrow> Q () t" "\<And>e t. \<not> F \<Longrightarrow> P t \<Longrightarrow> E e t"
  shows "wp tick Q E s"
proof -
  have "triple P tick (\<lambda>_. P) (\<lambda>_ t. \<not> F \<and> P t)" by (rule tick_triple [OF assms(1,2)]) auto
  from tripleD [OF this assms(3)] show ?thesis by (rule wp_mono) (use assms(4,5) in auto)
qed

lemma JArr_items: "is_arr j \<Longrightarrow> j = JArr (arr_items j)"
  by (cases j) auto

lemma read_ops_triple:
  assumes "F \<Longrightarrow> \<exists>es. good_ops old es"
  shows "triple (at_phase F mc R W None old False) read_ops
    (\<lambda>(es, raw, m) s. at_phase F mc R W None old False s \<and> good_ops old es \<and> old = Some \<lparr>of_plain = True, of_raw = raw, of_meta = m\<rparr>)
    (fails F R old W)"
proof (rule triple_conseq [where E' = "\<lambda>_ s. \<not> F \<and> at_phase F mc R W None old False s"])
  let ?P = "at_phase F mc R W None old False"
  have P: "ops_json s = old" "F \<Longrightarrow> able mc s" if "?P s" for s using that by (auto simp: at_phase_def)
  have tick: "wp tick Q E s" if "?P s" "\<And>t. ?P t \<Longrightarrow> Q () t" "\<And>e t. \<not> F \<Longrightarrow> ?P t \<Longrightarrow> E e t" for Q E s
    by (rule wp_tick_phase [where F = F and mc = mc and P = ?P]) (use that P in \<open>auto intro: dockfree_stepfree\<close>)
  show "triple ?P read_ops (\<lambda>(es, raw, m) s. ?P s \<and> good_ops old es \<and> old = Some \<lparr>of_plain = True, of_raw = raw, of_meta = m\<rparr>)
      (\<lambda>_ s. \<not> F \<and> ?P s)"
  proof (rule tripleI)
    fix s assume "?P s"
    then show "wp read_ops (\<lambda>(es, raw, m) s. ?P s \<and> good_ops old es \<and> old = Some \<lparr>of_plain = True, of_raw = raw, of_meta = m\<rparr>)
        (\<lambda>_ s. \<not> F \<and> ?P s) s"
      using assms unfolding read_ops_def wp_rules
      by (intro tick) (auto simp: P wp_rules good_ops_def JArr_items intro!: tick split: option.split)
  qed
qed (auto simp: fails_def intro: at_phase_failed)

lemma put_phase:
  assumes "\<And>s. at_phase F mc R W rb ops ready s \<Longrightarrow> at_phase F mc R W rb' ops' ready (f s)"
    "rb = None \<and> ops = old \<and> \<not> ready \<or> rb = old \<and> plain old \<and> (ready \<or> ops = old)"
    "rb' = None \<and> ops' = old \<and> \<not> ready \<or> rb' = old \<and> plain old \<and> (ready \<or> ops' = old)"
  shows "triple (at_phase F mc R W rb ops ready) (atomic_put f) (\<lambda>_. at_phase F mc R W rb' ops' ready) (fails F R old W)"
  using assms(1)
  by (intro put_triple [where F = F and mc = mc] dockfree_stepfree at_phase_free)
    (auto simp: fails_def intro: at_phase_failed [OF _ assms(2)] at_phase_failed [OF _ assms(3)], auto simp: at_phase_def)

text \<open>The commit: from here on the new levels stay.\<close>

definition closing :: "bool \<Rightarrow> docker_config \<Rightarrow> pending_op_level list \<Rightarrow> pending_op_level list \<Rightarrow> ops_file option \<Rightarrow> ops_file option \<Rightarrow> ol_disk \<Rightarrow> bool" where
  "closing F mc R U old new s \<longleftrightarrow> (F \<longrightarrow> able mc s) \<and> mc_up s \<and> ops_json s = new \<and> ops_rollback s = old \<and> rollback_ready s \<and>
     ops_marker s = Doc (marker_payload ''committed'' R U)"

lemma closing_offqueue: "offqueue (closing F mc R U old new)"
  by (auto simp: offqueue_def stepfree_def closing_def intro: able_later)

lemma commit_triple:
  assumes "itemises U um" "applied W old new um" "plain old"
  shows "triple (at_phase F mc R W old new True) (ol_commit mc R U)
    (\<lambda>_ s. queue um Map.empty s \<and> closing F mc R U old new s) (fails F R old W)"
proof -
  let ?P = "\<lambda>s. at_phase F mc R W old new True s \<and> mc_up s"
  let ?Q = "\<lambda>s. queue Map.empty W s \<and> closing F mc R U old new s"
  have late: "committed R old W s" if "queue p a s" "closing F mc R U old new s"
      "p = Map.empty \<and> a = W \<or> p = um \<and> (a = W \<or> a = Map.empty)" for p a s
    using assms that unfolding committed_def closing_def settled_def by blast
  have fail: "fails F R old W e s" if "queue p a s" "closing F mc R U old new s"
      "p = Map.empty \<and> a = W \<or> p = um \<and> (a = W \<or> a = Map.empty)" "\<not> F" "may_raise e s" for p a s e
    using late [OF that(1-3)] that(2,4,5) assms(3) by (auto simp: fails_def failed_at_def closing_def)
  have step: "stepfree ?P" by (rule free_conj(2), rule dockfree_stepfree, simp) (simp add: stepfree_def)
  have "stepfree ?Q"
    by (rule queue_with) (rule closing_offqueue)
  then have "triple ?P (ol_write_state ''committed'' R U) (\<lambda>_. ?Q) (fails F R old W)"
    unfolding ol_write_state_def using step assms(3) fail
    by (intro put_triple [where F = F and mc = mc])
      (auto simp: fails_def intro: at_phase_failed, auto simp: at_phase_def closing_def)
  moreover have "triple ?Q (complete_claim U) (\<lambda>_ s. queue um Map.empty s \<and> closing F mc R U old new s) (fails F R old W)"
  proof (rule complete_triple [where F = F and mc = mc, OF closing_offqueue _ assms(1)])
    show "able mc s" if F "closing F mc R U old new s" for s using that by (simp add: closing_def)
    show "fails F R old W e s" if "\<not> F" "queue p a s"
        "p = Map.empty \<and> a = W \<or> p = um \<and> (a = W \<or> a = Map.empty)" "closing F mc R U old new s" "may_raise e s" for e s p a
      using fail that by blast
  qed simp
  moreover have "triple ?P (modM (\<lambda>s. s\<lparr>may_be_stopped := False\<rparr>)) (\<lambda>_. ?P) (fails F R old W)"
    by (rule triple_mod) (simp add: at_phase_def marked_def)
  moreover have "triple (at_phase F mc R W old new True) (ol_write_state ''applied'' R []) (\<lambda>_. at_phase F mc R W old new True) (fails F R old W)"
    "triple (at_phase F mc R W old new True) (on_docker (mc_start mc)) (\<lambda>_. ?P) (fails F R old W)"
    using assms(3) by (intro write_phase docker_phase; simp)+
  ultimately show ?thesis unfolding ol_commit_def by (intro triple_then)
qed

lemma flag_phase:
  "triple (at_phase F mc R W rb ops ready) (modM (\<lambda>s. s\<lparr>may_be_stopped := b\<rparr>)) (\<lambda>_. at_phase F mc R W rb ops ready) E"
  "triple (at_phase F mc R W rb ops ready) (modM (\<lambda>s. s\<lparr>rollback_ready := b\<rparr>)) (\<lambda>_. at_phase F mc R W rb ops b) E"
  by (rule triple_mod, simp add: at_phase_def marked_def)+

lemma levels_triple:
  assumes R: "itemises R W" and ops: "good_ops old es" "old = Some \<lparr>of_plain = True, of_raw = raw, of_meta = m\<rparr>"
    and run: "apply_requested_levels es R = (es', changed, U)"
  obtains um new where "itemises U um" "applied W old new um"
    "triple (at_phase F mc R W old old True)
       (whenM (changed \<noteq> 0) (atomic_put (\<lambda>s. s\<lparr>ops_json := Some \<lparr>of_plain = True, of_raw = encode_ops dump_size es', of_meta = m\<rparr>\<rparr>)))
       (\<lambda>_. at_phase F mc R W old new True) (fails F R old W)"
proof -
  let ?um = "W |` (- operators es)"
  let ?g = "Some \<lparr>of_plain = True, of_raw = encode_ops dump_size es', of_meta = m\<rparr>"
  let ?new = "if changed = 0 then old else ?g"
  from ops(1) have es: "list_all is_obj es" "fst raw = Some (JArr es)" using ops(2) by (auto simp: good_ops_def)
  have spec: "list_all2 (entry_applied W) es es'" "itemises U ?um" "changed = 0 \<Longrightarrow> es' = es"
    using apply_requested_spec [OF R es(1) run] by auto
  have "plain old" using ops(2) by (simp add: plain_def)
  have "applied W old ?new ?um"
    using spec es ops(2) by (auto simp: applied_def encode_ops_def)
  moreover have "triple (at_phase F mc R W old old True) (whenM (changed \<noteq> 0) (atomic_put (\<lambda>s. s\<lparr>ops_json := ?g\<rparr>)))
      (\<lambda>_. at_phase F mc R W old ?new True) (fails F R old W)"
  proof (cases "changed = 0")
    case True
    then show ?thesis by (auto simp: triple_def wp_rules)
  next
    case False
    have "triple (at_phase F mc R W old old True) (atomic_put (\<lambda>s. s\<lparr>ops_json := ?g\<rparr>)) (\<lambda>_. at_phase F mc R W old ?g True) (fails F R old W)"
      using \<open>plain old\<close> by (intro put_phase) (auto simp: at_phase_def marked_def)
    with False show ?thesis by (simp add: whenM_def)
  qed
  ultimately show ?thesis using spec(2) that by blast
qed

lemma install_triple:
  assumes R: "itemises R W" and good: "good_ops old es" "old = Some \<lparr>of_plain = True, of_raw = raw, of_meta = m\<rparr>"
  shows "triple (at_phase F mc R W None old False) (ol_install mc dump_size R es raw m)
    (\<lambda>(changed, U) s. \<exists>um new. itemises U um \<and> applied W old new um \<and> plain old \<and> queue um Map.empty s \<and> closing F mc R U old new s)
    (fails F R old W)"
proof -
  let ?P = "at_phase F mc R W" and ?E = "fails F R old W"
  let ?Q = "\<lambda>(changed, U) s. \<exists>um new. itemises U um \<and> applied W old new um \<and> plain old \<and> queue um Map.empty s \<and> closing F mc R U old new s"
  obtain es' changed U where run: "apply_requested_levels es R = (es', changed, U)" by (metis surj_pair)
  obtain um new where um: "itemises U um" "applied W old new um" and
    setops: "triple (?P old old True) (whenM (changed \<noteq> 0) (atomic_put (\<lambda>s. s\<lparr>ops_json :=
        Some \<lparr>of_plain = True, of_raw = encode_ops dump_size es', of_meta = m\<rparr>\<rparr>))) (\<lambda>_. ?P old new True) ?E"
    by (rule levels_triple [OF R good run])
  have plain: "plain old" using good(2) by (simp add: plain_def)
  have copy: "triple (?P None old False) (atomic_put (\<lambda>s. s\<lparr>ops_rollback := Some \<lparr>of_plain = True, of_raw = raw, of_meta = m\<rparr>\<rparr>))
      (\<lambda>_. ?P old old False) ?E"
    using plain good(2) by (intro put_phase) (auto simp: at_phase_def marked_def)
  have "triple (\<lambda>s. queue um Map.empty s \<and> closing F mc R U old new s) (retM (changed, U)) ?Q ?E"
    by (rule triple_ret) (use um plain in blast)
  note finish = triple_then [OF commit_triple [OF um plain] this]
  have ready: "triple (?P old old True) (ol_write_state ''rollback_ready'' R []) (\<lambda>_. ?P old old True) ?E"
    using plain by (intro write_phase) auto
  show ?thesis
    unfolding ol_install_def run prod.case
    by (rule triple_then [OF copy triple_then [OF flag_phase(2) triple_then [OF ready triple_then [OF setops finish]]]])
qed

text \<open>The transaction as a whole.\<close>

lemma ol_transaction_triple:
  assumes "itemises R W" "F \<Longrightarrow> \<exists>es. good_ops old es"
  shows "triple (at_phase F mc R W None old False) (ol_transaction mc dump_size R)
    (\<lambda>(changed, U) s. \<exists>um new. itemises U um \<and> applied W old new um \<and> plain old \<and> queue um Map.empty s \<and> closing F mc R U old new s)
    (fails F R old W)"
proof -
  let ?P = "at_phase F mc R W None old False" and ?E = "fails F R old W"
  let ?Q = "\<lambda>(changed, U) s. \<exists>um new. itemises U um \<and> applied W old new um \<and> plain old \<and> queue um Map.empty s \<and> closing F mc R U old new s"
  have mark: "triple ?P (ol_write_state ph R []) (\<lambda>_. ?P) ?E" if "ph \<noteq> ''committed''" for ph
    using that by (intro write_phase) auto
  have stop: "triple ?P (on_docker (mc_stop mc)) (\<lambda>_. ?P) ?E" by (rule docker_phase) simp
  have install: "triple (case x of (es, raw, m) \<Rightarrow> \<lambda>s. ?P s \<and> good_ops old es \<and> old = Some \<lparr>of_plain = True, of_raw = raw, of_meta = m\<rparr>)
      (case x of (es, raw, m) \<Rightarrow> ol_install mc dump_size R es raw m) ?Q ?E" for x
  proof -
    obtain es raw m where x: "x = (es, raw, m)" by (rule prod_cases3)
    show ?thesis unfolding x using install_triple [OF assms(1), of old es raw m F mc dump_size]
      by (auto simp: triple_def)
  qed
  have "triple ?P (ol_write_state ''claimed'' R []) (\<lambda>_. ?P) ?E" "triple ?P (ol_write_state ''stopped'' R []) (\<lambda>_. ?P) ?E"
    by (rule mark, simp)+
  then show ?thesis
    unfolding ol_transaction_def
    by (rule triple_then [OF _ triple_then [OF flag_phase(1) triple_then [OF stop triple_then [OF _ triple_bind [OF read_ops_triple [OF assms(2)] install]]]]])
qed

subsection \<open>Undoing\<close>

text \<open>
  The way back, shared by the handler and the recovery. \<open>late\<close> is the case in which the marker
  already says \<open>committed\<close>: then nothing is promised if the way back is interrupted.
\<close>

definition cancelled :: "ops_file option \<Rightarrow> (string \<rightharpoonup> pending_op_level) \<Rightarrow> ol_disk \<Rightarrow> bool" where
  "cancelled old W s \<longleftrightarrow> ops_json s = old \<and> queue W Map.empty s \<and> ops_rollback s = None \<and> ops_marker s = Absent"

definition backing :: "bool \<Rightarrow> bool \<Rightarrow> docker_config \<Rightarrow> pending_op_level list \<Rightarrow> ops_file option \<Rightarrow> ol_disk \<Rightarrow> bool" where
  "backing late F mc R old s \<longleftrightarrow> (F \<longrightarrow> able mc s) \<and> (late \<or> marked R s) \<and> ops_json s = old \<and>
     (ops_rollback s = None \<or> ops_rollback s = old \<and> plain old)"

lemma backing_free [simp]: "dockfree (backing late F mc R old)" "offqueue (backing late F mc R old)"
  by (auto simp: dockfree_def offqueue_def stepfree_def backing_def marked_def intro: able_later)

lemma backing_pre_commit:
  assumes "backing late F mc R old s" "queue p a s" "late \<or> a ++ p = W \<and> a \<subseteq>\<^sub>m W"
  shows "late \<or> pre_commit R old W s"
  using assms by (auto simp: backing_def pre_commit_def saved_def)

lemma map_le_full: "a \<subseteq>\<^sub>m W \<Longrightarrow> a ++ W = W"
  by (auto simp: map_le_def map_add_def fun_eq_iff dom_def split: option.split)

lemma ol_cleanup_triple:
  "triple (\<lambda>s. queue W Map.empty s \<and> backing late F mc R old s \<and> (u \<longrightarrow> mc_up s)) ol_cleanup
     (\<lambda>_ s. cancelled old W s \<and> (u \<longrightarrow> mc_up s) \<and> (F \<longrightarrow> able mc s)) (\<lambda>e s. \<not> F \<and> (late \<or> pre_commit R old W s) \<and> \<not> is_op_levels_worker_error e)"
proof -
  let ?E = "\<lambda>e s. \<not> F \<and> (late \<or> pre_commit R old W s) \<and> \<not> is_op_levels_worker_error e"
  let ?A = "\<lambda>s. queue W Map.empty s \<and> backing late F mc R old s \<and> (u \<longrightarrow> mc_up s)"
  let ?B = "\<lambda>s. ?A s \<and> ops_rollback s = None"
  let ?C = "\<lambda>s. ?B s \<and> ops_marker s = Absent"
  have step: "stepfree ?A" "stepfree ?B" "stepfree ?C"
    by (auto simp: stepfree_def backing_def marked_def queue_def intro: able_later)
  have fail: "late \<or> pre_commit R old W s" if "?A s" for s
    using that backing_pre_commit [of late F mc R old s W "Map.empty" W] by auto
  have tick: "triple ?A tick (\<lambda>_. ?A) ?E" "triple ?B tick (\<lambda>_. ?B) ?E" "triple ?C tick (\<lambda>_. ?C) ?E"
    using fail by (intro tick_triple [where F = F and mc = mc] step; auto simp: backing_def may_raise_def)+
  have "triple ?A (modM (\<lambda>s. s\<lparr>ops_rollback := None\<rparr>)) (\<lambda>_. ?B) ?E" "triple ?B (modM (\<lambda>s. s\<lparr>ops_marker := Absent\<rparr>)) (\<lambda>_. ?C) ?E"
    by (rule triple_mod, auto simp: backing_def marked_def)+
  then have "triple ?A ol_cleanup (\<lambda>_. ?C) ?E"
    unfolding ol_cleanup_def by (rule triple_then [OF tick(1) triple_then [OF _ triple_then [OF tick(2) triple_then [OF _ tick(3)]]]])
  then show ?thesis by (rule triple_conseq) (auto simp: cancelled_def backing_def)
qed

lemma reopen_triple:
  assumes "itemises R' V" "(a ++ V) ++ p = W" "a \<subseteq>\<^sub>m W" "late \<or> a ++ p = W"
  shows "triple (\<lambda>s. queue p a s \<and> backing late F mc R old s \<and> (u \<longrightarrow> mc_up s)) (thenM (restore_claim R') ol_cleanup)
     (\<lambda>_ s. cancelled old W s \<and> (u \<longrightarrow> mc_up s) \<and> (F \<longrightarrow> able mc s)) (\<lambda>e s. \<not> F \<and> (late \<or> pre_commit R old W s) \<and> \<not> is_op_levels_worker_error e)"
proof -
  let ?G = "\<lambda>s. backing late F mc R old s \<and> (u \<longrightarrow> mc_up s)"
  have G: "offqueue ?G" by (auto simp: offqueue_def stepfree_def backing_def marked_def intro: able_later)
  have "triple (\<lambda>s. queue p a s \<and> ?G s) (restore_claim R') (\<lambda>_ s. queue W Map.empty s \<and> ?G s)
      (\<lambda>e s. \<not> F \<and> (late \<or> pre_commit R old W s) \<and> \<not> is_op_levels_worker_error e)"
  proof (rule restore_triple [where F = F and mc = mc, OF G _ assms(1,2)])
    show "\<not> F \<and> (late \<or> pre_commit R old W s) \<and> \<not> is_op_levels_worker_error e" if "\<not> F" "queue p' a' s"
        "p' = p \<and> a' = a \<or> p' = W \<and> (a' = a \<or> a' = Map.empty)" "?G s" "may_raise e s" for e s p' a'
      using that assms(3,4) backing_pre_commit [of late F mc R old s p' a' W] by (auto simp: map_le_full may_raise_def)
  qed (auto simp: backing_def)
  from triple_then [OF this ol_cleanup_triple] show ?thesis .
qed

lemma ol_undo_triple:
  assumes "itemises R' V" "(a ++ V) ++ p = W" "a \<subseteq>\<^sub>m W" "late \<or> a ++ p = W"
  shows "triple (\<lambda>s. queue p a s \<and> backing late F mc R old s)
     (thenM (on_docker (mc_start mc)) (thenM (restore_claim R') ol_cleanup))
     (\<lambda>_ s. cancelled old W s \<and> mc_up s \<and> (F \<longrightarrow> able mc s)) (\<lambda>_ s. \<not> F \<and> (late \<or> pre_commit R old W s))"
proof -
  have start: "triple (\<lambda>s. queue p a s \<and> backing late F mc R old s) (on_docker (mc_start mc))
      (\<lambda>_ s. (queue p a s \<and> backing late F mc R old s) \<and> mc_up s) (\<lambda>_ s. \<not> F \<and> (late \<or> pre_commit R old W s))"
  proof (rule start_triple [where F = F])
    show "dockfree (\<lambda>s. queue p a s \<and> backing late F mc R old s)" by (rule free_conj) simp_all
    show "able mc s" if F "queue p a s \<and> backing late F mc R old s" for s using that by (simp add: backing_def)
    show "\<not> F \<and> (late \<or> pre_commit R old W s)" if "\<not> F" "queue p a s \<and> backing late F mc R old s" for s
      using that assms(3,4) backing_pre_commit [of late F mc R old s p a W] by blast
  qed
  have "triple (\<lambda>s. (queue p a s \<and> backing late F mc R old s) \<and> mc_up s) (thenM (restore_claim R') ol_cleanup)
      (\<lambda>_ s. cancelled old W s \<and> mc_up s \<and> (F \<longrightarrow> able mc s)) (\<lambda>_ s. \<not> F \<and> (late \<or> pre_commit R old W s))"
    by (rule triple_conseq [OF reopen_triple [where u = True, OF assms]]) auto
  from triple_then [OF start this] show ?thesis .
qed

lemma rollback_triple:
  assumes "late \<or> a ++ p = W \<and> a \<subseteq>\<^sub>m W" "plain old"
  shows "triple (\<lambda>s. queue p a s \<and> (F \<longrightarrow> able mc s) \<and> (late \<or> marked R s) \<and> ops_rollback s = old)
     (thenM (on_docker (mc_stop mc)) restore_rollback)
     (\<lambda>_ s. queue p a s \<and> backing late F mc R old s) (\<lambda>_ s. \<not> F \<and> (late \<or> pre_commit R old W s))"
proof -
  let ?P = "\<lambda>s. queue p a s \<and> (F \<longrightarrow> able mc s) \<and> (late \<or> marked R s) \<and> ops_rollback s = old"
  let ?Q = "\<lambda>s. ?P s \<and> ops_json s = old"
  let ?E = "\<lambda>(_ :: exn) s. \<not> F \<and> (late \<or> pre_commit R old W s)"
  have free: "dockfree ?P" "dockfree ?Q"
    by (auto simp: dockfree_def queue_def marked_def intro: able_later)
  have fail: "late \<or> pre_commit R old W s" if "?P s" for s
    using that assms by (auto simp: pre_commit_def saved_def)
  have "triple ?P (on_docker (mc_stop mc)) (\<lambda>_ s. ?P s \<and> \<not> mc_up s) ?E"
    using fail by (intro stop_triple [where F = F] free) auto
  then have stop: "triple ?P (on_docker (mc_stop mc)) (\<lambda>_. ?P) ?E" by (rule triple_conseq) auto
  have tick: "triple ?P tick (\<lambda>_. ?P) ?E"
    using fail free by (intro tick_triple [where F = F and mc = mc]) (auto intro: dockfree_stepfree)
  obtain f where f: "old = Some f" "of_plain f" using assms(2) by (auto simp: plain_def)
  then have same: "f\<lparr>of_plain := True\<rparr> = f" by simp
  have put: "triple ?P (atomic_put (\<lambda>s. s\<lparr>ops_json := Some (f\<lparr>of_plain := True\<rparr>)\<rparr>)) (\<lambda>_. ?Q) ?E"
    using fail free f(1) same
    by (intro put_triple [where F = F and mc = mc]) (auto intro: dockfree_stepfree simp: marked_def)
  have "triple ?P restore_rollback (\<lambda>_. ?Q) ?E"
    unfolding restore_rollback_def
  proof (rule triple_then [OF tick])
    show "triple ?P (bindM (getM ops_rollback) (\<lambda>r. case r of None \<Rightarrow> raiseM (OSError ''ENOENT'')
        | Some file \<Rightarrow> thenM tick (atomic_put (\<lambda>s. s\<lparr>ops_json := Some (file\<lparr>of_plain := True\<rparr>)\<rparr>)))) (\<lambda>_. ?Q) ?E"
      using triple_then [OF tick put] f(1) by (auto simp: triple_def wp_bind wp_get)
  qed
  from triple_then [OF stop this] show ?thesis
    by (rule triple_conseq) (use assms(2) in \<open>auto simp: backing_def\<close>)
qed

subsection \<open>The handler\<close>

text \<open>The errors that report that the levels were put back, and the one that reports a restored file.\<close>

fun cancel_report :: "exn \<Rightarrow> bool" where
  "cancel_report (OpLevelsWorkerError m) = startswith m ''niveaux OP annules''"
| "cancel_report e = False"

fun restore_report :: "exn \<Rightarrow> bool" where
  "restore_report (OpLevelsWorkerError m) = startswith m ''niveaux OP annules, original restaure''"
| "restore_report e = False"

lemma reports [simp]:
  "cancel_report (OpLevelsWorkerError (''niveaux OP annules, original restaure : '' @ m))"
  "restore_report (OpLevelsWorkerError (''niveaux OP annules, original restaure : '' @ m))"
  "cancel_report (OpLevelsWorkerError (''niveaux OP annules avant ecriture : '' @ m))"
  "\<not> restore_report (OpLevelsWorkerError (''niveaux OP annules avant ecriture : '' @ m))"
  "\<not> cancel_report (OpLevelsWorkerError ''application et rollback des niveaux OP en echec'')"
  "\<not> restore_report (OpLevelsWorkerError ''application et rollback des niveaux OP en echec'')"
  "\<not> cancel_report (OpLevelsWorkerError ''echec avant ecriture et redemarrage Minecraft impossible'')"
  "\<not> restore_report (OpLevelsWorkerError ''echec avant ecriture et redemarrage Minecraft impossible'')"
  by (simp_all add: startswith_def)

declare cancel_report.simps(1) [simp del] restore_report.simps(1) [simp del]

lemma report_worker_error: "\<not> is_op_levels_worker_error e \<Longrightarrow> \<not> cancel_report e \<and> \<not> restore_report e"
  by (cases e) auto

definition after_failure :: "bool \<Rightarrow> pending_op_level list \<Rightarrow> ops_file option \<Rightarrow> (string \<rightharpoonup> pending_op_level) \<Rightarrow> exn \<Rightarrow> ol_disk \<Rightarrow> bool" where
  "after_failure late R old W x s \<longleftrightarrow>
     (cancel_report x \<longrightarrow> cancelled old W s) \<and> (restore_report x \<longrightarrow> mc_up s) \<and> (late \<or> pre_commit R old W s)"

lemma cancelled_pre_commit: "cancelled old W s \<Longrightarrow> pre_commit R old W s"
proof -
  assume c: "cancelled old W s"
  then have "queue W Map.empty s \<and> Map.empty \<subseteq>\<^sub>m W \<and> Map.empty ++ W = W" by (simp add: cancelled_def)
  then have "\<exists>p a. queue p a s \<and> a \<subseteq>\<^sub>m W \<and> a ++ p = W" by blast
  with c show ?thesis by (simp add: pre_commit_def cancelled_def marked_def saved_def)
qed

lemma triple_seq_raise:
  assumes "triple P m (\<lambda>_. Q) E" "\<And>s. Q s \<Longrightarrow> E x s"
  shows "triple P (thenM m (raiseM x)) R E"
  by (rule triple_then [OF assms(1)]) (simp add: triple_def wp_raise assms(2))

lemma flag_skip [simp]:
  "backing late F mc R old (s\<lparr>may_be_stopped := b\<rparr>) = backing late F mc R old s"
  by (simp add: backing_def marked_def)

lemma handler_ready:
  assumes "itemises R W" "p \<subseteq>\<^sub>m W" "a \<subseteq>\<^sub>m W" "late \<or> a ++ p = W" "plain old"
  shows "triple (\<lambda>s. queue p a s \<and> (late \<or> marked R s) \<and> ops_rollback s = old \<and> rollback_ready s) (ol_failed mc R e)
     (\<lambda>_ _. False) (after_failure late R old W)"
proof -
  let ?P = "\<lambda>s. queue p a s \<and> (False \<longrightarrow> able mc s) \<and> (late \<or> marked R s) \<and> ops_rollback s = old"
  let ?E = "\<lambda>(_ :: exn) s. \<not> False \<and> (late \<or> pre_commit R old W s)"
  let ?B = "\<lambda>s. queue p a s \<and> backing late False mc R old s"
  have stopped: "triple ?P (thenM (on_docker (mc_stop mc)) restore_rollback) (\<lambda>_. ?B) ?E"
    using assms(3-5) by (intro rollback_triple) auto
  have start: "triple ?B (on_docker (mc_start mc)) (\<lambda>_ s. ?B s \<and> mc_up s) ?E"
    using assms(3,4) backing_pre_commit [of late False mc R old _ p a W]
    by (intro start_triple [where F = False] free_conj(1)) auto
  have flag: "triple (\<lambda>s. ?B s \<and> mc_up s) (modM (\<lambda>s. s\<lparr>may_be_stopped := False\<rparr>)) (\<lambda>_ s. queue p a s \<and> backing late False mc R old s \<and> mc_up s) ?E"
    by (rule triple_mod) auto
  have reopen: "triple (\<lambda>s. queue p a s \<and> backing late False mc R old s \<and> mc_up s) (thenM (restore_claim R) ol_cleanup)
      (\<lambda>_ s. cancelled old W s \<and> mc_up s) ?E"
    by (rule triple_conseq [OF reopen_triple [where u = True, OF assms(1) map_add_sub [OF assms(2,3)] assms(3,4)]]) auto
  note way = triple_then [OF stopped triple_then [OF start triple_then [OF flag reopen]]]
  have assoc: "thenM (thenM u v) w = thenM u (thenM v w)" for u v w :: "(ol_disk, unit) prog"
    by (rule ext) (simp add: prog_simps split: prod.split sum.split)
  let ?err = "\<lambda>(_ :: exn). raiseM (OpLevelsWorkerError ''application et rollback des niveaux OP en echec'') :: (ol_disk, unit) prog"
  have "triple ?P (tryM (thenM (on_docker (mc_stop mc)) (thenM restore_rollback (thenM (on_docker (mc_start mc))
      (thenM (modM (\<lambda>s. s\<lparr>may_be_stopped := False\<rparr>)) (thenM (restore_claim R) ol_cleanup))))) ?err)
      (\<lambda>_ s. cancelled old W s \<and> mc_up s) (after_failure late R old W)"
    by (rule triple_try [OF triple_conseq [OF way [unfolded assoc]]])
      (auto simp: triple_def wp_raise after_failure_def)
  from triple_seq_raise [OF this, of "OpLevelsWorkerError (''niveaux OP annules, original restaure : '' @ exn_str e)"]
  show ?thesis
    unfolding ol_failed_def
    by (auto simp: triple_def wp_bind wp_get after_failure_def intro: cancelled_pre_commit)
qed

lemma handler_early:
  assumes "itemises R W" "p \<subseteq>\<^sub>m W" "a \<subseteq>\<^sub>m W" "a ++ p = W"
  shows "triple (\<lambda>s. queue p a s \<and> backing False False mc R old s \<and> \<not> rollback_ready s) (ol_failed mc R e)
     (\<lambda>_ _. False) (after_failure False R old W)"
proof -
  let ?B = "\<lambda>s. queue p a s \<and> backing False False mc R old s"
  let ?E = "after_failure False R old W"
  have pre: "pre_commit R old W s" if "?B s" for s
    using that assms(3,4) backing_pre_commit [of False False mc R old s p a W] by blast
  have "triple ?B (on_docker (mc_start mc)) (\<lambda>_ s. ?B s \<and> mc_up s) (\<lambda>_ s. ?B s)"
    by (intro start_triple [where F = False] free_conj(1)) auto
  then have "triple ?B (thenM (on_docker (mc_start mc)) (modM (\<lambda>s. s\<lparr>may_be_stopped := False\<rparr>))) (\<lambda>_. ?B) (\<lambda>_ s. ?B s)"
    by (rule triple_then) (auto simp: triple_def wp_mod)
  note caught = triple_try [where E = ?E, OF this]
  have "triple ?B (tryM (thenM (on_docker (mc_start mc)) (modM (\<lambda>s. s\<lparr>may_be_stopped := False\<rparr>)))
      (\<lambda>_. raiseM (OpLevelsWorkerError ''echec avant ecriture et redemarrage Minecraft impossible''))) (\<lambda>_. ?B) ?E"
    by (rule caught) (use pre in \<open>auto simp: triple_def wp_raise after_failure_def\<close>)
  then have start: "triple ?B (bindM (getM may_be_stopped) (\<lambda>st. whenM st (tryM
      (thenM (on_docker (mc_start mc)) (modM (\<lambda>s. s\<lparr>may_be_stopped := False\<rparr>)))
      (\<lambda>_. raiseM (OpLevelsWorkerError ''echec avant ecriture et redemarrage Minecraft impossible''))))) (\<lambda>_. ?B) ?E"
    by (auto simp: triple_def wp_bind wp_get wp_when)
  have reopen: "triple ?B (thenM (restore_claim R) ol_cleanup) (\<lambda>_. cancelled old W) ?E"
    by (rule triple_conseq [OF reopen_triple [where u = False, OF assms(1) map_add_sub [OF assms(2,3)] assms(3) disjI2 [OF assms(4)]]])
      (auto simp: after_failure_def report_worker_error)
  have assoc: "thenM (thenM u v) w = thenM u (thenM v w)" for u v :: "(ol_disk, unit) prog" and w :: "(ol_disk, 'b) prog"
    by (rule ext) (simp add: prog_simps split: prod.split sum.split)
  have "triple ?B (thenM (thenM (restore_claim R) ol_cleanup)
      (raiseM (OpLevelsWorkerError (''niveaux OP annules avant ecriture : '' @ exn_str e)))) (\<lambda>_ _. False) ?E"
    by (rule triple_seq_raise [OF reopen]) (simp only: after_failure_def reports cancelled_pre_commit simp_thms)
  from triple_then [OF start this [unfolded assoc]] show ?thesis
    unfolding ol_failed_def by (auto simp: triple_def wp_bind wp_get)
qed

end
