(* ===== verification/Op_Levels_Recovery.thy ===== *)
theory Op_Levels_Recovery
  imports Op_Levels_Safety
begin

text \<open>
  A run of the worker of the operator levels from end to end, and the recovery of runs that were
  killed, however often the recovery itself is killed.
\<close>

subsection \<open>The handler, from any failure\<close>

definition same_plan :: "ol_disk \<Rightarrow> ol_disk \<Rightarrow> bool" where
  "same_plan s t \<longleftrightarrow> io_plan t = io_plan s"

interpretation plan: state_preorder same_plan
  by unfold_locales (auto simp: same_plan_def)

lemma plan_tick: "keeps same_plan tick"
  by (auto simp: keeps_def same_plan_def tick_def Let_def split: fault.splits)

lemma plan_docker: "keeps same_plan (on_docker (mc_stop mc))" "keeps same_plan (on_docker (mc_start mc))"
proof -
  have zoom: "keeps same_plan (on_docker m)" if "keeps ctl_rel m" for m :: "(disk, 'a) prog"
  proof (rule keepsI)
    fix s r t assume "on_docker m s = (r, t)"
    then obtain u where "m (disk.truncate s) = (r, u)" "t = disk.extend u (disk.more s)"
      by (auto simp: on_docker_def zoomM_def split: prod.splits)
    with keepsD [OF that] show "same_plan s t" by (auto simp: same_plan_def ctl_rel_def env_le_def disk.defs)
  qed
  show "keeps same_plan (on_docker (mc_stop mc))" "keeps same_plan (on_docker (mc_start mc))"
    by (rule zoom, rule ctl_ops)+
qed

lemma plan_mod: "(\<And>s. io_plan (f s) = io_plan s) \<Longrightarrow> keeps same_plan (modM f)"
  by (rule keepsI) (auto simp: same_plan_def prog_simps)

lemma plan_failed: "keeps same_plan (ol_failed mc R e)"
  unfolding ol_failed_def restore_claim_def ol_cleanup_def restore_rollback_def put_pending_def put_applying_def
    atomic_put_def read_applying_def read_pending_def or_raise_def
  by (intro plan.keeps_intros keeps_cases plan_tick plan_docker plan_mod) simp_all

text \<open>
  How a run fails: the reports are true; and where only kills happen, the files are as before the
  commit, or the process was killed after it.
\<close>

definition finished :: "ops_file option \<Rightarrow> (string \<rightharpoonup> pending_op_level) \<Rightarrow> ol_disk \<Rightarrow> bool" where
  "finished old W s \<longleftrightarrow> mc_up s \<and> ops_rollback s = None \<and> ops_marker s = Absent \<and>
     (\<exists>um. applied W old (ops_json s) um \<and> queue um Map.empty s)"

definition at_rest :: "ops_file option \<Rightarrow> (string \<rightharpoonup> pending_op_level) \<Rightarrow> ol_disk \<Rightarrow> bool" where
  "at_rest old W s \<longleftrightarrow> ops_json s = old \<and> (\<exists>p a. queue p a s \<and> a ++ p = W) \<and> ops_rollback s = None \<and> ops_marker s = Absent"

definition sound :: "ops_file option \<Rightarrow> (string \<rightharpoonup> pending_op_level) \<Rightarrow> ol_disk \<Rightarrow> bool" where
  "sound old W s \<longleftrightarrow> at_rest old W s \<or> finished old W s \<or>
     (\<exists>R. itemises R W \<and> (pre_commit R old W s \<or> committed R old W s))"

definition run_fails :: "ops_file option \<Rightarrow> (string \<rightharpoonup> pending_op_level) \<Rightarrow> exn \<Rightarrow> ol_disk \<Rightarrow> bool" where
  "run_fails old W x s \<longleftrightarrow> (cancel_report x \<longrightarrow> cancelled old W s) \<and> (restore_report x \<longrightarrow> mc_up s) \<and>
     (crash_only s \<longrightarrow> sound old W s)"

lemma sound_pre: "itemises R W \<Longrightarrow> pre_commit R old W s \<Longrightarrow> sound old W s"
  by (auto simp: sound_def)

lemma early_fails: "itemises R W \<Longrightarrow> after_failure False R old W x s \<Longrightarrow> run_fails old W x s"
  by (auto simp: after_failure_def run_fails_def intro: sound_pre)

lemma applied_rest: "applied W old new um \<Longrightarrow> um \<subseteq>\<^sub>m W"
  by (auto simp: applied_def map_le_def restrict_map_def split: if_splits)

lemma map_add_parts: "a \<subseteq>\<^sub>m W \<Longrightarrow> a ++ p = W \<Longrightarrow> p \<subseteq>\<^sub>m W"
  by (auto simp: map_le_def map_add_def dom_def fun_eq_iff split: option.splits)

lemma handler_triple:
  assumes R: "itemises R W" and e: "catchable e"
  shows "triple (failed_at R old W e) (ol_failed mc R e :: (ol_disk, 'a) prog) (\<lambda>_ _. False) (run_fails old W)"
proof (rule tripleI)
  fix s assume at: "failed_at R old W e s"
  consider p a where "queue p a s" "a \<subseteq>\<^sub>m W" "a ++ p = W" "marked R s" "rollback_ready s" "ops_rollback s = old" "plain old"
    | p a where "queue p a s" "a \<subseteq>\<^sub>m W" "a ++ p = W" "marked R s" "\<not> rollback_ready s" "backing False False mc R old s"
    | p a where "queue p a s" "a \<subseteq>\<^sub>m W" "p \<subseteq>\<^sub>m W" "\<not> crash_only s" "rollback_ready s" "ops_rollback s = old" "plain old"
    using at e unfolding failed_at_def pre_commit_def committed_def settled_def saved_def backing_def may_raise_def catchable_def
    by (smt (verit) applied_rest map_le_refl map_le_empty)
  then show "wp (ol_failed mc R e :: (ol_disk, 'a) prog) (\<lambda>_ _. False) (run_fails old W) s"
  proof cases
    case 1
    show ?thesis
      by (rule wp_mono [OF tripleD [OF handler_ready [where late = False, OF R map_add_parts [OF 1(2,3)] 1(2) disjI2 [OF 1(3)] 1(7)]]])
        (use 1 in simp, use early_fails [OF R] in auto)
  next
    case 2
    show ?thesis
      by (rule wp_mono [OF tripleD [OF handler_early [OF R map_add_parts [OF 2(2,3)] 2(2,3)]]])
        (use 2 in simp, use early_fails [OF R] in auto)
  next
    case 3
    note late = tripleD [OF handler_ready [where late = True, OF R 3(3,2) disjI1 3(7)]]
    have "keeps same_plan (ol_failed mc R e :: (ol_disk, 'a) prog)" by (rule plan_failed)
    then have plan: "wp (ol_failed mc R e :: (ol_disk, 'a) prog) (\<lambda>_. same_plan s) (\<lambda>_. same_plan s) s"
      by (simp add: keeps_wp)
    show ?thesis
      by (rule wp_mono [OF wp_conj [OF late plan]])
        (use 3 in \<open>auto simp: after_failure_def run_fails_def crash_only_def same_plan_def\<close>)
  qed
qed

subsection \<open>A run from a clean state\<close>

lemma claim_clean:
  assumes "\<And>s. F \<Longrightarrow> G s \<Longrightarrow> able mc s" "offqueue G" "\<And>e s p a. \<not> F \<Longrightarrow> queue p a s \<Longrightarrow> a ++ p = W \<Longrightarrow> G s \<Longrightarrow> may_raise e s \<Longrightarrow> E e s"
  shows "triple (\<lambda>s. (\<exists>p a. queue p a s \<and> a ++ p = W) \<and> G s) claim (\<lambda>R s. itemises R W \<and> queue Map.empty W s \<and> G s) E"
proof (rule tripleI)
  fix s assume "(\<exists>p a. queue p a s \<and> a ++ p = W) \<and> G s"
  then obtain p a where s: "queue p a s \<and> G s" and W: "a ++ p = W" by blast
  have "triple (\<lambda>s. queue p a s \<and> G s) claim (\<lambda>R s. itemises R (a ++ p) \<and> queue Map.empty (a ++ p) s \<and> G s) E"
    using assms W by (intro claim_triple [where F = F and mc = mc]) auto
  from tripleD [OF this s] show "wp claim (\<lambda>R s. itemises R W \<and> queue Map.empty W s \<and> G s) E s" by (simp add: W)
qed

text \<open>The last step removes the files of the transaction; it may fail, without consequence.\<close>

definition done_files :: "ops_file option \<Rightarrow> (string \<rightharpoonup> pending_op_level) \<Rightarrow> ol_disk \<Rightarrow> bool" where
  "done_files old W s \<longleftrightarrow> mc_up s \<and> (\<exists>um. applied W old (ops_json s) um \<and> queue um Map.empty s)"

definition wrapping :: "bool \<Rightarrow> docker_config \<Rightarrow> pending_op_level list \<Rightarrow> pending_op_level list \<Rightarrow> ops_file option \<Rightarrow> ops_file option \<Rightarrow>
    (string \<rightharpoonup> pending_op_level) \<Rightarrow> ol_disk \<Rightarrow> bool" where
  "wrapping F mc R U old new um s \<longleftrightarrow> queue um Map.empty s \<and> (F \<longrightarrow> able mc s) \<and> mc_up s \<and> ops_json s = new \<and>
     (ops_rollback s = None \<or> ops_rollback s = old \<and> plain old) \<and> ops_marker s = Doc (marker_payload ''committed'' R U)"

lemma able_wrapping: "wrapping F mc R U old new um s \<Longrightarrow> F \<Longrightarrow> able mc s"
  by (simp add: wrapping_def)

lemma finish_triple:
  assumes "itemises U um" "applied W old new um"
  shows "triple (wrapping F mc R U old new um) ol_cleanup
    (\<lambda>_ s. finished old W s \<and> (F \<longrightarrow> able mc s)) (\<lambda>e s. \<not> F \<and> done_files old W s \<and> (committed R old W s \<or> finished old W s))"
proof -
  let ?A = "wrapping F mc R U old new um"
  let ?B = "\<lambda>s. ?A s \<and> ops_rollback s = None"
  let ?C = "\<lambda>s. finished old W s \<and> (F \<longrightarrow> able mc s)"
  let ?E = "\<lambda>(e :: exn) s. \<not> F \<and> done_files old W s \<and> (committed R old W s \<or> finished old W s)"
  have step: "stepfree ?A" "stepfree ?B" "stepfree ?C"
    by (auto simp: stepfree_def finished_def wrapping_def queue_def intro: able_later)
  have late: "done_files old W s \<and> (committed R old W s \<or> finished old W s)" if "?A s" for s
    using that assms unfolding done_files_def committed_def settled_def wrapping_def by blast
  have late': "done_files old W s" if "?C s" for s
    using that by (auto simp: done_files_def finished_def)
  have tick: "triple ?A tick (\<lambda>_. ?A) ?E" "triple ?B tick (\<lambda>_. ?B) ?E" "triple ?C tick (\<lambda>_. ?C) ?E"
    using late late' by (intro tick_triple [where F = F and mc = mc] step; blast dest: able_wrapping)+
  have "triple ?A (modM (\<lambda>s. s\<lparr>ops_rollback := None\<rparr>)) (\<lambda>_. ?B) ?E"
    by (rule triple_mod) (auto simp: wrapping_def)
  moreover have "triple ?B (modM (\<lambda>s. s\<lparr>ops_marker := Absent\<rparr>)) (\<lambda>_. ?C) ?E"
    using assms(2) by (intro triple_mod) (auto simp: finished_def wrapping_def)
  ultimately show ?thesis
    unfolding ol_cleanup_def by (intro triple_then [OF tick(1) triple_then [OF _ triple_then [OF tick(2) triple_then [OF _ tick(3)]]]])
qed

lemma recover_at_rest:
  "triple (\<lambda>s. at_rest old W s \<and> (F \<longrightarrow> able mc s)) (recover_interrupted mc) (\<lambda>_ s. at_rest old W s \<and> (F \<longrightarrow> able mc s)) E"
  unfolding recover_interrupted_def by (auto simp: triple_def wp_rules at_rest_def)

lemma run_triple:
  assumes "F \<Longrightarrow> \<exists>es. good_ops old es"
  shows "triple (\<lambda>s. at_rest old W s \<and> data_root_ok s \<and> (F \<longrightarrow> able mc s)) (apply_pending_levels mc dump_size)
    (\<lambda>_ s. done_files old W s \<and> sound old W s \<and> (F \<longrightarrow> finished old W s)) (\<lambda>x s. \<not> F \<and> run_fails old W x s)"
proof -
  let ?G = "\<lambda>s. (F \<longrightarrow> able mc s) \<and> ops_json s = old \<and> ops_rollback s = None \<and> ops_marker s = Absent"
  let ?E = "\<lambda>x s. \<not> F \<and> run_fails old W x s"
  let ?Q = "\<lambda>_ s. done_files old W s \<and> sound old W s \<and> (F \<longrightarrow> finished old W s)"
  have claim: "triple (\<lambda>s. at_rest old W s \<and> (F \<longrightarrow> able mc s)) claim (\<lambda>R s. itemises R W \<and> queue Map.empty W s \<and> ?G s) ?E"
  proof (rule triple_conseq [OF claim_clean [where F = F and mc = mc and G = ?G and W = W and E = ?E]])
    show "?E e s" if "\<not> F" "queue p a s" "a ++ p = W" "?G s" "may_raise e s" for e s p a
    proof -
      have "\<not> is_op_levels_worker_error e" using that(5) by (auto simp: may_raise_def)
      moreover have "at_rest old W s" using that by (auto simp: at_rest_def)
      ultimately show ?thesis using that(1) by (simp add: run_fails_def sound_def report_worker_error)
    qed
  qed (auto simp: offqueue_def stepfree_def at_rest_def intro: able_later)
  have finish: "triple (\<lambda>s. queue um Map.empty s \<and> closing F mc R U old new s) (ignoreM ol_cleanup) ?Q ?E"
    if "itemises R W" "itemises U um" "applied W old new um" "plain old" for R U um new
  proof -
    have "triple (\<lambda>s. queue um Map.empty s \<and> closing F mc R U old new s) ol_cleanup (\<lambda>_. ?Q ()) (\<lambda>_ s. \<not> F \<and> ?Q () s)"
      by (rule triple_conseq [OF finish_triple [where R = R, OF that(2,3)]])
        (use that(1,4) in \<open>auto simp: done_files_def finished_def sound_def wrapping_def closing_def\<close>)
    then show ?thesis by (rule triple_ignore) (auto simp: run_fails_def)
  qed
  have go: "triple (\<lambda>s. queue Map.empty W s \<and> ?G s) (thenM (modM (\<lambda>s. s\<lparr>may_be_stopped := False, rollback_ready := False\<rparr>))
      (bindM (tryM (ol_transaction mc dump_size R) (ol_failed mc R)) (\<lambda>(changed, unresolved).
         thenM (ignoreM ol_cleanup) (retM (changed, length unresolved))))) ?Q ?E" if R: "itemises R W" for R
  proof (rule triple_then)
    let ?C = "\<lambda>(changed, U) s. \<exists>um new. itemises U um \<and> applied W old new um \<and> plain old \<and> queue um Map.empty s \<and> closing F mc R U old new s"
    show "triple (\<lambda>s. queue Map.empty W s \<and> ?G s) (modM (\<lambda>s. s\<lparr>may_be_stopped := False, rollback_ready := False\<rparr>))
        (\<lambda>_. at_phase F mc R W None old False) ?E"
      by (rule triple_mod) (auto simp: at_phase_def marked_def)
    have "triple (at_phase F mc R W None old False) (tryM (ol_transaction mc dump_size R) (ol_failed mc R)) ?C ?E"
    proof (rule triple_try [OF ol_transaction_triple [OF R assms]])
      show "triple (fails F R old W e) (ol_failed mc R e) ?C ?E" if "catchable e" for e
      proof (cases F)
        case False
        show ?thesis by (rule triple_conseq [OF handler_triple [OF R that]]) (use False in \<open>auto simp: fails_def\<close>)
      qed (simp add: triple_def fails_def)
      show "?E Killed s" if "fails F R old W Killed s" for s
        using that R by (auto simp: fails_def failed_at_def run_fails_def sound_def)
    qed
    then show "triple (at_phase F mc R W None old False) (bindM (tryM (ol_transaction mc dump_size R) (ol_failed mc R))
        (\<lambda>(changed, unresolved). thenM (ignoreM ol_cleanup) (retM (changed, length unresolved)))) ?Q ?E"
    proof (rule triple_bind)
      fix x :: "nat \<times> pending_op_level list"
      obtain c U where x: "x = (c, U)" by (cases x)
      show "triple (?C x) (case x of (changed, unresolved) \<Rightarrow> thenM (ignoreM ol_cleanup) (retM (changed, length unresolved))) ?Q ?E"
      proof (rule tripleI)
        fix s assume "?C x s"
        then obtain um new where c: "itemises U um" "applied W old new um" "plain old" and s: "queue um Map.empty s \<and> closing F mc R U old new s"
          by (auto simp: x)
        show "wp (case x of (changed, unresolved) \<Rightarrow> thenM (ignoreM ol_cleanup) (retM (changed, length unresolved))) ?Q ?E s"
          unfolding x prod.case wp_then by (rule wp_mono [OF tripleD [OF finish [OF R c] s]]) (auto simp: wp_ret)
      qed
    qed
  qed
  have "triple (\<lambda>s. at_rest old W s \<and> (F \<longrightarrow> able mc s)) (thenM (recover_interrupted mc) (bindM claim (\<lambda>R.
      thenM (modM (\<lambda>s. s\<lparr>may_be_stopped := False, rollback_ready := False\<rparr>))
      (bindM (tryM (ol_transaction mc dump_size R) (ol_failed mc R)) (\<lambda>(changed, unresolved).
         thenM (ignoreM ol_cleanup) (retM (changed, length unresolved))))))) ?Q ?E"
    by (rule triple_then [OF recover_at_rest triple_bind [OF claim]]) (use go in \<open>auto simp: triple_def\<close>)
  then show ?thesis
    unfolding apply_pending_levels_def by (auto simp: triple_def wp_bind wp_get)
qed

subsection \<open>The recovery of a run that was killed\<close>

lemma crash_only_later: "env_le (disk.truncate s) d \<Longrightarrow> crash_only (disk.extend d (disk.more s)) = crash_only s"
  by (auto simp: crash_only_def env_le_def) (auto simp: disk.defs)

lemma crash_only_skip [simp]:
  "crash_only (s\<lparr>pend_file := f\<rparr>) = crash_only s" "crash_only (s\<lparr>appl_file := f\<rparr>) = crash_only s"
  by (simp_all add: crash_only_def)

lemma decode_level_list:
  assumes "itemises R W" "W [] = None"
  shows "list_all valid_state_item (map level_item R) \<and>
    map (\<lambda>i. op_request (str_of (jget i ''name'')) (int_of (jget i ''level''))) (map level_item R) = R"
proof -
  have "po_name i \<noteq> []" if "i \<in> set R" for i
  proof
    assume "po_name i = []"
    with that have "[] \<in> fst ` set (map (\<lambda>i. (lower (po_name i), i)) R)" by (force simp: lower_def)
    moreover have "map_of (map (\<lambda>i. (lower (po_name i), i)) R) [] = None" using assms by (simp add: itemises_def)
    ultimately show False by (simp add: map_of_eq_None_iff)
  qed
  with assms(1) show ?thesis
    by (auto simp: itemises_def list_all_iff level_item_def valid_state_item_def op_request_id intro!: map_idI)
qed

lemma ol_read_marker:
  assumes "itemises R W" "itemises U um" "W [] = None" "um [] = None"
    and "stepfree P" "\<And>s. F \<Longrightarrow> P s \<Longrightarrow> able mc s" "\<And>s. P s \<Longrightarrow> ops_marker s = Doc (marker_payload ph R U)"
  shows "triple P ol_read_state (\<lambda>x s. x = (ph, R, U) \<and> P s) (\<lambda>e s. \<not> F \<and> P s \<and> (e = Killed \<or> is_op_levels_worker_error e \<and> \<not> crash_only s))"
proof -
  have d: "decode_state_levels (marker_payload ph R U) ''requested'' = Some R" "decode_state_levels (marker_payload ph R U) ''unresolved'' = Some U"
    using decode_level_list [OF assms(1,3)] decode_level_list [OF assms(2,4)]
    by (simp_all add: decode_state_levels_def marker_payload_def level_list_def jhas_def)
  have m: "is_obj (marker_payload ph R U)" "equals_one (jget (marker_payload ph R U) ''version'')"
    "jget (marker_payload ph R U) ''phase'' = JStr ph" by (simp_all add: marker_payload_def)
  have "triple P tick (\<lambda>_. P) (\<lambda>e s. \<not> F \<and> P s \<and> (e = Killed \<or> \<not> crash_only s))"
    by (rule tick_triple [where F = F and mc = mc]) (use assms(5,6) in \<open>auto simp: may_raise_def\<close>)
  then have t: "wp tick (\<lambda>_. P) (\<lambda>e s. \<not> F \<and> P s \<and> (e = Killed \<or> \<not> crash_only s)) s" if "P s" for s
    using that by (rule tripleD)
  show ?thesis
    unfolding ol_read_state_def
    by (rule tripleI, simp only: wp_rules, rule wp_mono, erule t)
      (auto simp: wp_rules assms(7) d m catchable_def)
qed

definition put_back :: exn where
  "put_back = OpLevelsWorkerError ''transaction OP interrompue annulee ; niveaux remis en attente''"

text \<open>Where a recovery that raises leaves the files, if nothing but a kill went wrong before.\<close>

definition recovery_fails :: "bool \<Rightarrow> ops_file option \<Rightarrow> (string \<rightharpoonup> pending_op_level) \<Rightarrow> exn \<Rightarrow> ol_disk \<Rightarrow> bool" where
  "recovery_fails F old W e s \<longleftrightarrow> \<not> F \<and> sound old W s \<or> e = put_back \<and> cancelled old W s \<and> mc_up s"

lemma back_triple:
  assumes R: "itemises R W" and R': "itemises R' V" and q: "(a ++ V) ++ p = W" "a \<subseteq>\<^sub>m W" "a ++ p = W"
  shows "triple (\<lambda>s. queue p a s \<and> (F \<longrightarrow> able mc s) \<and> marked R s \<and> saved old s)
    (cancel_interrupted mc R') Q (recovery_fails F old W)"
proof -
  let ?P = "\<lambda>s. queue p a s \<and> (F \<longrightarrow> able mc s) \<and> marked R s \<and> saved old s"
  let ?B = "\<lambda>s. queue p a s \<and> backing False F mc R old s"
  let ?E = "\<lambda>(_ :: exn) s. \<not> F \<and> pre_commit R old W s"
  have "triple ?P (bindM (getM ops_rollback) (\<lambda>r. whenM (r \<noteq> None) (thenM (on_docker (mc_stop mc)) restore_rollback))) (\<lambda>_. ?B) ?E"
  proof (rule tripleI)
    fix s assume s: "?P s"
    show "wp (bindM (getM ops_rollback) (\<lambda>r. whenM (r \<noteq> None) (thenM (on_docker (mc_stop mc)) restore_rollback))) (\<lambda>_. ?B) ?E s"
    proof (cases "ops_rollback s = None")
      case True
      with s show ?thesis by (auto simp: wp_rules saved_def backing_def plain_def)
    next
      case False
      with s have rb: "ops_rollback s = old" "plain old" by (auto simp: saved_def)
      have "wp (thenM (on_docker (mc_stop mc)) restore_rollback) (\<lambda>_. ?B) (\<lambda>_ s. \<not> F \<and> (False \<or> pre_commit R old W s)) s"
        by (rule tripleD [OF rollback_triple]) (use q rb s in auto)
      with False show ?thesis by (simp add: wp_bind wp_get wp_when)
    qed
  qed
  moreover have "triple ?B (thenM (on_docker (mc_start mc)) (thenM (restore_claim R') ol_cleanup)) (\<lambda>_ s. cancelled old W s \<and> mc_up s) ?E"
    by (rule triple_conseq [OF ol_undo_triple [where late = False, OF R' q(1,2) disjI2 [OF q(3)]]]) auto
  ultimately have "triple ?P (thenM (bindM (getM ops_rollback) (\<lambda>r. whenM (r \<noteq> None) (thenM (on_docker (mc_stop mc)) restore_rollback)))
      (thenM (on_docker (mc_start mc)) (thenM (restore_claim R') ol_cleanup))) (\<lambda>_ s. cancelled old W s \<and> mc_up s) ?E"
    by (rule triple_then)
  then have "triple ?P (tryM (thenM (bindM (getM ops_rollback) (\<lambda>r. whenM (r \<noteq> None) (thenM (on_docker (mc_stop mc)) restore_rollback)))
      (thenM (on_docker (mc_start mc)) (thenM (restore_claim R') ol_cleanup)))
      (\<lambda>_. raiseM (OpLevelsWorkerError ''transaction OP interrompue et recuperation impossible''))) (\<lambda>_ s. cancelled old W s \<and> mc_up s)
      (recovery_fails F old W)"
    by (rule triple_try) (auto simp: triple_def wp_raise recovery_fails_def intro: sound_pre [OF R])
  then show ?thesis
    unfolding cancel_interrupted_def by (rule triple_seq_raise) (simp add: recovery_fails_def put_back_def)
qed

lemma recover_pre_commit:
  assumes R: "itemises R W" and W: "W [] = None"
  shows "triple (\<lambda>s. pre_commit R old W s \<and> (F \<or> crash_only s) \<and> (F \<longrightarrow> able mc s)) (recover_interrupted mc)
    (\<lambda>_. at_rest old W) (recovery_fails F old W)"
proof (rule tripleI)
  fix s assume s: "pre_commit R old W s \<and> (F \<or> crash_only s) \<and> (F \<longrightarrow> able mc s)"
  then obtain p a where q: "queue p a s" "a \<subseteq>\<^sub>m W" "a ++ p = W" by (auto simp: pre_commit_def)
  let ?P = "\<lambda>s. queue p a s \<and> (F \<longrightarrow> able mc s) \<and> marked R s \<and> saved old s"
  have P: "?P s" using s q by (auto simp: pre_commit_def)
  consider "ops_marker s = Absent" "ops_rollback s = None" | "ops_marker s = Absent" "ops_rollback s \<noteq> None"
    | ph where "ph \<noteq> ''committed''" "ops_marker s = Doc (marker_payload ph R [])"
    using P by (auto simp: marked_def)
  then show "wp (recover_interrupted mc) (\<lambda>_. at_rest old W) (recovery_fails F old W) s"
  proof cases
    case 1
    with P q show ?thesis by (auto simp: recover_interrupted_def wp_rules at_rest_def saved_def plain_def)
  next
    case 2
    have "itemises [] Map.empty" by (simp add: itemises_def)
    from tripleD [OF back_triple [where Q = "\<lambda>_. at_rest old W", OF R this _ q(2,3)] P] q(3) 2 show ?thesis
      unfolding recover_interrupted_def by (auto simp: wp_bind wp_get wp_except wp_ret)
  next
    case 3
    let ?P' = "\<lambda>s. ?P s \<and> (F \<or> crash_only s) \<and> ops_marker s = Doc (marker_payload ph R [])"
    have "itemises [] Map.empty" by (simp add: itemises_def)
    then have read: "triple ?P' ol_read_state (\<lambda>x s. x = (ph, R, []) \<and> ?P' s)
        (\<lambda>e s. \<not> F \<and> ?P' s \<and> (e = Killed \<or> is_op_levels_worker_error e \<and> \<not> crash_only s))"
      using R W by (intro ol_read_marker [where F = F and mc = mc and W = W and um = Map.empty])
        (auto simp: stepfree_def queue_def marked_def saved_def crash_only_later intro: able_later)
    note undone = tripleD [OF back_triple [OF R R map_add_sub [OF map_add_parts [OF q(2,3)] q(2)] q(2,3)]]
    have pre: "sound old W t" if "?P t" for t
      using that q by (intro sound_pre [OF R]) (auto simp: pre_commit_def)
    have "?P' s" using P s 3 by simp
    then have "wp ol_read_state (\<lambda>x t. x = (ph, R, []) \<and> ?P t) (\<lambda>e t. e = Killed \<and> recovery_fails F old W e t) s"
      by (rule wp_mono [OF tripleD [where s = s, OF read]]) (use pre in \<open>auto simp: recovery_fails_def\<close>)
    then show ?thesis
      unfolding recover_interrupted_def wp_bind wp_get
      using 3 by (auto simp: wp_bind wp_except elim!: wp_mono intro: undone)
  qed
qed

lemma recover_committed:
  assumes R: "itemises R W" and W: "W [] = None"
  shows "triple (\<lambda>s. committed R old W s \<and> (F \<or> crash_only s) \<and> (F \<longrightarrow> able mc s)) (recover_interrupted mc)
    (\<lambda>_. finished old W) (recovery_fails F old W)"
proof (rule tripleI)
  fix s assume s: "committed R old W s \<and> (F \<or> crash_only s) \<and> (F \<longrightarrow> able mc s)"
  then obtain U um p a where U: "itemises U um" "applied W old (ops_json s) um" and q: "queue p a s"
      "p = Map.empty \<and> a = W \<or> p = um \<and> (a = W \<or> a = Map.empty)"
    and m: "ops_marker s = Doc (marker_payload ''committed'' R U)" and rb: "ops_rollback s = None \<or> ops_rollback s = old \<and> plain old"
    by (auto simp: committed_def settled_def)
  let ?G = "\<lambda>t. (F \<longrightarrow> able mc t) \<and> mc_up t \<and> ops_json t = ops_json s \<and> ops_rollback t = ops_rollback s \<and> (F \<or> crash_only t) \<and>
     ops_marker t = Doc (marker_payload ''committed'' R U)"
  let ?P = "\<lambda>t. queue p a t \<and> ?G t"
  have um: "um [] = None" using applied_rest [OF U(2)] W by (metis map_le_def domIff)
  have G: "offqueue ?G"
    by (auto simp: offqueue_def stepfree_def crash_only_later intro: able_later)
  have late: "sound old W t" if "queue p' a' t" "?G t" "p' = Map.empty \<and> a' = W \<or> p' = um \<and> (a' = W \<or> a' = Map.empty)" for p' a' t
  proof -
    have "committed R old W t"
      unfolding committed_def settled_def using that U rb by (metis (no_types, lifting))
    with R show ?thesis by (auto simp: sound_def)
  qed
  have read: "triple ?P ol_read_state (\<lambda>x t. x = (''committed'', R, U) \<and> ?P t)
      (\<lambda>e t. \<not> F \<and> ?P t \<and> (e = Killed \<or> is_op_levels_worker_error e \<and> \<not> crash_only t))"
    by (rule ol_read_marker [OF R U(1) W um queue_with [OF G]]) auto
  have complete: "triple ?P (complete_claim U) (\<lambda>_ t. queue um Map.empty t \<and> ?G t) (recovery_fails F old W)"
  proof (rule complete_triple [where F = F and mc = mc, OF G _ U(1)])
    show "recovery_fails F old W e t" if "\<not> F" "queue p' a' t" "p' = p \<and> a' = a \<or> p' = um \<and> (a' = a \<or> a' = Map.empty)" "?G t" for e t p' a'
      using late [OF that(2,4)] that(1,3) q(2) by (auto simp: recovery_fails_def)
  qed (use q(2) in auto)
  have tidy: "triple (\<lambda>t. queue um Map.empty t \<and> ?G t) ol_cleanup (\<lambda>_. finished old W) (recovery_fails F old W)"
    by (rule triple_conseq [OF finish_triple [where F = F and mc = mc and R = R, OF U]])
      (use rb R in \<open>auto simp: wrapping_def recovery_fails_def sound_def\<close>)
  show "wp (recover_interrupted mc) (\<lambda>_. finished old W) (recovery_fails F old W) s"
  proof -
    have "?P s" using s q m by (auto simp: committed_def)
    then have "wp ol_read_state (\<lambda>x t. x = (''committed'', R, U) \<and> ?P t) (\<lambda>e t. e = Killed \<and> recovery_fails F old W e t) s"
      by (rule wp_mono [OF tripleD [where s = s, OF read]]) (use late q(2) in \<open>auto simp: recovery_fails_def\<close>)
    then show ?thesis
      unfolding recover_interrupted_def wp_bind wp_get
      using m tripleD [OF triple_then [OF complete tidy]] by (auto simp: wp_bind wp_except elim!: wp_mono)
  qed
qed

lemma recover_sound:
  assumes W: "W [] = None"
  shows "triple (\<lambda>s. sound old W s \<and> (F \<or> crash_only s) \<and> (F \<longrightarrow> able mc s)) (recover_interrupted mc)
    (\<lambda>_ s. at_rest old W s \<or> finished old W s) (recovery_fails F old W)"
proof (rule tripleI)
  fix s assume s: "sound old W s \<and> (F \<or> crash_only s) \<and> (F \<longrightarrow> able mc s)"
  then consider "at_rest old W s" | "finished old W s" | R where "itemises R W" "pre_commit R old W s"
    | R where "itemises R W" "committed R old W s" by (auto simp: sound_def)
  then show "wp (recover_interrupted mc) (\<lambda>_ s. at_rest old W s \<or> finished old W s) (recovery_fails F old W) s"
  proof cases
    case 3
    show ?thesis by (rule wp_mono [OF tripleD [OF recover_pre_commit [OF 3(1) W]]]) (use s 3 in auto)
  next
    case 4
    show ?thesis by (rule wp_mono [OF tripleD [OF recover_committed [OF 4(1) W]]]) (use s 4 in auto)
  qed (auto simp: recover_interrupted_def wp_rules at_rest_def finished_def)
qed

text \<open>
  A process that was killed leaves the files and the container; the next one finds them, with a
  fault plan of its own. \<open>killed mc dump_size s t\<close>: a run from \<open>s\<close> was killed, perhaps some
  recoveries after it too, and \<open>t\<close> is what the last one left.
\<close>

definition restarted :: "ol_disk \<Rightarrow> ol_disk \<Rightarrow> bool" where
  "restarted s t \<longleftrightarrow> pend_file t = pend_file s \<and> appl_file t = appl_file s \<and> ops_json t = ops_json s \<and>
     ops_rollback t = ops_rollback s \<and> ops_marker t = ops_marker s \<and> mc_up t = mc_up s"

inductive killed :: "docker_config \<Rightarrow> (json \<Rightarrow> int) \<Rightarrow> ol_disk \<Rightarrow> ol_disk \<Rightarrow> bool" for mc dump_size where
  in_run: "killed mc dump_size s t" if "apply_pending_levels mc dump_size s = (Inl Killed, t)"
| in_recovery: "killed mc dump_size s v" if "killed mc dump_size s t" "restarted t u" "crash_only u" "recover_interrupted mc u = (Inl Killed, v)"

lemma restarted_sound: "restarted s t \<Longrightarrow> sound old W s \<Longrightarrow> sound old W t"
  by (simp add: restarted_def sound_def at_rest_def finished_def pre_commit_def committed_def settled_def saved_def marked_def queue_def)

lemma plan_marker: "keeps same_plan (case f of Doc payload \<Rightarrow> retM payload | _ \<Rightarrow> raiseM e)"
  by (cases f) (simp_all add: plan.keeps_intros)

lemma plan_apply: "keeps same_plan (apply_pending_levels mc dump_size)"
  unfolding apply_pending_levels_def recover_interrupted_def cancel_interrupted_def claim_def ol_transaction_def ol_install_def ol_commit_def ol_write_state_def
    read_ops_def complete_claim_def ol_read_state_def restore_claim_def ol_cleanup_def restore_rollback_def
    put_pending_def put_applying_def atomic_put_def read_applying_def read_pending_def or_raise_def Let_def
  by (intro plan.keeps_intros keeps_cases plan_tick plan_docker plan_mod plan_failed plan_marker) simp_all

lemma killed_sound:
  assumes "killed mc dump_size s t" "crash_only s" "at_rest old W s" "W [] = None" "data_root_ok s"
  shows "sound old W t"
  using assms
proof (induction rule: killed.induct)
  case (in_run s t)
  have "crash_only t" using keepsD [OF plan_apply in_run(1)] in_run(2) by (simp add: same_plan_def crash_only_def)
  moreover have "run_fails old W Killed t"
    using tripleD [OF run_triple [where F = False], of old W s mc dump_size] in_run by (simp add: wp_def)
  ultimately show ?case by (simp add: run_fails_def)
next
  case (in_recovery s t u v)
  then have "sound old W u" by (blast intro: restarted_sound)
  with tripleD [OF recover_sound [where F = False and W = W, OF in_recovery.prems(3)], of old u mc] in_recovery.hyps
  show ?case by (simp add: wp_def recovery_fails_def put_back_def)
qed

end
