(* ===== verification/Op_Levels_Theorems.thy ===== *)
theory Op_Levels_Theorems
  imports Op_Levels_Recovery
begin

text \<open>
  The properties of the worker of the operator levels, with concrete runs as their witnesses.
\<close>

definition ol_mc0 :: docker_config where
  "ol_mc0 = \<lparr>c_name = ''mc'', c_timeout = 60, c_poll = 1\<rparr>"

definition ops0 :: "int \<Rightarrow> ops_file option" where
  "ops0 level = Some \<lparr>of_plain = True,
     of_raw = (Some (JArr [JObj [(''name'', JStr ''Alex''), (''level'', JInt level)]]), 40), of_meta = (420, 1000, 1000)\<rparr>"

definition wanted0 :: levels where
  "wanted0 = [(''alex'', op_request ''Alex'' 4), (''steve'', op_request ''Steve'' 2)]"

text \<open>A Docker that reports a started Minecraft as starting before it reports it healthy.\<close>

definition ol_health0 :: "string \<Rightarrow> json \<times> json" where
  "ol_health0 h = (JObj [(''Status'', JStr h)], JObj [(''Healthcheck'', JObj [(''Test'', JArr [JStr ''CMD''])])])"

lemma ol_health0_view:
  "readiness ''running'' (container_attrs ''running'' (ol_health0 h)) = (''running'', JStr h, True)"
  by (simp add: readiness_def container_attrs_def ol_health0_def jget_or_def jhas_def jget_def Let_def)

definition ol_disk0 :: "(nat \<Rightarrow> fault) \<Rightarrow> ol_disk" where
  "ol_disk0 plan = \<lparr>io_step = 0, io_plan = plan, here = None, mc_up = True, dm_up = False,
     dm_leaving = False, address_shared = False, resolved = (\<lambda>n _. n), mc_dies = (\<lambda>_. False), mc_idle = (\<lambda>_. Exited),
     mc_report = (\<lambda>n. ol_health0 (if even n then ''healthy'' else ''starting'')), dm_gone = (\<lambda>_. True), clock = 0, delay = (\<lambda>_. 0), pend_file = Doc (levels_payload wanted0), appl_file = Absent, ops_json = ops0 1,
     ops_rollback = None, ops_marker = Absent, data_root_ok = True, may_be_stopped = False, rollback_ready = False\<rparr>"

lemma disk0_rest: "at_rest (ops0 1) (map_of wanted0) (ol_disk0 plan)"
proof -
  have "levels_ok wanted0" by code_simp
  from decode_Doc_payload [OF this] have "queue (map_of wanted0) Map.empty (ol_disk0 plan)"
    by (auto simp: queue_def ol_disk0_def decode_levels_def [of Absent] load_json_def)
  moreover have "Map.empty ++ map_of wanted0 = map_of wanted0" by simp
  ultimately have "\<exists>p a. queue p a (ol_disk0 plan) \<and> a ++ p = map_of wanted0" by blast
  then show ?thesis unfolding at_rest_def by (simp add: ol_disk0_def)
qed

lemma mc0_able:
  assumes plan: "\<And>n. plan n = NoFault"
  shows "mc_able ol_mc0 ((disk.truncate (ol_disk0 plan))\<lparr>mc_up := b\<rparr>)" (is "mc_able _ ?s")
proof -
  have "\<exists>j. healthy_at ?s (n + j) \<and> (\<forall>i<j. starting_at ?s (n + i) \<and> waited (c_poll ol_mc0) 1 ?s n i < c_timeout ol_mc0)" for n
    by (intro exI [of _ "if even n then 0 else 1"])
      (auto simp: healthy_at_def starting_at_def running_view_def ol_disk0_def disk.defs ol_health0_view waited_def ol_mc0_def)
  then show ?thesis
    using plan
    by (auto simp: mc_able_def comes_up_def names_resolve_def no_faults_def ol_disk0_def disk.defs ol_mc0_def removeprefix_slash_def)
qed



subsection \<open>A run that gets through\<close>



subsection \<open>What the worker reports\<close>




subsection \<open>Kills\<close>

text \<open>
  C12. A worker that is killed at any point, and whose recovery is killed any number of times, loses
  nothing: the first recovery that is left alone either puts the old \<open>ops.json\<close> and every request
  back and starts Minecraft, or finds everything still as before the run, or finishes it, with the
  levels applied.
\<close>

theorem op_levels_survive_kills:
  assumes "at_rest old W s" and "data_root_ok s" and "crash_only s" and "W [] = None"
    and "killed mc dump_size s t" and "restarted t u" and "able mc u"
  shows "case recover_interrupted mc u of
      (Inr _, v) \<Rightarrow> at_rest old W v \<or> finished old W v
    | (Inl e, v) \<Rightarrow> e = put_back \<and> cancelled old W v \<and> mc_up v"
proof -
  have "sound old W u" using killed_sound [OF assms(5,3,1,4,2)] assms(6) by (rule restarted_sound [rotated])
  then have "wp (recover_interrupted mc) (\<lambda>_ s. at_rest old W s \<or> finished old W s) (recovery_fails True old W) u"
    by (intro tripleD [OF recover_sound [where W = W and F = True]]) (use assms in auto)
  moreover obtain r v where "recover_interrupted mc u = (r, v)" by fastforce
  ultimately show ?thesis by (cases r) (simp_all add: wp_def recovery_fails_def)
qed

definition plan0 :: "nat \<Rightarrow> fault" where
  "plan0 n = (if n = 27 then Kill else NoFault)"

lemma killed0: "fst (apply_pending_levels ol_mc0 (\<lambda>_. 40) (ol_disk0 plan0)) = Inl Killed"
  by code_simp

theorem op_levels_survive_kills_witness:
  "\<exists>u. ops_json u \<noteq> ops0 1 \<and> (case recover_interrupted ol_mc0 u of
      (Inr _, v) \<Rightarrow> at_rest (ops0 1) (map_of wanted0) v \<or> finished (ops0 1) (map_of wanted0) v
    | (Inl e, v) \<Rightarrow> e = put_back \<and> cancelled (ops0 1) (map_of wanted0) v \<and> mc_up v)"
proof -
  define t where "t = snd (apply_pending_levels ol_mc0 (\<lambda>_. 40) (ol_disk0 plan0))"
  have run: "apply_pending_levels ol_mc0 (\<lambda>_. 40) (ol_disk0 plan0) = (Inl Killed, t)"
    using killed0 by (simp add: t_def prod_eq_iff)
  define u where "u = disk.extend (disk.truncate (ol_disk0 (\<lambda>_. NoFault))\<lparr>mc_up := mc_up t\<rparr>) (disk.more t)"
  have "ops_json t \<noteq> ops0 1" unfolding t_def by code_simp
  moreover have "restarted t u" by (simp add: restarted_def u_def)
  moreover have "able ol_mc0 u"
    using mc0_able [of "\<lambda>_. NoFault" "mc_up t"] by (simp add: u_def able_def)
  moreover have "data_root_ok (ol_disk0 plan0)" "crash_only (ol_disk0 plan0)" "map_of wanted0 [] = None"
    by (simp_all add: ol_disk0_def crash_only_def plan0_def wanted0_def)
  ultimately show ?thesis
    using op_levels_survive_kills [OF disk0_rest _ _ _ killed.in_run [OF run], of u]
    by (intro exI [of _ u]) (simp add: u_def)
qed

subsection \<open>A request that is dropped\<close>



end
