(* ===== verification/Login_Limiter.thy ===== *)
theory Login_Limiter
  imports Effects "HOL-Library.Product_Lexorder" "HOL-Library.List_Lexorder" "HOL-Library.Char_ord"
begin

text \<open>
  The limiter of login attempts, from \<^verbatim>\<open>app/api/login_security.py\<close>: one bucket of recent failures per
  address and user name and one per address, a lease for every password check that is under way.
  A \<open>dict\<close> is an association list in the order of insertion, a \<open>float\<close> a rational. The lock that
  makes each operation one step is not modelled. What \<open>ipaddress\<close> and \<open>str.casefold\<close> make of a text
  are functions of the configuration.
\<close>

record bucket =
  bk_failures :: "rat list"
  bk_blocked_until :: rat
  bk_last_seen :: rat
  bk_in_flight :: int

record lease =
  le_pair :: "string \<times> string"
  le_ip :: string
  le_started :: rat

record limits =
  pair_max_failures :: int
  ip_max_failures :: int
  window_seconds :: rat
  pair_lock_seconds :: rat
  ip_lock_seconds :: rat
  max_pair_keys :: int
  max_ip_keys :: int
  lease_timeout_seconds :: rat
  cleanup_interval_seconds :: rat
  canonical_ip :: "string \<Rightarrow> string option"
  casefold :: "string \<Rightarrow> string"

record limiter =
  pair_buckets :: "((string \<times> string) \<times> bucket) list"
  ip_buckets :: "(string \<times> bucket) list"
  leases :: "(int \<times> lease) list"
  next_token :: int
  last_cleanup :: rat

subsection \<open>Buckets\<close>

definition prepare_bucket :: "limits \<Rightarrow> rat \<Rightarrow> bucket \<Rightarrow> bucket" where
  "prepare_bucket c now b =
     (if bk_blocked_until b \<noteq> 0 \<and> now < bk_blocked_until b then b
      else let b = (if bk_blocked_until b \<noteq> 0 then b\<lparr>bk_blocked_until := 0, bk_failures := []\<rparr> else b) in
        b\<lparr>bk_failures := dropWhile (\<lambda>f. f \<le> now - window_seconds c) (bk_failures b)\<rparr>)"

definition empty_bucket :: "bucket \<Rightarrow> bool" where
  "empty_bucket b \<longleftrightarrow> bk_failures b = [] \<and> bk_blocked_until b = 0 \<and> bk_in_flight b = 0"

definition drop_empty_bucket :: "'k \<Rightarrow> ('k \<times> bucket) list \<Rightarrow> ('k \<times> bucket) list" where
  "drop_empty_bucket k d = (case map_of d k of
       Some b \<Rightarrow> if empty_bucket b then AList.delete k d else d
     | None \<Rightarrow> d)"

text \<open>\<open>min(candidates)\<close>: tuples are compared from the left, and the keys differ.\<close>

definition evictable :: "rat \<Rightarrow> ('k \<times> bucket) list \<Rightarrow> (bool \<times> rat \<times> 'k) list" where
  "evictable now d = map (\<lambda>(k, b). (bk_failures b \<noteq> [], bk_last_seen b, k))
     (filter (\<lambda>(k, b). bk_in_flight b = 0 \<and> bk_blocked_until b \<le> now) d)"

definition new_bucket :: "rat \<Rightarrow> bucket" where
  "new_bucket now = \<lparr>bk_failures = [], bk_blocked_until = 0, bk_last_seen = now, bk_in_flight = 0\<rparr>"

text \<open>\<open>None\<close>: no room for another key.\<close>

definition get_or_create :: "int \<Rightarrow> rat \<Rightarrow> ('k :: linorder) \<Rightarrow> ('k \<times> bucket) list \<Rightarrow> ('k \<times> bucket) list option" where
  "get_or_create limit now k d =
     (if map_of d k \<noteq> None then Some d
      else if int (length d) < limit then Some (d @ [(k, new_bucket now)])
      else (case evictable now d of
          [] \<Rightarrow> None
        | x # xs \<Rightarrow> (case foldl min x xs of (_, _, oldest) \<Rightarrow> Some (AList.delete oldest d @ [(k, new_bucket now)]))))"

subsection \<open>Leases\<close>

definition vacate :: "rat \<Rightarrow> bucket \<Rightarrow> bucket" where
  "vacate now b = b\<lparr>bk_in_flight := max 0 (bk_in_flight b - 1), bk_last_seen := now\<rparr>"

definition release_lease :: "rat \<Rightarrow> lease \<Rightarrow> limiter \<Rightarrow> exn + limiter" where
  "release_lease now l L =
     (if map_of (pair_buckets L) (le_pair l) = None then Inl (KeyError ''pair_buckets'')
      else if map_of (ip_buckets L) (le_ip l) = None then Inl (KeyError ''ip_buckets'')
      else Inr (L\<lparr>pair_buckets := AList.map_entry (le_pair l) (vacate now) (pair_buckets L),
                  ip_buckets := AList.map_entry (le_ip l) (vacate now) (ip_buckets L)\<rparr>))"

definition without_lease :: "int \<Rightarrow> limiter \<Rightarrow> limiter" where
  "without_lease t L = L\<lparr>leases := AList.delete t (leases L)\<rparr>"

fun release_stale :: "rat \<Rightarrow> int list \<Rightarrow> limiter \<Rightarrow> exn + limiter" where
  "release_stale now [] L = Inr L"
| "release_stale now (t # ts) L = (case map_of (leases L) t of
       None \<Rightarrow> Inl (KeyError ''leases'')
     | Some l \<Rightarrow> (case release_lease now l (without_lease t L) of
         Inl e \<Rightarrow> Inl e
       | Inr L' \<Rightarrow> release_stale now ts L'))"

definition sweep :: "limits \<Rightarrow> rat \<Rightarrow> ('k \<times> bucket) list \<Rightarrow> ('k \<times> bucket) list" where
  "sweep c now d = filter (\<lambda>(k, b). \<not> empty_bucket b) (map (\<lambda>(k, b). (k, prepare_bucket c now b)) d)"

definition cleanup_if_due :: "limits \<Rightarrow> rat \<Rightarrow> limiter \<Rightarrow> exn + limiter" where
  "cleanup_if_due c now L =
     (if now - last_cleanup L < cleanup_interval_seconds c then Inr L
      else let stale = map fst (filter (\<lambda>(t, l). lease_timeout_seconds c \<le> now - le_started l) (leases L)) in
        case release_stale now stale (L\<lparr>last_cleanup := now\<rparr>) of
          Inl e \<Rightarrow> Inl e
        | Inr L' \<Rightarrow> Inr (L'\<lparr>pair_buckets := sweep c now (pair_buckets L'), ip_buckets := sweep c now (ip_buckets L')\<rparr>))"

subsection \<open>The operations\<close>

definition normalize_ip :: "limits \<Rightarrow> string \<Rightarrow> string" where
  "normalize_ip c value = (let v = (if strip value = [] then ''unknown'' else strip value) in
     case canonical_ip c v of Some ip \<Rightarrow> ip | None \<Rightarrow> casefold c v)"

definition normalize_username :: "limits \<Rightarrow> string \<Rightarrow> string" where
  "normalize_username c value = take 128 (casefold c (strip value))"

definition full :: "int \<Rightarrow> bucket \<Rightarrow> bool" where
  "full limit b \<longleftrightarrow> limit \<le> int (length (bk_failures b)) + bk_in_flight b"

definition seen_now :: "limits \<Rightarrow> rat \<Rightarrow> bucket \<Rightarrow> bucket" where
  "seen_now c now b = (prepare_bucket c now b)\<lparr>bk_last_seen := now\<rparr>"

definition occupy :: "bucket \<Rightarrow> bucket" where
  "occupy b = b\<lparr>bk_in_flight := bk_in_flight b + 1\<rparr>"

definition refuse_attempt :: "string \<times> string \<Rightarrow> string \<Rightarrow> limiter \<Rightarrow> int option \<times> limiter" where
  "refuse_attempt pair ip L = (None,
     L\<lparr>pair_buckets := drop_empty_bucket pair (pair_buckets L), ip_buckets := drop_empty_bucket ip (ip_buckets L)\<rparr>)"

definition shut :: "int \<Rightarrow> rat \<Rightarrow> bucket option \<Rightarrow> bool" where
  "shut limit now b = (case b of Some b \<Rightarrow> now < bk_blocked_until b \<or> full limit b | None \<Rightarrow> True)"

definition reserve :: "limits \<Rightarrow> rat \<Rightarrow> string \<times> string \<Rightarrow> string \<Rightarrow> limiter \<Rightarrow> int option \<times> limiter" where
  "reserve c now pair ip L =
     (let ps = get_or_create (max_pair_keys c) now pair (pair_buckets L);
          is = get_or_create (max_ip_keys c) now ip (ip_buckets L);
          L1 = L\<lparr>pair_buckets := (case ps of Some d \<Rightarrow> d | None \<Rightarrow> pair_buckets L),
                 ip_buckets := (case is of Some d \<Rightarrow> d | None \<Rightarrow> ip_buckets L)\<rparr> in
      if ps = None \<or> is = None then refuse_attempt pair ip L1
      else let L2 = L1\<lparr>pair_buckets := AList.map_entry pair (seen_now c now) (pair_buckets L1),
                       ip_buckets := AList.map_entry ip (seen_now c now) (ip_buckets L1)\<rparr> in
        if shut (pair_max_failures c) now (map_of (pair_buckets L2) pair) \<or>
           shut (ip_max_failures c) now (map_of (ip_buckets L2) ip) then refuse_attempt pair ip L2
        else (Some (next_token L2),
          L2\<lparr>next_token := next_token L2 + 1,
             pair_buckets := AList.map_entry pair occupy (pair_buckets L2),
             ip_buckets := AList.map_entry ip occupy (ip_buckets L2),
             leases := AList.update (next_token L2) \<lparr>le_pair = pair, le_ip = ip, le_started = now\<rparr> (leases L2)\<rparr>))"

definition begin_attempt :: "limits \<Rightarrow> rat \<Rightarrow> string \<Rightarrow> string \<Rightarrow> limiter \<Rightarrow> exn + (int option \<times> limiter)" where
  "begin_attempt c now client_ip username L =
     (let ip = normalize_ip c client_ip; pair = (ip, normalize_username c username) in
      case cleanup_if_due c now L of
        Inl e \<Rightarrow> Inl e
      | Inr L' \<Rightarrow> Inr (reserve c now pair ip L'))"

text \<open>A failure: the new failure is counted, and the bucket locked if it is one too many.\<close>

definition note_failure :: "limits \<Rightarrow> rat \<Rightarrow> int \<Rightarrow> rat \<Rightarrow> bucket \<Rightarrow> bucket" where
  "note_failure c now limit lock b =
     (let b = prepare_bucket c now b; fs = bk_failures b @ [now] in
      b\<lparr>bk_failures := fs,
        bk_blocked_until := (if limit \<le> int (length fs) then max (bk_blocked_until b) (now + lock) else bk_blocked_until b)\<rparr>)"

definition forget_failures :: "bucket \<Rightarrow> bucket" where
  "forget_failures b = b\<lparr>bk_failures := [], bk_blocked_until := 0\<rparr>"

text \<open>What the three ends of an attempt share: an unknown token changes nothing.\<close>

definition end_attempt :: "rat \<Rightarrow> int \<Rightarrow> (lease \<Rightarrow> limiter \<Rightarrow> limiter) \<Rightarrow> limiter \<Rightarrow> exn + limiter" where
  "end_attempt now t f L = (case map_of (leases L) t of
       None \<Rightarrow> Inr L
     | Some l \<Rightarrow> (case release_lease now l (without_lease t L) of
         Inl e \<Rightarrow> Inl e
       | Inr L' \<Rightarrow> Inr (f l L')))"

definition failure :: "limits \<Rightarrow> rat \<Rightarrow> int \<Rightarrow> limiter \<Rightarrow> exn + limiter" where
  "failure c now t = end_attempt now t (\<lambda>l L.
     L\<lparr>pair_buckets := AList.map_entry (le_pair l) (note_failure c now (pair_max_failures c) (pair_lock_seconds c)) (pair_buckets L),
       ip_buckets := AList.map_entry (le_ip l) (note_failure c now (ip_max_failures c) (ip_lock_seconds c)) (ip_buckets L)\<rparr>)"

definition success :: "limits \<Rightarrow> rat \<Rightarrow> int \<Rightarrow> limiter \<Rightarrow> exn + limiter" where
  "success c now t = end_attempt now t (\<lambda>l L.
     L\<lparr>pair_buckets := drop_empty_bucket (le_pair l) (AList.map_entry (le_pair l) forget_failures (pair_buckets L)),
       ip_buckets := drop_empty_bucket (le_ip l) (AList.map_entry (le_ip l) (prepare_bucket c now) (ip_buckets L))\<rparr>)"

definition cancel_attempt :: "rat \<Rightarrow> int \<Rightarrow> limiter \<Rightarrow> exn + limiter" where
  "cancel_attempt now t = end_attempt now t (\<lambda>l L.
     L\<lparr>pair_buckets := drop_empty_bucket (le_pair l) (pair_buckets L),
       ip_buckets := drop_empty_bucket (le_ip l) (ip_buckets L)\<rparr>)"

definition invalid_limits :: "limits \<Rightarrow> string list" where
  "invalid_limits c = map fst (filter (\<lambda>(name, v). v \<le> 0)
     [(''pair_max_failures'', of_int (pair_max_failures c)), (''ip_max_failures'', of_int (ip_max_failures c)),
      (''window_seconds'', window_seconds c), (''pair_lock_seconds'', pair_lock_seconds c), (''ip_lock_seconds'', ip_lock_seconds c),
      (''max_pair_keys'', of_int (max_pair_keys c)), (''max_ip_keys'', of_int (max_ip_keys c)),
      (''lease_timeout_seconds'', lease_timeout_seconds c)])"

definition new_limiter :: "limits \<Rightarrow> exn + limiter" where
  "new_limiter c =
     (if invalid_limits c \<noteq> [] \<or> cleanup_interval_seconds c < 0
      then Inl (ValueError (''parametre(s) du limiteur invalide(s) : '' @
        join '', '' (if invalid_limits c \<noteq> [] then invalid_limits c else [''cleanup_interval_seconds''])))
      else Inr \<lparr>pair_buckets = [], ip_buckets = [], leases = [], next_token = 1, last_cleanup = 0\<rparr>)"

subsection \<open>What a table of buckets keeps\<close>

text \<open>
  \<open>n\<close> is the number of leases for the key of the bucket: the bucket counts them, failures and
  leases stay below the limit together, and a locked bucket has none.
\<close>

definition bucket_ok :: "int \<Rightarrow> int \<Rightarrow> bucket \<Rightarrow> bool" where
  "bucket_ok limit n b \<longleftrightarrow> bk_in_flight b = n \<and> int (length (bk_failures b)) + n \<le> limit \<and> (bk_blocked_until b \<noteq> 0 \<longrightarrow> n = 0)"

fun entry_ok :: "int \<Rightarrow> int \<Rightarrow> bucket option \<Rightarrow> bool" where
  "entry_ok limit n None = (n = 0)"
| "entry_ok limit n (Some b) = bucket_ok limit n b"

definition table_ok :: "int \<Rightarrow> int \<Rightarrow> ('k \<Rightarrow> int) \<Rightarrow> ('k \<times> bucket) list \<Rightarrow> bool" where
  "table_ok limit room n d \<longleftrightarrow> distinct (map fst d) \<and> int (length d) \<le> room \<and> (\<forall>k. entry_ok limit (n k) (map_of d k))"

definition held :: "rat \<Rightarrow> 'k \<Rightarrow> ('k \<times> bucket) list \<Rightarrow> bool" where
  "held until k d = (case map_of d k of Some b \<Rightarrow> 0 < until \<and> until \<le> bk_blocked_until b | None \<Rightarrow> False)"

lemma prepare_ok: "bucket_ok limit n b \<Longrightarrow> bucket_ok limit n (prepare_bucket c now b)"
  using length_dropWhile_le [of "\<lambda>f. f \<le> now - window_seconds c" "bk_failures b"]
  by (auto simp: bucket_ok_def prepare_bucket_def Let_def)

lemma prepare_held: "now < until \<Longrightarrow> 0 < until \<Longrightarrow> until \<le> bk_blocked_until b \<Longrightarrow> prepare_bucket c now b = b"
  by (simp add: prepare_bucket_def)

lemma length_map_entry [simp]: "length (AList.map_entry k f d) = length d"
  by (induction d) auto

lemma keys_map_entry [simp]: "map fst (AList.map_entry k f d) = map fst d"
  by (induction d) auto

lemma map_of_entry: "map_of (AList.map_entry k f d) j = (if j = k then map_option f (map_of d k) else map_of d j)"
  by (simp add: AList.map_of_map_entry split: option.split)

lemma table_entryD: "table_ok limit room n d \<Longrightarrow> entry_ok limit (n k) (map_of d k)"
  and table_distinct: "table_ok limit room n d \<Longrightarrow> distinct (map fst d)"
  and table_length: "table_ok limit room n d \<Longrightarrow> int (length d) \<le> room"
  by (simp_all add: table_ok_def)

lemma table_count: "table_ok limit room n d \<Longrightarrow> map_of d k = Some b \<Longrightarrow> bucket_ok limit (n k) b"
  by (drule table_entryD [of _ _ _ _ k]) simp

lemma table_absent: "table_ok limit room n d \<Longrightarrow> map_of d k = None \<Longrightarrow> n k = 0"
  by (drule table_entryD [of _ _ _ _ k]) simp

lemma table_entry:
  assumes "table_ok limit room n d" and "\<And>b. map_of d k = Some b \<Longrightarrow> bucket_ok limit (n k) b \<Longrightarrow> bucket_ok limit (n' k) (f b)"
    and "\<And>j. j \<noteq> k \<Longrightarrow> n' j = n j" and "map_of d k = None \<Longrightarrow> n' k = n k"
  shows "table_ok limit room n' (AList.map_entry k f d)"
proof -
  have "entry_ok limit (n' j) (map_of (AList.map_entry k f d) j)" for j
    using assms(3) [of j] assms(4) table_entryD [OF assms(1), of j] assms(2) table_count [OF assms(1)]
    by (cases "j = k"; cases "map_of d k") (auto simp: map_of_entry)
  with assms(1) show ?thesis by (simp add: table_ok_def)
qed

lemma table_same: "table_ok limit room n d \<Longrightarrow> (\<And>b. bucket_ok limit (n k) b \<Longrightarrow> bucket_ok limit (n k) (f b)) \<Longrightarrow>
    table_ok limit room n (AList.map_entry k f d)"
  by (rule table_entry) auto

lemma length_delete: "distinct (map fst d) \<Longrightarrow> k \<in> fst ` set d \<Longrightarrow> Suc (length (AList.delete k d)) = length d"
proof (induction d)
  case (Cons p d)
  have "k \<notin> fst ` set d \<Longrightarrow> AList.delete k d = d" by (induction d) auto
  with Cons show ?case by (cases p) auto
qed simp

lemma distinct_delete: "distinct (map fst d) \<Longrightarrow> distinct (map fst (AList.delete k d))"
  by (simp add: AList.distinct_delete)

lemma length_delete_le: "length (AList.delete k d) \<le> length d"
  by (simp add: AList.delete_eq)

lemma table_delete:
  assumes "table_ok limit room n d" and "n k = 0"
  shows "table_ok limit room n (AList.delete k d)"
proof -
  have "entry_ok limit (n j) (map_of (AList.delete k d) j)" for j
    using table_entryD [OF assms(1), of j] assms(2) by (cases "j = k") simp_all
  with assms(1) length_delete_le [of k d] show ?thesis by (simp add: table_ok_def distinct_delete)
qed

lemma table_drop:
  assumes "table_ok limit room n d"
  shows "table_ok limit room n (drop_empty_bucket k d)"
proof (cases "map_of d k")
  case (Some b)
  then show ?thesis using assms table_count [OF assms Some] table_delete [OF assms, of k]
    by (simp add: drop_empty_bucket_def empty_bucket_def bucket_ok_def)
qed (use assms in \<open>simp add: drop_empty_bucket_def\<close>)

definition swept :: "limits \<Rightarrow> rat \<Rightarrow> bucket option \<Rightarrow> bucket option" where
  "swept c now x = (case x of None \<Rightarrow> None
     | Some b \<Rightarrow> if empty_bucket (prepare_bucket c now b) then None else Some (prepare_bucket c now b))"

lemma sweep_keys: "fst ` set (sweep c now d) \<subseteq> fst ` set d"
  by (force simp: sweep_def)

lemma sweep_map_of: "distinct (map fst d) \<Longrightarrow> map_of (sweep c now d) k = swept c now (map_of d k)"
proof (induction d)
  case (Cons p d)
  obtain j b where p: "p = (j, b)" by fastforce
  have "map_of (sweep c now d) j = None" using Cons.prems sweep_keys [of c now d] p by (auto simp: map_of_eq_None_iff)
  with Cons p show ?case by (cases "j = k") (auto simp: sweep_def swept_def)
qed (simp add: sweep_def swept_def)

lemma table_sweep:
  assumes "table_ok limit room n d"
  shows "table_ok limit room n (sweep c now d)"
proof -
  have d: "distinct (map fst d)" using assms by (rule table_distinct)
  have "distinct (map fst (sweep c now d))"
    using d unfolding sweep_def by (induction d) (auto simp: image_iff)
  moreover have "length (sweep c now d) \<le> length d"
    unfolding sweep_def using length_filter_le [of _ "map (\<lambda>(k, b). (k, prepare_bucket c now b)) d"] by simp
  moreover have "entry_ok limit (n k) (map_of (sweep c now d) k)" for k
  proof (cases "map_of d k")
    case None
    with assms sweep_map_of [OF d, of c now k] show ?thesis by (simp add: swept_def table_absent)
  next
    case (Some b)
    from prepare_ok [OF table_count [OF assms Some]] Some sweep_map_of [OF d, of c now k]
    show ?thesis by (simp add: swept_def empty_bucket_def bucket_ok_def)
  qed
  ultimately show ?thesis using table_length [OF assms] by (simp add: table_ok_def)
qed

lemma foldl_min_in: "foldl min x xs \<in> insert x (set xs)"
  by (induction xs arbitrary: x) (auto simp: min_def)

text \<open>What is evicted has no lease and no lock that still runs.\<close>

lemma created:
  assumes "get_or_create limit now k d = Some d'" "distinct (map fst d)"
  obtains "d' = d" "map_of d k \<noteq> None"
  | "d' = d @ [(k, new_bucket now)]" "map_of d k = None" "int (length d) < limit"
  | j b where "d' = AList.delete j d @ [(k, new_bucket now)]" "map_of d k = None" "map_of d j = Some b"
      "bk_in_flight b = 0" "bk_blocked_until b \<le> now"
proof -
  consider (found) "map_of d k \<noteq> None" | (room) "map_of d k = None" "int (length d) < limit"
    | (full) "map_of d k = None" "\<not> int (length d) < limit" by blast
  then show ?thesis
  proof cases
    case full
    with assms(1) obtain x xs j where e: "evictable now d = x # xs" and j: "snd (snd (foldl min x xs)) = j"
      and d': "d' = AList.delete j d @ [(k, new_bucket now)]"
      by (auto simp: get_or_create_def split: list.splits prod.splits)
    from foldl_min_in [of x xs] have "foldl min x xs \<in> set (evictable now d)" by (simp add: e)
    with j obtain b where b: "(j, b) \<in> set d" "bk_in_flight b = 0" "bk_blocked_until b \<le> now"
      by (auto simp: evictable_def)
    from map_of_is_SomeI [OF assms(2) b(1)] show ?thesis by (rule that(3) [OF d' full(1) _ b(2,3)])
  qed (use assms(1) that(1,2) in \<open>simp_all add: get_or_create_def\<close>)
qed

lemma map_of_appended: "map_of d k = None \<Longrightarrow> map_of (d @ [(k, v)]) = (map_of d)(k \<mapsto> v)"
  by (auto simp: map_add_def fun_eq_iff split: option.split)

lemma table_append:
  assumes "table_ok limit room n d" "map_of d k = None" "int (length d) < room" "0 \<le> limit"
  shows "table_ok limit room n (d @ [(k, new_bucket now)])"
proof -
  have "entry_ok limit (n j) (map_of (d @ [(k, new_bucket now)]) j)" for j
    using table_entryD [OF assms(1), of j] table_absent [OF assms(1,2)] assms(4)
    unfolding map_of_appended [OF assms(2)] by (simp add: bucket_ok_def new_bucket_def)
  moreover have "distinct (map fst (d @ [(k, new_bucket now)]))"
    using table_distinct [OF assms(1)] assms(2) by (simp add: map_of_eq_None_iff)
  ultimately show ?thesis using assms(3) by (simp add: table_ok_def)
qed

lemma table_create:
  assumes "table_ok limit room n d" "get_or_create room now k d = Some d'" "0 \<le> limit"
  shows "table_ok limit room n d'" and "map_of d' k \<noteq> None"
proof -
  have dist: "distinct (map fst d)" using assms(1) by (simp add: table_ok_def)
  show "table_ok limit room n d'"
    using assms(2) dist
  proof (cases rule: created)
    case 1
    then show ?thesis using assms(1) by simp
  next
    case 2
    from table_append [OF assms(1) 2(2,3) assms(3)] 2(1) show ?thesis by simp
  next
    case (3 j b)
    have "n j = 0" using table_count [OF assms(1) 3(3)] 3(4) by (simp add: bucket_ok_def)
    then have t: "table_ok limit room n (AList.delete j d)" by (rule table_delete [OF assms(1)])
    have "j \<in> fst ` set d" using map_of_SomeD [OF 3(3)] by (rule rev_image_eqI) simp
    from length_delete [OF dist this] assms(1) have "int (length (AList.delete j d)) < room" by (simp add: table_ok_def)
    with t 3(1,2) show ?thesis using table_append [OF t _ _ assms(3)] by simp
  qed
  show "map_of d' k \<noteq> None"
    using assms(2) dist by (cases rule: created) (simp_all add: map_of_appended)
qed

subsubsection \<open>Locks\<close>

lemma held_entry: "held until k d \<Longrightarrow> (\<And>b. until \<le> bk_blocked_until b \<Longrightarrow> until \<le> bk_blocked_until (f b)) \<Longrightarrow>
    held until k (AList.map_entry j f d)"
  by (auto simp: held_def map_of_entry split: option.splits)

lemma held_other: "held until k d \<Longrightarrow> j \<noteq> k \<Longrightarrow> held until k (AList.map_entry j f d)"
  by (simp add: held_def map_of_entry)

lemma held_drop: "held until k d \<Longrightarrow> held until k (drop_empty_bucket j d)"
  by (auto simp: held_def drop_empty_bucket_def empty_bucket_def split: option.splits)

lemma held_sweep: "held until k d \<Longrightarrow> now < until \<Longrightarrow> distinct (map fst d) \<Longrightarrow> held until k (sweep c now d)"
  unfolding held_def sweep_map_of
  by (cases "map_of d k") (simp_all add: swept_def prepare_held empty_bucket_def)

lemma held_append: "held until k d \<Longrightarrow> held until k (d @ [(j, v)])"
  unfolding held_def by (cases "map_of d k") (simp_all add: map_add_def)

lemma held_delete: "held until k d \<Longrightarrow> i \<noteq> k \<Longrightarrow> held until k (AList.delete i d)"
  by (simp add: held_def)

lemma held_create:
  assumes "held until k d" "get_or_create room now j d = Some d'" "now < until" "distinct (map fst d)"
  shows "held until k d'"
  using assms(2,4)
proof (cases rule: created)
  case (3 i b)
  have "i \<noteq> k" using assms(1,3) 3(3,5) by (auto simp: held_def simp del: map_of_eq_Some_iff)
  with assms(1) 3(1) show ?thesis by (simp add: held_append held_delete)
qed (use assms(1) in \<open>simp_all add: held_append\<close>)

lemma held_prepare: "now < until \<Longrightarrow> 0 < until \<Longrightarrow> until \<le> bk_blocked_until b \<Longrightarrow> until \<le> bk_blocked_until (prepare_bucket c now b)"
  by (simp add: prepare_held)

subsection \<open>The limiter\<close>

definition pair_count :: "(int \<times> lease) list \<Rightarrow> string \<times> string \<Rightarrow> int" where
  "pair_count ls k = int (length (filter (\<lambda>x. le_pair (snd x) = k) ls))"

definition ip_count :: "(int \<times> lease) list \<Rightarrow> string \<Rightarrow> int" where
  "ip_count ls k = int (length (filter (\<lambda>x. le_ip (snd x) = k) ls))"

definition limits_ok :: "limits \<Rightarrow> bool" where
  "limits_ok c \<longleftrightarrow> 0 < pair_max_failures c \<and> 0 < ip_max_failures c \<and> 0 < pair_lock_seconds c \<and> 0 < ip_lock_seconds c"

definition limiter_ok :: "limits \<Rightarrow> limiter \<Rightarrow> bool" where
  "limiter_ok c L \<longleftrightarrow> distinct (map fst (leases L)) \<and> (\<forall>x \<in> set (leases L). fst x < next_token L) \<and>
     table_ok (pair_max_failures c) (max_pair_keys c) (pair_count (leases L)) (pair_buckets L) \<and>
     table_ok (ip_max_failures c) (max_ip_keys c) (ip_count (leases L)) (ip_buckets L)"

text \<open>Taking a lease away lowers the count of its keys by one, and only those.\<close>

lemma count_delete:
  assumes "distinct (map fst ls)" "map_of ls t = Some l"
  shows "int (length (filter (\<lambda>x. Q (snd x)) ls)) =
    int (length (filter (\<lambda>x. Q (snd x)) (AList.delete t ls))) + (if Q l then 1 else 0)"
  using assms
proof (induction ls)
  case (Cons p ls)
  have "t \<notin> fst ` set ls \<Longrightarrow> AList.delete t ls = ls" by (induction ls) auto
  with Cons show ?case by (cases p) (auto split: if_splits)
qed simp

lemma vacate_ok: "bucket_ok limit (n + 1) b \<Longrightarrow> 0 \<le> n \<Longrightarrow> bucket_ok limit n (vacate now b)"
  by (auto simp: bucket_ok_def vacate_def)

text \<open>The bucket of a lease that was just given back has room for its failure.\<close>

definition has_room :: "int \<Rightarrow> bucket option \<Rightarrow> bool" where
  "has_room limit x = (case x of Some b \<Rightarrow> int (length (bk_failures b)) + bk_in_flight b < limit \<and> bk_blocked_until b = 0 | None \<Rightarrow> False)"

lemma vacated_room: "bucket_ok limit (n + 1) b \<Longrightarrow> 0 \<le> n \<Longrightarrow> has_room limit (Some (vacate now b))"
  by (auto simp: bucket_ok_def vacate_def has_room_def)

lemma release_ok:
  assumes "limiter_ok c L" "map_of (leases L) t = Some l"
  obtains L' where "release_lease now l (without_lease t L) = Inr L'" "limiter_ok c L'"
    "leases L' = AList.delete t (leases L)" "next_token L' = next_token L" "last_cleanup L' = last_cleanup L"
    "pair_buckets L' = AList.map_entry (le_pair l) (vacate now) (pair_buckets L)"
    "ip_buckets L' = AList.map_entry (le_ip l) (vacate now) (ip_buckets L)"
    "has_room (pair_max_failures c) (map_of (pair_buckets L') (le_pair l))" "has_room (ip_max_failures c) (map_of (ip_buckets L') (le_ip l))"
proof -
  let ?ls = "AList.delete t (leases L)"
  let ?L = "L\<lparr>leases := ?ls, pair_buckets := AList.map_entry (le_pair l) (vacate now) (pair_buckets L),
     ip_buckets := AList.map_entry (le_ip l) (vacate now) (ip_buckets L)\<rparr>"
  have dist: "distinct (map fst (leases L))"
    and p: "table_ok (pair_max_failures c) (max_pair_keys c) (pair_count (leases L)) (pair_buckets L)"
    and i: "table_ok (ip_max_failures c) (max_ip_keys c) (ip_count (leases L)) (ip_buckets L)"
    using assms(1) by (simp_all add: limiter_ok_def)
  have pc: "pair_count (leases L) k = pair_count ?ls k + (if le_pair l = k then 1 else 0)" for k
    unfolding pair_count_def by (rule count_delete [OF dist assms(2)])
  have ic: "ip_count (leases L) k = ip_count ?ls k + (if le_ip l = k then 1 else 0)" for k
    unfolding ip_count_def by (rule count_delete [OF dist assms(2)])
  have pos: "0 < pair_count (leases L) (le_pair l)" "0 < ip_count (leases L) (le_ip l)"
    using pc [of "le_pair l"] ic [of "le_ip l"] by (simp_all add: pair_count_def ip_count_def)
  have found: "map_of (pair_buckets L) (le_pair l) \<noteq> None" "map_of (ip_buckets L) (le_ip l) \<noteq> None"
    using table_absent [OF p, of "le_pair l"] table_absent [OF i, of "le_ip l"] pos by auto
  obtain b b' where b: "map_of (pair_buckets L) (le_pair l) = Some b" "map_of (ip_buckets L) (le_ip l) = Some b'" using found by blast
  have room: "has_room (pair_max_failures c) (Some (vacate now b))" "has_room (ip_max_failures c) (Some (vacate now b'))"
    using table_count [OF p b(1)] table_count [OF i b(2)] pc [of "le_pair l"] ic [of "le_ip l"]
    by (auto intro!: vacated_room simp: pair_count_def ip_count_def)
  have "table_ok (pair_max_failures c) (max_pair_keys c) (pair_count ?ls)
      (AList.map_entry (le_pair l) (vacate now) (pair_buckets L))"
    by (rule table_entry [OF p]) (use pc pos found vacate_ok in \<open>auto\<close>)
  moreover have "table_ok (ip_max_failures c) (max_ip_keys c) (ip_count ?ls)
      (AList.map_entry (le_ip l) (vacate now) (ip_buckets L))"
    by (rule table_entry [OF i]) (use ic pos found vacate_ok in \<open>auto\<close>)
  moreover have "\<forall>x \<in> set ?ls. fst x < next_token L"
    using assms(1) set_delete_alist [of t "leases L"] by (auto simp: limiter_ok_def)
  ultimately have "limiter_ok c ?L" using dist by (simp add: limiter_ok_def distinct_delete)
  then show ?thesis using b room
    by (intro that [of ?L]) (simp_all add: release_lease_def without_lease_def map_of_entry del: map_of_eq_Some_iff)
qed

text \<open>Both tables changed in a way that respects the counts.\<close>

lemma limiter_tables:
  assumes "limiter_ok c L"
    and "table_ok (pair_max_failures c) (max_pair_keys c) (pair_count (leases L)) (pair_buckets L) \<Longrightarrow>
      table_ok (pair_max_failures c) (max_pair_keys c) (pair_count (leases L)) ps"
    and "table_ok (ip_max_failures c) (max_ip_keys c) (ip_count (leases L)) (ip_buckets L) \<Longrightarrow>
      table_ok (ip_max_failures c) (max_ip_keys c) (ip_count (leases L)) is"
  shows "limiter_ok c (L\<lparr>pair_buckets := ps, ip_buckets := is\<rparr>)"
  using assms by (simp add: limiter_ok_def)

lemma release_stale_ok:
  assumes "limiter_ok c L" "distinct ts" "set ts \<subseteq> fst ` set (leases L)"
  shows "\<exists>L'. release_stale now ts L = Inr L' \<and> limiter_ok c L' \<and> last_cleanup L' = last_cleanup L \<and>
    (\<forall>k until. held until k (pair_buckets L) \<longrightarrow> held until k (pair_buckets L'))"
  using assms
proof (induction ts arbitrary: L)
  case (Cons t ts)
  then obtain l where l: "map_of (leases L) t = Some l" by (cases "map_of (leases L) t") (auto simp: map_of_eq_None_iff)
  from release_ok [OF Cons.prems(1) l, of now] obtain L' where L': "release_lease now l (without_lease t L) = Inr L'" "limiter_ok c L'"
    "leases L' = AList.delete t (leases L)" "last_cleanup L' = last_cleanup L"
    "pair_buckets L' = AList.map_entry (le_pair l) (vacate now) (pair_buckets L)" by metis
  have "set ts \<subseteq> fst ` set (leases L')"
    using Cons.prems(2,3) L'(3) by (fastforce simp: AList.delete_eq)
  from Cons.IH [OF L'(2) _ this] Cons.prems(2) obtain L'' where L'': "release_stale now ts L' = Inr L''" "limiter_ok c L''"
    "last_cleanup L'' = last_cleanup L'" "\<And>k until. held until k (pair_buckets L') \<Longrightarrow> held until k (pair_buckets L'')" by auto
  have "held until k (pair_buckets L'')" if "held until k (pair_buckets L)" for k until
    using held_entry [OF that, of "vacate now" "le_pair l"] L''(4) by (simp add: L'(5) vacate_def)
  with l L' L'' show ?case by simp
qed simp

lemma cleanup_ok:
  assumes "limiter_ok c L"
  obtains L' where "cleanup_if_due c now L = Inr L'" "limiter_ok c L'"
    "\<And>k until. held until k (pair_buckets L) \<Longrightarrow> now < until \<Longrightarrow> held until k (pair_buckets L')"
proof (cases "now - last_cleanup L < cleanup_interval_seconds c")
  case True
  then show ?thesis using assms by (intro that [of L]) (simp_all add: cleanup_if_due_def)
next
  case False
  let ?L = "L\<lparr>last_cleanup := now\<rparr>"
  let ?stale = "map fst (filter (\<lambda>(t, l). lease_timeout_seconds c \<le> now - le_started l) (leases L))"
  have ok: "limiter_ok c ?L" using assms by (simp add: limiter_ok_def)
  have "distinct ?stale" using assms by (auto simp: limiter_ok_def distinct_map_filter)
  moreover have "set ?stale \<subseteq> fst ` set (leases ?L)" by auto
  ultimately obtain L' where L': "release_stale now ?stale ?L = Inr L'" "limiter_ok c L'"
    "\<And>k until. held until k (pair_buckets L) \<Longrightarrow> held until k (pair_buckets L')"
    using release_stale_ok [OF ok, of ?stale now] by auto
  let ?L' = "L'\<lparr>pair_buckets := sweep c now (pair_buckets L'), ip_buckets := sweep c now (ip_buckets L')\<rparr>"
  have "limiter_ok c ?L'" using L'(2) by (rule limiter_tables) (rule table_sweep, assumption)+
  moreover have "distinct (map fst (pair_buckets L'))" using L'(2) by (auto simp: limiter_ok_def intro: table_distinct)
  ultimately show ?thesis using False L'(1,3)
    by (intro that [of ?L']) (simp_all add: cleanup_if_due_def held_sweep)
qed

subsubsection \<open>Beginning an attempt\<close>

lemma seen_ok: "bucket_ok limit n b \<Longrightarrow> bucket_ok limit n (seen_now c now b)"
  using prepare_ok [of limit n b c now] by (simp add: seen_now_def bucket_ok_def)

lemma occupy_ok: "bucket_ok limit n b \<Longrightarrow> \<not> shut limit now (Some b) \<Longrightarrow> bk_blocked_until b = 0 \<Longrightarrow> bucket_ok limit (n + 1) (occupy b)"
  by (auto simp: bucket_ok_def shut_def full_def occupy_def)

text \<open>A prepared bucket that is not locked has no lock left.\<close>

lemma seen_unlocked: "\<not> now < bk_blocked_until (seen_now c now b) \<Longrightarrow> bk_blocked_until (seen_now c now b) = 0"
  by (auto simp: seen_now_def prepare_bucket_def Let_def split: if_splits)

lemma refuse_ok: "limiter_ok c L \<Longrightarrow> limiter_ok c (snd (refuse_attempt pair ip L))"
  unfolding refuse_attempt_def by (auto intro!: limiter_tables table_drop)

lemma refuse_held: "held until k (pair_buckets L) \<Longrightarrow> held until k (pair_buckets (snd (refuse_attempt pair ip L)))"
  by (simp add: refuse_attempt_def held_drop)

lemma count_update:
  assumes "t \<notin> fst ` set ls"
  shows "pair_count (AList.update t l ls) k = pair_count ls k + (if k = le_pair l then 1 else 0)"
    and "ip_count (AList.update t l ls) i = ip_count ls i + (if i = le_ip l then 1 else 0)"
proof -
  have "AList.update t l ls = ls @ [(t, l)]" using assms by (induction ls) auto
  then show "pair_count (AList.update t l ls) k = pair_count ls k + (if k = le_pair l then 1 else 0)"
    "ip_count (AList.update t l ls) i = ip_count ls i + (if i = le_ip l then 1 else 0)"
    by (simp_all add: pair_count_def ip_count_def)
qed

lemma reserve_cases:
  fixes c now pair ip L
  defines "ps \<equiv> get_or_create (max_pair_keys c) now pair (pair_buckets L)"
    and "is \<equiv> get_or_create (max_ip_keys c) now ip (ip_buckets L)"
  defines "seen \<equiv> \<lambda>d e. L\<lparr>pair_buckets := AList.map_entry pair (seen_now c now) d, ip_buckets := AList.map_entry ip (seen_now c now) e\<rparr>"
  obtains (no_room) "ps = None \<or> is = None" "reserve c now pair ip L = refuse_attempt pair ip
      (L\<lparr>pair_buckets := (case ps of Some d \<Rightarrow> d | None \<Rightarrow> pair_buckets L), ip_buckets := (case is of Some d \<Rightarrow> d | None \<Rightarrow> ip_buckets L)\<rparr>)"
  | (limited) d e where "ps = Some d" "is = Some e" "reserve c now pair ip L = refuse_attempt pair ip (seen d e)"
  | (granted) d e where "ps = Some d" "is = Some e"
      "\<not> shut (pair_max_failures c) now (map_of (pair_buckets (seen d e)) pair)"
      "\<not> shut (ip_max_failures c) now (map_of (ip_buckets (seen d e)) ip)"
      "reserve c now pair ip L = (Some (next_token L), L\<lparr>next_token := next_token L + 1,
        pair_buckets := AList.map_entry pair occupy (pair_buckets (seen d e)),
        ip_buckets := AList.map_entry ip occupy (ip_buckets (seen d e)),
        leases := AList.update (next_token L) \<lparr>le_pair = pair, le_ip = ip, le_started = now\<rparr> (leases L)\<rparr>)"
proof (cases "ps = None \<or> is = None")
  case True
  show ?thesis by (rule no_room [OF True]) (use True in \<open>simp add: reserve_def Let_def ps_def is_def\<close>)
next
  case False
  then obtain d e where de: "ps = Some d" "is = Some e" by (cases ps; cases "is") auto
  have r: "reserve c now pair ip L = (if shut (pair_max_failures c) now (map_of (pair_buckets (seen d e)) pair) \<or>
        shut (ip_max_failures c) now (map_of (ip_buckets (seen d e)) ip) then refuse_attempt pair ip (seen d e)
      else (Some (next_token L), L\<lparr>next_token := next_token L + 1,
        pair_buckets := AList.map_entry pair occupy (pair_buckets (seen d e)),
        ip_buckets := AList.map_entry ip occupy (ip_buckets (seen d e)),
        leases := AList.update (next_token L) \<lparr>le_pair = pair, le_ip = ip, le_started = now\<rparr> (leases L)\<rparr>))"
    using de by (simp add: reserve_def Let_def ps_def is_def seen_def)
  show ?thesis
  proof (cases "shut (pair_max_failures c) now (map_of (pair_buckets (seen d e)) pair) \<or>
      shut (ip_max_failures c) now (map_of (ip_buckets (seen d e)) ip)")
    case True
    show ?thesis by (rule limited [OF de]) (use r True in simp)
  next
    case False
    show ?thesis by (rule granted [OF de]) (use r False in simp_all)
  qed
qed

lemma granted_table:
  assumes "table_ok limit room n d" "map_of d k \<noteq> None" "\<not> shut limit now (map_of (AList.map_entry k (seen_now c now) d) k)"
    and "\<And>j. n' j = n j + (if j = k then 1 else 0)"
  shows "table_ok limit room n' (AList.map_entry k occupy (AList.map_entry k (seen_now c now) d))"
proof (rule table_entry)
  show "table_ok limit room n (AList.map_entry k (seen_now c now) d)" by (rule table_same [OF assms(1) seen_ok])
  fix b assume b: "map_of (AList.map_entry k (seen_now c now) d) k = Some b" "bucket_ok limit (n k) b"
  then obtain b0 where "b = seen_now c now b0" by (auto simp: map_of_entry)
  with assms(3) b(1) have "bk_blocked_until b = 0" by (auto simp: shut_def intro: seen_unlocked)
  from occupy_ok [OF b(2) _ this, of now] assms(3,4) b(1) show "bucket_ok limit (n' k) (occupy b)" by simp
qed (use assms(2,4) in \<open>auto simp: map_of_entry\<close>)

lemma reserve_ok:
  assumes "limiter_ok c L" "limits_ok c"
  shows "limiter_ok c (snd (reserve c now pair ip L))"
proof -
  have p: "table_ok (pair_max_failures c) (max_pair_keys c) (pair_count (leases L)) (pair_buckets L)"
    and i: "table_ok (ip_max_failures c) (max_ip_keys c) (ip_count (leases L)) (ip_buckets L)"
    and fresh: "next_token L \<notin> fst ` set (leases L)" using assms(1) by (auto simp: limiter_ok_def)
  have pos: "0 \<le> pair_max_failures c" "0 \<le> ip_max_failures c" using assms(2) by (simp_all add: limits_ok_def)
  show ?thesis
  proof (cases rule: reserve_cases [of c now pair L ip])
    case no_room
    show ?thesis unfolding no_room(2)
      by (rule refuse_ok [OF limiter_tables [OF assms(1)]])
        (auto split: option.split intro: table_create(1) [OF p _ pos(1)] table_create(1) [OF i _ pos(2)])
  next
    case (limited d e)
    note d = table_create(1) [OF p limited(1) pos(1)] and e = table_create(1) [OF i limited(2) pos(2)]
    show ?thesis unfolding limited(3)
      by (rule refuse_ok [OF limiter_tables [OF assms(1)]]) (rule table_same [OF d seen_ok] table_same [OF e seen_ok], assumption)+
  next
    case (granted d e)
    note d = table_create [OF p granted(1) pos(1)] and e = table_create [OF i granted(2) pos(2)]
    let ?ls = "AList.update (next_token L) \<lparr>le_pair = pair, le_ip = ip, le_started = now\<rparr> (leases L)"
    have "table_ok (pair_max_failures c) (max_pair_keys c) (pair_count ?ls)
        (AList.map_entry pair occupy (AList.map_entry pair (seen_now c now) d))"
      using granted(3) by (intro granted_table [OF d]) (simp_all add: count_update [OF fresh])
    moreover have "table_ok (ip_max_failures c) (max_ip_keys c) (ip_count ?ls)
        (AList.map_entry ip occupy (AList.map_entry ip (seen_now c now) e))"
      using granted(4) by (intro granted_table [OF e]) (simp_all add: count_update [OF fresh])
    moreover have "distinct (map fst ?ls)" using assms(1) by (simp add: limiter_ok_def AList.distinct_update)
    moreover have "\<forall>x \<in> set ?ls. fst x < next_token L + 1"
    proof
      fix x assume "x \<in> set ?ls"
      with set_update_alist [of "next_token L" _ "leases L"] have "fst x = next_token L \<or> x \<in> set (leases L)" by fastforce
      with assms(1) show "fst x < next_token L + 1" by (auto simp: limiter_ok_def)
    qed
    ultimately show ?thesis unfolding granted(5) by (simp add: limiter_ok_def)
  qed
qed

lemma held_seen: "held until k d \<Longrightarrow> now < until \<Longrightarrow> held until k (AList.map_entry j (seen_now c now) d)"
  by (auto simp: held_def map_of_entry seen_now_def prepare_held split: option.splits)

lemma reserve_held:
  assumes "held until k (pair_buckets L)" "now < until" "distinct (map fst (pair_buckets L))"
  shows "held until k (pair_buckets (snd (reserve c now pair ip L)))"
    and "pair = k \<Longrightarrow> fst (reserve c now pair ip L) = None"
proof -
  have create: "held until k d" if "get_or_create (max_pair_keys c) now pair (pair_buckets L) = Some d" for d
    using held_create [OF assms(1) that assms(2,3)] .
  show "held until k (pair_buckets (snd (reserve c now pair ip L)))"
  proof (cases rule: reserve_cases [of c now pair L ip])
    case no_room
    show ?thesis unfolding no_room(2) using assms(1) create by (intro refuse_held) (auto split: option.split)
  next
    case (limited d e)
    show ?thesis unfolding limited(3) using create [OF limited(1)] assms(2) by (intro refuse_held) (simp add: held_seen)
  next
    case (granted d e)
    have "held until k (AList.map_entry pair occupy (AList.map_entry pair (seen_now c now) d))"
      by (rule held_entry [OF held_seen [OF create [OF granted(1)] assms(2)]]) (simp add: occupy_def)
    then show ?thesis unfolding granted(5) by simp
  qed
  show "fst (reserve c now pair ip L) = None" if "pair = k"
  proof (cases rule: reserve_cases [of c now pair L ip])
    case (granted d e)
    have "held until k (AList.map_entry pair (seen_now c now) d)" by (rule held_seen [OF create [OF granted(1)] assms(2)])
    with granted(3) assms(2) that show ?thesis by (auto simp: held_def shut_def split: option.splits)
  qed (simp_all add: refuse_attempt_def)
qed

lemma begin_ok:
  assumes "limiter_ok c L" "limits_ok c"
  obtains r L' where "begin_attempt c now ip user L = Inr (r, L')" "limiter_ok c L'"
    "\<And>k until. held until k (pair_buckets L) \<Longrightarrow> now < until \<Longrightarrow> held until k (pair_buckets L')"
    "\<And>until. held until (normalize_ip c ip, normalize_username c user) (pair_buckets L) \<Longrightarrow> now < until \<Longrightarrow> r = None"
proof -
  let ?ip = "normalize_ip c ip" and ?user = "normalize_username c user"
  obtain L1 where L1: "cleanup_if_due c now L = Inr L1" "limiter_ok c L1"
    "\<And>k until. held until k (pair_buckets L) \<Longrightarrow> now < until \<Longrightarrow> held until k (pair_buckets L1)"
    by (rule cleanup_ok [OF assms(1)]) blast
  obtain r L' where r: "reserve c now (?ip, ?user) ?ip L1 = (r, L')" by fastforce
  have dist: "distinct (map fst (pair_buckets L1))" using L1(2) by (auto simp: limiter_ok_def intro: table_distinct)
  show ?thesis
  proof (rule that)
    show "begin_attempt c now ip user L = Inr (r, L')" using L1(1) r by (simp add: begin_attempt_def Let_def)
    show "limiter_ok c L'" using reserve_ok [OF L1(2) assms(2), of now "(?ip, ?user)" ?ip] r by simp
    show "held until k (pair_buckets L')" if "held until k (pair_buckets L)" "now < until" for k until
      using reserve_held(1) [OF L1(3) [OF that] that(2) dist, of c "(?ip, ?user)" ?ip] r by simp
    show "r = None" if "held until (?ip, ?user) (pair_buckets L)" "now < until" for until
      using reserve_held(2) [OF L1(3) [OF that] that(2) dist refl, of c ?ip] r by simp
  qed
qed

subsubsection \<open>Ending an attempt\<close>

lemma failure_ok: "bucket_ok limit n b \<Longrightarrow> has_room limit (Some b) \<Longrightarrow> 0 \<le> n \<Longrightarrow>
    bucket_ok limit n (note_failure c now limit lock b)"
  using length_dropWhile_le [of "\<lambda>f. f \<le> now - window_seconds c" "bk_failures b"]
  by (auto simp: bucket_ok_def note_failure_def prepare_bucket_def Let_def has_room_def)

lemma forget_ok: "bucket_ok limit n b \<Longrightarrow> bucket_ok limit n (forget_failures b)"
  by (auto simp: bucket_ok_def forget_failures_def)

lemma table_failure:
  assumes "table_ok limit room n d" "has_room limit (map_of d k)" "0 \<le> n k"
  shows "table_ok limit room n (AList.map_entry k (note_failure c now limit lock) d)"
  by (rule table_entry [OF assms(1)]) (use assms(2,3) failure_ok in auto)

text \<open>An end of an attempt that respects both tables and the locks of other pairs.\<close>

lemma end_ok:
  assumes "limiter_ok c L"
    and "\<And>l L'. limiter_ok c L' \<Longrightarrow> has_room (pair_max_failures c) (map_of (pair_buckets L') (le_pair l)) \<Longrightarrow>
      has_room (ip_max_failures c) (map_of (ip_buckets L') (le_ip l)) \<Longrightarrow> limiter_ok c (f l L')"
    and "\<And>l L' k until. held until k (pair_buckets L') \<Longrightarrow> le_pair l \<noteq> k \<Longrightarrow> held until k (pair_buckets (f l L'))"
  obtains L' where "end_attempt now t f L = Inr L'" "limiter_ok c L'"
    "\<And>k until. held until k (pair_buckets L) \<Longrightarrow> held until k (pair_buckets L')"
proof (cases "map_of (leases L) t")
  case None
  then show ?thesis using assms(1) by (intro that [of L]) (simp_all add: end_attempt_def)
next
  case (Some l)
  then obtain L1 where L1: "release_lease now l (without_lease t L) = Inr L1" "limiter_ok c L1"
    "pair_buckets L1 = AList.map_entry (le_pair l) (vacate now) (pair_buckets L)"
    "has_room (pair_max_failures c) (map_of (pair_buckets L1) (le_pair l))" "has_room (ip_max_failures c) (map_of (ip_buckets L1) (le_ip l))"
    using release_ok [OF assms(1) Some, of now] by metis
  have held: "held until k (pair_buckets L1)" "le_pair l \<noteq> k" if "held until k (pair_buckets L)" for k until
  proof -
    show h: "held until k (pair_buckets L1)" unfolding L1(3) by (rule held_entry [OF that]) (simp add: vacate_def)
    show "le_pair l \<noteq> k" using h L1(4) by (auto simp: held_def has_room_def split: option.splits)
  qed
  show ?thesis
  proof (rule that)
    show "end_attempt now t f L = Inr (f l L1)" using Some L1(1) by (simp add: end_attempt_def)
    show "limiter_ok c (f l L1)" by (rule assms(2) [OF L1(2,4,5)])
    show "held until k (pair_buckets (f l L1))" if "held until k (pair_buckets L)" for k until
      by (rule assms(3) [OF held [OF that]])
  qed
qed

lemma count_nonneg [simp]: "0 \<le> pair_count ls k" "0 \<le> ip_count ls i"
  by (simp_all add: pair_count_def ip_count_def)

lemma failure_end:
  assumes "limiter_ok c L"
  obtains L' where "failure c now t L = Inr L'" "limiter_ok c L'"
    "\<And>k until. held until k (pair_buckets L) \<Longrightarrow> held until k (pair_buckets L')"
  unfolding failure_def
  by (rule end_ok [OF assms, of "\<lambda>l L. L\<lparr>pair_buckets := AList.map_entry (le_pair l) (note_failure c now (pair_max_failures c) (pair_lock_seconds c)) (pair_buckets L),
       ip_buckets := AList.map_entry (le_ip l) (note_failure c now (ip_max_failures c) (ip_lock_seconds c)) (ip_buckets L)\<rparr>" now t])
    (auto intro!: limiter_tables table_failure simp: held_other)

lemma success_end:
  assumes "limiter_ok c L"
  obtains L' where "success c now t L = Inr L'" "limiter_ok c L'"
    "\<And>k until. held until k (pair_buckets L) \<Longrightarrow> held until k (pair_buckets L')"
  unfolding success_def
  by (rule end_ok [OF assms, of "\<lambda>l L. L\<lparr>pair_buckets := drop_empty_bucket (le_pair l) (AList.map_entry (le_pair l) forget_failures (pair_buckets L)),
       ip_buckets := drop_empty_bucket (le_ip l) (AList.map_entry (le_ip l) (prepare_bucket c now) (ip_buckets L))\<rparr>" now t])
    (auto intro!: limiter_tables table_drop table_same forget_ok prepare_ok held_drop simp: held_other)

lemma cancel_end:
  assumes "limiter_ok c L"
  obtains L' where "cancel_attempt now t L = Inr L'" "limiter_ok c L'"
    "\<And>k until. held until k (pair_buckets L) \<Longrightarrow> held until k (pair_buckets L')"
  unfolding cancel_attempt_def
  by (rule end_ok [OF assms, of "\<lambda>l L. L\<lparr>pair_buckets := drop_empty_bucket (le_pair l) (pair_buckets L),
       ip_buckets := drop_empty_bucket (le_ip l) (ip_buckets L)\<rparr>" now t])
    (auto intro!: limiter_tables table_drop held_drop)

subsection \<open>Runs\<close>

datatype login_event = Begin_login string string | Login_failed int | Login_succeeded int | Login_cancelled int

fun login_step :: "limits \<Rightarrow> rat \<times> login_event \<Rightarrow> limiter \<Rightarrow> exn + limiter" where
  "login_step c (now, Begin_login ip user) L = (case begin_attempt c now ip user L of Inl e \<Rightarrow> Inl e | Inr (r, L') \<Rightarrow> Inr L')"
| "login_step c (now, Login_failed t) L = failure c now t L"
| "login_step c (now, Login_succeeded t) L = success c now t L"
| "login_step c (now, Login_cancelled t) L = cancel_attempt now t L"

fun login_run :: "limits \<Rightarrow> (rat \<times> login_event) list \<Rightarrow> limiter \<Rightarrow> exn + limiter" where
  "login_run c [] L = Inr L"
| "login_run c (e # es) L = (case login_step c e L of Inl x \<Rightarrow> Inl x | Inr L' \<Rightarrow> login_run c es L')"

lemma step_ok:
  assumes "limiter_ok c L" "limits_ok c"
  obtains L' where "login_step c (now, e) L = Inr L'" "limiter_ok c L'"
    "\<And>k until. held until k (pair_buckets L) \<Longrightarrow> now < until \<Longrightarrow> held until k (pair_buckets L')"
proof (cases e)
  case (Begin_login ip user)
  obtain r L' where "begin_attempt c now ip user L = Inr (r, L')" "limiter_ok c L'"
    "\<And>k until. held until k (pair_buckets L) \<Longrightarrow> now < until \<Longrightarrow> held until k (pair_buckets L')"
    by (rule begin_ok [OF assms, of now ip user]) blast
  with Begin_login show ?thesis by (intro that [of L']) simp_all
next
  case (Login_failed t)
  obtain L' where "failure c now t L = Inr L'" "limiter_ok c L'"
    "\<And>k until. held until k (pair_buckets L) \<Longrightarrow> held until k (pair_buckets L')" by (rule failure_end [OF assms(1), of now t]) blast
  with Login_failed show ?thesis by (intro that [of L']) simp_all
next
  case (Login_succeeded t)
  obtain L' where "success c now t L = Inr L'" "limiter_ok c L'"
    "\<And>k until. held until k (pair_buckets L) \<Longrightarrow> held until k (pair_buckets L')" by (rule success_end [OF assms(1), of now t]) blast
  with Login_succeeded show ?thesis by (intro that [of L']) simp_all
next
  case (Login_cancelled t)
  obtain L' where "cancel_attempt now t L = Inr L'" "limiter_ok c L'"
    "\<And>k until. held until k (pair_buckets L) \<Longrightarrow> held until k (pair_buckets L')" by (rule cancel_end [OF assms(1), of now t]) blast
  with Login_cancelled show ?thesis by (intro that [of L']) simp_all
qed

lemma run_ok:
  assumes "limiter_ok c L" "limits_ok c"
  obtains L' where "login_run c es L = Inr L'" "limiter_ok c L'"
    "\<And>k until. held until k (pair_buckets L) \<Longrightarrow> list_all (\<lambda>e. fst e < until) es \<Longrightarrow> held until k (pair_buckets L')"
  using assms(1)
proof (induction es arbitrary: L thesis)
  case (Cons e es)
  obtain now x where e: "e = (now, x)" by fastforce
  obtain L1 where L1: "login_step c (now, x) L = Inr L1" "limiter_ok c L1"
    "\<And>k until. held until k (pair_buckets L) \<Longrightarrow> now < until \<Longrightarrow> held until k (pair_buckets L1)"
    by (rule step_ok [OF Cons.prems(2) assms(2)]) blast
  obtain L' where L': "login_run c es L1 = Inr L'" "limiter_ok c L'"
    "\<And>k until. held until k (pair_buckets L1) \<Longrightarrow> list_all (\<lambda>e. fst e < until) es \<Longrightarrow> held until k (pair_buckets L')"
    by (rule Cons.IH [OF _ L1(2)]) blast
  show ?case by (rule Cons.prems(1) [of L']) (use e L1 L' in simp_all)
qed simp

lemma new_limiter_ok: "new_limiter c = Inr L \<Longrightarrow> limiter_ok c L \<and> limits_ok c"
  by (auto simp: new_limiter_def invalid_limits_def limiter_ok_def limits_ok_def table_ok_def pair_count_def ip_count_def split: if_splits)

lemma table_counted:
  assumes "table_ok limit room n d"
  shows "list_all (\<lambda>(k, b). bk_in_flight b = n k \<and> int (length (bk_failures b)) + bk_in_flight b \<le> limit) d"
  unfolding list_all_iff
proof clarify
  fix k b assume "(k, b) \<in> set d"
  with table_distinct [OF assms] have "map_of d k = Some b" by (rule map_of_is_SomeI)
  from table_count [OF assms this] show "bk_in_flight b = n k \<and> int (length (bk_failures b)) + bk_in_flight b \<le> limit"
    by (simp add: bucket_ok_def)
qed

lemma failure_locks:
  assumes "failure c now t L = Inr L'" "map_of (leases L) t = Some l" "map_of (pair_buckets L') (le_pair l) = Some b"
    "pair_max_failures c \<le> int (length (bk_failures b))" "0 < now + pair_lock_seconds c"
  shows "held (now + pair_lock_seconds c) (le_pair l) (pair_buckets L')"
proof -
  let ?note = "note_failure c now (pair_max_failures c) (pair_lock_seconds c)"
  from assms(1,2) have "pair_buckets L' = AList.map_entry (le_pair l) ?note (AList.map_entry (le_pair l) (vacate now) (pair_buckets L))"
    by (auto simp: failure_def end_attempt_def release_lease_def without_lease_def split: if_splits)
  with assms(3) obtain b0 where "b = ?note b0" by (auto simp: map_of_entry simp del: map_of_eq_Some_iff)
  with assms(4) have "now + pair_lock_seconds c \<le> bk_blocked_until b" by (auto simp: note_failure_def Let_def)
  with assms(3,5) show ?thesis by (simp add: held_def)
qed

subsection \<open>Properties\<close>

text \<open>
  C35. The limiter never fails and never outgrows its limits. From a new limiter, any sequence of
  operations at any times runs to its end without an exception; the tables keep to their numbers
  of keys, every bucket counts exactly the attempts under way for its key, and failures and
  attempts under way together never pass the maximum.
\<close>

theorem login_limits_hold:
  assumes "new_limiter c = Inr L0"
  shows "\<exists>L. login_run c es L0 = Inr L \<and>
    int (length (pair_buckets L)) \<le> max_pair_keys c \<and> int (length (ip_buckets L)) \<le> max_ip_keys c \<and>
    list_all (\<lambda>(k, b). bk_in_flight b = pair_count (leases L) k \<and>
      int (length (bk_failures b)) + bk_in_flight b \<le> pair_max_failures c) (pair_buckets L) \<and>
    list_all (\<lambda>(k, b). bk_in_flight b = ip_count (leases L) k \<and>
      int (length (bk_failures b)) + bk_in_flight b \<le> ip_max_failures c) (ip_buckets L)"
proof -
  from new_limiter_ok [OF assms] obtain L where L: "login_run c es L0 = Inr L" "limiter_ok c L"
    using run_ok [of c L0 es] by metis
  then have "table_ok (pair_max_failures c) (max_pair_keys c) (pair_count (leases L)) (pair_buckets L)"
    "table_ok (ip_max_failures c) (max_ip_keys c) (ip_count (leases L)) (ip_buckets L)" by (simp_all add: limiter_ok_def)
  with L(1) show ?thesis by (intro exI [of _ L] conjI table_counted table_length)
qed

text \<open>
  C36. A locked pair stays out. Once a failure brings the failures of an address and user name to the
  maximum, every later attempt of that pair is refused until the lock has run out, whatever other
  operations happen meanwhile: no success, cancellation, cleaning or eviction opens it earlier.
\<close>

theorem locked_pair_stays_out:
  assumes "new_limiter c = Inr L0" and "login_run c es L0 = Inr L"
    and "map_of (leases L) t = Some l" and "failure c now t L = Inr L1" and "0 \<le> now"
    and "map_of (pair_buckets L1) (le_pair l) = Some b" and "pair_max_failures c \<le> int (length (bk_failures b))"
    and "login_run c es' L1 = Inr L2" and "list_all (\<lambda>e. fst e < now + pair_lock_seconds c) es'"
    and "le_pair l = (normalize_ip c ip, normalize_username c user)" and "later < now + pair_lock_seconds c"
  shows "\<exists>L3. begin_attempt c later ip user L2 = Inr (None, L3)"
proof -
  from new_limiter_ok [OF assms(1)] have ok: "limiter_ok c L0" "limits_ok c" by simp_all
  then have "limiter_ok c L" using run_ok [OF ok, of es] assms(2) by (metis sum.inject(2))
  then have L1: "limiter_ok c L1" using failure_end [of c L now t] assms(4) by (metis sum.inject(2))
  have "held (now + pair_lock_seconds c) (le_pair l) (pair_buckets L1)"
    using ok(2) assms(5) by (intro failure_locks [OF assms(4,3,6,7)]) (simp add: limits_ok_def add_nonneg_pos)
  with run_ok [OF L1 ok(2), of es'] assms(8,9) have L2: "limiter_ok c L2" "held (now + pair_lock_seconds c) (le_pair l) (pair_buckets L2)"
    by (metis sum.inject(2))+
  from begin_ok [OF L2(1) ok(2), of later ip user] L2(2) assms(10,11) show ?thesis by metis
qed

definition small_limits :: limits where
  "small_limits = \<lparr>pair_max_failures = 1, ip_max_failures = 2, window_seconds = 600, pair_lock_seconds = 300, ip_lock_seconds = 600,
     max_pair_keys = 2, max_ip_keys = 2, lease_timeout_seconds = 120, cleanup_interval_seconds = 30,
     canonical_ip = (\<lambda>_. None), casefold = (\<lambda>s. s)\<rparr>"

definition fresh_limiter :: limiter where
  "fresh_limiter = \<lparr>pair_buckets = [], ip_buckets = [], leases = [], next_token = 1, last_cleanup = 0\<rparr>"

theorem login_limits_hold_witness:
  "\<exists>L. login_run small_limits [(5, Begin_login ''1.2.3.4'' ''bob''), (6, Login_failed 1)] fresh_limiter = Inr L \<and>
    int (length (pair_buckets L)) \<le> 2"
proof -
  have "new_limiter small_limits = Inr fresh_limiter" by (simp add: new_limiter_def invalid_limits_def small_limits_def fresh_limiter_def)
  from login_limits_hold [OF this, of "[(5, Begin_login ''1.2.3.4'' ''bob''), (6, Login_failed 1)]"]
  show ?thesis by (auto simp: small_limits_def)
qed

definition bob_tries :: limiter where
  "bob_tries = \<lparr>
     pair_buckets = [((''1.2.3.4'', ''bob''), \<lparr>bk_failures = [], bk_blocked_until = 0, bk_last_seen = 5, bk_in_flight = 1\<rparr>)],
     ip_buckets = [(''1.2.3.4'', \<lparr>bk_failures = [], bk_blocked_until = 0, bk_last_seen = 5, bk_in_flight = 1\<rparr>)],
     leases = [(1, \<lparr>le_pair = (''1.2.3.4'', ''bob''), le_ip = ''1.2.3.4'', le_started = 5\<rparr>)], next_token = 2, last_cleanup = 0\<rparr>"

definition bob_fails :: limiter where
  "bob_fails = \<lparr>
     pair_buckets = [((''1.2.3.4'', ''bob''), \<lparr>bk_failures = [6], bk_blocked_until = 306, bk_last_seen = 6, bk_in_flight = 0\<rparr>)],
     ip_buckets = [(''1.2.3.4'', \<lparr>bk_failures = [6], bk_blocked_until = 0, bk_last_seen = 6, bk_in_flight = 0\<rparr>)],
     leases = [], next_token = 2, last_cleanup = 0\<rparr>"

theorem locked_pair_stays_out_witness: "\<exists>L. begin_attempt small_limits 300 '' 1.2.3.4'' ''bob '' bob_fails = Inr (None, L)"
proof (rule locked_pair_stays_out)
  show "new_limiter small_limits = Inr fresh_limiter" by (simp add: new_limiter_def invalid_limits_def small_limits_def fresh_limiter_def)
  show "login_run small_limits [(5, Begin_login ''1.2.3.4'' ''bob'')] fresh_limiter = Inr bob_tries" by code_simp
  show "map_of (leases bob_tries) 1 = Some \<lparr>le_pair = (''1.2.3.4'', ''bob''), le_ip = ''1.2.3.4'', le_started = 5\<rparr>"
    by (simp add: bob_tries_def)
  show "failure small_limits 6 1 bob_tries = Inr bob_fails" by code_simp
  show "map_of (pair_buckets bob_fails) (le_pair \<lparr>le_pair = (''1.2.3.4'', ''bob''), le_ip = ''1.2.3.4'', le_started = 5\<rparr>) =
      Some \<lparr>bk_failures = [6], bk_blocked_until = 306, bk_last_seen = 6, bk_in_flight = 0\<rparr>" by (simp add: bob_fails_def)
  show "login_run small_limits [] bob_fails = Inr bob_fails" by simp
  show "le_pair \<lparr>le_pair = (''1.2.3.4'', ''bob''), le_ip = ''1.2.3.4'', le_started = 5\<rparr> =
      (normalize_ip small_limits '' 1.2.3.4'', normalize_username small_limits ''bob '')" by code_simp
qed (simp_all add: small_limits_def)

end
