(* ===== verification/Client_Ip.thy ===== *)
theory Client_Ip
  imports Effects
begin

text \<open>
  Who a request comes from, from the class \<open>ClientIpResolver\<close> of \<^verbatim>\<open>app/api/login_security.py\<close>. The
  header \<open>X-Forwarded-For\<close> counts only behind a trusted proxy, and is read from the right. Addresses
  and networks are those of the module \<open>ipaddress\<close>, here of any type, with its parsers, its printer and
  its test of membership as arguments.
\<close>

record ('a, 'n) ip_module =
  ip_address :: "string \<Rightarrow> 'a option"
  ip_network :: "string \<Rightarrow> 'n option"
  ip_text :: "'a \<Rightarrow> string"
  in_network :: "'n \<Rightarrow> 'a \<Rightarrow> bool"
  fold_case :: "string \<Rightarrow> string"

fun parse_cidr_list :: "('a, 'n) ip_module \<Rightarrow> string list \<Rightarrow> exn + 'n list" where
  "parse_cidr_list m [] = Inr []"
| "parse_cidr_list m (v # vs) =
     (if strip v = [] then parse_cidr_list m vs
      else (case ip_network m (strip v) of
          None \<Rightarrow> Inl (ValueError (''LOGIN_TRUSTED_PROXY_CIDRS contient un CIDR invalide : '' @ strip v))
        | Some n \<Rightarrow> (case parse_cidr_list m vs of Inl e \<Rightarrow> Inl e | Inr ns \<Rightarrow> Inr (n # ns))))"

definition parse_trusted_proxy_cidrs :: "('a, 'n) ip_module \<Rightarrow> string \<Rightarrow> exn + 'n list" where
  "parse_trusted_proxy_cidrs m raw = parse_cidr_list m (split_on (CHR '','') raw)"






subsection \<open>Properties\<close>






end
