(* ===== verification/Sessions.thy ===== *)
theory Sessions
  imports Json
begin

text \<open>
  The registry of the connected devices, from \<^verbatim>\<open>app/api/sessions.py\<close>: the copy in memory that every
  request is checked against, and the file that lets a revocation outlive a restart. An operation
  takes the answer of the write, the time and, to open a session, the token that
  \<open>secrets\<close> gave. \<open>float\<close> of a text and \<open>str\<close> of a JSON container are part of the environment.
\<close>

record session =
  se_username :: string
  se_created_at :: rat
  se_ip :: string
  se_user_agent :: string
  se_last_seen :: rat

record session_env =
  ttl_seconds :: rat
  max_per_user :: nat
  text_float :: "string \<Rightarrow> rat option"
  other_text :: "json \<Rightarrow> string"

record registry =
  sessions :: "(string \<times> session) list"
  session_file :: jfile

subsection \<open>The file\<close>

fun py_float :: "session_env \<Rightarrow> json \<Rightarrow> exn + rat" where
  "py_float E (JInt i) = Inr (of_int i)"
| "py_float E (JFloat r) = Inr r"
| "py_float E (JBool b) = Inr (if b then 1 else 0)"
| "py_float E (JStr s) = (case text_float E s of Some r \<Rightarrow> Inr r | None \<Rightarrow> Inl (ValueError ''float''))"
| "py_float E _ = Inl (TypeError ''float'')"

definition or_json :: "json \<Rightarrow> json \<Rightarrow> json" where
  "or_json j d = (if truthy j then j else d)"

definition expired :: "session_env \<Rightarrow> rat \<Rightarrow> rat \<Rightarrow> bool" where
  "expired E now created \<longleftrightarrow> ttl_seconds E \<noteq> 0 \<and> ttl_seconds E < now - created"

text \<open>One turn of the loop of \<open>_load_into_memory\<close>: an entry is kept, left out, or stops the start.\<close>

definition load_session :: "session_env \<Rightarrow> rat \<Rightarrow> string \<times> json \<Rightarrow> exn + (string \<times> session) option" where
  "load_session E now entry = (case entry of (sid, r) \<Rightarrow>
     if sid = [] \<or> \<not> is_obj r \<or> \<not> is_str (jget r ''username'') \<or> str_of (jget r ''username'') = [] then Inr None
     else (case py_float E (or_json (jget r ''created_at'') (JFloat 0)) of
         Inl e \<Rightarrow> Inr None
       | Inr created \<Rightarrow>
           if expired E now created then Inr None
           else (case py_float E (or_json (jget r ''last_seen'') (JFloat created)) of
               Inl e \<Rightarrow> Inl e
             | Inr seen \<Rightarrow> Inr (Some (sid, \<lparr>se_username = str_of (jget r ''username''), se_created_at = created,
                 se_ip = py_str (other_text E) (or_json (jget r ''ip'') (JStr [])),
                 se_user_agent = py_str (other_text E) (or_json (jget r ''user_agent'') (JStr [])), se_last_seen = seen\<rparr>)))))"

fun load_sessions :: "session_env \<Rightarrow> rat \<Rightarrow> (string \<times> json) list \<Rightarrow> exn + (string \<times> session) list" where
  "load_sessions E now [] = Inr []"
| "load_sessions E now (x # xs) = (case load_session E now x of
       Inl e \<Rightarrow> Inl e
     | Inr y \<Rightarrow> (case load_sessions E now xs of
         Inl e \<Rightarrow> Inl e
       | Inr ys \<Rightarrow> Inr (case y of Some s \<Rightarrow> s # ys | None \<Rightarrow> ys)))"

definition load_into_memory :: "session_env \<Rightarrow> rat \<Rightarrow> registry \<Rightarrow> exn + registry" where
  "load_into_memory E now R = (case load_json is_obj (JObj []) False (session_file R) of
       Inl e \<Rightarrow> Inl e
     | Inr raw \<Rightarrow> (case load_sessions E now (obj_fields raw) of
         Inl e \<Rightarrow> Inl e
       | Inr s \<Rightarrow> Inr (R\<lparr>sessions := s\<rparr>)))"

definition session_json :: "session \<Rightarrow> json" where
  "session_json s = JObj [(''username'', JStr (se_username s)), (''created_at'', JFloat (se_created_at s)), (''ip'', JStr (se_ip s)),
     (''user_agent'', JStr (se_user_agent s)), (''last_seen'', JFloat (se_last_seen s))]"

definition persist :: "write_answer \<Rightarrow> 'a \<Rightarrow> registry \<Rightarrow> (exn + 'a) \<times> registry" where
  "persist w x R = after_write w x R
     (R\<lparr>session_file := Doc (JObj (map (\<lambda>(sid, s). (sid, session_json s)) (sessions R)))\<rparr>)"

subsection \<open>The life of a session\<close>

definition owned :: "string \<Rightarrow> registry \<Rightarrow> (string \<times> session) list" where
  "owned username R = filter (\<lambda>(sid, s). se_username s = username) (sessions R)"

definition forget :: "string list \<Rightarrow> registry \<Rightarrow> registry" where
  "forget sids R = R\<lparr>sessions := fold AList.delete sids (sessions R)\<rparr>"

definition enforce_cap :: "session_env \<Rightarrow> string \<Rightarrow> registry \<Rightarrow> registry" where
  "enforce_cap E username R = (let mine = owned username R in
     if length mine \<le> max_per_user E then R
     else forget (map fst (take (length mine - max_per_user E) (sort_key (\<lambda>(sid, s). se_created_at s) mine))) R)"

definition register :: "session_env \<Rightarrow> write_answer \<Rightarrow> rat \<Rightarrow> string \<Rightarrow> string \<Rightarrow> string \<Rightarrow> string \<Rightarrow> registry \<Rightarrow> (exn + string) \<times> registry" where
  "register E w now sid username ip user_agent R =
     persist w sid (enforce_cap E username (R\<lparr>sessions := AList.update sid
       \<lparr>se_username = username, se_created_at = now, se_ip = take 64 ip, se_user_agent = take 256 user_agent, se_last_seen = now\<rparr>
       (sessions R)\<rparr>))"

definition is_valid :: "session_env \<Rightarrow> write_answer \<Rightarrow> rat \<Rightarrow> string \<Rightarrow> string \<Rightarrow> registry \<Rightarrow> (exn + bool) \<times> registry" where
  "is_valid E w now sid username R =
     (if sid = [] then (Inr False, R)
      else (case map_of (sessions R) sid of
          None \<Rightarrow> (Inr False, R)
        | Some s \<Rightarrow>
            if se_username s \<noteq> username then (Inr False, R)
            else if expired E now (se_created_at s) then persist w False (forget [sid] R)
            else (Inr True, R)))"

definition touch :: "rat \<Rightarrow> string \<Rightarrow> registry \<Rightarrow> registry" where
  "touch now sid R = R\<lparr>sessions := AList.map_entry sid (\<lambda>s. s\<lparr>se_last_seen := now\<rparr>) (sessions R)\<rparr>"

definition list_for :: "string \<Rightarrow> registry \<Rightarrow> (string \<times> session) list" where
  "list_for username R = sort_key (\<lambda>(sid, s). - se_last_seen s) (owned username R)"

definition revoke :: "write_answer \<Rightarrow> string \<Rightarrow> string \<Rightarrow> registry \<Rightarrow> (exn + bool) \<times> registry" where
  "revoke w sid username R = (case map_of (sessions R) sid of
       None \<Rightarrow> (Inr False, R)
     | Some s \<Rightarrow> if se_username s \<noteq> username then (Inr False, R) else persist w True (forget [sid] R))"

definition revoke_others :: "write_answer \<Rightarrow> string \<Rightarrow> string \<Rightarrow> registry \<Rightarrow> (exn + nat) \<times> registry" where
  "revoke_others w keep_sid username R =
     (let targets = map fst (filter (\<lambda>(sid, s). sid \<noteq> keep_sid) (owned username R)) in
      if targets = [] then (Inr 0, R) else persist w (length targets) (forget targets R))"

definition revoke_all :: "write_answer \<Rightarrow> string \<Rightarrow> registry \<Rightarrow> (exn + nat) \<times> registry" where
  "revoke_all w username R = revoke_others w [] username R"

subsection \<open>Runs\<close>

datatype session_event =
    Opened string string string string
  | Checked string string
  | Touched string
  | Revoked string string
  | Revoked_others string string
  | Restarted

text \<open>An operation that raises has changed the memory; a restart that raises does not come up.\<close>

fun session_step :: "session_env \<Rightarrow> write_answer \<times> rat \<times> session_event \<Rightarrow> registry \<Rightarrow> exn + registry" where
  "session_step E (w, now, Opened sid u ip ua) R = Inr (snd (register E w now sid u ip ua R))"
| "session_step E (w, now, Checked sid u) R = Inr (snd (is_valid E w now sid u R))"
| "session_step E (w, now, Touched sid) R = Inr (touch now sid R)"
| "session_step E (w, now, Revoked sid u) R = Inr (snd (revoke w sid u R))"
| "session_step E (w, now, Revoked_others keep u) R = Inr (snd (revoke_others w keep u R))"
| "session_step E (w, now, Restarted) R = load_into_memory E now R"

fun session_run :: "session_env \<Rightarrow> (write_answer \<times> rat \<times> session_event) list \<Rightarrow> registry \<Rightarrow> exn + registry" where
  "session_run E [] R = Inr R"
| "session_run E (e # es) R = (case session_step E e R of Inl x \<Rightarrow> Inl x | Inr R' \<Rightarrow> session_run E es R')"

fun opens :: "string \<Rightarrow> write_answer \<times> rat \<times> session_event \<Rightarrow> bool" where
  "opens sid (w, now, Opened sid' u ip ua) = (sid' = sid)"
| "opens sid _ = False"

text \<open>A session that is neither in memory nor in the file.\<close>

definition has_key :: "'k \<Rightarrow> ('k \<times> 'v) list \<Rightarrow> bool" where
  "has_key k d \<longleftrightarrow> k \<in> fst ` set d"

definition gone :: "string \<Rightarrow> registry \<Rightarrow> bool" where
  "gone sid R \<longleftrightarrow> \<not> has_key sid (sessions R) \<and> (case session_file R of Doc j \<Rightarrow> \<not> has_key sid (obj_fields j) | _ \<Rightarrow> True)"

lemma has_key_simps [simp]:
  "has_key k (AList.update j v d) \<longleftrightarrow> k = j \<or> has_key k d"
  "has_key k (AList.map_entry j f d) \<longleftrightarrow> has_key k d"
  "has_key k (AList.delete j d) \<longleftrightarrow> k \<noteq> j \<and> has_key k d"
  "has_key k [] = False" "has_key k (x # d) \<longleftrightarrow> k = fst x \<or> has_key k d"
  unfolding has_key_def by (induction d) auto

lemma has_key_map [simp]: "has_key k (map (\<lambda>(i, s). (i, f s)) d) \<longleftrightarrow> has_key k d"
  by (induction d) auto

lemma has_key_fold: "has_key k (fold AList.delete ks d) \<Longrightarrow> has_key k d"
  by (induction ks arbitrary: d) (fastforce+)

lemma gone_forget: "gone sid R \<Longrightarrow> gone sid (forget sids R)"
  by (auto simp: gone_def forget_def dest: has_key_fold)

lemma gone_persist: "gone sid R \<Longrightarrow> gone sid (snd (persist w x R))"
  by (cases w) (simp_all add: gone_def persist_def after_write_def)

lemma gone_cap: "gone sid R \<Longrightarrow> gone sid (enforce_cap E u R)"
  by (simp add: enforce_cap_def Let_def gone_forget)

lemma loaded_key: "load_session E now x = Inr (Some s) \<Longrightarrow> fst s = fst x"
  by (auto simp: load_session_def split: prod.splits if_splits sum.splits)

lemma loaded_keys: "load_sessions E now xs = Inr ys \<Longrightarrow> has_key k ys \<Longrightarrow> has_key k xs"
proof (induction xs arbitrary: ys)
  case (Cons x xs)
  then obtain y zs where y: "load_session E now x = Inr y" "load_sessions E now xs = Inr zs"
    "ys = (case y of Some s \<Rightarrow> s # zs | None \<Rightarrow> zs)" by (auto split: sum.splits)
  then show ?case using Cons.IH [OF y(2)] Cons.prems(2) loaded_key by (cases y) auto
qed simp

lemma gone_load: "gone sid R \<Longrightarrow> load_into_memory E now R = Inr R' \<Longrightarrow> gone sid R'"
  by (cases "session_file R")
    (auto simp: gone_def load_into_memory_def load_json_def split: sum.splits if_splits dest: loaded_keys)

lemma gone_step:
  assumes "gone sid R" "\<not> opens sid e" "session_step E e R = Inr R'"
  shows "gone sid R'"
  using assms
proof (induction E e R rule: session_step.induct)
  case (1 E w now sid' u ip ua R)
  then have "gone sid (R\<lparr>sessions := AList.update sid' v (sessions R)\<rparr>)" for v by (auto simp: gone_def)
  from gone_persist [OF gone_cap [OF this]] 1(3) show ?case by (auto simp: register_def)
next
  case (3 E w now sid' R)
  then show ?case by (auto simp: touch_def gone_def)
next
  case (6 E w now R)
  then show ?case by (auto intro: gone_load)
qed (auto simp: is_valid_def revoke_def revoke_others_def Let_def split: option.splits intro!: gone_persist gone_forget)

lemma gone_run: "gone sid R \<Longrightarrow> list_all (\<lambda>e. \<not> opens sid e) es \<Longrightarrow> session_run E es R = Inr R' \<Longrightarrow> gone sid R'"
  by (induction es arbitrary: R) (auto split: sum.splits dest: gone_step)

lemma revoked_gone: "revoke Written sid u R = (Inr True, R') \<Longrightarrow> gone sid R'"
  by (auto simp: revoke_def persist_def after_write_def gone_def forget_def split: option.splits if_splits)

subsection \<open>Properties\<close>

text \<open>
  C38. A revocation is final. Once a revocation was written, the session is refused for every user
  ever after: whatever operations follow, whichever of their writes fail and however often the
  application restarts, as long as the token is not drawn again.
\<close>

theorem revocation_is_final:
  assumes "revoke Written sid u R = (Inr True, R')" and "list_all (\<lambda>e. \<not> opens sid e) es" and "session_run E es R' = Inr R''"
  shows "fst (is_valid E w now sid v R'') = Inr False"
proof -
  have "gone sid R''" by (rule gone_run [OF revoked_gone [OF assms(1)] assms(2,3)])
  then have "map_of (sessions R'') sid = None" by (simp add: gone_def has_key_def map_of_eq_None_iff)
  then show ?thesis by (simp add: is_valid_def)
qed

definition day_env :: session_env where
  "day_env = \<lparr>ttl_seconds = 86400, max_per_user = 2, text_float = (\<lambda>_. None), other_text = (\<lambda>_. [])\<rparr>"

definition bob_session :: session where
  "bob_session = \<lparr>se_username = ''bob'', se_created_at = 10, se_ip = ''1.2.3.4'', se_user_agent = ''ua'', se_last_seen = 10\<rparr>"

definition two_devices :: registry where
  "two_devices = \<lparr>sessions = [(''a'', bob_session), (''b'', bob_session)], session_file = Absent\<rparr>"

theorem revocation_is_final_witness:
  "fst (is_valid day_env Written 30 ''a'' ''bob'' (snd (revoke Written ''a'' ''bob'' two_devices))) = Inr False \<and>
   fst (is_valid day_env Written 30 ''b'' ''bob'' (snd (revoke Written ''a'' ''bob'' two_devices))) = Inr True"
proof
  have r: "revoke Written ''a'' ''bob'' two_devices = (Inr True, snd (revoke Written ''a'' ''bob'' two_devices))"
    by (simp add: revoke_def two_devices_def bob_session_def persist_def after_write_def)
  show "fst (is_valid day_env Written 30 ''a'' ''bob'' (snd (revoke Written ''a'' ''bob'' two_devices))) = Inr False"
    by (rule revocation_is_final [OF r, of "[]" day_env]) simp_all
  show "fst (is_valid day_env Written 30 ''b'' ''bob'' (snd (revoke Written ''a'' ''bob'' two_devices))) = Inr True"
    by (simp add: revoke_def two_devices_def bob_session_def persist_def after_write_def is_valid_def forget_def expired_def day_env_def)
qed

text \<open>
  C39. Nobody is logged out by a restart: after a write, the application that starts again has every
  session of the memory but those whose time is over, with all their fields.
\<close>

definition proper_session :: "string \<times> session \<Rightarrow> bool" where
  "proper_session x = (case x of (sid, s) \<Rightarrow> sid \<noteq> [] \<and> se_username s \<noteq> [] \<and> (se_last_seen s = 0 \<longrightarrow> se_created_at s = 0))"

theorem sessions_survive_restart:
  assumes "list_all proper_session (sessions R)"
  shows "load_into_memory E now (snd (persist Written x R)) =
    Inr ((snd (persist Written x R))\<lparr>sessions := filter (\<lambda>(sid, s). \<not> expired E now (se_created_at s)) (sessions R)\<rparr>)"
proof -
  have "load_session E now (sid, session_json s) = Inr (if expired E now (se_created_at s) then None else Some (sid, s))"
    if "proper_session (sid, s)" for sid s
    using that by (cases s) (auto simp: proper_session_def load_session_def session_json_def or_json_def)
  then have "list_all proper_session xs \<Longrightarrow> load_sessions E now (map (\<lambda>(sid, s). (sid, session_json s)) xs) =
      Inr (filter (\<lambda>(sid, s). \<not> expired E now (se_created_at s)) xs)" for xs
    by (induction xs) (auto split: prod.splits)
  from this [OF assms] show ?thesis by (simp add: load_into_memory_def load_json_def persist_def after_write_def)
qed

theorem sessions_survive_restart_witness:
  "load_into_memory day_env 20 (snd (persist Written () two_devices)) = Inr (snd (persist Written () two_devices))"
proof -
  have "list_all proper_session (sessions two_devices)" by (simp add: two_devices_def proper_session_def bob_session_def)
  from sessions_survive_restart [OF this, of day_env 20 "()"] show ?thesis
    by (simp add: two_devices_def expired_def day_env_def bob_session_def persist_def after_write_def)
qed

text \<open>
  The date of the last access is converted outside the handler that skips damaged entries: one
  entry whose \<open>last_seen\<close> is no number keeps the application from starting.
\<close>

theorem damaged_entry_stops_start:
  "load_into_memory day_env 20 \<lparr>sessions = [], session_file = Doc (JObj [(''a'', JObj [(''username'', JStr ''bob''),
     (''created_at'', JInt 10), (''last_seen'', JStr ''hier'')])])\<rparr> = Inl (ValueError ''float'')"
  by (simp add: load_into_memory_def load_json_def load_session_def or_json_def expired_def day_env_def)

end
