(* ===== verification/Totp.thy ===== *)
theory Totp
  imports Doorman_Server
begin

text \<open>
  The second factor, from \<^verbatim>\<open>app/api/totp.py\<close>: one-time codes from a shared key and the time (RFC 4226 and
  RFC 6238). What the module takes from the standard library is written out: SHA-1, HMAC, base 32,
  \<open>struct\<close> and the percent encoding of addresses.
\<close>

subsection \<open>Positional notation\<close>

definition from_base :: "int \<Rightarrow> int list \<Rightarrow> int" where
  "from_base b ds = foldl (\<lambda>a d. a * b + d) 0 ds"

primrec to_base :: "int \<Rightarrow> nat \<Rightarrow> int \<Rightarrow> int list" where
  "to_base b 0 n = []"
| "to_base b (Suc k) n = to_base b k (n div b) @ [n mod b]"

lemma from_base_snoc [simp]: "from_base b [] = 0" "from_base b (ds @ [d]) = from_base b ds * b + d"
  by (simp_all add: from_base_def)

lemma length_to_base [simp]: "length (to_base b k n) = k"
  by (induction k arbitrary: n) simp_all

lemma to_base_below: "0 < b \<Longrightarrow> d \<in> set (to_base b k n) \<Longrightarrow> 0 \<le> d \<and> d < b"
  by (induction k arbitrary: n) auto

lemma from_to_base: "0 < b \<Longrightarrow> 0 \<le> n \<Longrightarrow> n < b ^ k \<Longrightarrow> from_base b (to_base b k n) = n"
proof (induction k arbitrary: n)
  case (Suc k)
  have "b * (n div b) \<le> n" using Suc.prems(1) mult_div_mod_eq [of b n] pos_mod_sign [of b n] by linarith
  also have "n < b * b ^ k" using Suc.prems(3) by simp
  finally have "b * (n div b) < b * b ^ k" .
  with Suc.prems(1) have "n div b < b ^ k" by simp
  with Suc show ?case by (simp add: pos_imp_zdiv_nonneg_iff)
qed simp

lemma to_from_base: "(\<And>d. d \<in> set ds \<Longrightarrow> 0 \<le> d \<and> d < b) \<Longrightarrow> to_base b (length ds) (from_base b ds) = ds"
proof (induction ds rule: rev_induct)
  case (snoc d ds)
  then have "(from_base b ds * b + d) div b = from_base b ds" "(from_base b ds * b + d) mod b = d" by fastforce+
  with snoc show ?case by simp
qed simp

lemma from_base_less: "(\<And>d. d \<in> set ds \<Longrightarrow> 0 \<le> d \<and> d < b) \<Longrightarrow> 0 \<le> from_base b ds \<and> from_base b ds < b ^ length ds"
proof (induction ds rule: rev_induct)
  case (snoc d ds)
  then have ds: "0 \<le> from_base b ds" "from_base b ds + 1 \<le> b ^ length ds" and d: "0 \<le> d" "d < b" by auto
  from ds(2) d have "(from_base b ds + 1) * b \<le> b ^ length ds * b" by (intro mult_right_mono) auto
  with ds(1) d show ?case by (simp add: algebra_simps)
qed simp

fun chunks :: "nat \<Rightarrow> 'a list \<Rightarrow> 'a list list" where
  "chunks n xs = (if xs = [] \<or> n = 0 then [] else take n xs # chunks n (drop n xs))"

declare chunks.simps [simp del]

lemma chunks_Nil [simp]: "chunks n [] = []"
  by (simp add: chunks.simps)

lemma chunks_append: "length q = n \<Longrightarrow> 0 < n \<Longrightarrow> chunks n (q @ xs) = q # chunks n xs"
  by (subst chunks.simps) auto

lemma chunks_concat: "(\<And>q. q \<in> set qs \<Longrightarrow> length q = n) \<Longrightarrow> 0 < n \<Longrightarrow> chunks n (concat qs) = qs"
  by (induction qs) (simp_all add: chunks_append)

lemma concat_chunks: "0 < n \<Longrightarrow> concat (chunks n xs) = xs"
  by (induction n xs rule: chunks.induct) (subst chunks.simps, simp)

lemma chunks_length: "0 < n \<Longrightarrow> n dvd length xs \<Longrightarrow> q \<in> set (chunks n xs) \<Longrightarrow> length q = n"
proof (induction n xs rule: chunks.induct)
  case (1 n xs)
  show ?case
  proof (cases "xs = []")
    case False
    with 1 have "n \<le> length xs" by (auto intro: dvd_imp_le)
    with 1 False show ?thesis by (subst (asm) (2) chunks.simps) (auto simp: dvd_diff_nat)
  qed (use 1 in simp)
qed

subsection \<open>Base 32\<close>

definition b32_letter :: "int \<Rightarrow> char" where
  "b32_letter d = char_of (nat (if d < 26 then 65 + d else 24 + d))"

definition is_b32 :: "char \<Rightarrow> bool" where
  "is_b32 c \<longleftrightarrow> 65 \<le> code c \<and> code c \<le> 90 \<or> 50 \<le> code c \<and> code c \<le> 55"

definition b32_digit :: "char \<Rightarrow> int" where
  "b32_digit c = (if 65 \<le> code c then int (code c) - 65 else int (code c) - 24)"

text \<open>\<open>base64.b32encode\<close> of a number of bytes that is a multiple of five, which needs no padding.\<close>

definition b32encode :: "int list \<Rightarrow> string" where
  "b32encode bs = concat (map (\<lambda>q. map b32_letter (to_base 32 8 (from_base 256 q))) (chunks 5 bs))"

text \<open>\<open>base64.b32decode\<close>; \<open>None\<close> is \<open>binascii.Error\<close> or, for a text that is not ASCII, \<open>ValueError\<close>.\<close>

definition b32decode :: "string \<Rightarrow> int list option" where
  "b32decode s =
     (let t = rev (dropWhile (\<lambda>c. c = CHR ''='') (rev s)); pad = length s - length t in
      if length s mod 8 \<noteq> 0 \<or> \<not> list_all is_b32 t \<or> pad \<notin> {0, 1, 3, 4, 6} then None
      else let accs = map (\<lambda>q. from_base 32 (map b32_digit q)) (chunks 8 t);
               decoded = concat (map (to_base 256 5) accs) in
        Some (if pad \<noteq> 0 \<and> decoded \<noteq> []
          then take (length decoded - 5) decoded @ take ((43 - 5 * pad) div 8) (to_base 256 5 (last accs * 32 ^ pad))
          else decoded))"

subsection \<open>SHA-1 and HMAC\<close>

definition sha1_padded :: "bytes \<Rightarrow> bytes" where
  "sha1_padded m = m @ [0x80] @ replicate ((119 - length m mod 64) mod 64) 0 @ map of_int (to_base 256 8 (8 * int (length m) mod 2 ^ 64))"

definition word_of :: "bytes \<Rightarrow> 32 word" where
  "word_of bs = of_int (from_base 256 (map uint bs))"

primrec sha1_schedule :: "nat \<Rightarrow> 32 word list \<Rightarrow> 32 word list" where
  "sha1_schedule 0 w = w"
| "sha1_schedule (Suc k) w = (let n = length w in
     sha1_schedule k (w @ [word_rotl 1 ((w ! (n - 3)) XOR (w ! (n - 8)) XOR (w ! (n - 14)) XOR (w ! (n - 16)))]))"

type_synonym sha1_state = "32 word \<times> 32 word \<times> 32 word \<times> 32 word \<times> 32 word"

definition sha1_round :: "sha1_state \<Rightarrow> nat \<times> 32 word \<Rightarrow> sha1_state" where
  "sha1_round st tw = (case st of (a, b, c, d, e) \<Rightarrow> case tw of (t, w) \<Rightarrow>
     let (f, k) = (if t < 20 then ((b AND c) OR ((NOT b) AND d), 0x5A827999)
                   else if t < 40 then (b XOR c XOR d, 0x6ED9EBA1)
                   else if t < 60 then ((b AND c) OR (b AND d) OR (c AND d), 0x8F1BBCDC)
                   else (b XOR c XOR d, 0xCA62C1D6))
     in (word_rotl 5 a + f + e + k + w, a, word_rotl 30 b, c, d))"

definition sha1_block :: "sha1_state \<Rightarrow> bytes \<Rightarrow> sha1_state" where
  "sha1_block st block =
     (case st of (a, b, c, d, e) \<Rightarrow>
      case foldl sha1_round st (zip [0..<80] (sha1_schedule 64 (map word_of (chunks 4 block)))) of
        (a', b', c', d', e') \<Rightarrow> (a + a', b + b', c + c', d + d', e + e'))"

definition sha1 :: "bytes \<Rightarrow> bytes" where
  "sha1 m = (case foldl sha1_block (0x67452301, 0xEFCDAB89, 0x98BADCFE, 0x10325476, 0xC3D2E1F0) (chunks 64 (sha1_padded m)) of
     (a, b, c, d, e) \<Rightarrow> concat (map (\<lambda>w. map of_int (to_base 256 4 (uint w))) [a, b, c, d, e]))"

definition hmac_sha1 :: "bytes \<Rightarrow> bytes \<Rightarrow> bytes" where
  "hmac_sha1 key m =
     (let k = (if length key > 64 then sha1 key else key); k = k @ replicate (64 - length k) 0 in
      sha1 (map (\<lambda>x. x XOR 0x5C) k @ sha1 (map (\<lambda>x. x XOR 0x36) k @ m)))"

lemma length_sha1 [simp]: "length (sha1 m) = 20"
  by (simp add: sha1_def split: prod.split)

lemma length_hmac_sha1 [simp]: "length (hmac_sha1 key m) = 20"
  by (simp add: hmac_sha1_def Let_def)

subsection \<open>The module\<close>

definition period :: int where "period = 30"
definition code_digits :: nat where "code_digits = 6"
definition secret_bytes :: nat where "secret_bytes = 20"

text \<open>The bytes come from \<open>secrets.token_bytes\<close>.\<close>

definition generate_secret :: "int list \<Rightarrow> string" where
  "generate_secret random = rev (dropWhile (\<lambda>c. c = CHR ''='') (rev (b32encode random)))"

text \<open>\<open>str.upper\<close>: the sharp s becomes two letters; the two letters whose capital is outside the model are not ASCII either way.\<close>

definition upper_char :: "char \<Rightarrow> string" where
  "upper_char c = (if code c = 223 then ''SS''
     else if (97 \<le> code c \<and> code c \<le> 122) \<or> (224 \<le> code c \<and> code c \<le> 254 \<and> code c \<noteq> 247) then [char_of (code c - 32)] else [c])"

definition decode_secret :: "string \<Rightarrow> bytes option" where
  "decode_secret secret =
     (let cleaned = concat (map upper_char (filter (\<lambda>c. c \<noteq> CHR '' '') (strip secret))) in
      if cleaned = [] then None
      else map_option (map of_int) (b32decode (cleaned @ replicate (nat (- int (length cleaned) mod 8)) (CHR ''=''))))"

definition hotp :: "bytes \<Rightarrow> int \<Rightarrow> exn + string" where
  "hotp key counter =
     (if counter < 0 \<or> 2 ^ 64 \<le> counter then Inl (StructError ''int too large to convert'')
      else let mac = hmac_sha1 key (map of_int (to_base 256 8 counter));
               offset = unat (last mac AND 0x0F);
               number = word_of (take 4 (drop offset mac)) AND 0x7FFFFFFF in
        Inr (zfill code_digits (str_int (uint number mod 10 ^ code_digits))))"

definition py_int :: "rat \<Rightarrow> int" where
  "py_int r = (if r < 0 then ceiling r else floor r)"

definition code_at :: "string \<Rightarrow> rat \<Rightarrow> exn + string option" where
  "code_at secret moment = (case decode_secret secret of
       None \<Rightarrow> Inr None
     | Some key \<Rightarrow> (case hotp key (py_int moment div period) of Inl e \<Rightarrow> Inl e | Inr c \<Rightarrow> Inr (Some c)))"

definition is_ascii :: "string \<Rightarrow> bool" where
  "is_ascii s = list_all (\<lambda>c. code c < 128) s"

text \<open>\<open>hmac.compare_digest\<close> takes texts only if both are ASCII.\<close>

definition compare_digest :: "string \<Rightarrow> string \<Rightarrow> exn + bool" where
  "compare_digest a b = (if is_ascii a \<and> is_ascii b then Inr (a = b)
     else Inl (TypeError ''comparing strings with non-ASCII characters is not supported''))"

fun try_counters :: "bytes \<Rightarrow> string \<Rightarrow> int list \<Rightarrow> exn + bool" where
  "try_counters key candidate [] = Inr False"
| "try_counters key candidate (n # ns) = (case hotp key n of
       Inl e \<Rightarrow> Inl e
     | Inr expected \<Rightarrow> (case compare_digest expected candidate of
         Inl e \<Rightarrow> Inl e
       | Inr True \<Rightarrow> Inr True
       | Inr False \<Rightarrow> try_counters key candidate ns))"

definition totp_verify :: "string \<Rightarrow> string \<Rightarrow> rat \<Rightarrow> int \<Rightarrow> exn + bool" where
  "totp_verify secret typed moment window = (case decode_secret secret of
       None \<Rightarrow> Inr False
     | Some key \<Rightarrow> (let candidate = strip typed in
         if length candidate \<noteq> code_digits \<or> \<not> isdigit candidate then Inr False
         else try_counters key candidate (map (\<lambda>drift. py_int moment div period + drift) [- window..window])))"

text \<open>\<open>urllib.parse.quote\<close>.\<close>

definition hex_upper :: "nat \<Rightarrow> char" where
  "hex_upper d = char_of (if d < 10 then 48 + d else 55 + d)"

definition quote_byte :: "byte \<Rightarrow> string" where
  "quote_byte b = (let c = char_of (unat b) in
     if is_word_char c \<or> c \<in> set ''.-~/'' then [c] else [CHR ''%'', hex_upper (unat b div 16), hex_upper (unat b mod 16)])"

definition quote :: "string \<Rightarrow> string" where
  "quote s = concat (map quote_byte (utf8 s))"

definition provisioning_uri :: "string \<Rightarrow> string \<Rightarrow> string \<Rightarrow> string" where
  "provisioning_uri secret account issuer =
     ''otpauth://totp/'' @ quote issuer @ '':'' @ quote account @ ''?secret='' @ secret @ ''&issuer='' @ quote issuer @
     ''&algorithm=SHA1&digits='' @ str_nat code_digits @ ''&period='' @ str_int period"

definition format_secret :: "string \<Rightarrow> string" where
  "format_secret secret = join '' '' (chunks 4 secret)"

subsection \<open>Keys\<close>

lemma b32_letter_code: "0 \<le> d \<Longrightarrow> d < 32 \<Longrightarrow> int (code (b32_letter d)) = (if d < 26 then 65 + d else 24 + d)"
  by (auto simp: b32_letter_def of_char_of nat_less_iff mod_less)

lemma b32_letter_digit [simp]: "0 \<le> d \<Longrightarrow> d < 32 \<Longrightarrow> b32_digit (b32_letter d) = d"
  using b32_letter_code [of d] by (auto simp: b32_digit_def split: if_splits)

lemma is_b32_letter: "0 \<le> d \<Longrightarrow> d < 32 \<Longrightarrow> is_b32 (b32_letter d)"
  using b32_letter_code [of d] by (auto simp: is_b32_def split: if_splits)

lemma is_b32_facts: "is_b32 c \<Longrightarrow> c \<noteq> CHR ''='' \<and> c \<noteq> CHR '' '' \<and> \<not> is_space c \<and> upper_char c = [c]"
  by (auto simp: is_b32_def is_space_def upper_char_def)

lemma drop_padding: "list_all is_b32 s \<Longrightarrow> rev (dropWhile (\<lambda>c. c = CHR ''='') (rev s)) = s"
proof (cases s rule: rev_cases)
  case (snoc t c)
  assume "list_all is_b32 s"
  with snoc show ?thesis using is_b32_facts [of c] by simp
qed simp

lemma b32encode_letters: "list_all is_b32 (b32encode bs)"
  by (auto simp: b32encode_def list_all_iff dest!: to_base_below [rotated] intro!: is_b32_letter)

text \<open>Decoding inverts encoding for a whole number of groups of five bytes.\<close>

lemma b32_roundtrip:
  assumes "5 dvd length bs" "\<And>b. b \<in> set bs \<Longrightarrow> 0 \<le> b \<and> b < 256"
  shows "b32decode (b32encode bs) = Some bs"
proof -
  let ?f = "\<lambda>q. map b32_letter (to_base 32 8 (from_base 256 q))"
  have groups: "chunks 8 (b32encode bs) = map ?f (chunks 5 bs)"
    unfolding b32encode_def by (rule chunks_concat) auto
  have one: "to_base 256 5 (from_base 32 (map b32_digit (?f q))) = q" if q: "q \<in> set (chunks 5 bs)" for q
  proof -
    have len: "length q = 5" using chunks_length [OF _ assms(1) q] by simp
    have "set q \<subseteq> set bs" using q by (metis UN_I concat_chunks set_concat subsetI zero_less_numeral)
    then have below: "0 \<le> d \<and> d < 256" if "d \<in> set q" for d using that assms(2) by auto
    have "map b32_digit (?f q) = to_base 32 8 (from_base 256 q)"
      using to_base_below [of 32] by (auto intro!: map_idI)
    moreover have "from_base 32 (to_base 32 8 (from_base 256 q)) = from_base 256 q"
      using from_base_less [of q 256] below len by (intro from_to_base) auto
    ultimately show ?thesis using to_from_base [of q 256] below len by simp
  qed
  have "concat (map (to_base 256 5) (map (\<lambda>q. from_base 32 (map b32_digit q)) (chunks 8 (b32encode bs)))) = bs"
    using one by (simp add: groups o_def cong: map_cong) (use concat_chunks [of 5 bs] in simp)
  moreover have "length (b32encode bs) mod 8 = 0" by (simp add: b32encode_def length_concat o_def sum_list_triv)
  ultimately show ?thesis
    using b32encode_letters [of bs] by (simp add: b32decode_def Let_def drop_padding)
qed

text \<open>
  A key survives its display: the text with a space after every four letters, which the user copies
  by hand, is decoded to the bytes that were drawn.
\<close>

lemma filter_format:
  assumes "list_all is_b32 s"
  shows "filter (\<lambda>c. c \<noteq> CHR '' '') (format_secret s) = s"
proof -
  have "filter (\<lambda>c. c \<noteq> CHR '' '') (join '' '' ws) = concat ws" if "list_all (list_all is_b32) ws" for ws
    using that
  proof (induction ws rule: induct_list012)
    case (2 x)
    then show ?case by (auto simp: list_all_iff filter_id_conv dest!: is_b32_facts)
  next
    case (3 x y zs)
    then have "filter (\<lambda>c. c \<noteq> CHR '' '') x = x" by (auto simp: list_all_iff filter_id_conv dest!: is_b32_facts)
    with 3 show ?case by simp
  qed simp
  moreover have "list_all (list_all is_b32) (chunks 4 s)"
    using assms arg_cong [OF concat_chunks [of 4 s], of set] by (simp add: list_all_iff) blast
  ultimately show ?thesis by (simp add: format_secret_def concat_chunks)
qed

lemma strip_clean: "(s \<noteq> [] \<Longrightarrow> \<not> is_space (hd s) \<and> \<not> is_space (last s)) \<Longrightarrow> strip s = s"
proof (cases s rule: rev_cases)
  case (snoc t c)
  assume clean: "s \<noteq> [] \<Longrightarrow> \<not> is_space (hd s) \<and> \<not> is_space (last s)"
  with snoc have "lstrip s = s" by (cases t) (auto simp: lstrip_def)
  with clean snoc show ?thesis by (simp add: strip_def lstrip_def)
qed (simp add: strip_def)

lemma decode_b32:
  assumes "strip t = t" "filter (\<lambda>c. c \<noteq> CHR '' '') t = s" "list_all is_b32 s" "s \<noteq> []" "length s mod 8 = 0"
  shows "decode_secret t = map_option (map of_int) (b32decode s)"
proof -
  have "concat (map upper_char s) = s"
    using assms(3) by (induction s) (auto dest!: is_b32_facts)
  moreover have "- int (length s) mod 8 = 0" using assms(5) by presburger
  ultimately show ?thesis using assms by (simp add: decode_secret_def)
qed

lemma format_ends:
  assumes "list_all is_b32 s"
  shows "strip (format_secret s) = format_secret s"
proof (rule strip_clean)
  assume ne: "format_secret s \<noteq> []"
  have ends: "ws \<noteq> [] \<Longrightarrow> list_all (\<lambda>w. w \<noteq> [] \<and> list_all is_b32 w) ws \<Longrightarrow>
      join '' '' ws \<noteq> [] \<and> is_b32 (hd (join '' '' ws)) \<and> is_b32 (last (join '' '' ws))" for ws
  proof (induction ws rule: induct_list012)
    case (2 x)
    then show ?case by (auto simp: list_all_iff)
  next
    case (3 x y zs)
    then show ?case by (auto simp: list_all_iff)
  qed simp
  have "w \<noteq> []" if "w \<in> set (chunks 4 xs)" for w xs :: string
    using that by (induction "4 :: nat" xs rule: chunks.induct) (subst (asm) (2) chunks.simps, auto split: if_splits)
  then have "list_all (\<lambda>w. w \<noteq> [] \<and> list_all is_b32 w) (chunks 4 s)"
    using assms arg_cong [OF concat_chunks [of 4 s], of set] by (simp add: list_all_iff) blast
  with ends [of "chunks 4 s"] ne show "\<not> is_space (hd (format_secret s)) \<and> \<not> is_space (last (format_secret s))"
    by (cases "chunks 4 s = []") (auto simp: format_secret_def dest: is_b32_facts)
qed

lemma typed_secret:
  assumes "length random = secret_bytes" "\<And>b. b \<in> set random \<Longrightarrow> 0 \<le> b \<and> b < 256"
  shows "decode_secret (generate_secret random) = Some (map of_int random)"
    and "decode_secret (format_secret (generate_secret random)) = Some (map of_int random)"
proof -
  have gen: "generate_secret random = b32encode random"
    by (simp add: generate_secret_def drop_padding b32encode_letters)
  have len: "length (b32encode random) = 32"
    using assms(1) by (cases "random = []") (simp_all add: b32encode_def length_concat o_def sum_list_triv secret_bytes_def chunks.simps)
  have inverse: "b32decode (b32encode random) = Some random"
    using assms by (intro b32_roundtrip) (auto simp: secret_bytes_def)
  note s = b32encode_letters [of random]
  have ne: "b32encode random \<noteq> []" using len by auto
  show "decode_secret (format_secret (generate_secret random)) = Some (map of_int random)"
    unfolding gen using decode_b32 [OF format_ends [OF s] filter_format [OF s] s ne] len inverse by simp
  have strip: "strip (b32encode random) = b32encode random"
    using s hd_in_set [OF ne] last_in_set [OF ne] is_b32_facts unfolding list_all_iff by (intro strip_clean) blast
  have "filter (\<lambda>c. c \<noteq> CHR '' '') (b32encode random) = b32encode random"
    using s is_b32_facts unfolding filter_id_conv list_all_iff by blast
  from decode_b32 [OF strip this s ne] len inverse show "decode_secret (generate_secret random) = Some (map of_int random)"
    unfolding gen by simp
qed

subsection \<open>Codes\<close>

text \<open>
  The reference, on numbers: four bytes of the HMAC of the counter, from the offset that its last
  byte gives, without the sign bit, modulo a million.
\<close>

definition rfc_mac :: "bytes \<Rightarrow> int \<Rightarrow> int list" where
  "rfc_mac key counter = map uint (hmac_sha1 key (map of_int (to_base 256 8 counter)))"

definition rfc_code :: "bytes \<Rightarrow> int \<Rightarrow> int" where
  "rfc_code key counter = (let m = rfc_mac key counter; i = nat (m ! 19 mod 16) in
     ((m ! i mod 128) * 2 ^ 24 + m ! (i + 1) * 2 ^ 16 + m ! (i + 2) * 2 ^ 8 + m ! (i + 3)) mod 1000000)"

lemma take4: "i + 4 \<le> length xs \<Longrightarrow> take 4 (drop i xs) = [xs ! i, xs ! (i + 1), xs ! (i + 2), xs ! (i + 3)]"
  by (intro nth_equalityI) (auto simp: less_Suc_eq numeral_eq_Suc)

lemma drop_sign_bit:
  fixes a r :: int
  assumes "0 \<le> r" "r < 2 ^ 24"
  shows "(a * 2 ^ 24 + r) mod 2 ^ 31 = (a mod 128) * 2 ^ 24 + r"
proof -
  have "a * 16777216 = a mod 128 * 16777216 + a div 128 * 2147483648"
    using mult_div_mod_eq [of 128 a] by linarith
  then have "a * 2 ^ 24 + r = (a mod 128 * 2 ^ 24 + r) + a div 128 * 2 ^ 31" by simp
  then have "(a * 2 ^ 24 + r) mod 2 ^ 31 = (a mod 128 * 2 ^ 24 + r) mod 2 ^ 31" by (metis mod_mult_self1)
  also have "... = a mod 128 * 2 ^ 24 + r"
    using assms pos_mod_sign [of 128 a] pos_mod_bound [of 128 a] by (intro mod_pos_pos_trivial) (auto simp: algebra_simps)
  finally show ?thesis .
qed

lemma truncate:
  fixes a b c d :: byte
  shows "uint (word_of [a, b, c, d] AND 0x7FFFFFFF) = (uint a mod 128) * 2 ^ 24 + uint b * 2 ^ 16 + uint c * 2 ^ 8 + uint d"
proof -
  have bounds: "0 \<le> uint x \<and> uint x < 256" for x :: byte using uint_lt2p [of x] by simp
  have mask: "(0x7FFFFFFF :: 32 word) = mask 31" by (simp add: mask_eq_exp_minus_1)
  have "from_base 256 [uint a, uint b, uint c, uint d] = uint a * 2 ^ 24 + uint b * 2 ^ 16 + uint c * 2 ^ 8 + uint d"
    by (simp add: from_base_def)
  then have "uint (word_of [a, b, c, d]) = uint a * 2 ^ 24 + uint b * 2 ^ 16 + uint c * 2 ^ 8 + uint d"
    unfolding word_of_def list.map uint_word_of_int using bounds [of a] bounds [of b] bounds [of c] bounds [of d] by simp
  moreover have "uint (word_of [a, b, c, d] AND mask 31) = uint (word_of [a, b, c, d]) mod 2 ^ 31"
    unfolding take_bit_eq_mask [symmetric] unsigned_take_bit_eq by (rule take_bit_eq_mod)
  ultimately show ?thesis
    unfolding mask using drop_sign_bit [of "uint b * 2 ^ 16 + uint c * 2 ^ 8 + uint d" "uint a"] bounds [of b] bounds [of c] bounds [of d]
    by (simp add: add.assoc)
qed

lemma word_low_bits: "uint (w AND 0x0F) = uint w mod 16" for w :: byte
proof -
  have "(0x0F :: byte) = mask 4" by (simp add: mask_eq_exp_minus_1)
  then have "uint (w AND 0x0F) = uint (take_bit 4 w)" by (simp only: take_bit_eq_mask)
  also have "... = uint w mod 2 ^ 4" unfolding unsigned_take_bit_eq by (rule take_bit_eq_mod)
  finally show ?thesis by simp
qed

lemma hotp_rfc:
  assumes "0 \<le> counter" "counter < 2 ^ 64"
  shows "hotp key counter = Inr (zfill 6 (str_int (rfc_code key counter)))"
proof -
  let ?mac = "hmac_sha1 key (map of_int (to_base 256 8 counter))"
  have "?mac \<noteq> []" using length_hmac_sha1 by (metis list.size(3) zero_neq_numeral)
  then have last: "last ?mac = ?mac ! 19" by (simp add: last_conv_nth)
  define i where "i = unat (?mac ! 19 AND 0x0F)"
  have i: "i = nat (uint (?mac ! 19) mod 16)" unfolding i_def word_low_bits [symmetric] by simp
  then have "i < 16" by (simp add: nat_less_iff)
  then have "take 4 (drop i ?mac) = [?mac ! i, ?mac ! (i + 1), ?mac ! (i + 2), ?mac ! (i + 3)]" by (intro take4) simp
  then have "uint (word_of (take 4 (drop i ?mac)) AND 0x7FFFFFFF) =
      (uint (?mac ! i) mod 128) * 2 ^ 24 + uint (?mac ! (i + 1)) * 2 ^ 16 + uint (?mac ! (i + 2)) * 2 ^ 8 + uint (?mac ! (i + 3))"
    using truncate by simp
  moreover have m: "rfc_mac key counter ! j = uint (?mac ! j)" if "j < 20" for j using that by (simp add: rfc_mac_def)
  have "rfc_code key counter = ((uint (?mac ! i) mod 128) * 2 ^ 24 + uint (?mac ! (i + 1)) * 2 ^ 16 +
      uint (?mac ! (i + 2)) * 2 ^ 8 + uint (?mac ! (i + 3))) mod 1000000"
    unfolding rfc_code_def Let_def m [of 19, simplified] i [symmetric] using \<open>i < 16\<close> by (simp only: m add_less_mono)
  ultimately have "uint (word_of (take 4 (drop i ?mac)) AND 0x7FFFFFFF) mod 10 ^ 6 = rfc_code key counter" by simp
  with assms show ?thesis by (simp add: hotp_def Let_def last code_digits_def i_def [symmetric])
qed

lemma digits_facts: "list_all is_dec (digits_of n) \<and> digits_of n \<noteq> [] \<and> dec_value (digits_of n) = n"
proof (induction n rule: digits_of.induct)
  case (1 n)
  have dec: "is_dec (char_of (48 + k)) \<and> code (char_of (48 + k) :: char) = 48 + k" if "k < 10" for k :: nat
    using that by (simp add: is_dec_def of_char_of)
  show ?case
  proof (cases "n < 10")
    case True
    with dec [of n] show ?thesis by (subst (1 2 3) digits_of.simps) (simp add: dec_value_def)
  next
    case False
    with 1 dec [of "n mod 10"] show ?thesis by (subst (1 2 3) digits_of.simps) (simp add: dec_value_def)
  qed
qed

lemma digits_length: "n < 10 ^ Suc k \<Longrightarrow> length (digits_of n) \<le> Suc k"
proof (induction k arbitrary: n)
  case (Suc k)
  then have "n div 10 < 10 ^ Suc k" by (simp add: less_mult_imp_div_less mult.commute)
  with Suc.IH [of "n div 10"] show ?case by (subst digits_of.simps) simp
qed (subst digits_of.simps, simp)

lemma dec_value_snoc: "dec_value (s @ [c]) = 10 * dec_value s + (code c - 48)"
  by (simp add: dec_value_def)

lemma last_digit: "10 * a + (x - 48) = 10 * b + (y - 48) \<Longrightarrow> 48 \<le> x \<and> x \<le> 57 \<Longrightarrow> 48 \<le> y \<and> y \<le> 57 \<Longrightarrow> a = b \<and> x = y"
  for a b x y :: nat
  by presburger

lemma dec_value_inj: "list_all is_dec s \<Longrightarrow> list_all is_dec t \<Longrightarrow> length s = length t \<Longrightarrow> dec_value s = dec_value t \<Longrightarrow> s = t"
proof (induction s arbitrary: t rule: rev_induct)
  case (snoc c s)
  then obtain d u where t: "t = u @ [d]" by (metis length_0_conv rev_exhaust snoc_eq_iff_butlast)
  have "10 * dec_value s + (code c - 48) = 10 * dec_value u + (code d - 48)"
    using snoc.prems(4) by (simp add: t dec_value_snoc)
  moreover have "48 \<le> code c \<and> code c \<le> 57" "48 \<le> code d \<and> code d \<le> 57" using snoc.prems(1,2) by (simp_all add: t is_dec_def)
  ultimately have "dec_value s = dec_value u \<and> code c = code d" by (intro last_digit)
  moreover from this have "s = u" using snoc.prems by (intro snoc.IH) (simp_all add: t)
  ultimately show ?case by (simp add: t)
qed simp

lemma dec_value_zeros: "dec_value (replicate n (CHR ''0'') @ s) = dec_value s"
  by (induction n) (simp_all add: dec_value_def)

text \<open>The text of a number below a million, filled to six digits, is the one six-digit text with that value.\<close>

lemma six_digits:
  assumes "length s = 6" "list_all is_dec s" "0 \<le> n" "n < 1000000"
  shows "zfill 6 (str_int n) = s \<longleftrightarrow> int (dec_value s) = n"
proof -
  let ?t = "zfill 6 (str_int n)"
  have str: "str_int n = digits_of (nat n)" using assms(3) by (simp add: str_int_def)
  have "length (digits_of (nat n)) \<le> 6" using digits_length [of "nat n" 5] assms(4) by simp
  then have "length ?t = 6" by (simp add: zfill_def str)
  moreover have "list_all is_dec ?t"
    using digits_facts [of "nat n"] by (auto simp: zfill_def str list_all_iff is_dec_def)
  moreover have "dec_value ?t = nat n" using digits_facts [of "nat n"] by (simp add: zfill_def str dec_value_zeros)
  ultimately show ?thesis using dec_value_inj [of ?t s] assms by auto
qed

lemma set_strip: "set (strip s) \<subseteq> set s"
  by (auto simp: strip_def lstrip_def dest!: set_dropWhileD)

lemma ascii_digits: "is_ascii s \<Longrightarrow> isdigit s \<longleftrightarrow> s \<noteq> [] \<and> list_all is_dec s"
  by (fastforce simp: is_ascii_def isdigit_def is_digit_char_def list_all_iff)

lemma rfc_code_range: "0 \<le> rfc_code key n" "rfc_code key n < 1000000"
  by (simp_all add: rfc_code_def Let_def)

lemma code_ascii: "is_ascii (zfill 6 (str_int (rfc_code key n)))"
  using digits_facts [of "nat (rfc_code key n)"] rfc_code_range [of key n]
  by (auto simp: is_ascii_def zfill_def str_int_def list_all_iff is_dec_def)

lemma try_counters_rfc:
  assumes "length s = 6" "list_all is_dec s" "list_all (\<lambda>n. 0 \<le> n \<and> n < 2 ^ 64) ns"
  shows "try_counters key s ns = Inr (list_ex (\<lambda>n. int (dec_value s) = rfc_code key n) ns)"
  using assms(3)
proof (induction ns)
  case (Cons n ns)
  have "is_ascii s" using assms(2) by (auto simp: is_ascii_def list_all_iff is_dec_def)
  with Cons show ?case
    by (simp add: hotp_rfc compare_digest_def code_ascii six_digits [OF assms(1,2) rfc_code_range] split: bool.split)
qed simp

text \<open>
  C40. The check of a code accepts exactly the codes of RFC 6238: the six decimal digits whose value is
  the truncated HMAC-SHA-1 of the current period, of the one before or of the one after, computed on
  numbers instead of masks, words and texts, for every time from the second period of the epoch on.
\<close>

theorem totp_matches_rfc:
  assumes "decode_secret secret = Some key" and "1 \<le> py_int moment div 30" and "py_int moment div 30 < 2 ^ 64 - 1" and "is_ascii typed"
  shows "totp_verify secret typed moment 1 = Inr (length (strip typed) = 6 \<and> list_all is_dec (strip typed) \<and>
    int (dec_value (strip typed)) \<in> (\<lambda>d. rfc_code key (py_int moment div 30 + d)) ` {-1, 0, 1})"
proof -
  have ascii: "is_ascii (strip typed)" using assms(4) set_strip [of typed] by (auto simp: is_ascii_def list_all_iff)
  have counters: "map (\<lambda>d. py_int moment div 30 + d) [-1..1] = [py_int moment div 30 - 1, py_int moment div 30, py_int moment div 30 + 1]"
    by (simp add: upto.simps)
  have "list_all (\<lambda>n. 0 \<le> n \<and> n < 2 ^ 64) [py_int moment div 30 - 1, py_int moment div 30, py_int moment div 30 + 1]"
    using assms(2,3) by simp
  from try_counters_rfc [OF _ _ this, of "strip typed" key] show ?thesis
    using assms(1) ascii_digits [OF ascii]
    by (auto simp: totp_verify_def Let_def code_digits_def period_def counters)
qed

theorem totp_matches_rfc_witness:
  "totp_verify (generate_secret (replicate 20 7)) ''12345'' 59 1 = Inr False"
proof -
  have key: "decode_secret (generate_secret (replicate 20 7)) = Some (map of_int (replicate 20 7))"
    by (rule typed_secret(1)) (auto simp: secret_bytes_def)
  have "py_int 59 div 30 = 1" by (simp add: py_int_def)
  moreover have "is_ascii ''12345''" "length (strip ''12345'') = 5" by code_simp+
  ultimately show ?thesis using totp_matches_rfc [OF key, of 59 "''12345''"] by simp
qed

text \<open>
  The key a user types in is the key that was drawn: the text made from the random bytes, shown in
  groups of four letters, is decoded to these bytes, with or without the spaces.
\<close>

theorem shown_secret_is_the_key:
  assumes "length random = secret_bytes" and "list_all (\<lambda>b. 0 \<le> b \<and> b < 256) random"
  shows "decode_secret (generate_secret random) = Some (map of_int random) \<and>
    decode_secret (format_secret (generate_secret random)) = Some (map of_int random)"
  using typed_secret [of random] assms by (simp_all add: list_all_iff)

theorem shown_secret_is_the_key_witness:
  "decode_secret (format_secret (generate_secret (replicate 20 7))) = Some (replicate 20 7)"
  using shown_secret_is_the_key [of "replicate 20 7"] by (simp add: secret_bytes_def list_all_length)

text \<open>
  A code of six superscript digits passes the test of its characters and makes the comparison raise.
\<close>

lemma superscript_code_raises:
  assumes "decode_secret secret = Some key" "1 \<le> py_int moment div 30" "py_int moment div 30 < 2 ^ 64 - 1"
  shows "totp_verify secret (replicate 6 (CHR 0xB2)) moment 1 =
    Inl (TypeError ''comparing strings with non-ASCII characters is not supported'')"
proof -
  have strip: "strip (replicate 6 (CHR 0xB2)) = replicate 6 (CHR 0xB2)" by code_simp
  have "isdigit (replicate 6 (CHR 0xB2))" "\<not> is_ascii (replicate 6 (CHR 0xB2))" by code_simp+
  with assms strip show ?thesis
    by (simp add: totp_verify_def Let_def code_digits_def period_def upto.simps hotp_rfc compare_digest_def)
qed

end
