(* ===== verification/Account_Stores.thy ===== *)
theory Account_Stores
  imports Sessions Json_Stores Totp
begin

text \<open>
  The files behind the accounts: roles (\<^verbatim>\<open>app/adapters/users_store.py\<close>), password hashes
  (\<^verbatim>\<open>credentials_store.py\<close>), keys of the second factor (\<^verbatim>\<open>totp_store.py\<close>), displayed names
  (\<^verbatim>\<open>display_names.py\<close>) and API tokens (\<^verbatim>\<open>app/api/api_tokens.py\<close>).

  A read takes the file as it is seen. A change takes it too and gives the result with the file to
  write, if there is one; \<open>file_after\<close> is the file once the write is done. What \<open>str\<close> and \<open>float\<close> make of the
  values that only a damaged file holds is part of the environment of \<^verbatim>\<open>Sessions\<close>.
\<close>

type_synonym 'a file_change = "exn + 'a \<times> jfile option"

definition dict_of :: "jfile \<Rightarrow> json" where
  "dict_of f = read_json is_obj (JObj []) f"

definition dict_strict :: "jfile \<Rightarrow> exn + json" where
  "dict_strict f = load_json is_obj (JObj []) True f"

definition change_dict :: "(json \<Rightarrow> 'a \<times> json option) \<Rightarrow> jfile \<Rightarrow> 'a file_change" where
  "change_dict ch f = (case dict_strict f of
       Inl e \<Rightarrow> Inl e
     | Inr d \<Rightarrow> (case ch d of (x, j) \<Rightarrow> Inr (x, map_option Doc j)))"

definition drop_key :: "string \<Rightarrow> json \<Rightarrow> bool \<times> json option" where
  "drop_key k d = (if jhas d k then (True, Some (jpop k d)) else (False, None))"

fun file_after :: "jfile \<Rightarrow> 'a file_change \<Rightarrow> exn + jfile" where
  "file_after f (Inl e) = Inl e"
| "file_after f (Inr (x, None)) = Inr f"
| "file_after f (Inr (x, Some g)) = Inr g"

subsection \<open>Roles of the accounts\<close>

record users_data =
  ud_users :: "(string \<times> string) list"
  ud_removed :: "string list"
  ud_import_done :: bool

definition us_data :: "session_env \<Rightarrow> json \<Rightarrow> users_data" where
  "us_data E raw =
     (let data = (if \<not> jhas raw ''users'' \<and> \<not> jhas raw ''removed'' then JObj [(''users'', raw)] else raw) in
      \<lparr>ud_users = (if is_obj (jget data ''users'')
           then map (\<lambda>(k, v). (k, py_str (other_text E) v)) (obj_fields (jget data ''users'')) else []),
       ud_removed = (if is_arr (jget data ''removed'') then map (py_str (other_text E)) (arr_items (jget data ''removed'')) else []),
       ud_import_done = truthy (jget data ''yaml_import_done'')\<rparr>)"

definition us_load :: "session_env \<Rightarrow> bool \<Rightarrow> jfile \<Rightarrow> exn + users_data" where
  "us_load E strict f = (case load_json is_obj (JObj []) strict f of Inl e \<Rightarrow> Inl e | Inr raw \<Rightarrow> Inr (us_data E raw))"

definition us_json :: "users_data \<Rightarrow> json" where
  "us_json d = JObj [(''users'', JObj (map (\<lambda>(k, r). (k, JStr r)) (ud_users d))), (''yaml_import_done'', JBool (ud_import_done d))]"

definition us_all :: "session_env \<Rightarrow> jfile \<Rightarrow> (string \<times> string) list" where
  "us_all E f = ud_users (us_data E (dict_of f))"

definition us_add :: "session_env \<Rightarrow> string \<Rightarrow> string \<Rightarrow> jfile \<Rightarrow> unit file_change" where
  "us_add E u r f = (case us_load E True f of
       Inl e \<Rightarrow> Inl e
     | Inr d \<Rightarrow> Inr ((), Some (Doc (us_json (d\<lparr>ud_users := AList.update u r (ud_users d)\<rparr>)))))"

definition us_remove :: "session_env \<Rightarrow> string \<Rightarrow> jfile \<Rightarrow> bool file_change" where
  "us_remove E u f = (case us_load E True f of
       Inl e \<Rightarrow> Inl e
     | Inr d \<Rightarrow> if map_of (ud_users d) u = None then Inr (False, None)
         else Inr (True, Some (Doc (us_json (d\<lparr>ud_users := AList.delete u (ud_users d)\<rparr>)))))"

definition us_import_done :: "session_env \<Rightarrow> jfile \<Rightarrow> bool" where
  "us_import_done E f = ud_import_done (us_data E (dict_of f))"

definition us_legacy_removed :: "session_env \<Rightarrow> jfile \<Rightarrow> string list" where
  "us_legacy_removed E f = ud_removed (us_data E (dict_of f))"

definition set_default :: "'k \<times> 'v \<Rightarrow> ('k \<times> 'v) list \<Rightarrow> ('k \<times> 'v) list" where
  "set_default x d = (if map_of d (fst x) = None then d @ [x] else d)"

definition us_import :: "session_env \<Rightarrow> (string \<times> string) list \<Rightarrow> jfile \<Rightarrow> unit file_change" where
  "us_import E entries f = (case us_load E True f of
       Inl e \<Rightarrow> Inl e
     | Inr d \<Rightarrow> Inr ((), Some (Doc (us_json (d\<lparr>ud_users := fold set_default entries (ud_users d), ud_import_done := True\<rparr>)))))"

subsection \<open>Password hashes\<close>

definition cr_get :: "string \<Rightarrow> jfile \<Rightarrow> string option" where
  "cr_get u f = (case jget (dict_of f) u of JStr h \<Rightarrow> if h \<noteq> [] then Some h else None | _ \<Rightarrow> None)"

definition cr_set :: "string \<Rightarrow> string \<Rightarrow> jfile \<Rightarrow> unit file_change" where
  "cr_set u h f = change_dict (\<lambda>d. ((), Some (jset u (JStr h) d))) f"

definition cr_remove :: "string \<Rightarrow> jfile \<Rightarrow> bool file_change" where
  "cr_remove u f = change_dict (drop_key u) f"

subsection \<open>Keys of the second factor\<close>

definition tp_entry :: "string \<Rightarrow> jfile \<Rightarrow> (string \<times> bool) option" where
  "tp_entry u f = (let entry = jget (dict_of f) u in
     case jget entry ''secret'' of
       JStr s \<Rightarrow> if s \<noteq> [] then Some (s, truthy (jget entry ''confirmed'')) else None
     | _ \<Rightarrow> None)"

definition tp_is_enabled :: "string \<Rightarrow> jfile \<Rightarrow> bool" where
  "tp_is_enabled u f = (case tp_entry u f of Some (s, confirmed) \<Rightarrow> confirmed | None \<Rightarrow> False)"

definition tp_has_pending :: "string \<Rightarrow> jfile \<Rightarrow> bool" where
  "tp_has_pending u f = (case tp_entry u f of Some (s, confirmed) \<Rightarrow> \<not> confirmed | None \<Rightarrow> False)"

definition tp_secret :: "string \<Rightarrow> jfile \<Rightarrow> string option" where
  "tp_secret u f = map_option fst (tp_entry u f)"

definition tp_set_pending :: "string \<Rightarrow> string \<Rightarrow> jfile \<Rightarrow> unit file_change" where
  "tp_set_pending u s f =
     change_dict (\<lambda>d. ((), Some (jset u (JObj [(''secret'', JStr s), (''confirmed'', JBool False)]) d))) f"

definition tp_confirm :: "string \<Rightarrow> jfile \<Rightarrow> bool file_change" where
  "tp_confirm u f = change_dict (\<lambda>d. let entry = jget d u in
     if \<not> is_obj entry \<or> \<not> truthy (jget entry ''secret'') then (False, None)
     else (True, Some (jset u (jset ''confirmed'' (JBool True) entry) d))) f"

definition tp_remove :: "string \<Rightarrow> jfile \<Rightarrow> bool file_change" where
  "tp_remove u f = change_dict (drop_key u) f"

subsection \<open>Displayed names\<close>

definition dn_get :: "string \<Rightarrow> jfile \<Rightarrow> string option" where
  "dn_get u f = (case jget (dict_of f) u of JStr n \<Rightarrow> if n \<noteq> [] then Some n else None | _ \<Rightarrow> None)"

definition dn_set :: "string \<Rightarrow> string \<Rightarrow> jfile \<Rightarrow> unit file_change" where
  "dn_set u n f = change_dict (\<lambda>d. ((), Some (if n \<noteq> [] then jset u (JStr n) d else jpop u d))) f"

subsection \<open>API tokens\<close>

record token_info =
  ti_id :: string
  ti_label :: string
  ti_role :: string
  ti_created :: rat

definition clean_label :: "string \<Rightarrow> string" where
  "clean_label label = (let l = take 64 (join '' '' (split_ws label)) in if l = [] then ''sans nom'' else l)"

text \<open>\<open>hash\<close> is \<open>_hash_token\<close>: the SHA-256 of the token in hexadecimal.\<close>

definition tk_create :: "(string \<Rightarrow> string) \<Rightarrow> string \<Rightarrow> string \<Rightarrow> rat \<Rightarrow> string \<Rightarrow> string \<Rightarrow> jfile \<Rightarrow> unit file_change" where
  "tk_create hash raw token_id now label role = change_dict (\<lambda>d. ((), Some (jset token_id
     (JObj [(''label'', JStr (clean_label label)), (''role'', JStr role), (''token_hash'', JStr (hash raw)), (''created_at'', JFloat now)]) d)))"

definition token_of :: "session_env \<Rightarrow> string \<times> json \<Rightarrow> exn + token_info" where
  "token_of E x = (case x of (i, entry) \<Rightarrow> (case py_float E (or_json (jget entry ''created_at'') (JFloat 0)) of
       Inl e \<Rightarrow> Inl e
     | Inr t \<Rightarrow> Inr \<lparr>ti_id = i, ti_label = py_str (other_text E) (or_json (jget entry ''label'') (JStr ''sans nom'')),
         ti_role = py_str (other_text E) (or_json (jget entry ''role'') (JStr [])), ti_created = t\<rparr>))"

fun find_token :: "session_env \<Rightarrow> string \<Rightarrow> (string \<times> json) list \<Rightarrow> exn + token_info option" where
  "find_token E wanted [] = Inr None"
| "find_token E wanted ((i, entry) # xs) =
     (if \<not> is_str (jget entry ''token_hash'') then find_token E wanted xs
      else (case compare_digest (str_of (jget entry ''token_hash'')) wanted of
          Inl e \<Rightarrow> Inl e
        | Inr True \<Rightarrow> (case token_of E (i, entry) of Inl e \<Rightarrow> Inl e | Inr t \<Rightarrow> Inr (Some t))
        | Inr False \<Rightarrow> find_token E wanted xs))"

definition tk_resolve :: "session_env \<Rightarrow> (string \<Rightarrow> string) \<Rightarrow> string \<Rightarrow> jfile \<Rightarrow> exn + token_info option" where
  "tk_resolve E hash raw f = (if raw = [] then Inr None else find_token E (hash raw) (obj_fields (dict_of f)))"

fun tokens_of :: "session_env \<Rightarrow> (string \<times> json) list \<Rightarrow> exn + token_info list" where
  "tokens_of E [] = Inr []"
| "tokens_of E (x # xs) =
     (if \<not> is_obj (snd x) then tokens_of E xs
      else (case token_of E x of
          Inl e \<Rightarrow> Inl e
        | Inr t \<Rightarrow> (case tokens_of E xs of Inl e \<Rightarrow> Inl e | Inr ts \<Rightarrow> Inr (t # ts))))"

definition tk_list :: "session_env \<Rightarrow> jfile \<Rightarrow> exn + token_info list" where
  "tk_list E f = (case tokens_of E (obj_fields (dict_of f)) of
       Inl e \<Rightarrow> Inl e
     | Inr ts \<Rightarrow> Inr (sort_key (\<lambda>t. - ti_created t) ts))"

definition tk_revoke :: "string \<Rightarrow> jfile \<Rightarrow> bool file_change" where
  "tk_revoke token_id f = change_dict (drop_key token_id) f"

subsection \<open>The files are maps\<close>

definition dict_readable :: "jfile \<Rightarrow> bool" where
  "dict_readable f \<longleftrightarrow> (case dict_strict f of Inl e \<Rightarrow> False | Inr d \<Rightarrow> True)"

lemma strict_dict: "dict_strict f = Inr d \<Longrightarrow> dict_of f = d"
  by (auto simp: dict_strict_def dict_of_def read_json_def dest: load_json_agree)

lemma dict_readableE:
  assumes "dict_readable f" obtains "dict_strict f = Inr (dict_of f)"
  using assms strict_dict by (cases "dict_strict f") (auto simp: dict_readable_def)

lemma dict_of_Doc [simp]: "is_obj j \<Longrightarrow> dict_of (Doc j) = j"
  by (simp add: dict_of_def read_json_Doc)

lemma dict_readable_Doc [simp]: "is_obj j \<Longrightarrow> dict_readable (Doc j)"
  by (simp add: dict_readable_def dict_strict_def load_json_def)

lemma is_obj_dict_of [simp]: "is_obj (dict_of f)"
  unfolding dict_of_def by (rule read_json_expected) simp

lemma jget_absent: "\<not> jhas d k \<Longrightarrow> jget d k = JNull"
  by (simp add: jhas_def jget_def)

lemma drop_key_file:
  assumes "dict_readable f"
  obtains g where "file_after f (change_dict (drop_key k) f) = Inr g" "dict_readable g"
    "\<And>k'. jget (dict_of g) k' = (if k' = k then JNull else jget (dict_of f) k')"
proof (cases "jhas (dict_of f) k")
  case True
  with assms show ?thesis by (elim dict_readableE) (rule that, auto simp: change_dict_def drop_key_def)
next
  case False
  with assms show ?thesis
    by (elim dict_readableE) (rule that [of f], auto simp: change_dict_def drop_key_def jget_absent dict_readable_def)
qed

lemma set_key_file:
  assumes "dict_readable f"
  obtains g where "file_after f (change_dict (\<lambda>d. ((), Some (jset k v d))) f) = Inr g" "dict_readable g"
    "\<And>k'. jget (dict_of g) k' = (if k' = k then v else jget (dict_of f) k')"
  using assms by (elim dict_readableE) (rule that, auto simp: change_dict_def)

text \<open>The hashes of the passwords: a user name with its hash, which is not empty.\<close>

definition password_view :: "jfile \<Rightarrow> (string \<rightharpoonup> string \<times> string)" where
  "password_view f u = map_option (Pair u) (cr_get u f)"

interpretation passwords: map_store dict_readable password_view fst "\<lambda>(u, h). h \<noteq> []"
  "\<lambda>(u, h) f. file_after f (cr_set u h f)" "\<lambda>u f. file_after f (cr_remove u f)"
proof unfold_locales
  fix f and v :: "string \<times> string"
  assume f: "dict_readable f" and v: "case v of (u, h) \<Rightarrow> h \<noteq> []"
  obtain g where g: "file_after f (change_dict (\<lambda>d. ((), Some (jset (fst v) (JStr (snd v)) d))) f) = Inr g" "dict_readable g"
    "\<And>k'. jget (dict_of g) k' = (if k' = fst v then JStr (snd v) else jget (dict_of f) k')" 
    by (rule set_key_file [OF f, of "fst v" "JStr (snd v)"]) blast
  have "password_view g = (password_view f)(fst v \<mapsto> v)"
    using v by (intro ext) (auto simp: password_view_def cr_get_def g(3))
  with g show "\<exists>g. (case v of (u, h) \<Rightarrow> \<lambda>f. file_after f (cr_set u h f)) f = Inr g \<and> dict_readable g \<and>
      password_view g = (password_view f)(fst v \<mapsto> v)"
    by (auto simp: cr_set_def split: prod.split)
next
  fix f k assume f: "dict_readable f"
  obtain g where g: "file_after f (change_dict (drop_key k) f) = Inr g" "dict_readable g"
    "\<And>k'. jget (dict_of g) k' = (if k' = k then JNull else jget (dict_of f) k')" 
    by (rule drop_key_file [OF f, of k]) blast
  have "password_view g = (password_view f)(k := None)"
    by (intro ext) (simp add: password_view_def cr_get_def g(3))
  with g show "\<exists>g. file_after f (cr_remove k f) = Inr g \<and> dict_readable g \<and> password_view g = (password_view f)(k := None)"
    by (auto simp: cr_remove_def)
qed

text \<open>The roles of the accounts, in any of the formats the file had.\<close>

definition role_view :: "session_env \<Rightarrow> jfile \<Rightarrow> (string \<rightharpoonup> string \<times> string)" where
  "role_view E f u = map_option (Pair u) (map_of (us_all E f) u)"

lemma us_load_strict: "dict_readable f \<Longrightarrow> us_load E True f = Inr (us_data E (dict_of f))"
  by (elim dict_readableE) (simp add: us_load_def dict_strict_def)

lemma us_json_back: "ud_users (us_data E (us_json d)) = ud_users d" "ud_import_done (us_data E (us_json d)) = ud_import_done d"
  by (simp_all add: us_data_def us_json_def jhas_def o_def case_prod_unfold)

lemma us_json_obj [simp]: "is_obj (us_json d)"
  by (simp add: us_json_def)

interpretation roles: map_store dict_readable "role_view E" fst "\<lambda>_. True"
  "\<lambda>(u, r) f. file_after f (us_add E u r f)" "\<lambda>u f. file_after f (us_remove E u f)" for E
proof unfold_locales
  fix f and v :: "string \<times> string"
  assume "dict_readable f"
  then show "\<exists>g. (case v of (u, r) \<Rightarrow> \<lambda>f. file_after f (us_add E u r f)) f = Inr g \<and> dict_readable g \<and>
      role_view E g = (role_view E f)(fst v \<mapsto> v)"
    by (auto simp: us_add_def us_load_strict role_view_def us_all_def us_json_back split: prod.split intro!: ext)
next
  fix f k
  assume "dict_readable f"
  then show "\<exists>g. file_after f (us_remove E k f) = Inr g \<and> dict_readable g \<and> role_view E g = (role_view E f)(k := None)"
    by (auto simp: us_remove_def us_load_strict role_view_def us_all_def us_json_back intro!: ext)
qed

end
