(* ===== verification/Web.thy ===== *)
theory Web
  imports Login_Limiter Client_Ip Account_Stores Service_Core
begin

text \<open>
  What the handlers of the web application share (\<^verbatim>\<open>app/api/routes/common.py\<close>, \<^verbatim>\<open>app/api/auth.py\<close>,
  \<^verbatim>\<open>app/api/security.py\<close> and the mixin \<^verbatim>\<open>app/domain/services/accounts.py\<close>): the state of the application, the signed cookie, the user
  behind a request, the form token.

  The cookie holds \<open>request.session\<close>. It is signed, so a client presents only cookies the application has issued,
  old ones included. The state holds the files with two plans, which say what the next reads see
  (\<open>False\<close>: the file cannot be read) and how the next writes end; an empty plan is one without
  faults. The random tokens of a request and its times come with it: \<open>time.time()\<close> is one instant, the
  monotonic clock of the limiter is read once before and once after the check of a password or a code.
\<close>

subsection \<open>State\<close>

record cookie =
  ck_user :: "string option"
  ck_sid :: "string option"
  ck_csrf :: "string option"
  ck_flash :: "string option"
  ck_pending :: "(string \<times> rat) option"
  ck_token :: "string option"

definition empty_cookie :: cookie where
  "empty_cookie = \<lparr>ck_user = None, ck_sid = None, ck_csrf = None, ck_flash = None, ck_pending = None, ck_token = None\<rparr>"

text \<open>
  \<open>hash_verify\<close> and \<open>hash_make\<close> are the injected password hasher, with the salt it draws; \<open>find_ip\<close> is
  \<open>resolve\<close> of \<^verbatim>\<open>Client_Ip\<close> for the configured proxies.
\<close>

record web_env =
  env_sessions :: session_env
  env_limits :: limits
  env_ports :: ports
  env_roles :: "(string \<times> role) list"
  hash_verify :: "string \<Rightarrow> string \<Rightarrow> exn + bool"
  hash_make :: "string \<Rightarrow> string \<Rightarrow> exn + string"
  dummy_hash :: string
  find_ip :: "string option \<Rightarrow> string option \<Rightarrow> string"
  hash_token :: "string \<Rightarrow> string"

record visit =
  peer_host :: "string option"
  forwarded_for :: "string option"
  user_agent :: string
  form_token :: string
  wall_time :: rat
  mono_before :: rat
  mono_after :: rat
  new_sid :: string
  new_csrf :: string
  salt :: string
  random_bytes :: "int list"
  new_token :: string
  new_token_id :: string

text \<open>An account whose role is \<open>None\<close> is a \<open>User\<close> built from a missing role: every permission check of it raises.\<close>

type_synonym account = "string \<times> role option"

record web =
  accounts :: "account list"
  users_file :: jfile
  cred_file :: jfile
  totp_file :: jfile
  names_file :: jfile
  tokens_file :: jfile
  reg :: registry
  lim :: limiter
  srv :: svc
  cookie :: cookie
  reads :: "bool list"
  writes :: "write_answer list"

datatype response = Redirect string | Page string string nat

subsection \<open>Using the parts\<close>

definition next_read :: "(web, bool) prog" where
  "next_read = (\<lambda>s. case reads s of [] \<Rightarrow> (Inr True, s) | b # bs \<Rightarrow> (Inr b, s\<lparr>reads := bs\<rparr>))"

definition next_write :: "(web, write_answer) prog" where
  "next_write = (\<lambda>s. case writes s of [] \<Rightarrow> (Inr Written, s) | w # ws \<Rightarrow> (Inr w, s\<lparr>writes := ws\<rparr>))"

definition see :: "(web \<Rightarrow> jfile) \<Rightarrow> (web, jfile) prog" where
  "see file = bindM next_read (\<lambda>ok. bindM (getM file) (\<lambda>f. retM (if ok then f else Unreadable)))"

definition change_file :: "(web \<Rightarrow> jfile) \<Rightarrow> (jfile \<Rightarrow> web \<Rightarrow> web) \<Rightarrow> (jfile \<Rightarrow> 'a file_change) \<Rightarrow> (web, 'a) prog" where
  "change_file file put op = bindM (see file) (\<lambda>f. case op f of
       Inl e \<Rightarrow> raiseM e
     | Inr (x, None) \<Rightarrow> retM x
     | Inr (x, Some g) \<Rightarrow> bindM next_write (\<lambda>w. \<lambda>s. after_write w x s (put g s)))"

definition with_users :: "(jfile \<Rightarrow> 'a file_change) \<Rightarrow> (web, 'a) prog" where
  "with_users = change_file users_file (\<lambda>g s. s\<lparr>users_file := g\<rparr>)"

definition with_cred :: "(jfile \<Rightarrow> 'a file_change) \<Rightarrow> (web, 'a) prog" where
  "with_cred = change_file cred_file (\<lambda>g s. s\<lparr>cred_file := g\<rparr>)"

definition with_totp :: "(jfile \<Rightarrow> 'a file_change) \<Rightarrow> (web, 'a) prog" where
  "with_totp = change_file totp_file (\<lambda>g s. s\<lparr>totp_file := g\<rparr>)"

definition with_names :: "(jfile \<Rightarrow> 'a file_change) \<Rightarrow> (web, 'a) prog" where
  "with_names = change_file names_file (\<lambda>g s. s\<lparr>names_file := g\<rparr>)"

definition with_tokens :: "(jfile \<Rightarrow> 'a file_change) \<Rightarrow> (web, 'a) prog" where
  "with_tokens = change_file tokens_file (\<lambda>g s. s\<lparr>tokens_file := g\<rparr>)"

definition with_reg :: "(write_answer \<Rightarrow> registry \<Rightarrow> (exn + 'a) \<times> registry) \<Rightarrow> (web, 'a) prog" where
  "with_reg op = bindM next_write (\<lambda>w. zoomM reg (\<lambda>R s. s\<lparr>reg := R\<rparr>) (op w))"

definition with_lim :: "(limiter \<Rightarrow> exn + 'a \<times> limiter) \<Rightarrow> (web, 'a) prog" where
  "with_lim op = bindM (getM lim) (\<lambda>L. case op L of
       Inl e \<Rightarrow> raiseM e
     | Inr (x, L') \<Rightarrow> thenM (modM (\<lambda>s. s\<lparr>lim := L'\<rparr>)) (retM x))"

definition settle :: "(limiter \<Rightarrow> exn + limiter) \<Rightarrow> (web, unit) prog" where
  "settle op = with_lim (\<lambda>L. case op L of Inl e \<Rightarrow> Inl e | Inr L' \<Rightarrow> Inr ((), L'))"

definition with_srv :: "(svc, 'a) prog \<Rightarrow> (web, 'a) prog" where
  "with_srv m = zoomM srv (\<lambda>t s. s\<lparr>srv := t\<rparr>) m"

definition returning :: "exn + 'a \<Rightarrow> (web, 'a) prog" where
  "returning r = (case r of Inl e \<Rightarrow> raiseM e | Inr x \<Rightarrow> retM x)"

definition set_cookie :: "(cookie \<Rightarrow> cookie) \<Rightarrow> (web, unit) prog" where
  "set_cookie f = modM (\<lambda>s. s\<lparr>cookie := f (cookie s)\<rparr>)"

definition flash :: "string \<Rightarrow> (web, unit) prog" where
  "flash text = set_cookie (\<lambda>c. c\<lparr>ck_flash := Some text\<rparr>)"

definition present :: "string option \<Rightarrow> bool" where
  "present x \<longleftrightarrow> (case x of Some (c # cs) \<Rightarrow> True | _ \<Rightarrow> False)"

definition text_or :: "string \<Rightarrow> string option \<Rightarrow> string" where
  "text_or d x = (case x of Some t \<Rightarrow> t | None \<Rightarrow> d)"

subsection \<open>The form token\<close>

definition csrf_ok :: "string option \<Rightarrow> string \<Rightarrow> exn + bool" where
  "csrf_ok session_token form =
     (if \<not> present session_token \<or> form = [] then Inr False else compare_digest (text_or [] session_token) form)"

definition csrf :: "visit \<Rightarrow> (web, string) prog" where
  "csrf v = bindM (getM (\<lambda>s. ck_csrf (cookie s))) (\<lambda>t.
     if present t then retM (text_or [] t)
     else thenM (set_cookie (\<lambda>c. c\<lparr>ck_csrf := Some (new_csrf v)\<rparr>)) (retM (new_csrf v)))"

definition require_csrf :: "visit \<Rightarrow> (web, unit) prog" where
  "require_csrf v = bindM (getM (\<lambda>s. ck_csrf (cookie s))) (\<lambda>t. bindM (returning (csrf_ok t (form_token v))) (\<lambda>ok.
     if ok then retM () else raiseM (HTTPException 400 ''Jeton CSRF invalide'')))"

text \<open>A page with a form carries the token.\<close>

definition page :: "visit \<Rightarrow> string \<Rightarrow> string \<Rightarrow> nat \<Rightarrow> (web, response) prog" where
  "page v template error status = thenM (csrf v) (retM (Page template error status))"

subsection \<open>The user behind a request\<close>

definition client_ip :: "web_env \<Rightarrow> visit \<Rightarrow> string" where
  "client_ip E v = find_ip E (peer_host v) (forwarded_for v)"

definition register_session :: "web_env \<Rightarrow> visit \<Rightarrow> string \<Rightarrow> (web, unit) prog" where
  "register_session E v u = bindM
     (with_reg (\<lambda>w. register (env_sessions E) w (wall_time v) (new_sid v) u (client_ip E v) (user_agent v)))
     (\<lambda>sid. set_cookie (\<lambda>c. c\<lparr>ck_sid := Some sid\<rparr>))"

definition current :: "web_env \<Rightarrow> visit \<Rightarrow> (web, account option) prog" where
  "current E v = bindM (getM cookie) (\<lambda>c.
     if \<not> present (ck_user c) then retM None
     else let u = text_or [] (ck_user c) in bindM (getM (\<lambda>s. map_of (accounts s) u)) (\<lambda>a. case a of
         None \<Rightarrow> retM None
       | Some r \<Rightarrow>
           if present (ck_sid c) then
             let sid = text_or [] (ck_sid c) in
             bindM (with_reg (\<lambda>w. is_valid (env_sessions E) w (wall_time v) sid u)) (\<lambda>valid.
               if \<not> valid then thenM (set_cookie (\<lambda>_. empty_cookie)) (retM None)
               else thenM (modM (\<lambda>s. s\<lparr>reg := touch (wall_time v) sid (reg s)\<rparr>)) (retM (Some (u, r))))
           else thenM (register_session E v u) (retM (Some (u, r)))))"

definition signed_in :: "web_env \<Rightarrow> visit \<Rightarrow> (account \<Rightarrow> (web, response) prog) \<Rightarrow> (web, response) prog" where
  "signed_in E v body = bindM (current E v) (\<lambda>a. case a of
       None \<Rightarrow> retM (Redirect ''/login'')
     | Some a \<Rightarrow> body a)"

text \<open>The handlers of forms: the user, then the token.\<close>

definition posted :: "web_env \<Rightarrow> visit \<Rightarrow> (account \<Rightarrow> (web, response) prog) \<Rightarrow> (web, response) prog" where
  "posted E v body = signed_in E v (\<lambda>a. thenM (require_csrf v) (body a))"

definition is_path_char :: "char \<Rightarrow> bool" where
  "is_path_char c \<longleftrightarrow> is_word_char c \<or> c \<in> set ''/.-''"

text \<open>The pattern of internal paths; the text is stripped, so that the end of the pattern is the end of the text.\<close>

definition internal_path :: "string \<Rightarrow> bool" where
  "internal_path s \<longleftrightarrow> (let t = strip_final_newline s in
     t \<noteq> [] \<and> hd t = CHR ''/'' \<and> (tl t = [] \<or> hd (tl t) \<noteq> CHR ''/'') \<and> length (tl t) \<le> 120 \<and> list_all is_path_char (tl t))"

definition redirect_target :: "string \<Rightarrow> string \<Rightarrow> string" where
  "redirect_target value dflt = (if internal_path (strip value) then strip value else dflt)"

subsection \<open>Passwords\<close>

definition authenticate :: "web_env \<Rightarrow> string option \<Rightarrow> account list \<Rightarrow> string \<Rightarrow> string \<Rightarrow> exn + account option" where
  "authenticate E stored users u password =
     (case (if present stored then map_of users u else None) of
        None \<Rightarrow> (case hash_verify E (dummy_hash E) password of Inl e \<Rightarrow> Inl e | Inr _ \<Rightarrow> Inr None)
      | Some r \<Rightarrow> (case hash_verify E (text_or [] stored) password of
          Inl e \<Rightarrow> Inl e
        | Inr ok \<Rightarrow> Inr (if ok then Some (u, r) else None)))"

definition verify_own_password :: "web_env \<Rightarrow> string \<Rightarrow> string \<Rightarrow> (web, bool) prog" where
  "verify_own_password E u password = bindM (see cred_file) (\<lambda>f. case cr_get u f of
       None \<Rightarrow> retM False
     | Some h \<Rightarrow> returning (hash_verify E h password))"

subsection \<open>The mixin of the accounts\<close>

definition authorize_user_management :: "ports \<Rightarrow> user \<Rightarrow> (svc, unit) prog" where
  "authorize_user_management P u = authorize P u USER_MANAGE"

definition record_account_change :: "ports \<Rightarrow> user \<Rightarrow> string \<Rightarrow> (svc, unit) prog" where
  "record_account_change P u detail = thenM (authorize P u USER_MANAGE) (record_audit P u USER_MANAGE ''allowed'' detail)"

definition authorize_api_tokens :: "ports \<Rightarrow> user \<Rightarrow> (svc, unit) prog" where
  "authorize_api_tokens P u = authorize P u USER_MANAGE"

definition record_api_token_change :: "ports \<Rightarrow> user \<Rightarrow> string \<Rightarrow> (svc, unit) prog" where
  "record_api_token_change P u detail = thenM (authorize P u USER_MANAGE) (record_audit P u USER_MANAGE ''allowed'' detail)"

definition record_first_account :: "ports \<Rightarrow> string \<Rightarrow> (svc, unit) prog" where
  "record_first_account P u = bindM (now P) (\<lambda>t. bindM (getM journal) (\<lambda>j. case audit_at P j of
       Some e \<Rightarrow> raiseM e
     | None \<Rightarrow> log_event (Audited \<lparr>ae_timestamp = t, ae_username = u, ae_role = ''owner'', ae_action = ''SETUP'',
         ae_target = ''mc-admin'', ae_outcome = ''allowed'', ae_detail = ''phase=first_account username='' @ u\<rparr>)))"

definition acting :: "account \<Rightarrow> (web, user) prog" where
  "acting a = (case a of
       (u, None) \<Rightarrow> raiseM (AttributeError ''allows'')
     | (u, Some r) \<Rightarrow> retM \<lparr>username = u, user_role = r\<rparr>)"

fun is_permission_denied :: "exn \<Rightarrow> bool" where
  "is_permission_denied (PermissionDenied u p) = True"
| "is_permission_denied _ = False"

text \<open>The barrier of the pages on accounts: a refusal is audited and answered with status 403.\<close>

definition managing :: "web_env \<Rightarrow> account \<Rightarrow> (user \<Rightarrow> (web, response) prog) \<Rightarrow> (web, response) prog" where
  "managing E a body = bindM (acting a) (\<lambda>u. thenM
     (exceptM is_permission_denied (with_srv (authorize_user_management (env_ports E) u)) (\<lambda>e. raiseM (HTTPException 403 (exn_str e))))
     (body u))"

end
