(* ===== verification/Account_Pages.thy ===== *)
theory Account_Pages
  imports Web
begin

text \<open>
  The handlers of \<^verbatim>\<open>app/api/routes/auth.py\<close> that change accounts, passwords, second factors and sessions, and those of
  \<^verbatim>\<open>app/api/routes/apitokens.py\<close>. The login is in \<^verbatim>\<open>Login_Flow\<close>.
\<close>

definition is_name_char :: "char \<Rightarrow> bool" where
  "is_name_char c \<longleftrightarrow> is_word_char c \<or> c = CHR ''-''"

definition username_ok :: "string \<Rightarrow> bool" where
  "username_ok s \<longleftrightarrow> (let t = strip_final_newline s in 3 \<le> length t \<and> length t \<le> 16 \<and> list_all is_name_char t)"

text \<open>\<open>(OSError, ValueError)\<close>; \<open>CorruptJsonError\<close> is a \<open>ValueError\<close>.\<close>

fun is_persistence_error :: "exn \<Rightarrow> bool" where
  "is_persistence_error (OSError m) = True"
| "is_persistence_error (ValueError m) = True"
| "is_persistence_error (CorruptJsonError m) = True"
| "is_persistence_error _ = False"

text \<open>\<open>try: m except _PERSISTENCE_ERRORS: h else: k\<close>.\<close>

definition stored_or :: "(web, 'a) prog \<Rightarrow> (web, 'b) prog \<Rightarrow> ('a \<Rightarrow> (web, 'b) prog) \<Rightarrow> (web, 'b) prog" where
  "stored_or m h k = bindM (attemptM m) (\<lambda>r. case r of
       Inl e \<Rightarrow> if is_persistence_error e then h else raiseM e
     | Inr x \<Rightarrow> k x)"

definition persist_new_account :: "web_env \<Rightarrow> visit \<Rightarrow> string \<Rightarrow> string \<Rightarrow> string \<Rightarrow> (web, unit) prog" where
  "persist_new_account E v u role password =
     bindM (returning (hash_make E (salt v) password)) (\<lambda>h.
       thenM (with_cred (cr_set u h))
        (tryM (with_users (us_add (env_sessions E) u role))
          (\<lambda>e. thenM (ignoreM (with_cred (cr_remove u))) (raiseM e))))"

definition revoke_all_sessions :: "string \<Rightarrow> (web, nat) prog" where
  "revoke_all_sessions u = with_reg (\<lambda>w. revoke_all w u)"

definition revoke_other_sessions :: "string \<Rightarrow> (web, nat) prog" where
  "revoke_other_sessions u = bindM (getM (\<lambda>s. text_or [] (ck_sid (cookie s)))) (\<lambda>sid. with_reg (\<lambda>w. revoke_others w sid u))"

definition forget_account_traces :: "string \<Rightarrow> (web, unit) prog" where
  "forget_account_traces u = thenM (with_totp (tp_remove u)) (thenM (revoke_all_sessions u) (retM ()))"

definition set_account :: "string \<Rightarrow> role option \<Rightarrow> (web, unit) prog" where
  "set_account u r = modM (\<lambda>s. s\<lparr>accounts := AList.update u r (accounts s)\<rparr>)"

definition setup_needed :: "(web, bool) prog" where
  "setup_needed = getM (\<lambda>s. accounts s = [])"

subsection \<open>The first account\<close>

definition setup_form :: "visit \<Rightarrow> (web, response) prog" where
  "setup_form v = bindM setup_needed (\<lambda>needed.
     if \<not> needed then retM (Redirect ''/login'') else page v ''setup.html'' [] 200)"

definition setup_error :: "string \<Rightarrow> string \<Rightarrow> string \<Rightarrow> string" where
  "setup_error u password confirm =
     (if \<not> username_ok u then ''Nom invalide : 3 a 16 caracteres (lettres, chiffres, - et _).''
      else if length password < 8 then ''Mot de passe trop court (8 caracteres minimum).''
      else if password \<noteq> confirm then ''Les deux mots de passe ne correspondent pas.''
      else [])"

definition setup_create :: "web_env \<Rightarrow> visit \<Rightarrow> string \<Rightarrow> string \<Rightarrow> string \<Rightarrow> (web, response) prog" where
  "setup_create E v name password confirm = thenM (require_csrf v) (bindM setup_needed (\<lambda>needed.
     if \<not> needed then retM (Redirect ''/login'')
     else let u = strip name; error = setup_error u password confirm in
       if error \<noteq> [] then page v ''setup.html'' error 400
       else stored_or (persist_new_account E v u ''owner'' password)
         (page v ''setup.html'' ''Impossible d'enregistrer le compte pour le moment. Les donnees existantes ont ete conservees.'' 503)
         (\<lambda>_. thenM (set_account u (map_of (env_roles E) ''owner''))
           (thenM (with_srv (record_first_account (env_ports E) u))
           (thenM (set_cookie (\<lambda>c. c\<lparr>ck_user := Some u\<rparr>))
           (thenM (register_session E v u)
           (thenM (flash (''Bienvenue, '' @ u @ ''. Prochaine etape : brancher le serveur.''))
             (retM (Redirect ''/servers'')))))))))"

subsection \<open>Managing the accounts\<close>

definition known :: "string \<Rightarrow> (web, bool) prog" where
  "known u = getM (\<lambda>s. map_of (accounts s) u \<noteq> None)"

definition done_at :: "string \<Rightarrow> (web, unit) prog \<Rightarrow> (web, response) prog" where
  "done_at path m = thenM m (retM (Redirect path))"

definition audit_account :: "web_env \<Rightarrow> user \<Rightarrow> string \<Rightarrow> (web, unit) prog" where
  "audit_account E me detail = with_srv (record_account_change (env_ports E) me detail)"

definition user_add :: "web_env \<Rightarrow> visit \<Rightarrow> string \<Rightarrow> string \<Rightarrow> string \<Rightarrow> user \<Rightarrow> (web, unit) prog" where
  "user_add E v name role password me = (let u = strip name in
     bindM (known u) (\<lambda>exists.
       if \<not> username_ok u then flash ''Echec : nom invalide (3 a 16 caracteres, lettres/chiffres/-/_).''
       else if exists then flash (''Echec : le compte << '' @ u @ '' >> existe deja.'')
       else (case map_of (env_roles E) role of
           None \<Rightarrow> flash (''Echec : role inconnu << '' @ role @ '' >>.'')
         | Some r \<Rightarrow>
             if length password < 8 then flash ''Echec : mot de passe trop court (8 caracteres minimum).''
             else stored_or (thenM (forget_account_traces u) (persist_new_account E v u role password))
               (flash ''Echec : stockage local indisponible. Aucun compte n'a ete ajoute.'')
               (\<lambda>_. thenM (set_account u (Some r))
                 (thenM (audit_account E me (''phase=account_created account='' @ u @ '' role='' @ role))
                   (flash (''Compte << '' @ u @ '' >> cree ('' @ role @ '').'')))))))"

definition action_user_add :: "web_env \<Rightarrow> visit \<Rightarrow> string \<Rightarrow> string \<Rightarrow> string \<Rightarrow> (web, response) prog" where
  "action_user_add E v name role password =
     posted E v (\<lambda>a. managing E a (\<lambda>me. done_at ''/users'' (user_add E v name role password me)))"

definition user_reset_password :: "web_env \<Rightarrow> visit \<Rightarrow> string \<Rightarrow> string \<Rightarrow> user \<Rightarrow> (web, unit) prog" where
  "user_reset_password E v u password me = bindM (known u) (\<lambda>exists.
     if \<not> exists then flash (''Echec : compte inconnu << '' @ u @ '' >>.'')
     else if length password < 8 then flash ''Echec : mot de passe trop court (8 caracteres minimum).''
     else stored_or (bindM (returning (hash_make E (salt v) password)) (\<lambda>h. with_cred (cr_set u h)))
       (flash ''Echec : le mot de passe n'a pas ete modifie.'')
       (\<lambda>_. bindM (if u = username me then revoke_other_sessions u else revoke_all_sessions u) (\<lambda>n.
         thenM (audit_account E me (''phase=password_reset account='' @ u @ '' sessions_revoked='' @ str_nat n))
           (flash (''Mot de passe de << '' @ u @ '' >> reinitialise.'' @ (if n \<noteq> 0 then '' '' @ str_nat n @ '' appareil(s) deconnecte(s).'' else []))))))"

definition action_user_reset_password :: "web_env \<Rightarrow> visit \<Rightarrow> string \<Rightarrow> string \<Rightarrow> (web, response) prog" where
  "action_user_reset_password E v u password =
     posted E v (\<lambda>a. managing E a (\<lambda>me. done_at ''/users'' (user_reset_password E v u password me)))"

definition user_role_change :: "web_env \<Rightarrow> string \<Rightarrow> string \<Rightarrow> user \<Rightarrow> (web, unit) prog" where
  "user_role_change E u role me = bindM (known u) (\<lambda>exists.
     if u = username me then flash ''Echec : impossible de modifier son propre role.''
     else if \<not> exists then flash (''Echec : compte inconnu << '' @ u @ '' >>.'')
     else (case map_of (env_roles E) role of
         None \<Rightarrow> flash (''Echec : role inconnu << '' @ role @ '' >>.'')
       | Some r \<Rightarrow> stored_or (with_users (us_add (env_sessions E) u role))
           (flash ''Echec : le role n'a pas ete modifie.'')
           (\<lambda>_. thenM (set_account u (Some r))
             (thenM (audit_account E me (''phase=role_changed account='' @ u @ '' role='' @ role))
               (flash (''<< '' @ u @ '' >> est maintenant '' @ role @ ''.''))))))"

definition action_user_role :: "web_env \<Rightarrow> visit \<Rightarrow> string \<Rightarrow> string \<Rightarrow> (web, response) prog" where
  "action_user_role E v u role =
     posted E v (\<lambda>a. managing E a (\<lambda>me. done_at ''/users'' (user_role_change E u role me)))"

text \<open>The two cleanups of a deletion are independent; the first flag tells whether all went well so far.\<close>

definition cleaned :: "bool \<Rightarrow> (web, 'a) prog \<Rightarrow> (web, bool) prog" where
  "cleaned ok m = stored_or m (retM False) (\<lambda>_. retM ok)"

definition user_delete :: "web_env \<Rightarrow> string \<Rightarrow> user \<Rightarrow> (web, unit) prog" where
  "user_delete E u me = bindM (known u) (\<lambda>exists.
     if u = username me then flash ''Echec : impossible de supprimer son propre compte.''
     else if \<not> exists then flash (''Echec : compte inconnu << '' @ u @ '' >>.'')
     else stored_or (with_users (us_remove (env_sessions E) u))
       (flash ''Echec : le compte n'a pas ete supprime.'')
       (\<lambda>removed.
         if \<not> removed then flash ''Echec : le compte n'existe plus dans le stockage local.''
         else thenM (modM (\<lambda>s. s\<lparr>accounts := AList.delete u (accounts s)\<rparr>))
           (bindM (cleaned True (with_cred (cr_remove u))) (\<lambda>ok.
            bindM (cleaned ok (forget_account_traces u)) (\<lambda>ok.
              thenM (audit_account E me (''phase=account_deleted account='' @ u @ '' credentials_removed='' @ (if ok then ''true'' else ''false'')))
                (flash (''Compte << '' @ u @ (if ok then '' >> supprime.'' else '' >> supprime, mais le nettoyage de ses anciens identifiants doit etre verifie.''))))))))"

definition action_user_delete :: "web_env \<Rightarrow> visit \<Rightarrow> string \<Rightarrow> (web, response) prog" where
  "action_user_delete E v u = posted E v (\<lambda>a. managing E a (\<lambda>me. done_at ''/users'' (user_delete E u me)))"

definition user_reset_twofa :: "web_env \<Rightarrow> string \<Rightarrow> user \<Rightarrow> (web, unit) prog" where
  "user_reset_twofa E u me = bindM (known u) (\<lambda>exists.
     if u = username me then flash ''Echec : la double authentification se gere depuis la page Compte.''
     else if \<not> exists then flash (''Echec : compte inconnu << '' @ u @ '' >>.'')
     else stored_or (with_totp (tp_remove u))
       (flash ''Echec : la double authentification n'a pas ete modifiee.'')
       (\<lambda>removed.
         if removed then thenM (audit_account E me (''phase=twofa_reset account='' @ u)) 
           (flash (''Double authentification de << '' @ u @ '' >> desactivee : le compte se connecte avec son seul mot de passe.''))
         else flash (''<< '' @ u @ '' >> n'avait pas de double authentification.'')))"

definition action_user_reset_twofa :: "web_env \<Rightarrow> visit \<Rightarrow> string \<Rightarrow> (web, response) prog" where
  "action_user_reset_twofa E v u = posted E v (\<lambda>a. managing E a (\<lambda>me. done_at ''/users'' (user_reset_twofa E u me)))"

subsection \<open>One's own account\<close>

definition action_display_name :: "web_env \<Rightarrow> visit \<Rightarrow> string \<Rightarrow> string \<Rightarrow> (web, response) prog" where
  "action_display_name E v name redirect_to = posted E v (\<lambda>(u, r).
     let clean = take 32 (join '' '' (split_ws name)) in
     done_at (redirect_target redirect_to ''/'') (thenM (with_names (dn_set u clean))
       (flash (if clean \<noteq> [] then ''Nom affiche mis a jour.'' else ''Nom affiche reinitialise.''))))"

definition action_password :: "web_env \<Rightarrow> visit \<Rightarrow> string \<Rightarrow> string \<Rightarrow> string \<Rightarrow> (web, response) prog" where
  "action_password E v old new redirect_to = posted E v (\<lambda>(u, r).
     done_at (redirect_target redirect_to ''/'') (bindM (verify_own_password E u old) (\<lambda>ok.
       if \<not> ok then flash ''Mot de passe actuel incorrect.''
       else if length new < 8 then flash ''Le nouveau mot de passe doit faire au moins 8 caracteres.''
       else stored_or (bindM (returning (hash_make E (salt v) new)) (\<lambda>h. with_cred (cr_set u h)))
         (flash ''Echec : le mot de passe n'a pas ete modifie.'')
         (\<lambda>_. bindM (revoke_other_sessions u) (\<lambda>n. flash (''Mot de passe mis a jour.'' @
           (if n \<noteq> 0 then '' Les autres appareils connectes ('' @ str_nat n @ '') ont ete deconnectes.'' else [])))))))"

definition action_revoke_session :: "web_env \<Rightarrow> visit \<Rightarrow> string \<Rightarrow> (web, response) prog" where
  "action_revoke_session E v sid = posted E v (\<lambda>(u, r). bindM (getM (\<lambda>s. ck_sid (cookie s))) (\<lambda>mine.
     bindM (with_reg (\<lambda>w. revoke w sid u)) (\<lambda>revoked.
       if mine = Some sid then thenM (set_cookie (\<lambda>_. empty_cookie)) (retM (Redirect ''/login''))
       else done_at ''/compte#appareils'' (flash (if revoked then ''Appareil deconnecte.'' else ''Cet appareil n'est plus connecte.'')))))"

definition action_revoke_other_sessions :: "web_env \<Rightarrow> visit \<Rightarrow> (web, response) prog" where
  "action_revoke_other_sessions E v = posted E v (\<lambda>(u, r). done_at ''/compte#appareils''
     (bindM (revoke_other_sessions u) (\<lambda>n.
       flash (if n \<noteq> 0 then str_nat n @ '' autre(s) appareil(s) deconnecte(s).'' else ''Aucun autre appareil connecte.''))))"

definition security_start :: "web_env \<Rightarrow> visit \<Rightarrow> (web, response) prog" where
  "security_start E v = posted E v (\<lambda>(u, r). done_at ''/compte#securite'' (bindM (see totp_file) (\<lambda>f.
     whenM (\<not> tp_is_enabled u f) (with_totp (tp_set_pending u (generate_secret (random_bytes v)))))))"

definition security_enable :: "web_env \<Rightarrow> visit \<Rightarrow> string \<Rightarrow> (web, response) prog" where
  "security_enable E v typed = posted E v (\<lambda>(u, r). done_at ''/compte#securite''
     (bindM (see totp_file) (\<lambda>f.
      bindM (if tp_has_pending u f then bindM (see totp_file) (\<lambda>g. retM (tp_secret u g)) else retM None) (\<lambda>secret.
        if \<not> present secret then flash ''Commence par generer un secret.''
        else bindM (returning (totp_verify (text_or [] secret) typed (wall_time v) 1)) (\<lambda>ok.
          if ok then thenM (with_totp (tp_confirm u)) (flash ''Double authentification activee.'')
          else flash ''Code invalide - verifier l'heure du telephone, puis reessayer.'')))))"

definition security_cancel :: "web_env \<Rightarrow> visit \<Rightarrow> (web, response) prog" where
  "security_cancel E v = posted E v (\<lambda>(u, r). done_at ''/compte#securite''
     (bindM (see totp_file) (\<lambda>f. if \<not> tp_has_pending u f then retM ()
       else bindM (see totp_file) (\<lambda>g. if tp_is_enabled u g then retM ()
         else thenM (with_totp (tp_remove u)) (retM ())))))"

definition security_disable :: "web_env \<Rightarrow> visit \<Rightarrow> string \<Rightarrow> (web, response) prog" where
  "security_disable E v password = posted E v (\<lambda>(u, r). done_at ''/compte#securite''
     (bindM (verify_own_password E u password) (\<lambda>ok.
       if \<not> ok then flash ''Mot de passe incorrect : la 2FA reste active.''
       else thenM (with_totp (tp_remove u)) (flash ''Double authentification desactivee.''))))"

subsection \<open>API tokens\<close>

definition forbidden_or_login :: "web_env \<Rightarrow> visit \<Rightarrow> (user \<Rightarrow> (web, response) prog) \<Rightarrow> (web, response) prog" where
  "forbidden_or_login E v body = signed_in E v (\<lambda>a. bindM (acting a) (\<lambda>u. thenM
     (exceptM is_permission_denied (with_srv (authorize_api_tokens (env_ports E) u))
       (\<lambda>e. raiseM (HTTPException 403 ''Reserve a l'administrateur'')))
     (body u)))"

definition api_token_create :: "web_env \<Rightarrow> visit \<Rightarrow> string \<Rightarrow> string \<Rightarrow> (web, response) prog" where
  "api_token_create E v label role = forbidden_or_login E v (\<lambda>me. thenM (require_csrf v)
     (done_at ''/api-tokens''
       (if map_of (env_roles E) role = None then flash ''Role inconnu.''
        else thenM (with_tokens (tk_create (hash_token E) (new_token v) (new_token_id v) (wall_time v) label role))
          (thenM (with_srv (record_api_token_change (env_ports E) me
              (''phase=api_token_created token_id='' @ new_token_id v @ '' role='' @ role)))
            (set_cookie (\<lambda>c. c\<lparr>ck_token := Some (new_token v)\<rparr>))))))"

definition api_token_revoke :: "web_env \<Rightarrow> visit \<Rightarrow> string \<Rightarrow> (web, response) prog" where
  "api_token_revoke E v token_id = forbidden_or_login E v (\<lambda>me. thenM (require_csrf v)
     (done_at ''/api-tokens''
       (bindM (with_tokens (tk_revoke token_id)) (\<lambda>revoked. whenM revoked
         (thenM (with_srv (record_api_token_change (env_ports E) me (''phase=api_token_revoked token_id='' @ token_id)))
           (flash ''Jeton revoque.''))))))"

text \<open>The user behind a bearer token (\<^verbatim>\<open>app/api/api_v1.py\<close>): the text of the header is cut at its first space.\<close>

definition bearer_user :: "web_env \<Rightarrow> string \<Rightarrow> (web, user) prog" where
  "bearer_user E header =
     (let scheme = takeWhile (\<lambda>c. c \<noteq> CHR '' '') header; raw = strip (drop 1 (dropWhile (\<lambda>c. c \<noteq> CHR '' '') header)) in
      if lower scheme \<noteq> ''bearer'' \<or> raw = [] then raiseM (HTTPException 401 ''Jeton d'API requis'')
      else bindM (see tokens_file) (\<lambda>f. bindM (returning (tk_resolve (env_sessions E) (hash_token E) raw f)) (\<lambda>t. case t of
          None \<Rightarrow> raiseM (HTTPException 401 ''Jeton d'API invalide.'')
        | Some t \<Rightarrow> (case map_of (env_roles E) (ti_role t) of
            None \<Rightarrow> raiseM (HTTPException 403 ''Le role de ce jeton n'existe plus.'')
          | Some r \<Rightarrow> retM \<lparr>username = ''api:'' @ ti_label t, user_role = r\<rparr>))))"

end
