(* ===== verification/Login_Flow.thy ===== *)
theory Login_Flow
  imports Account_Pages
begin

text \<open>
  The login of \<^verbatim>\<open>app/api/routes/auth.py\<close>: password, second factor, session, logout; then all handlers of
  accounts as the calls of one type, the start of the application as far as accounts go
  (\<^verbatim>\<open>load_rbac\<close> and \<^verbatim>\<open>migrate_yaml_users\<close> of \<^verbatim>\<open>app/config.py\<close>), and the runs of the application: clients present cookies they were given.
\<close>

definition pending_ttl :: rat where
  "pending_ttl = 300"

definition login_form :: "web_env \<Rightarrow> visit \<Rightarrow> (web, response) prog" where
  "login_form E v = bindM setup_needed (\<lambda>needed.
     if needed then retM (Redirect ''/setup'')
     else bindM (current E v) (\<lambda>a. if a \<noteq> None then retM (Redirect ''/'') else page v ''login.html'' [] 200))"

definition complete_login :: "web_env \<Rightarrow> visit \<Rightarrow> string \<Rightarrow> (web, response) prog" where
  "complete_login E v u = thenM (set_cookie (\<lambda>_. empty_cookie\<lparr>ck_user := Some u\<rparr>))
     (thenM (register_session E v u) (retM (Redirect ''/'')))"

definition begin_login :: "web_env \<Rightarrow> visit \<Rightarrow> string \<Rightarrow> (web, int option) prog" where
  "begin_login E v u = with_lim (begin_attempt (env_limits E) (mono_before v) (client_ip E v) u)"

definition check_password :: "web_env \<Rightarrow> string \<Rightarrow> string \<Rightarrow> (web, account option) prog" where
  "check_password E u password = bindM (see cred_file) (\<lambda>f. bindM (getM accounts) (\<lambda>us.
     returning (authenticate E (cr_get u f) us u password)))"

definition after_password :: "web_env \<Rightarrow> visit \<Rightarrow> int \<Rightarrow> account option \<Rightarrow> (web, response) prog" where
  "after_password E v t a = (case a of
       None \<Rightarrow> thenM (settle (failure (env_limits E) (mono_after v) t)) (page v ''login.html'' ''Identifiants invalides'' 401)
     | Some (u, r) \<Rightarrow> bindM (see totp_file) (\<lambda>f.
         if tp_is_enabled u f then thenM (settle (cancel_attempt (mono_after v) t))
           (thenM (set_cookie (\<lambda>c. c\<lparr>ck_pending := Some (u, wall_time v + pending_ttl)\<rparr>)) (page v ''login_totp.html'' [] 200))
         else thenM (settle (success (env_limits E) (mono_after v) t)) (complete_login E v u)))"

definition login :: "web_env \<Rightarrow> visit \<Rightarrow> string \<Rightarrow> string \<Rightarrow> (web, response) prog" where
  "login E v u password = thenM (require_csrf v) (bindM (begin_login E v u) (\<lambda>attempt. case attempt of
       None \<Rightarrow> page v ''login.html'' ''Trop de tentatives - reessayer dans quelques minutes.'' 429
     | Some t \<Rightarrow> bindM
         (tryM (check_password E u password) (\<lambda>e. thenM (settle (cancel_attempt (mono_after v) t)) (raiseM e)))
         (after_password E v t)))"

definition drop_pending :: "(web, unit) prog" where
  "drop_pending = set_cookie (\<lambda>c. c\<lparr>ck_pending := None\<rparr>)"

definition check_code :: "web_env \<Rightarrow> visit \<Rightarrow> string \<Rightarrow> string \<Rightarrow> int \<Rightarrow> (web, response) prog" where
  "check_code E v u typed t = bindM (see totp_file) (\<lambda>f.
     bindM (returning (totp_verify (text_or [] (tp_secret u f)) typed (wall_time v) 1)) (\<lambda>ok.
       if ok then thenM (settle (success (env_limits E) (mono_after v) t)) (thenM drop_pending (complete_login E v u))
       else thenM (settle (failure (env_limits E) (mono_after v) t)) (page v ''login_totp.html'' ''Code invalide'' 401)))"

definition login_verify :: "web_env \<Rightarrow> visit \<Rightarrow> string \<Rightarrow> (web, response) prog" where
  "login_verify E v typed = thenM (require_csrf v) (bindM (getM (\<lambda>s. ck_pending (cookie s))) (\<lambda>pending. case pending of
       None \<Rightarrow> thenM drop_pending (retM (Redirect ''/login''))
     | Some (u, until) \<Rightarrow>
         if until < wall_time v then thenM drop_pending (retM (Redirect ''/login''))
         else bindM (begin_login E v u) (\<lambda>attempt. case attempt of
             None \<Rightarrow> page v ''login_totp.html'' ''Trop de tentatives - reessayer dans quelques minutes.'' 429
           | Some t \<Rightarrow> check_code E v u typed t)))"

definition logout :: "visit \<Rightarrow> (web, response) prog" where
  "logout v = thenM (require_csrf v) (bindM (getM cookie) (\<lambda>c.
     thenM (whenM (present (ck_sid c))
         (thenM (with_reg (\<lambda>w. revoke w (text_or [] (ck_sid c)) (text_or [] (ck_user c)))) (retM ())))
       (thenM (set_cookie (\<lambda>_. empty_cookie)) (retM (Redirect ''/login'')))))"

subsection \<open>All calls\<close>

text \<open>\<open>Look\<close> stands for the pages that only ask who is there.\<close>

datatype call =
    Setup_form | Setup string string string
  | Login_form | Login string string | Login_verify string | Logout
  | Add_user string string string | Reset_password string string | Change_role string string
  | Delete_user string | Reset_twofa string
  | Display_name string string | Change_password string string string
  | Revoke_session string | Revoke_other_sessions
  | Security_start | Security_enable string | Security_cancel | Security_disable string
  | Create_token string string | Revoke_token string
  | Look

fun perform_call :: "web_env \<Rightarrow> visit \<Rightarrow> call \<Rightarrow> (web, response) prog" where
  "perform_call E v Setup_form = setup_form v"
| "perform_call E v (Setup name password confirm) = setup_create E v name password confirm"
| "perform_call E v Login_form = login_form E v"
| "perform_call E v (Login u password) = login E v u password"
| "perform_call E v (Login_verify typed) = login_verify E v typed"
| "perform_call E v Logout = logout v"
| "perform_call E v (Add_user name role password) = action_user_add E v name role password"
| "perform_call E v (Reset_password u password) = action_user_reset_password E v u password"
| "perform_call E v (Change_role u role) = action_user_role E v u role"
| "perform_call E v (Delete_user u) = action_user_delete E v u"
| "perform_call E v (Reset_twofa u) = action_user_reset_twofa E v u"
| "perform_call E v (Display_name name to) = action_display_name E v name to"
| "perform_call E v (Change_password old new to) = action_password E v old new to"
| "perform_call E v (Revoke_session sid) = action_revoke_session E v sid"
| "perform_call E v Revoke_other_sessions = action_revoke_other_sessions E v"
| "perform_call E v Security_start = security_start E v"
| "perform_call E v (Security_enable typed) = security_enable E v typed"
| "perform_call E v Security_cancel = security_cancel E v"
| "perform_call E v (Security_disable password) = security_disable E v password"
| "perform_call E v (Create_token label role) = api_token_create E v label role"
| "perform_call E v (Revoke_token token_id) = api_token_revoke E v token_id"
| "perform_call E v Look = signed_in E v (\<lambda>_. page v ''page'' [] 200)"

subsection \<open>The start of the application\<close>

text \<open>The accounts of \<open>load_rbac\<close>: those whose role exists; the old role \<open>friend\<close> is read as \<open>viewer\<close>.\<close>

definition role_read :: "web_env \<Rightarrow> string \<Rightarrow> string" where
  "role_read E r = (if r = ''friend'' \<and> map_of (env_roles E) r = None \<and> map_of (env_roles E) ''viewer'' \<noteq> None then ''viewer'' else r)"

definition load_accounts :: "web_env \<Rightarrow> jfile \<Rightarrow> account list" where
  "load_accounts E f = List.map_filter (\<lambda>(u, r). case map_of (env_roles E) (role_read E r) of
       None \<Rightarrow> None
     | Some role \<Rightarrow> Some (u, Some role)) (us_all (env_sessions E) f)"

text \<open>
  The import of the accounts of an old roles file, given as user names with their settings: the role and the
  hash, both absent, empty or a text.
\<close>

definition import_hash :: "string \<times> string option \<times> string option \<Rightarrow> (web, unit) prog" where
  "import_hash spec = (case spec of (u, role, h) \<Rightarrow>
     if \<not> present h then retM ()
     else bindM (see cred_file) (\<lambda>f. whenM (cr_get u f = None) (with_cred (cr_set u (text_or [] h)))))"

definition migrate_yaml_users :: "web_env \<Rightarrow> (string \<times> string option \<times> string option) list \<Rightarrow> (web, string list) prog" where
  "migrate_yaml_users E specs = bindM (see users_file) (\<lambda>f.
     if us_import_done (env_sessions E) f then retM []
     else bindM (see users_file) (\<lambda>f1. bindM (see users_file) (\<lambda>f2.
       let skip = keys (us_all (env_sessions E) f1) @ us_legacy_removed (env_sessions E) f2;
           imported = filter (\<lambda>(u, role, h). u \<notin> set skip \<and> present role) specs in
       thenM (forM imported import_hash)
         (thenM (with_users (us_import (env_sessions E) (map (\<lambda>(u, role, h). (u, text_or [] role)) imported)))
           (retM (sort (map fst imported)))))))"

definition start_web :: "web_env \<Rightarrow> rat \<Rightarrow> (string \<times> string option \<times> string option) list \<Rightarrow> (web, unit) prog" where
  "start_web E time specs = thenM (migrate_yaml_users E specs) (bindM (see users_file) (\<lambda>f.
     thenM (modM (\<lambda>s. s\<lparr>accounts := load_accounts E f\<rparr>))
      (bindM (returning (new_limiter (env_limits E))) (\<lambda>L. bindM (getM reg) (\<lambda>R.
        bindM (returning (load_into_memory (env_sessions E) time R)) (\<lambda>R'.
          modM (\<lambda>s. s\<lparr>lim := L, reg := R'\<rparr>)))))))"

end
