(* ===== verification/Login_Frames.thy ===== *)
theory Login_Frames
  imports Login_Flow
begin

text \<open>
  What the handlers leave alone. \<open>web_frame\<close> collects the relations between the states before and after a
  request that no file, no session and no harmless change of the cookie breaks; every handler but the login and
  the setup then keeps such a relation, by the structure of its code.
\<close>

text \<open>Every call but the three that sign someone in.\<close>

fun plain_call :: "call \<Rightarrow> bool" where
  "plain_call (Setup a b c) = False"
| "plain_call (Login a b) = False"
| "plain_call (Login_verify a) = False"
| "plain_call _ = True"

text \<open>Those of them that need no right to manage accounts, and the two that only touch passwords and keys.\<close>

fun own_call :: "call \<Rightarrow> bool" where
  "own_call (Add_user a b c) = False"
| "own_call (Change_role a b) = False"
| "own_call (Delete_user a) = False"
| "own_call (Create_token a b) = False"
| "own_call (Revoke_token a) = False"
| "own_call k = plain_call k"

locale web_base = state_preorder R for R :: "web \<Rightarrow> web \<Rightarrow> bool" +
  assumes plans: "R s (s\<lparr>reads := bs\<rparr>)" "R s (s\<lparr>writes := ws\<rparr>)"
    and service: "R s (s\<lparr>srv := t\<rparr>)"
    and passwords: "R s (s\<lparr>cred_file := f\<rparr>)"
    and marks: "R s (s\<lparr>cookie := (cookie s)\<lparr>ck_flash := x\<rparr>\<rparr>)" "R s (s\<lparr>cookie := (cookie s)\<lparr>ck_csrf := x\<rparr>\<rparr>)"
      "R s (s\<lparr>cookie := (cookie s)\<lparr>ck_sid := x\<rparr>\<rparr>)" "R s (s\<lparr>cookie := (cookie s)\<lparr>ck_token := x\<rparr>\<rparr>)"
      "R s (s\<lparr>cookie := (cookie s)\<lparr>ck_pending := None\<rparr>\<rparr>)"
    and cleared: "R s (s\<lparr>cookie := empty_cookie\<rparr>)"
begin

lemma keeps_mod: "(\<And>s. R s (f s)) \<Longrightarrow> keeps R (modM f)"
  by (rule keepsI) (auto simp: modM_run)

lemma keeps_plan: "keeps R next_read" "keeps R next_write"
  using plans reflR by (auto intro!: keepsI simp: next_read_def next_write_def split: list.splits)

lemma keeps_see: "keeps R (see file)"
  unfolding see_def by (intro keeps_intros keeps_plan)

lemma keeps_put: "(\<And>s. R s (put s)) \<Longrightarrow> keeps R (\<lambda>s. after_write w x s (put s))"
  using reflR by (auto intro!: keepsI simp: after_write_def split: write_answer.splits)

lemma keeps_change_file: "(\<And>g s. R s (put g s)) \<Longrightarrow> keeps R (change_file file put op)"
  unfolding change_file_def by (intro keeps_intros keeps_cases keeps_see keeps_plan keeps_put)

lemma keeps_passwords: "keeps R (with_cred a)"
  unfolding with_cred_def by (intro keeps_change_file passwords)

lemma keeps_returning: "keeps R (returning r)"
  unfolding returning_def by (intro keeps_intros keeps_cases)

lemma keeps_srv: "keeps R (with_srv m)"
  using service by (auto intro!: keepsI simp: with_srv_def zoomM_run split: prod.splits)

lemma keeps_marks:
  "keeps R (flash x)" "keeps R (csrf v)" "keeps R drop_pending"
  "keeps R (set_cookie (\<lambda>c. c\<lparr>ck_sid := y\<rparr>))" "keeps R (set_cookie (\<lambda>c. c\<lparr>ck_token := z\<rparr>))" "keeps R (set_cookie (\<lambda>_. empty_cookie))"
  unfolding flash_def csrf_def drop_pending_def set_cookie_def
  by (intro keeps_intros keeps_mod marks cleared)+

lemma keeps_csrf: "keeps R (require_csrf v)"
  unfolding require_csrf_def by (intro keeps_intros keeps_returning)

lemma keeps_page: "keeps R (page v a b n)"
  unfolding page_def by (intro keeps_intros keeps_marks)

lemma keeps_acting: "keeps R (acting a)"
  unfolding acting_def by (intro keeps_intros keeps_cases)

lemma keeps_stored_or: "keeps R m \<Longrightarrow> keeps R h \<Longrightarrow> (\<And>x. keeps R (k x)) \<Longrightarrow> keeps R (stored_or m h k)"
  unfolding stored_or_def by (intro keeps_intros keeps_cases)

lemma keeps_done_at: "keeps R m \<Longrightarrow> keeps R (done_at path m)"
  unfolding done_at_def by (intro keeps_intros)

lemma keeps_known: "keeps R (known u)" "keeps R setup_needed"
  unfolding known_def setup_needed_def by (intro keeps_intros)+

lemma keeps_audit: "keeps R (audit_account E me detail)"
  unfolding audit_account_def by (rule keeps_srv)

lemma keeps_own_password: "keeps R (verify_own_password E u pw)"
  unfolding verify_own_password_def by (intro keeps_intros keeps_cases keeps_see keeps_returning)

lemma keeps_managing: "(\<And>u. keeps R (body u)) \<Longrightarrow> keeps R (managing E a body)"
  unfolding managing_def by (intro keeps_intros keeps_acting keeps_srv)

lemmas keeps_basics = keeps_see keeps_passwords keeps_returning keeps_srv keeps_marks keeps_csrf keeps_page keeps_acting keeps_done_at
  keeps_known keeps_audit keeps_own_password keeps_managing keeps_stored_or

end

text \<open>Relations that the other files of a user and the sessions do not break.\<close>

locale web_frame = web_base +
  assumes files: "R s (s\<lparr>totp_file := f\<rparr>)" "R s (s\<lparr>names_file := f\<rparr>)"
    and registry: "R s (s\<lparr>reg := Rg\<rparr>)"
begin

lemma keeps_files: "keeps R (with_totp b)" "keeps R (with_names c)"
  unfolding with_totp_def with_names_def by (intro keeps_change_file files)+

lemma keeps_reg: "keeps R (with_reg op)"
  unfolding with_reg_def
proof (intro keeps_bind keeps_plan keepsI)
  fix w and s t :: web and r assume "zoomM reg (\<lambda>R s. s\<lparr>reg := R\<rparr>) (op w) s = (r, t)"
  then show "R s t" using registry by (auto simp: zoomM_run split: prod.splits)
qed

lemma keeps_register: "keeps R (register_session E v u)"
  unfolding register_session_def by (intro keeps_intros keeps_reg keeps_marks)

lemma keeps_current: "keeps R (current E v)"
  unfolding current_def by (intro keeps_intros keeps_cases keeps_reg keeps_marks keeps_register keeps_mod registry)

lemmas keeps_parts = keeps_basics keeps_files keeps_reg keeps_register keeps_current

lemma keeps_signed_in: "(\<And>a. keeps R (body a)) \<Longrightarrow> keeps R (signed_in E v body)"
  unfolding signed_in_def by (intro keeps_intros keeps_cases keeps_parts)

lemma keeps_posted: "(\<And>a. keeps R (body a)) \<Longrightarrow> keeps R (posted E v body)"
  unfolding posted_def by (intro keeps_signed_in keeps_intros keeps_parts)

lemma keeps_revocations: "keeps R (revoke_all_sessions u)" "keeps R (revoke_other_sessions u)" "keeps R (forget_account_traces u)"
  unfolding revoke_all_sessions_def revoke_other_sessions_def forget_account_traces_def by (intro keeps_intros keeps_parts)+

lemmas keeps_steps = keeps_parts keeps_signed_in keeps_posted keeps_revocations

lemma keeps_own_pages:
  "keeps R (setup_form v)" "keeps R (login_form E v)" "keeps R (logout v)" "keeps R (action_display_name E v n to)"
  "keeps R (action_password E v old new to)" "keeps R (action_revoke_session E v sid)" "keeps R (action_revoke_other_sessions E v)"
  "keeps R (security_start E v)" "keeps R (security_enable E v typed)" "keeps R (security_cancel E v)" "keeps R (security_disable E v pw)"
  "keeps R (action_user_reset_password E v u pw)" "keeps R (action_user_reset_twofa E v u)"
  unfolding setup_form_def login_form_def logout_def action_display_name_def action_password_def action_revoke_session_def
    action_revoke_other_sessions_def security_start_def security_enable_def security_cancel_def security_disable_def
    action_user_reset_password_def user_reset_password_def action_user_reset_twofa_def user_reset_twofa_def
  by (intro keeps_intros keeps_cases keeps_steps)+

lemma keeps_own_call: "own_call k \<Longrightarrow> keeps R (perform_call E v k)"
  by (cases k) (auto intro!: keeps_own_pages keeps_signed_in keeps_page)

end

text \<open>Relations that the accounts and the API tokens do not break either.\<close>

locale web_account_frame = web_frame +
  assumes table: "R s (s\<lparr>accounts := as\<rparr>)" "R s (s\<lparr>users_file := f\<rparr>)" "R s (s\<lparr>tokens_file := f\<rparr>)"
begin

lemma keeps_table: "keeps R (with_users a)" "keeps R (set_account u r)" "keeps R (with_tokens b)"
  unfolding with_users_def set_account_def with_tokens_def by (intro keeps_change_file keeps_mod table)+

lemma keeps_new_account: "keeps R (persist_new_account E v u role pw)"
  unfolding persist_new_account_def by (intro keeps_intros keeps_steps keeps_table)

lemma keeps_account_pages:
  "keeps R (action_user_add E v n role pw)" "keeps R (action_user_role E v u role)" "keeps R (action_user_delete E v u)"
  unfolding action_user_add_def user_add_def action_user_role_def user_role_change_def action_user_delete_def user_delete_def cleaned_def
  by (intro keeps_intros keeps_cases keeps_steps keeps_table keeps_new_account keeps_mod table)+

lemma keeps_tokens: "keeps R (api_token_create E v label role)" "keeps R (api_token_revoke E v i)"
  unfolding api_token_create_def api_token_revoke_def forbidden_or_login_def
  by (intro keeps_intros keeps_cases keeps_steps keeps_table)+

lemma keeps_plain_call: "plain_call k \<Longrightarrow> keeps R (perform_call E v k)"
  by (cases k) (auto intro!: keeps_own_pages keeps_tokens keeps_account_pages keeps_signed_in keeps_page)

end

end
