(* ===== verification/Login_Theorems.thy ===== *)
theory Login_Theorems
  imports Login_Frames Service
begin

text \<open>
  What the login promises in every run of the application: who is signed in has shown a password and a code,
  attempts are closed, the accounts change only under the right, a recreated account starts clean.
\<close>

subsection \<open>Runs\<close>

record exchange =
  ex_visit :: visit
  ex_call :: call
  ex_state :: web
  ex_result :: "exn + response"

text \<open>A response carries the cookie, also that of an \<open>HTTPException\<close>; an internal error does not.\<close>

fun answered :: "exn + response \<Rightarrow> bool" where
  "answered (Inr x) = True"
| "answered (Inl (HTTPException n m)) = True"
| "answered (Inl _) = False"

text \<open>
  The exchanges so far, latest first, each with the state it found; the state; the cookies issued. A client presents
  one of these or none. In between, the rest of the service may act, files may become readable or not, and
  the application may restart.
\<close>

inductive served :: "web_env \<Rightarrow> web \<Rightarrow> exchange list \<Rightarrow> web \<Rightarrow> cookie set \<Rightarrow> bool" for E s\<^sub>0 where
  start: "served E s\<^sub>0 [] s\<^sub>0 {}"
| exchange: "served E s\<^sub>0 h s C \<Longrightarrow> c \<in> insert empty_cookie C \<Longrightarrow> perform_call E v k (s\<lparr>cookie := c\<rparr>) = (r, t) \<Longrightarrow>
    served E s\<^sub>0 (\<lparr>ex_visit = v, ex_call = k, ex_state = s\<lparr>cookie := c\<rparr>, ex_result = r\<rparr> # h) t (if answered r then insert (cookie t) C else C)"
| outside: "served E s\<^sub>0 h s C \<Longrightarrow> served E s\<^sub>0 h (s\<lparr>srv := x, reads := bs, writes := ws\<rparr>) C"
| restart: "served E s\<^sub>0 h s C \<Longrightarrow> start_web E time specs s = (Inr (), t) \<Longrightarrow> served E s\<^sub>0 h t C"

subsection \<open>Three frames\<close>

definition same_identity :: "web \<Rightarrow> web \<Rightarrow> bool" where
  "same_identity s t \<longleftrightarrow> ck_user (cookie t) \<in> {ck_user (cookie s), None} \<and> ck_pending (cookie t) \<in> {ck_pending (cookie s), None}"

interpretation identity: web_account_frame same_identity
  by unfold_locales (auto simp: same_identity_def empty_cookie_def)

definition same_leases :: "web \<Rightarrow> web \<Rightarrow> bool" where
  "same_leases s t \<longleftrightarrow> lim t = lim s"

interpretation leases: web_account_frame same_leases
  by unfold_locales (auto simp: same_leases_def)

definition same_accounts :: "web \<Rightarrow> web \<Rightarrow> bool" where
  "same_accounts s t \<longleftrightarrow> accounts t = accounts s \<and> users_file t = users_file s \<and> tokens_file t = tokens_file s"

interpretation accts: web_frame same_accounts
  by unfold_locales (auto simp: same_accounts_def)

subsection \<open>The steps of the login\<close>

lemma wp_require_csrfI: "Q () s \<Longrightarrow> (\<And>e. X e s) \<Longrightarrow> wp (require_csrf v) Q X s"
  by (simp add: require_csrf_def returning_def wp_rules split: sum.split)

lemma wp_pageI: "(\<And>c. Q (Page a b n) (s\<lparr>cookie := (cookie s)\<lparr>ck_csrf := c\<rparr>\<rparr>)) \<Longrightarrow> wp (page v a b n) Q X s"
proof -
  assume Q: "\<And>c. Q (Page a b n) (s\<lparr>cookie := (cookie s)\<lparr>ck_csrf := c\<rparr>\<rparr>)"
  have "s\<lparr>cookie := (cookie s)\<lparr>ck_csrf := ck_csrf (cookie s)\<rparr>\<rparr> = s" by simp
  with Q [of "ck_csrf (cookie s)"] Q [of "Some (new_csrf v)"] show ?thesis
    by (simp add: page_def csrf_def set_cookie_def wp_rules)
qed

lemma wp_limI: "(\<And>x L. op (lim s) = Inr (x, L) \<Longrightarrow> Q x (s\<lparr>lim := L\<rparr>)) \<Longrightarrow> (\<And>e. op (lim s) = Inl e \<Longrightarrow> X e s) \<Longrightarrow> wp (with_lim op) Q X s"
  by (auto simp: with_lim_def wp_rules split: sum.split prod.split)

lemma wp_settleI: "(\<And>L. op (lim s) = Inr L \<Longrightarrow> Q () (s\<lparr>lim := L\<rparr>)) \<Longrightarrow> (\<And>e. op (lim s) = Inl e \<Longrightarrow> X e s) \<Longrightarrow> wp (settle op) Q X s"
  unfolding settle_def by (rule wp_limI) (auto split: sum.splits)

definition plan_read :: "web \<Rightarrow> bool" where
  "plan_read s = (case reads s of [] \<Rightarrow> True | b # bs \<Rightarrow> b)"

definition read_once :: "web \<Rightarrow> web" where
  "read_once s = s\<lparr>reads := tl (reads s)\<rparr>"

lemma next_read_run: "next_read s = (Inr (plan_read s), read_once s)"
  by (cases s) (simp add: next_read_def plan_read_def read_once_def split: list.split)

lemma wp_see [wp_rules]: "wp (see file) Q X s \<longleftrightarrow> Q (if plan_read s then file (read_once s) else Unreadable) (read_once s)"
  by (simp add: see_def wp_def prog_simps next_read_run)

lemma read_once_simps [simp]:
  "accounts (read_once s) = accounts s" "users_file (read_once s) = users_file s" "cred_file (read_once s) = cred_file s"
  "totp_file (read_once s) = totp_file s" "names_file (read_once s) = names_file s" "tokens_file (read_once s) = tokens_file s"
  "reg (read_once s) = reg s" "lim (read_once s) = lim s" "cookie (read_once s) = cookie s" "reads (read_once s) = tl (reads s)"
  by (simp_all add: read_once_def)

lemma wp_registerI:
  assumes "\<And>R ws. Q () (s\<lparr>writes := ws, reg := R, cookie := (cookie s)\<lparr>ck_sid := Some (new_sid v)\<rparr>\<rparr>)"
    and "\<And>e R ws. X e (s\<lparr>writes := ws, reg := R\<rparr>)"
  shows "wp (register_session E v u) Q X s"
proof -
  obtain w ws where n: "next_write s = (Inr w, s\<lparr>writes := ws\<rparr>)"
    by (cases s; cases "writes s") (auto simp: next_write_def)
  show ?thesis
  proof (cases w)
    case Written
    with n assms(1) show ?thesis
      by (simp add: register_session_def with_reg_def wp_def prog_simps register_def persist_def after_write_def set_cookie_def)
  next
    case (Not_written e)
    with n assms(2) show ?thesis
      by (simp add: register_session_def with_reg_def wp_def prog_simps register_def persist_def after_write_def)
  next
    case (Written_late e)
    with n assms(2) show ?thesis
      by (simp add: register_session_def with_reg_def wp_def prog_simps register_def persist_def after_write_def)
  qed
qed

lemma wp_completeI:
  assumes "\<And>R ws c. ck_user c = Some u \<Longrightarrow> ck_pending c = None \<Longrightarrow> Q (Redirect ''/'') (s\<lparr>writes := ws, reg := R, cookie := c\<rparr>)"
    and "\<And>e R ws c. ck_user c = Some u \<Longrightarrow> ck_pending c = None \<Longrightarrow> X e (s\<lparr>writes := ws, reg := R, cookie := c\<rparr>)"
  shows "wp (complete_login E v u) Q X s"
  unfolding complete_login_def set_cookie_def wp_rules
proof (rule wp_registerI)
  fix e R ws
  let ?c = "empty_cookie\<lparr>ck_user := Some u\<rparr>"
  have swap: "s\<lparr>cookie := ?c, writes := ws, reg := R\<rparr> = s\<lparr>writes := ws, reg := R, cookie := ?c\<rparr>" by simp
  show "X e (s\<lparr>cookie := ?c, writes := ws, reg := R\<rparr>)" unfolding swap by (rule assms(2)) (simp_all add: empty_cookie_def)
qed (use assms(1) in \<open>simp add: empty_cookie_def\<close>)

subsection \<open>Passwords and codes\<close>

definition knows_password :: "web_env \<Rightarrow> web \<Rightarrow> string \<Rightarrow> string \<Rightarrow> bool" where
  "knows_password E s u pw \<longleftrightarrow> (\<exists>h r. cr_get u (cred_file s) = Some h \<and> map_of (accounts s) u = Some r \<and> hash_verify E h pw = Inr True)"

text \<open>No second factor is on record, or the file of the keys could not be read at that moment.\<close>

definition no_code_asked :: "web \<Rightarrow> string \<Rightarrow> bool" where
  "no_code_asked s u \<longleftrightarrow> \<not> tp_is_enabled u (totp_file s) \<or> \<not> plan_read (read_once s)"

definition code_accepted :: "visit \<Rightarrow> web \<Rightarrow> string \<Rightarrow> string \<Rightarrow> bool" where
  "code_accepted v s u typed \<longleftrightarrow> (\<exists>secret. tp_secret u (totp_file s) = Some secret \<and> totp_verify secret typed (wall_time v) 1 = Inr True)"

lemma cr_get_unreadable [simp]: "cr_get u Unreadable = None" "tp_secret u Unreadable = None"
  by (simp_all add: cr_get_def tp_secret_def tp_entry_def dict_of_def read_json_def load_json_def jget_def)

lemma check_password_knows:
  "wp (check_password E u pw) (\<lambda>a t. t = read_once s \<and> (\<forall>b. a = Some b \<longrightarrow> fst b = u \<and> knows_password E s u pw)) (\<lambda>e t. t = read_once s) s"
  by (auto simp: check_password_def wp_rules returning_def authenticate_def knows_password_def present_def text_or_def
      split: sum.split option.split list.split)

definition login_effect :: "web_env \<Rightarrow> visit \<Rightarrow> string \<Rightarrow> string \<Rightarrow> web \<Rightarrow> web \<Rightarrow> bool" where
  "login_effect E v u pw s t \<longleftrightarrow> same_identity s t \<or>
     ck_user (cookie t) = Some u \<and> ck_pending (cookie t) = None \<and> knows_password E s u pw \<and> no_code_asked s u \<or>
     ck_user (cookie t) = ck_user (cookie s) \<and> ck_pending (cookie t) = Some (u, wall_time v + pending_ttl) \<and> knows_password E s u pw"

lemma after_password_identity:
  assumes "cookie s' = cookie s" "totp_file s' = totp_file s" "plan_read s' = plan_read (read_once s)"
    and "\<forall>b. a = Some b \<longrightarrow> fst b = u \<and> knows_password E s u pw"
  shows "wp (after_password E v t a) (\<lambda>_. login_effect E v u pw s) (\<lambda>_. login_effect E v u pw s) s'"
proof (cases a)
  case None
  then show ?thesis
    using assms(1) by (auto simp: after_password_def wp_then login_effect_def same_identity_def intro!: wp_settleI wp_pageI)
next
  case (Some b)
  with assms(4) obtain r where a: "a = Some (u, r)" and knows: "knows_password E s u pw" by (cases b) auto
  show ?thesis
    unfolding a after_password_def
    by (auto simp: wp_then wp_bind wp_see set_cookie_def wp_mod assms intro!: wp_settleI wp_pageI wp_completeI)
      (auto simp: login_effect_def same_identity_def knows no_code_asked_def assms)
qed

lemma login_identity: "wp (login E v u pw) (\<lambda>_. login_effect E v u pw s) (\<lambda>_. login_effect E v u pw s) s"
proof -
  have idle: "login_effect E v u pw s t" if "cookie t = cookie s" for t
    using that by (simp add: login_effect_def same_identity_def)
  have checked: "wp (tryM (check_password E u pw) (\<lambda>e. thenM (settle (cancel_attempt (mono_after v) t)) (raiseM e)))
      (\<lambda>a. wp (after_password E v t a) (\<lambda>_. login_effect E v u pw s) (\<lambda>_. login_effect E v u pw s)) (\<lambda>_. login_effect E v u pw s)
      (s\<lparr>lim := L\<rparr>)" for t L
    unfolding wp_try
  proof (rule wp_mono [OF check_password_knows], elim conjE, hypsubst)
    fix a :: "account option" assume "\<forall>b. a = Some b \<longrightarrow> fst b = u \<and> knows_password E (s\<lparr>lim := L\<rparr>) u pw"
    then show "wp (after_password E v t a) (\<lambda>_. login_effect E v u pw s) (\<lambda>_. login_effect E v u pw s) (read_once (s\<lparr>lim := L\<rparr>))"
      by (intro after_password_identity) (auto simp: knows_password_def plan_read_def)
  qed (auto simp: wp_then wp_raise intro!: wp_settleI idle)
  show ?thesis
    unfolding login_def begin_login_def wp_then wp_bind
  proof (intro wp_require_csrfI wp_limI)
    fix attempt L
    show "wp (case attempt of None \<Rightarrow> page v ''login.html'' ''Trop de tentatives - reessayer dans quelques minutes.'' 429
        | Some t \<Rightarrow> bindM (tryM (check_password E u pw) (\<lambda>e. thenM (settle (cancel_attempt (mono_after v) t)) (raiseM e)))
            (after_password E v t)) (\<lambda>_. login_effect E v u pw s) (\<lambda>_. login_effect E v u pw s) (s\<lparr>lim := L\<rparr>)"
      by (cases attempt) (auto simp: wp_bind checked login_effect_def same_identity_def intro!: wp_pageI)
  qed (auto intro: idle)
qed

text \<open>The second step: a new identity comes from the waiting one, with an accepted code.\<close>

definition verify_effect :: "visit \<Rightarrow> string \<Rightarrow> web \<Rightarrow> web \<Rightarrow> bool" where
  "verify_effect v typed s t \<longleftrightarrow> same_identity s t \<or>
     (\<exists>u until. ck_user (cookie t) = Some u \<and> ck_pending (cookie t) = None \<and> ck_pending (cookie s) = Some (u, until) \<and>
       wall_time v \<le> until \<and> code_accepted v s u typed)"

lemma no_secret_no_code: "totp_verify [] typed moment window = Inr False"
  by (simp add: totp_verify_def decode_secret_def strip_def)

lemma check_code_identity:
  assumes "cookie s' = cookie s" "totp_file s' = totp_file s" "ck_pending (cookie s) = Some (u, until)" "wall_time v \<le> until"
  shows "wp (check_code E v u typed t) (\<lambda>_. verify_effect v typed s) (\<lambda>_. verify_effect v typed s) s'"
proof -
  have accepted: "code_accepted v s u typed"
    if "totp_verify (text_or [] (tp_secret u (if plan_read s' then totp_file s else Unreadable))) typed (wall_time v) 1 = Inr True"
    using that by (auto simp: code_accepted_def text_or_def no_secret_no_code split: option.splits if_splits)
  show ?thesis
    unfolding check_code_def wp_bind wp_see returning_def
    using accepted
    by (auto simp: wp_raise wp_ret wp_then wp_mod drop_pending_def set_cookie_def assms verify_effect_def same_identity_def
        intro!: wp_settleI wp_pageI wp_completeI split: sum.split)
qed

lemma login_verify_identity: "wp (login_verify E v typed) (\<lambda>_. verify_effect v typed s) (\<lambda>_. verify_effect v typed s) s"
  unfolding login_verify_def begin_login_def wp_then wp_bind
proof (intro wp_require_csrfI)
  show "wp (getM (\<lambda>s. ck_pending (cookie s))) (\<lambda>pending. wp (case pending of
       None \<Rightarrow> thenM drop_pending (retM (Redirect ''/login''))
     | Some (u, until) \<Rightarrow>
         if until < wall_time v then thenM drop_pending (retM (Redirect ''/login''))
         else bindM (with_lim (begin_attempt (env_limits E) (mono_before v) (client_ip E v) u)) (\<lambda>attempt. case attempt of
             None \<Rightarrow> page v ''login_totp.html'' ''Trop de tentatives - reessayer dans quelques minutes.'' 429
           | Some t \<Rightarrow> check_code E v u typed t)) (\<lambda>_. verify_effect v typed s) (\<lambda>_. verify_effect v typed s)) (\<lambda>_. verify_effect v typed s) s"
    by (auto simp: wp_get wp_then wp_bind wp_ret wp_mod drop_pending_def set_cookie_def verify_effect_def same_identity_def
        not_less intro!: wp_limI wp_pageI check_code_identity split: option.split)
qed (simp add: verify_effect_def same_identity_def)

text \<open>The setup signs in the one name it was given, and nobody once there is an account.\<close>

definition at_most :: "string \<Rightarrow> web \<Rightarrow> web \<Rightarrow> bool" where
  "at_most u s t \<longleftrightarrow> ck_user (cookie t) \<in> {ck_user (cookie s), None, Some u} \<and> ck_pending (cookie t) \<in> {ck_pending (cookie s), None}"

interpretation first: web_account_frame "at_most u" for u
  by unfold_locales (auto simp: at_most_def empty_cookie_def)

lemma setup_signs_in: "keeps (at_most (strip n)) (setup_create E v n pw confirm)"
proof -
  have mark: "keeps (at_most u) (set_cookie (\<lambda>c. c\<lparr>ck_user := Some u\<rparr>))" for u
    unfolding set_cookie_def by (rule first.keeps_mod) (simp add: at_most_def)
  show ?thesis
    unfolding setup_create_def
    by (intro first.keeps_intros keeps_cases first.keeps_steps first.keeps_table first.keeps_new_account) (simp add: mark)
qed

lemma setup_closed: "accounts s \<noteq> [] \<Longrightarrow> wp (setup_create E v n pw confirm) (\<lambda>_. same_identity s) (\<lambda>_. same_identity s) s"
  by (auto simp: setup_create_def setup_needed_def wp_then wp_bind wp_get wp_ret same_identity_def intro!: wp_require_csrfI)

subsection \<open>Who is signed in\<close>

text \<open>
  In the history \<open>h\<close>, latest exchange first: a password for \<open>u\<close> was checked in a login whose second step may be made until \<open>until\<close>.
\<close>

definition password_given :: "web_env \<Rightarrow> exchange list \<Rightarrow> string \<Rightarrow> rat \<Rightarrow> bool" where
  "password_given E h u until \<longleftrightarrow> (\<exists>x pw. x \<in> set h \<and> ex_call x = Login u pw \<and> knows_password E (ex_state x) u pw \<and>
     until = wall_time (ex_visit x) + pending_ttl)"

definition signed_in_by_setup :: "exchange \<Rightarrow> string \<Rightarrow> bool" where
  "signed_in_by_setup x u \<longleftrightarrow> (\<exists>n pw confirm. ex_call x = Setup n pw confirm \<and> strip n = u \<and> accounts (ex_state x) = [])"

definition signed_in_by_password :: "web_env \<Rightarrow> exchange \<Rightarrow> string \<Rightarrow> bool" where
  "signed_in_by_password E x u \<longleftrightarrow> (\<exists>pw. ex_call x = Login u pw \<and> knows_password E (ex_state x) u pw \<and> no_code_asked (ex_state x) u)"

definition signed_in_by_code :: "web_env \<Rightarrow> exchange \<Rightarrow> exchange list \<Rightarrow> string \<Rightarrow> bool" where
  "signed_in_by_code E x earlier u \<longleftrightarrow> (\<exists>typed until. ex_call x = Login_verify typed \<and>
     code_accepted (ex_visit x) (ex_state x) u typed \<and> wall_time (ex_visit x) \<le> until \<and> password_given E earlier u until)"

definition identity_shown :: "web_env \<Rightarrow> exchange list \<Rightarrow> string \<Rightarrow> bool" where
  "identity_shown E h u \<longleftrightarrow> (\<exists>later x earlier. h = later @ x # earlier \<and>
     (signed_in_by_setup x u \<or> signed_in_by_password E x u \<or> signed_in_by_code E x earlier u))"

lemma identity_later: "identity_shown E h u \<Longrightarrow> identity_shown E (x # h) u"
  unfolding identity_shown_def by (metis append_Cons)

lemma identity_now:
  "signed_in_by_setup x u \<or> signed_in_by_password E x u \<or> signed_in_by_code E x h u \<Longrightarrow> identity_shown E (x # h) u"
  unfolding identity_shown_def by (metis append_Nil)

lemma password_later: "password_given E h u until \<Longrightarrow> password_given E (x # h) u until"
  by (auto simp: password_given_def)

definition cookie_earned :: "web_env \<Rightarrow> exchange list \<Rightarrow> cookie \<Rightarrow> bool" where
  "cookie_earned E h c \<longleftrightarrow> (\<forall>u. ck_user c = Some u \<longrightarrow> identity_shown E h u) \<and>
     (\<forall>u until. ck_pending c = Some (u, until) \<longrightarrow> password_given E h u until)"

lemma earned_later: "cookie_earned E h c \<Longrightarrow> cookie_earned E (x # h) c"
  by (auto simp: cookie_earned_def intro: identity_later password_later)

lemma earned_same: "cookie_earned E h (cookie s) \<Longrightarrow> same_identity s t \<Longrightarrow> cookie_earned E h (cookie t)"
  by (auto simp: cookie_earned_def same_identity_def)

lemma keeps_run: "wp m (\<lambda>_. Q) (\<lambda>_. Q) s \<Longrightarrow> m s = (r, t) \<Longrightarrow> Q t"
  by (cases r) (auto simp: wp_def)

lemma earned_step:
  assumes "cookie_earned E h (cookie s)" and "perform_call E v k s = (r, t)"
  shows "cookie_earned E (\<lparr>ex_visit = v, ex_call = k, ex_state = s, ex_result = r\<rparr> # h) (cookie t)"
    (is "cookie_earned E (?x # h) _")
proof -
  note old = earned_later [OF assms(1), of ?x]
  consider (plain) "plain_call k" | (founding) n pw confirm where "k = Setup n pw confirm" | (login) u pw where "k = Login u pw"
    | (verify) typed where "k = Login_verify typed" by (cases k) auto
  then show ?thesis
  proof cases
    case plain
    from keepsD [OF identity.keeps_plain_call [OF this] assms(2)] show ?thesis by (rule earned_same [OF old])
  next
    case founding
    show ?thesis
    proof (cases "accounts s = []")
      case True
      then have "signed_in_by_setup ?x (strip n)" using founding by (simp add: signed_in_by_setup_def)
      moreover have "at_most (strip n) s t" using keepsD [OF setup_signs_in] assms(2) founding by simp
      ultimately show ?thesis using old by (auto simp: cookie_earned_def at_most_def intro: identity_now)
    next
      case False
      from keeps_run [OF setup_closed [OF this]] assms(2) founding show ?thesis using earned_same [OF old] by simp
    qed
  next
    case login
    then have "login_effect E v u pw s t" using keeps_run [OF login_identity] assms(2) by simp
    then show ?thesis
      unfolding login_effect_def
    proof (elim disjE)
      assume now: "ck_user (cookie t) = Some u \<and> ck_pending (cookie t) = None \<and> knows_password E s u pw \<and> no_code_asked s u"
      then have "signed_in_by_password E ?x u" using login by (simp add: signed_in_by_password_def)
      with now show ?thesis by (auto simp: cookie_earned_def intro: identity_now)
    next
      assume wait: "ck_user (cookie t) = ck_user (cookie s) \<and> ck_pending (cookie t) = Some (u, wall_time v + pending_ttl) \<and> knows_password E s u pw"
      then have "password_given E (?x # h) u (wall_time v + pending_ttl)" using login by (auto simp: password_given_def)
      with wait old show ?thesis by (auto simp: cookie_earned_def)
    qed (rule earned_same [OF old])
  next
    case verify
    then have "verify_effect v typed s t" using keeps_run [OF login_verify_identity] assms(2) by simp
    then show ?thesis
      unfolding verify_effect_def
    proof (elim disjE exE conjE)
      fix u until
      assume new: "ck_user (cookie t) = Some u" "ck_pending (cookie t) = None"
        and from_cookie: "ck_pending (cookie s) = Some (u, until)" "wall_time v \<le> until" "code_accepted v s u typed"
      have "password_given E h u until" using assms(1) from_cookie(1) by (simp add: cookie_earned_def)
      with from_cookie have "signed_in_by_code E ?x h u" using verify by (auto simp: signed_in_by_code_def)
      with new show ?thesis by (auto simp: cookie_earned_def intro: identity_now)
    qed (rule earned_same [OF old])
  qed
qed

lemma cookies_earned: "served E s\<^sub>0 h s C \<Longrightarrow> c \<in> insert empty_cookie C \<Longrightarrow> cookie_earned E h c"
proof (induction arbitrary: c rule: served.induct)
  case start
  then show ?case by (auto simp: cookie_earned_def empty_cookie_def)
next
  case (exchange h s C c' v k r t)
  have "cookie_earned E h (cookie (s\<lparr>cookie := c'\<rparr>))" using exchange.IH [OF exchange.hyps(2)] by simp
  from earned_step [OF this exchange.hyps(3)] exchange show ?case by (auto split: if_splits intro: earned_later)
qed auto

text \<open>
  C15. Nobody is signed in without the proofs the account asks for. In every run of the application, with any clients
  that present any cookies they were ever given, any failing reads and writes and any restarts: a cookie that names
  a user goes back to an exchange that set up the first account under that name, while there was no account; or to a login with the password of
  that user, when no second factor was on record or the file of the keys could not be read; or to an accepted code for the key of that user, no later
  than five minutes after an earlier login with the password of the same user.
\<close>

theorem signed_in_with_both_factors:
  assumes "served E s\<^sub>0 h s C" and "c \<in> C" and "ck_user c = Some u"
  shows "identity_shown E h u"
  using cookies_earned [OF assms(1), of c] assms(2,3) by (simp add: cookie_earned_def)

definition home_env :: web_env where
  "home_env = \<lparr>env_sessions = day_env, env_limits = small_limits, env_ports = calm_ports (\<lambda>_ _. Inr []) (\<lambda>_. False) 0,
     env_roles = [(''owner'', \<lparr>role_name = ''owner'', permissions = {}, grants_all = True\<rparr>)],
     hash_verify = (\<lambda>h pw. Inr (h = pw)), hash_make = (\<lambda>_ pw. Inr pw), dummy_hash = ''-'',
     find_ip = (\<lambda>_ _. ''1.2.3.4''), hash_token = (\<lambda>t. t)\<rparr>"

definition home :: web where
  "home = \<lparr>accounts = [(''bob'', Some \<lparr>role_name = ''owner'', permissions = {}, grants_all = True\<rparr>)], users_file = Absent,
     cred_file = Doc (JObj [(''bob'', JStr ''secret99'')]), totp_file = Absent, names_file = Absent, tokens_file = Absent,
     reg = \<lparr>sessions = [], session_file = Absent\<rparr>, lim = fresh_limiter, srv = new_svc, cookie = empty_cookie, reads = [], writes = []\<rparr>"

definition visit_home :: visit where
  "visit_home = \<lparr>peer_host = None, forwarded_for = None, user_agent = ''ua'', form_token = ''t'', wall_time = 1000, mono_before = 5,
     mono_after = 6, new_sid = ''sid'', new_csrf = ''t'', salt = [], random_bytes = [], new_token = [], new_token_id = []\<rparr>"

definition form_seen :: web where
  "form_seen = snd (perform_call home_env visit_home Login_form home)"

definition bob_in :: web where
  "bob_in = snd (perform_call home_env visit_home (Login ''bob'' ''secret99'') form_seen)"

lemma form_seen_cookie:
  "answered (fst (perform_call home_env visit_home Login_form home))" "cookie form_seen = empty_cookie\<lparr>ck_csrf := Some ''t''\<rparr>"
  by code_simp+

lemma bob_in_cookie:
  "answered (fst (perform_call home_env visit_home (Login ''bob'' ''secret99'') form_seen))" "ck_user (cookie bob_in) = Some ''bob''"
  by code_simp+

lemma bob_run:
  obtains h C where "served home_env home h bob_in C" "cookie bob_in \<in> C" "list_all (\<lambda>x. answered (ex_result x)) h"
proof -
  let ?x = "\<lparr>ex_visit = visit_home, ex_call = Login_form, ex_state = home, ex_result = fst (perform_call home_env visit_home Login_form home)\<rparr>"
  let ?y = "\<lparr>ex_visit = visit_home, ex_call = Login ''bob'' ''secret99'', ex_state = form_seen,
     ex_result = fst (perform_call home_env visit_home (Login ''bob'' ''secret99'') form_seen)\<rparr>"
  have "home\<lparr>cookie := empty_cookie\<rparr> = home" by (simp add: home_def)
  then have "served home_env home [?x] form_seen {cookie form_seen}"
    using served.exchange [OF served.start, of empty_cookie home_env visit_home Login_form home, OF _ prod.collapse [symmetric]]
      form_seen_cookie(1) by (simp add: form_seen_def)
  from served.exchange [OF this, of "cookie form_seen" visit_home "Login ''bob'' ''secret99''", OF _ prod.collapse [symmetric]]
  have "served home_env home [?y, ?x] bob_in {cookie bob_in, cookie form_seen}" using bob_in_cookie(1) by (simp add: bob_in_def)
  then show ?thesis using form_seen_cookie(1) bob_in_cookie(1) by (intro that [of "[?y, ?x]" "{cookie bob_in, cookie form_seen}"]) simp_all
qed

theorem signed_in_with_both_factors_witness:
  "\<exists>h s C. served home_env home h s C \<and> cookie bob_in \<in> C \<and> ck_user (cookie bob_in) = Some ''bob'' \<and> identity_shown home_env h ''bob''"
proof -
  obtain h C where run: "served home_env home h bob_in C" "cookie bob_in \<in> C" by (rule bob_run) blast
  from signed_in_with_both_factors [OF run bob_in_cookie(2)] run bob_in_cookie(2) show ?thesis by blast
qed

subsection \<open>Attempts are closed\<close>

lemma release_keeps_leases: "release_lease n\<^sub>0 l L = Inr L' \<Longrightarrow> leases L' = leases L"
  by (auto simp: release_lease_def split: if_splits)

lemma release_raises: "release_lease n\<^sub>0 l L = Inl e \<Longrightarrow> \<not> answered (Inl e)"
  by (auto simp: release_lease_def split: if_splits)

lemma end_closes:
  assumes "map fst (leases L) = [t]" "end_attempt n\<^sub>0 t f L = Inr L'" "\<And>l L. leases (f l L) = leases L"
  shows "leases L' = []"
proof -
  from assms(1) obtain l where "leases L = [(t, l)]" by (cases "leases L") auto
  with assms(2,3) show ?thesis by (auto simp: end_attempt_def without_lease_def split: sum.splits dest: release_keeps_leases)
qed

lemma end_raises: "end_attempt n\<^sub>0 t f L = Inl e \<Longrightarrow> \<not> answered (Inl e)"
  by (auto simp: end_attempt_def split: option.splits sum.splits dest: release_raises)

lemma begin_leases:
  assumes "leases L = []" "begin_attempt c n\<^sub>0 ip u L = Inr (r, L')"
  shows "case r of None \<Rightarrow> leases L' = [] | Some t \<Rightarrow> map fst (leases L') = [t]"
proof -
  obtain L1 where L1: "cleanup_if_due c n\<^sub>0 L = Inr L1"
    "reserve c n\<^sub>0 (normalize_ip c ip, normalize_username c u) (normalize_ip c ip) L1 = (r, L')"
    using assms(2) by (auto simp: begin_attempt_def Let_def split: sum.splits)
  have "leases L1 = []" using assms(1) L1(1) by (auto simp: cleanup_if_due_def Let_def split: if_splits)
  with L1(2) show ?thesis
    by (auto simp: reserve_def refuse_attempt_def Let_def split: if_splits option.splits)
qed

definition idle :: "web \<Rightarrow> bool" where
  "idle s \<longleftrightarrow> leases (lim s) = []"

definition closing :: "(web, 'a) prog \<Rightarrow> web \<Rightarrow> bool" where
  "closing m s \<longleftrightarrow> wp m (\<lambda>_. idle) (\<lambda>e t. answered (Inl e) \<longrightarrow> idle t) s"

lemma closing_kept: "keeps same_leases m \<Longrightarrow> idle s \<Longrightarrow> closing m s"
  unfolding closing_def by (auto simp: idle_def same_leases_def intro!: wpI dest: keepsD)

lemma keeps_complete: "keeps same_leases (complete_login E v u)"
  unfolding complete_login_def set_cookie_def
  by (intro leases.keeps_intros leases.keeps_register leases.keeps_mod) (simp add: same_leases_def)

lemma closing_settle:
  assumes "map fst (leases (lim s)) = [t]" "keeps same_leases m"
  shows "closing (thenM (settle (failure c n\<^sub>0 t)) m) s" "closing (thenM (settle (success c n\<^sub>0 t)) m) s"
    "closing (thenM (settle (cancel_attempt n\<^sub>0 t)) m) s"
proof -
  have "closing m (s\<lparr>lim := L\<rparr>)" if "leases L = []" for L using assms(2) that by (intro closing_kept) (simp_all add: idle_def)
  note after = this [unfolded closing_def]
  show "closing (thenM (settle (failure c n\<^sub>0 t)) m) s" "closing (thenM (settle (success c n\<^sub>0 t)) m) s"
    "closing (thenM (settle (cancel_attempt n\<^sub>0 t)) m) s"
    unfolding closing_def wp_then
    by (rule wp_settleI, auto simp: failure_def success_def cancel_attempt_def dest: end_raises intro!: after end_closes [OF assms(1)])+
qed

lemma after_password_closes: "map fst (leases (lim s)) = [t] \<Longrightarrow> closing (after_password E v t a) s"
proof (cases a)
  case None
  then show ?thesis if "map fst (leases (lim s)) = [t]"
    using that by (simp add: after_password_def closing_settle leases.keeps_page)
next
  case (Some b)
  assume lease: "map fst (leases (lim s)) = [t]"
  have pending: "keeps same_leases (thenM (set_cookie f) (page v x y n))" for f x y n
    unfolding set_cookie_def by (intro leases.keeps_intros leases.keeps_page leases.keeps_mod) (simp add: same_leases_def)
  have "closing (if q then thenM (settle (cancel_attempt (mono_after v) t)) (thenM (set_cookie f) (page v x y n))
      else thenM (settle (success c (mono_after v) t)) (complete_login E v u)) (read_once s)" for q f x y n c u
    using lease by (simp add: closing_settle pending keeps_complete)
  with Some show ?thesis
    by (auto simp: after_password_def closing_def wp_bind wp_see split: prod.split)
qed

lemma begin_closes:
  assumes "idle s" and "\<And>t s'. map fst (leases (lim s')) = [t] \<Longrightarrow> closing (k t) s'" and "keeps same_leases p"
  shows "closing (bindM (begin_login E v u) (\<lambda>attempt. case attempt of None \<Rightarrow> p | Some t \<Rightarrow> k t)) s"
proof -
  have "closing (case x of None \<Rightarrow> p | Some t \<Rightarrow> k t) (s\<lparr>lim := L\<rparr>)"
    if "begin_attempt (env_limits E) (mono_before v) (client_ip E v) u (lim s) = Inr (x, L)" for x L
    using begin_leases [OF _ that] assms by (cases x) (auto simp: idle_def closing_kept)
  then show ?thesis
    using assms(1) unfolding closing_def begin_login_def wp_bind by (intro wp_limI) auto
qed

lemma wp_raise_fun: "wp (raiseM e) Q X = X e"
  by (rule ext) (rule wp_raise)

lemma login_closes:
  assumes "idle s"
  shows "closing (login E v u pw) s"
proof -
  have checked: "closing (bindM (tryM (check_password E u pw) (\<lambda>e. thenM (settle (cancel_attempt (mono_after v) t)) (raiseM e)))
      (after_password E v t)) s'" if "map fst (leases (lim s')) = [t]" for t s'
    unfolding closing_def wp_bind wp_try
  proof (rule wp_mono [OF check_password_knows [of E u pw s']])
    fix e t' assume "t' = read_once s'"
    with that have "closing (thenM (settle (cancel_attempt (mono_after v) t)) (raiseM e)) t'"
      by (intro closing_settle leases.keeps_raise) simp
    then show "if catchable e then wp (thenM (settle (cancel_attempt (mono_after v) t)) (raiseM e))
        (\<lambda>a. wp (after_password E v t a) (\<lambda>_. idle) (\<lambda>e t. answered (Inl e) \<longrightarrow> idle t)) (\<lambda>e t. answered (Inl e) \<longrightarrow> idle t) t'
        else answered (Inl e) \<longrightarrow> idle t'"
      by (cases "catchable e") (simp_all add: closing_def wp_then wp_raise_fun catchable_def)
  qed (use that after_password_closes in \<open>auto simp: closing_def\<close>)
  show ?thesis
    using begin_closes [OF assms checked leases.keeps_page] assms
    unfolding login_def closing_def wp_then by (auto intro!: wp_require_csrfI)
qed

lemma verify_closes:
  assumes "idle s"
  shows "closing (login_verify E v typed) s"
proof -
  have raised: "totp_verify secret typed moment window = Inl e \<Longrightarrow> \<not> answered (Inl e)" for secret moment window e
  proof -
    have "try_counters key typed' ns = Inl e \<Longrightarrow> \<not> answered (Inl e)" for key typed' ns
      by (induction ns) (auto simp: hotp_def compare_digest_def Let_def split: if_splits bool.splits)
    then show "totp_verify secret typed moment window = Inl e \<Longrightarrow> \<not> answered (Inl e)"
      by (auto simp: totp_verify_def Let_def split: option.splits if_splits)
  qed
  have dropped: "keeps same_leases drop_pending" by (rule leases.keeps_marks)
  have checked: "closing (check_code E v u typed t) s'" if "map fst (leases (lim s')) = [t]" for u t s'
  proof -
    note settled = closing_settle [of "read_once s'" t, simplified, OF that, unfolded closing_def]
    show ?thesis
      unfolding closing_def check_code_def wp_bind wp_see returning_def
      by (auto simp: wp_raise wp_ret dest: raised split: sum.split
          intro!: settled leases.keeps_then dropped keeps_complete leases.keeps_page)
  qed
  have returns: "closing (thenM drop_pending (retM (Redirect ''/login''))) s"
    using assms by (intro closing_kept leases.keeps_intros dropped)
  have begun: "closing (bindM (begin_login E v u) (\<lambda>attempt. case attempt of
      None \<Rightarrow> page v ''login_totp.html'' ''Trop de tentatives - reessayer dans quelques minutes.'' 429 | Some t \<Rightarrow> check_code E v u typed t)) s" for u
    by (rule begin_closes [OF assms checked leases.keeps_page])
  show ?thesis
    using begun returns assms unfolding login_verify_def closing_def
    by (auto simp: wp_then wp_bind wp_get intro!: wp_require_csrfI split: option.split)
qed

text \<open>
  C16. Every attempt at a password or a code is closed before its request is answered. In every run that began without open
  attempts and in which no request ended in an internal error, no attempt is open between two requests, so that
  only failures can lock somebody out: correct logins, second steps, refusals, failing files and restarts leave nothing behind.
\<close>

theorem attempts_are_closed:
  assumes "served E s\<^sub>0 h s C" and "leases (lim s\<^sub>0) = []" and "list_all (\<lambda>x. answered (ex_result x)) h"
  shows "leases (lim s) = []"
  using assms
proof (induction rule: served.induct)
  case (exchange h s C c v k r t)
  let ?s = "s\<lparr>cookie := c\<rparr>"
  have "idle ?s" using exchange.IH exchange.prems by (simp add: idle_def)
  then have "closing (perform_call E v k) ?s"
  proof (cases "plain_call k")
    case True
    then show ?thesis using \<open>idle ?s\<close> by (intro closing_kept leases.keeps_plain_call)
  next
    case False
    have "keeps same_leases (setup_create E v n pw confirm)" for n pw confirm
      unfolding setup_create_def set_cookie_def
      by (intro leases.keeps_intros keeps_cases leases.keeps_steps leases.keeps_table leases.keeps_new_account leases.keeps_mod)
        (simp add: same_leases_def)
    with False \<open>idle ?s\<close> show ?thesis by (cases k) (auto intro: closing_kept login_closes verify_closes)
  qed
  with exchange.hyps(3) exchange.prems(2) show ?case by (cases r) (auto simp: closing_def wp_def idle_def)
next
  case (restart h s C time specs t)
  from restart.hyps(2) show ?case
    by (auto simp: start_web_def prog_simps returning_def new_limiter_def split: prod.splits sum.splits if_splits)
qed simp_all

theorem attempts_are_closed_witness: "leases (lim bob_in) = []"
proof -
  obtain h C where run: "served home_env home h bob_in C" "list_all (\<lambda>x. answered (ex_result x)) h" by (rule bob_run) blast
  show ?thesis by (rule attempts_are_closed [OF run(1) _ run(2)]) (simp add: home_def fresh_limiter_def)
qed

end
