(* ===== verification/Account_Safety.thy ===== *)
theory Account_Safety
  imports Login_Theorems
begin

text \<open>
  Who may change the accounts, and what a new account finds of an older one of the same name.
\<close>

subsection \<open>The right to manage accounts\<close>

lemma wp_regI:
  assumes "\<And>w x R ws. op w (reg s) = (Inr x, R) \<Longrightarrow> Q x (s\<lparr>writes := ws, reg := R\<rparr>)"
    and "\<And>w e R ws. op w (reg s) = (Inl e, R) \<Longrightarrow> X e (s\<lparr>writes := ws, reg := R\<rparr>)"
  shows "wp (with_reg op) Q X s"
proof -
  obtain w ws where n: "next_write s = (Inr w, s\<lparr>writes := ws\<rparr>)"
    by (cases s; cases "writes s") (auto simp: next_write_def)
  show ?thesis
    using assms [of w] by (cases "op w (reg s)"; cases "fst (op w (reg s))") (auto simp: with_reg_def wp_def prog_simps n)
qed

lemma wp_csrf_token:
  assumes "ck_csrf (cookie s) = Some (form_token v) \<Longrightarrow> Q () s" and "\<And>e. X e s"
  shows "wp (require_csrf v) Q X s"
  using assms
  by (auto simp: require_csrf_def csrf_ok_def compare_digest_def returning_def wp_rules present_def text_or_def
      split: sum.split option.split list.split)

definition acts_for :: "web \<Rightarrow> account \<Rightarrow> web \<Rightarrow> bool" where
  "acts_for s a t \<longleftrightarrow> same_accounts s t \<and> ck_user (cookie s) = Some (fst a) \<and> map_of (accounts s) (fst a) = Some (snd a) \<and>
     ck_csrf (cookie t) = ck_csrf (cookie s)"

lemma current_who: "wp (current E v) (\<lambda>a t. same_accounts s t \<and> (\<forall>b. a = Some b \<longrightarrow> acts_for s b t)) (\<lambda>_. same_accounts s) s"
  unfolding current_def
  by (auto simp: wp_bind wp_get wp_ret wp_then wp_mod wp_if Let_def set_cookie_def acts_for_def same_accounts_def present_def text_or_def
      intro!: wp_regI wp_registerI split: option.split list.split)

definition manager :: "visit \<Rightarrow> web \<Rightarrow> bool" where
  "manager v s \<longleftrightarrow> (\<exists>u r. ck_user (cookie s) = Some u \<and> map_of (accounts s) u = Some (Some r) \<and> allows r USER_MANAGE \<and>
     ck_csrf (cookie s) = Some (form_token v))"

lemma denied_run: "\<not> can u p \<Longrightarrow> wp (authorize P u p) (\<lambda>_ _. False) (\<lambda>_ _. True) s"
  by (simp add: authorize_def wp_rules wp_def prog_simps split: prod.split sum.split)

lemma managing_denied:
  assumes "\<And>r. snd a = Some r \<Longrightarrow> \<not> allows r USER_MANAGE" and "same_accounts s t"
  shows "wp (managing E a body) (\<lambda>_. same_accounts s) (\<lambda>_. same_accounts s) t"
proof (cases a)
  case (Pair u r)
  show ?thesis
  proof (cases r)
    case None
    with Pair assms(2) show ?thesis by (simp add: managing_def acting_def wp_rules)
  next
    case (Some role)
    with Pair assms(1) have "\<not> can \<lparr>username = u, user_role = role\<rparr> USER_MANAGE" by (simp add: can_def)
    from denied_run [OF this, of "env_ports E"] have "wp (with_srv (authorize_user_management (env_ports E) \<lparr>username = u, user_role = role\<rparr>))
        (\<lambda>_ _. False) (\<lambda>_. same_accounts s) t"
      using assms(2) unfolding with_srv_def wp_zoom authorize_user_management_def
      by (auto simp: same_accounts_def elim!: wp_mono)
    then show ?thesis
      unfolding managing_def Pair Some acting_def
      by (simp add: wp_bind wp_ret wp_then wp_except) (erule wp_mono, auto simp: wp_raise same_accounts_def)
  qed
qed

lemma managed_page:
  assumes "\<not> manager v s"
  shows "wp (posted E v (\<lambda>a. managing E a body)) (\<lambda>_. same_accounts s) (\<lambda>_. same_accounts s) s"
  unfolding posted_def signed_in_def wp_bind
proof (rule wp_mono [OF current_who])
  fix a t assume a: "same_accounts s t \<and> (\<forall>b. a = Some b \<longrightarrow> acts_for s b t)"
  show "wp (case a of None \<Rightarrow> retM (Redirect ''/login'') | Some a \<Rightarrow> thenM (require_csrf v) (managing E a body))
      (\<lambda>_. same_accounts s) (\<lambda>_. same_accounts s) t"
  proof (cases a)
    case (Some b)
    have "wp (managing E b body) (\<lambda>_. same_accounts s) (\<lambda>_. same_accounts s) t" if "ck_csrf (cookie t) = Some (form_token v)"
      using a Some that assms by (intro managing_denied) (auto simp: acts_for_def manager_def)
    with a Some show ?thesis by (auto simp: wp_then intro!: wp_csrf_token)
  qed (use a in \<open>simp add: wp_ret\<close>)
qed auto

lemma token_page:
  assumes "\<not> manager v s"
  shows "wp (forbidden_or_login E v (\<lambda>me. thenM (require_csrf v) (body me))) (\<lambda>_. same_accounts s) (\<lambda>_. same_accounts s) s"
  unfolding forbidden_or_login_def signed_in_def wp_bind
proof (rule wp_mono [OF current_who])
  fix a t assume a: "same_accounts s t \<and> (\<forall>b. a = Some b \<longrightarrow> acts_for s b t)"
  show "wp (case a of None \<Rightarrow> retM (Redirect ''/login'') | Some a \<Rightarrow> bindM (acting a) (\<lambda>u. thenM
      (exceptM is_permission_denied (with_srv (authorize_api_tokens (env_ports E) u))
        (\<lambda>e. raiseM (HTTPException 403 ''Reserve a l'administrateur'')))
      (thenM (require_csrf v) (body u)))) (\<lambda>_. same_accounts s) (\<lambda>_. same_accounts s) t"
  proof (cases a)
    case (Some b)
    then obtain u r where b: "a = Some (u, r)" and t: "acts_for s (u, r) t" using a by (cases b) auto
    show ?thesis
    proof (cases "\<exists>role. r = Some role \<and> allows role USER_MANAGE")
      case True
      with t assms have "ck_csrf (cookie t) \<noteq> Some (form_token v)" by (auto simp: acts_for_def manager_def)
      then have csrf: "wp (thenM (require_csrf v) m) (\<lambda>_. same_accounts s) (\<lambda>_. same_accounts s) (t\<lparr>srv := x\<rparr>)" for m x
        using t by (auto simp: wp_then acts_for_def same_accounts_def intro!: wp_csrf_token)
      from True obtain role where "r = Some role" "can \<lparr>username = u, user_role = role\<rparr> USER_MANAGE" by (auto simp: can_def)
      then show ?thesis
        using csrf [of _ "srv t"] unfolding b
        by (simp add: acting_def wp_bind wp_ret wp_then wp_except with_srv_def authorize_api_tokens_def authorize_allowed wp_zoom)
    next
      case False
      then show ?thesis
      proof (cases r)
        case None
        with t show ?thesis unfolding b by (simp add: acting_def wp_rules acts_for_def)
      next
        case (Some role)
        with False have "\<not> can \<lparr>username = u, user_role = role\<rparr> USER_MANAGE" by (simp add: can_def)
        from denied_run [OF this, of "env_ports E" "srv t"] t Some show ?thesis
          unfolding b by (auto simp: acting_def wp_bind wp_ret wp_then wp_except with_srv_def authorize_api_tokens_def wp_zoom
              wp_raise acts_for_def same_accounts_def elim!: wp_mono)
      qed
    qed
  qed (use a in \<open>simp add: wp_ret\<close>)
qed auto

lemma lim_keeps_accounts: "keeps same_accounts (with_lim op)" "keeps same_accounts (settle op2)"
  unfolding settle_def with_lim_def
  by (intro accts.keeps_intros keeps_cases accts.keeps_mod; simp add: same_accounts_def)+

lemma login_keeps_accounts: "keeps same_accounts (login E v u pw)" "keeps same_accounts (login_verify E v typed)"
proof -
  have mark: "keeps same_accounts (set_cookie f)" for f
    unfolding set_cookie_def by (rule accts.keeps_mod) (simp add: same_accounts_def)
  note parts = accts.keeps_intros keeps_cases accts.keeps_steps lim_keeps_accounts mark
  have complete: "keeps same_accounts (complete_login E v u)" for u
    unfolding complete_login_def by (intro parts)
  have after: "keeps same_accounts (after_password E v t a)" "keeps same_accounts (check_code E v u typed t)" for t a u
    unfolding after_password_def check_code_def by (intro parts complete)+
  show "keeps same_accounts (login E v u pw)" "keeps same_accounts (login_verify E v typed)"
    unfolding login_def login_verify_def begin_login_def check_password_def by (intro parts after)+
qed

text \<open>
  C17. Accounts and API tokens change only under the right to manage them. Whatever request with whatever cookie, on every
  outcome: if the table of the accounts, the file behind it or the file of the tokens is not as it was, then the cookie named an existing account
  whose role allows the management of accounts and the form carried the token of that cookie, or it was the setup of an application without any account.
\<close>

theorem accounts_change_under_right:
  assumes "perform_call E v k s = (r, t)" and "\<not> same_accounts s t"
  shows "manager v s \<or> accounts s = [] \<and> (\<exists>n pw confirm. k = Setup n pw confirm)"
proof (rule ccontr)
  assume no: "\<not> ?thesis"
  have first: "wp (setup_create E v n pw confirm) (\<lambda>_. same_accounts s) (\<lambda>_. same_accounts s) s" if "accounts s \<noteq> []" for n pw confirm
    using that by (auto simp: setup_create_def setup_needed_def wp_then wp_bind wp_get wp_ret same_accounts_def intro!: wp_require_csrfI)
  note managed = keeps_run [OF managed_page] keeps_run [OF token_page]
  have "same_accounts s t"
  proof (cases "own_call k")
    case True
    from keepsD [OF accts.keeps_own_call [OF this] assms(1)] show ?thesis .
  next
    case False
    with no assms(1) show ?thesis
      by (cases k) (auto simp: action_user_add_def action_user_role_def action_user_delete_def api_token_create_def api_token_revoke_def
        dest: keepsD [OF login_keeps_accounts(1)] keepsD [OF login_keeps_accounts(2)] managed keeps_run [OF first])
  qed
  with assms(2) show False by simp
qed

subsection \<open>A name used again\<close>





















definition anna_in :: web where
  "anna_in = snd (perform_call home_env visit_home (Add_user ''anna'' ''owner'' ''longpass'') (bob_in\<lparr>cookie := (cookie bob_in)\<lparr>ck_csrf := Some ''t''\<rparr>\<rparr>))"

theorem accounts_change_under_right_witness:
  "manager visit_home (bob_in\<lparr>cookie := (cookie bob_in)\<lparr>ck_csrf := Some ''t''\<rparr>\<rparr>)"
proof -
  have "accounts anna_in \<noteq> accounts bob_in" by code_simp
  then show ?thesis
    using accounts_change_under_right [of home_env visit_home "Add_user ''anna'' ''owner'' ''longpass''"
        "bob_in\<lparr>cookie := (cookie bob_in)\<lparr>ck_csrf := Some ''t''\<rparr>\<rparr>", OF prod.collapse [symmetric]]
    by (simp add: anna_in_def same_accounts_def)
qed


subsection \<open>Two weak points\<close>

text \<open>
  A code of six superscript digits ends the second step with an internal error after the attempt was opened and before it
  is closed: the attempt stays open until its lease times out, and is not counted as a failure.
\<close>

theorem superscript_code_keeps_attempt:
  assumes "ck_csrf (cookie s) = Some (form_token v)" "form_token v \<noteq> []" "is_ascii (form_token v)"
    and "ck_pending (cookie s) = Some (u, until)" "wall_time v \<le> until"
    and "begin_attempt (env_limits E) (mono_before v) (client_ip E v) u (lim s) = Inr (Some t, L)"
    and "plan_read s" "tp_secret u (totp_file s) = Some secret" "decode_secret secret = Some key"
    and "1 \<le> py_int (wall_time v) div 30" "py_int (wall_time v) div 30 < 2 ^ 64 - 1"
  shows "login_verify E v (replicate 6 (CHR 0xB2)) s =
    (Inl (TypeError ''comparing strings with non-ASCII characters is not supported''), read_once (s\<lparr>lim := L\<rparr>))"
proof -
  have csrf: "require_csrf v s = (Inr (), s)"
    using assms(1-3) by (auto simp: require_csrf_def prog_simps csrf_ok_def present_def text_or_def compare_digest_def returning_def
        split: list.splits)
  have "plan_read (s\<lparr>lim := L\<rparr>)" using assms(7) by (simp add: plan_read_def)
  then have "check_code E v u (replicate 6 (CHR 0xB2)) t (s\<lparr>lim := L\<rparr>) =
      (Inl (TypeError ''comparing strings with non-ASCII characters is not supported''), read_once (s\<lparr>lim := L\<rparr>))"
    using assms(8) superscript_code_raises [OF assms(9-11)]
    by (simp add: check_code_def see_def prog_simps next_read_run text_or_def returning_def)
  with assms(4-6) csrf show ?thesis
    by (simp add: login_verify_def begin_login_def with_lim_def prog_simps)
qed

text \<open>
  The keys of the second factor are read tolerantly: while their file cannot be read, the password alone signs in to an account with a
  confirmed second factor.
\<close>

theorem unreadable_keys_skip_the_code:
  "fst (login home_env visit_home ''bob'' ''secret99'' (home\<lparr>cookie := empty_cookie\<lparr>ck_csrf := Some ''t''\<rparr>, reads := [True, False],
     totp_file := Doc (JObj [(''bob'', JObj [(''secret'', JStr ''ABCD''), (''confirmed'', JBool True)])])\<rparr>)) = Inr (Redirect ''/'')"
  by code_simp

end
