(* ===== verification/Spec2Isabelle.thy ===== *)
theory Spec2Isabelle
  imports Restore_Theorems Rcon Backup_Safety Op_Levels_Theorems Account_Safety
begin

text \<open>
  Verification of mc-admin, an administration panel for a Minecraft server.

  \<^bold>\<open>The program.\<close> The panel (\<^verbatim>\<open>src/app\<close>) is a web application over a service
  (\<^verbatim>\<open>domain/services\<close>, the class \<open>AdminService\<close> assembled from mixins). The service checks the
  permission of the user, acts through ports (RCON for the game, the Docker proxy for the containers,
  JSON files for what it remembers) and writes an audit log. Background threads call its ticks: announced
  and daily restarts, maintenances, temporary bans, backup profiles, a restore that waits for its
  safety copy. Two workers run in containers of their own: \<^verbatim>\<open>restore_worker.py\<close> replaces the world by an
  archive, \<^verbatim>\<open>op_levels_worker.py\<close> edits \<^verbatim>\<open>ops.json\<close> while the server is stopped. During a maintenance the
  doorman (\<^verbatim>\<open>doorman_server.py\<close>) holds the address of the server and tells players why. Login is
  protected by a limiter of attempts, a registry of sessions and one-time codes
  (\<^verbatim>\<open>api/login_security.py\<close>, \<^verbatim>\<open>api/sessions.py\<close>, \<^verbatim>\<open>api/totp.py\<close>).

  \<^bold>\<open>Common ground.\<close> \<open>Prelude\<close> has Python's operations on texts and numbers. \<open>Effects\<close> has the
  exceptions and the type of stateful functions: a value or an exception, and the state left behind
  in both cases, with combinators for \<open>try\<close>, \<open>except\<close>, \<open>finally\<close> and loops, weakest preconditions and frame
  rules. \<open>Json\<close> has JSON values and files that are absent, unreadable or hold a document, read tolerantly or strictly and
  replaced atomically (\<^verbatim>\<open>adapters/atomic_json.py\<close>). \<open>Calendar\<close> has dates; an instant is a number of
  microseconds.

  \<^bold>\<open>The restore worker\<close> (\<^verbatim>\<open>restore_worker.py\<close>, \<^verbatim>\<open>adapters/archive_validation.py\<close>): \<open>File_Tree\<close> is the data
  directory as a tree with a fault plan, so that every access may fail or be the last one of the process;
  \<open>Docker_Control\<close> the containers and the two controllers; \<open>Archive_Validation\<close> the inspection of an
  archive; \<open>Restore_Worker\<close> the transaction and the recovery; \<open>Restore_Safety\<close> and \<open>Restore_Theorems\<close> what
  they promise: no failure and no crash of the transaction loses the old world, a returned transaction
  has installed the archive, a cancelled one has restored the world, recoveries end well when nothing
  fails, extraction stays in its directory. One theorem shows a recovery that does lose the
  world, killed at the wrong moment, and one the consequence of a Docker error taken for an absent
  doorman.

  \<^bold>\<open>The operator-levels worker\<close> (\<^verbatim>\<open>op_levels_worker.py\<close>, \<^verbatim>\<open>adapters/pending_op_levels.py\<close>): \<open>Pending_Op_Levels\<close> is the
  queue, \<open>Op_Levels_Worker\<close> the transaction and its recovery over the same kind of fault plan;
  \<open>Op_Levels_Safety\<close>, \<open>Op_Levels_Recovery\<close> and \<open>Op_Levels_Theorems\<close> show that a run without faults applies the
  levels, that reports are true whatever fails, that any number of kills loses no request, and the one pair of
  errors after which a request is dropped.

  \<^bold>\<open>The service\<close> (\<^verbatim>\<open>domain/model.py\<close>, \<^verbatim>\<open>domain/rbac.py\<close>, \<^verbatim>\<open>domain/services/*.py\<close>): \<open>Model\<close> has the data,
  \<open>Schedules\<close>, \<open>Json_Stores\<close> and \<open>Backup_Profiles\<close> the stores, \<open>Service_Core\<close> the state \<open>svc\<close>, the ports, audit and
  authorisation (\<^verbatim>\<open>base.py\<close>), then one theory per mixin: \<open>Moderation\<close>, \<open>Game_Settings\<close>, \<open>Actions\<close>,
  \<open>Maintenance\<close>, \<open>Update\<close>, \<open>Backups\<close>, \<open>Restores\<close> and \<open>Backup_Retention\<close>. Every use of a port is an event of the journal,
  and its answer is an arbitrary function of the journal so far: the theorems hold for every behaviour of the
  outside. \<open>Service\<close> puts all requests into one type and runs sequences of them. \<open>Service_Commands\<close> shows that every
  command sent to the game is one line, \<open>Service_State\<close> that every request changes timers and wanted levels as an
  abstract ledger says, \<open>Service_Order\<close> the order of what happens (the server starts only after the doorman was found
  stopped, the doorman engages only after a stop, a restore starts only behind a verified copy), \<open>Backup_Safety\<close> the
  bounds on deletions, retention and progress. The locale \<open>guarded_service\<close> is the permission barrier, interpreted on
  all requests; \<open>state_preorder\<close>, \<open>map_store\<close> and the other locales are interfaces interpreted on the model's own operations.

  \<^bold>\<open>Wire protocols\<close>: \<open>Doorman_Server\<close> (variable-length integers, packets, one conversation with a client) and \<open>Rcon\<close>
  (packets, authentication, answers in several frames, text decoding). Round trips, exact conversations, and the
  behaviour on hostile bytes.

  \<^bold>\<open>Login\<close>: \<open>Login_Limiter\<close> (buckets, leases, evictions; the limits hold in every run and a locked pair stays out),
  \<open>Client_Ip\<close> (a client cannot choose its address), \<open>Sessions\<close> (a revocation is final, a restart loses no session),
  \<open>Totp\<close> (codes are those of RFC 6238, with SHA-1, HMAC and base 32 written out), \<open>Account_Stores\<close> (roles, password
  hashes, keys, names and API tokens as maps in files).

  \<^bold>\<open>Accounts on the web\<close> (\<^verbatim>\<open>api/auth.py\<close>, \<^verbatim>\<open>api/security.py\<close>, \<^verbatim>\<open>api/routes/common.py\<close>, \<^verbatim>\<open>api/routes/auth.py\<close>,
  \<^verbatim>\<open>api/routes/apitokens.py\<close>, \<^verbatim>\<open>domain/services/accounts.py\<close>, the accounts of \<^verbatim>\<open>config.py\<close>): \<open>Web\<close> has the signed cookie, the
  state of the application (the service, the limiter, the registry, the files of accounts) and the user behind a
  request; \<open>Account_Pages\<close> the setup, the management of accounts and tokens, the own password, devices and second
  factor; \<open>Login_Flow\<close> the login in two steps, the logout, all handlers as the calls of one type and the start of the
  application. Its \<open>web_env\<close> holds what is outside: hashing, random values, the clock of each visit. \<open>Login_Frames\<close> states
  what a handler leaves alone as locales (\<open>web_base\<close>, \<open>web_frame\<close>, \<open>web_account_frame\<close>), interpreted for cookies, the
  limiter and the accounts. \<open>Login_Theorems\<close> follows runs in which clients present any cookie they were given: who is signed in
  passed both factors, and every attempt opened at the limiter is closed. \<open>Account_Safety\<close> shows that accounts and tokens
  change only for a user with the right, behind the form token, or in the first setup, and that a new account inherits nothing
  from an old one of its name.

  \<^bold>\<open>Conventions.\<close> Texts are lists of characters below code point 256, French texts are written without accents. Python's
  integers are \<open>int\<close>, floats are rationals: no theorem depends on rounding. A dictionary is an association list in the order of
  insertion. A lock makes the body it protects one step; threads are sequences of steps in any
  order. No definition uses fuel: recursion is structural or has a termination proof, and the one search
  without a bound in the code (a free identifier of a profile) is shown to end. Code outside the repository (Docker,
  \<open>ipaddress\<close>, the printing of floats, SHA-256, the clock) is an argument of the definitions that use it.

  \<^bold>\<open>Not modelled.\<close> The web framework, its templates, the handlers other than those of accounts and tokens; the settings and the construction of objects; the adapters
  that only call Docker, SQLite, Prometheus, Modrinth or a notification service, which are ports; displays and statistics
  (monitoring, player history, game events, mods, map); the watchers, threads that poll and alert; the three
  one-off scripts. They add no rule to the core: they call the modelled operations or show what is read.
\<close>

end
